(* ===== verification/Prelude.thy ===== *)
theory Prelude
  imports "HOL-Library.Word"
begin

text \<open>
  Shared ground of the development: the machine types of the target (aarch64, little endian,
  64-bit \<^verbatim>\<open>long\<close>), faults as values, bounds-checked memory blocks, the result of a system
  call, and the list and word lemmas that several components use.

  \<^item> A C \<^verbatim>\<open>unsigned int\<close> is a \<open>u32\<close>, an \<^verbatim>\<open>unsigned long\<close> a \<open>u64\<close>; a C \<^verbatim>\<open>int\<close> is an
    \<open>int\<close> where it holds a return code or a length, read from a word by \<open>sint\<close> where the
    code converts an unsigned value.
  \<^item> \<open>'a res\<close> is a value or a fault. A fault is what the C standard leaves undefined and the
    code does not check: an access outside its block, a division by zero, a null or freed
    pointer, an overflow of an \<^verbatim>\<open>int\<close> (where it is modelled), a \<^verbatim>\<open>free\<close> of a pointer that was
    never allocated, a mutex used before it is initialised, a thread that was not created.
  \<^item> \<open>sysret\<close> is what a system call gives back: \<open>SysErr e\<close> is the return value -1 with
    \<^verbatim>\<open>errno\<close> set to \<open>e\<close>, \<open>SysOk r\<close> a non-negative return value with \<^verbatim>\<open>errno\<close> untouched.
\<close>

unbundle bit_operations_syntax

type_synonym u8 = "8 word"
type_synonym u16 = "16 word"
type_synonym u32 = "32 word"
type_synonym u64 = "64 word"

named_theorems mem_simps \<open>bounds-checked loads, stores and copies\<close>
named_theorems res_simps \<open>sequencing of results\<close>

section \<open>Faults and sequencing\<close>

datatype fault =
    OutOfBounds | DivByZero | NullDeref | DoubleFree | SignedOverflow
  | UseAfterFree | BadFree | BadLock | BadThread

type_synonym 'a res = "fault + 'a"

definition bindE :: "'a res \<Rightarrow> ('a \<Rightarrow> 'b res) \<Rightarrow> 'b res" where
  "bindE r f = (case r of Inl e \<Rightarrow> Inl e | Inr x \<Rightarrow> f x)"

lemma bindE_simps [simp, res_simps]:
  "bindE (Inl e) f = Inl e"
  "bindE (Inr x) f = f x"
  by (simp_all add: bindE_def)

lemma bindE_Inr_iff [res_simps]: "bindE r f = Inr y \<longleftrightarrow> (\<exists>x. r = Inr x \<and> f x = Inr y)"
  by (cases r) auto

lemma bindE_Inl_iff [res_simps]:
  "bindE r f = Inl e \<longleftrightarrow> r = Inl e \<or> (\<exists>x. r = Inr x \<and> f x = Inl e)"
  by (cases r) auto

lemma bindE_assoc: "bindE (bindE r f) g = bindE r (\<lambda>x. bindE (f x) g)"
  by (cases r) auto

fun foldE :: "('a \<Rightarrow> 's \<Rightarrow> 's res) \<Rightarrow> 'a list \<Rightarrow> 's \<Rightarrow> 's res" where
  "foldE f [] s = Inr s"
| "foldE f (x # xs) s = bindE (f x s) (foldE f xs)"

lemma foldE_append [res_simps]: "foldE f (xs @ ys) s = bindE (foldE f xs s) (foldE f ys)"
proof (induction xs arbitrary: s)
  case (Cons x xs)
  then show ?case by (cases "f x s") simp_all
qed simp

section \<open>Memory blocks\<close>

text \<open>One load, one store, and the two halves of a \<^verbatim>\<open>memcpy\<close>, each checked against its block.\<close>

definition ld :: "'a list \<Rightarrow> nat \<Rightarrow> 'a res" where
  "ld m i = (if i < length m then Inr (m ! i) else Inl OutOfBounds)"

definition st :: "'a list \<Rightarrow> nat \<Rightarrow> 'a \<Rightarrow> 'a list res" where
  "st m i v = (if i < length m then Inr (m[i := v]) else Inl OutOfBounds)"

definition slice :: "'a list \<Rightarrow> nat \<Rightarrow> nat \<Rightarrow> 'a list res" where
  "slice m i n = (if i + n \<le> length m then Inr (take n (drop i m)) else Inl OutOfBounds)"

definition overwrite :: "'a list \<Rightarrow> nat \<Rightarrow> 'a list \<Rightarrow> 'a list" where
  "overwrite m i xs = take i m @ xs @ drop (i + length xs) m"

definition blit :: "'a list \<Rightarrow> nat \<Rightarrow> 'a list \<Rightarrow> 'a list res" where
  "blit m i xs = (if i + length xs \<le> length m then Inr (overwrite m i xs) else Inl OutOfBounds)"

lemma ld_ok [mem_simps]: "i < length m \<Longrightarrow> ld m i = Inr (m ! i)"
  by (simp add: ld_def)

lemma st_ok [mem_simps]: "i < length m \<Longrightarrow> st m i v = Inr (m[i := v])"
  by (simp add: st_def)

lemma slice_ok [mem_simps]: "i + n \<le> length m \<Longrightarrow> slice m i n = Inr (take n (drop i m))"
  by (simp add: slice_def)

lemma blit_ok [mem_simps]: "i + length xs \<le> length m \<Longrightarrow> blit m i xs = Inr (overwrite m i xs)"
  by (simp add: blit_def)

lemma length_overwrite [simp]:
  "i + length xs \<le> length m \<Longrightarrow> length (overwrite m i xs) = length m"
  by (simp add: overwrite_def)

lemma overwrite_Nil [simp]: "overwrite m i [] = m"
  by (simp add: overwrite_def)

lemma nth_overwrite:
  assumes "i + length xs \<le> length m" and "k < length m"
  shows "overwrite m i xs ! k = (if i \<le> k \<and> k < i + length xs then xs ! (k - i) else m ! k)"
  using assms by (auto simp: overwrite_def nth_append min_def)

lemma take_overwrite_after:
  "i + length xs \<le> length m \<Longrightarrow> n \<le> i \<Longrightarrow> take n (overwrite m i xs) = take n m"
  by (simp add: overwrite_def min_def)

lemma drop_overwrite_before:
  "i + length xs \<le> length m \<Longrightarrow> i + length xs \<le> n \<Longrightarrow> drop n (overwrite m i xs) = drop n m"
  by (simp add: overwrite_def)

lemma take_overwrite_upto:
  "i + length xs \<le> length m \<Longrightarrow> take (i + length xs) (overwrite m i xs) = take i m @ xs"
  by (simp add: overwrite_def)

lemma overwrite_replace_last:
  "b + length xs < length m \<Longrightarrow> ys \<noteq> [] \<Longrightarrow>
    overwrite (overwrite m b (xs @ [z])) (b + length xs) ys = overwrite m b (xs @ ys)"
  by (cases ys) (simp_all add: overwrite_def ac_simps)

lemma overwrite_twice:
  "d \<le> length m \<Longrightarrow> overwrite (overwrite m d xs) (d + length xs) ys = overwrite m d (xs @ ys)"
  by (simp add: overwrite_def ac_simps)

lemma slice_overwrite_same [mem_simps]:
  "i + length xs \<le> length m \<Longrightarrow> slice (overwrite m i xs) i (length xs) = Inr xs"
  by (simp add: slice_def overwrite_def)

lemma slice_overwrite_other:
  assumes "i + length xs \<le> length m" and "j + n \<le> i \<or> i + length xs \<le> j"
  shows "slice (overwrite m i xs) j n = slice m j n"
proof (cases "j + n \<le> length m")
  case True
  have "take n (drop j (overwrite m i xs)) = take n (drop j m)"
  proof (rule nth_equalityI)
    fix k assume "k < length (take n (drop j (overwrite m i xs)))"
    then show "take n (drop j (overwrite m i xs)) ! k = take n (drop j m) ! k"
      using assms True by (auto simp: nth_overwrite)
  qed (use assms True in simp)
  with True assms(1) show ?thesis by (simp add: slice_def)
qed (use assms(1) in \<open>simp add: slice_def\<close>)

section \<open>System calls\<close>

datatype sysret = SysErr int | SysOk nat

definition ret_of :: "sysret \<Rightarrow> int" where
  "ret_of r = (case r of SysErr _ \<Rightarrow> -1 | SysOk n \<Rightarrow> int n)"

definition errno_after :: "int \<Rightarrow> sysret \<Rightarrow> int" where
  "errno_after old r = (case r of SysErr e \<Rightarrow> e | SysOk _ \<Rightarrow> old)"

lemma ret_of_simps [simp]: "ret_of (SysErr e) = -1" "ret_of (SysOk n) = int n"
  by (simp_all add: ret_of_def)

lemma errno_after_simps [simp]: "errno_after x (SysErr e) = e" "errno_after x (SysOk n) = x"
  by (simp_all add: errno_after_def)

lemma ret_of_neg_iff: "ret_of r < 0 \<longleftrightarrow> (\<exists>e. r = SysErr e)"
  by (cases r) auto

text \<open>The caller's view of the world: the kernel's state and \<^verbatim>\<open>errno\<close>.\<close>

record 'k world =
  kst :: 'k
  errno :: int

text \<open>The error numbers of the Linux ABI that the sources name.\<close>

abbreviation (input) EINTR :: int where "EINTR \<equiv> 4"
abbreviation (input) EIO :: int where "EIO \<equiv> 5"
abbreviation (input) ENOMEM :: int where "ENOMEM \<equiv> 12"
abbreviation (input) EEXIST :: int where "EEXIST \<equiv> 17"
abbreviation (input) ENODEV :: int where "ENODEV \<equiv> 19"
abbreviation (input) EINVAL :: int where "EINVAL \<equiv> 22"
abbreviation (input) EPIPE :: int where "EPIPE \<equiv> 32"
abbreviation (input) ENOSYS :: int where "ENOSYS \<equiv> 38"
abbreviation (input) ESTRPIPE :: int where "ESTRPIPE \<equiv> 86"

section \<open>Words\<close>

lemma unat_of_nat_small:
  "n < 2 ^ LENGTH('n) \<Longrightarrow> unat (of_nat n :: 'n::len word) = n"
  by (simp add: unat_of_nat take_bit_nat_eq_self)

lemma unat_diff_add:
  fixes a b :: "'n::len word"
  assumes "unat (a - b) + n < 2 ^ LENGTH('n)"
  shows "unat (a + of_nat n - b) = unat (a - b) + n"
proof -
  have "a + of_nat n - b = (a - b) + of_nat n" by simp
  moreover have "unat (of_nat n :: 'n word) = n"
    using assms by (intro unat_of_nat_small) simp
  ultimately show ?thesis
    using assms by (metis unat_add_lem)
qed

lemma unat_diff_sub:
  fixes a b :: "'n::len word"
  assumes "n \<le> unat (a - b)"
  shows "unat (a - (b + of_nat n)) = unat (a - b) - n"
proof -
  have n: "unat (of_nat n :: 'n word) = n"
    using assms unsigned_less [of "a - b"] by (intro unat_of_nat_small) (rule le_less_trans)
  have "a - (b + of_nat n) = (a - b) - of_nat n" by simp
  moreover have "(of_nat n :: 'n word) \<le> a - b"
    using assms n by (simp add: word_le_nat_alt)
  ultimately show ?thesis using n by (metis unat_sub)
qed

lemma sint_of_int_u32: "- (2 ^ 31) \<le> i \<Longrightarrow> i < 2 ^ 31 \<Longrightarrow> sint (of_int i :: u32) = i"
  by (simp add: signed_of_int signed_take_bit_int_eq_self)

lemma sint_small_u32:
  assumes "unat (w :: u32) < 2 ^ 31"
  shows "sint w = int (unat w)"
proof -
  have "int (unat w) < int (2 ^ 31)" using assms by (simp only: of_nat_less_iff)
  moreover have "- (2 ^ 31) \<le> int (unat w)" by (rule order_trans [of _ 0]) simp_all
  ultimately have "sint (of_int (int (unat w)) :: u32) = int (unat w)"
    by (intro sint_of_int_u32) simp_all
  then show ?thesis by simp
qed

lemma bit_u8_high [simp]: "8 \<le> n \<Longrightarrow> \<not> bit (c :: u8) n"
  by (auto dest: bit_imp_le_length)

text \<open>A sum over a list of which one entry changes.\<close>

lemma sum_list_list_update:
  "i < length xs \<Longrightarrow> sum_list (xs[i := x]) + xs ! i = sum_list xs + (x :: 'a :: comm_monoid_add)"
proof (induction xs arbitrary: i)
  case (Cons y ys)
  then show ?case by (cases i) (simp_all add: ac_simps)
qed simp

lemma sum_list_map_update:
  "i < length xs \<Longrightarrow> sum_list (map f (xs[i := x])) + f (xs ! i) = sum_list (map f xs) + (f x :: 'a :: comm_monoid_add)"
  using sum_list_list_update [of i "map f xs" "f x"] by (simp add: map_update)

end
