(* ===== verification/Queue_Contract.thy ===== *)
theory Queue_Contract
  imports Prelude
begin

text \<open>
  The contract of a bounded first-in first-out queue, as a locale: what the byte FIFO of
  libutils and the task ring of the thread pool both promise to their callers. The laws are
  total: within the capacity an insertion returns, and within the contents a removal returns.
  The client lemma, proved once here, is about any schedule of insertions and removals: what
  has come out, followed by what is still inside, is what was inside followed by what was put.
\<close>

datatype 'a qop = Put "'a list" | Get nat

fun puts :: "'a qop list \<Rightarrow> 'a list" where
  "puts [] = []"
| "puts (Put xs # ops) = xs @ puts ops"
| "puts (Get n # ops) = puts ops"

text \<open>The caller's duty: never put beyond the capacity, never get more than there is.\<close>

fun within :: "nat \<Rightarrow> nat \<Rightarrow> 'a qop list \<Rightarrow> bool" where
  "within cap n [] \<longleftrightarrow> True"
| "within cap n (Put xs # ops) \<longleftrightarrow> n + length xs \<le> cap \<and> within cap (n + length xs) ops"
| "within cap n (Get k # ops) \<longleftrightarrow> k \<le> n \<and> within cap (n - k) ops"

fun qrun :: "('a list \<Rightarrow> 'q \<Rightarrow> 'q option) \<Rightarrow> (nat \<Rightarrow> 'q \<Rightarrow> ('a list \<times> 'q) option)
    \<Rightarrow> 'a qop list \<Rightarrow> 'q \<Rightarrow> ('a list \<times> 'q) option" where
  "qrun enq deq [] q = Some ([], q)"
| "qrun enq deq (Put xs # ops) q =
     (case enq xs q of None \<Rightarrow> None | Some q' \<Rightarrow> qrun enq deq ops q')"
| "qrun enq deq (Get n # ops) q =
     (case deq n q of None \<Rightarrow> None
      | Some (ys, q') \<Rightarrow>
          (case qrun enq deq ops q' of None \<Rightarrow> None | Some (zs, q'') \<Rightarrow> Some (ys @ zs, q'')))"

locale bounded_queue =
  fixes inv :: "'q \<Rightarrow> bool"
    and contents :: "'q \<Rightarrow> 'a list"
    and capacity :: "'q \<Rightarrow> nat"
    and enq :: "'a list \<Rightarrow> 'q \<Rightarrow> 'q option"
    and deq :: "nat \<Rightarrow> 'q \<Rightarrow> ('a list \<times> 'q) option"
  assumes within_capacity: "inv q \<Longrightarrow> length (contents q) \<le> capacity q"
    and enq_law: "inv q \<Longrightarrow> length (contents q) + length xs \<le> capacity q \<Longrightarrow>
      \<exists>q'. enq xs q = Some q' \<and> inv q' \<and> contents q' = contents q @ xs \<and> capacity q' = capacity q"
    and deq_law: "inv q \<Longrightarrow> n \<le> length (contents q) \<Longrightarrow>
      \<exists>q'. deq n q = Some (take n (contents q), q') \<and> inv q'
        \<and> contents q' = drop n (contents q) \<and> capacity q' = capacity q"
begin

lemma enq_then_deq:
  assumes "inv q" and "contents q = []" and "length xs \<le> capacity q"
  shows "\<exists>q' q''. enq xs q = Some q' \<and> deq (length xs) q' = Some (xs, q'') \<and> contents q'' = []"
proof -
  from assms enq_law [of q xs] obtain q' where q': "enq xs q = Some q'" "inv q'" "contents q' = xs"
    by auto
  with deq_law [of q' "length xs"] show ?thesis by auto
qed

lemma fifo_order:
  assumes "inv q" and "within (capacity q) (length (contents q)) ops"
  shows "\<exists>out q'. qrun enq deq ops q = Some (out, q') \<and> inv q' \<and> capacity q' = capacity q
    \<and> out @ contents q' = contents q @ puts ops"
  using assms
proof (induction ops arbitrary: q)
  case Nil
  then show ?case by simp
next
  case (Cons op ops)
  show ?case
  proof (cases op)
    case (Put xs)
    with Cons.prems enq_law [of q xs] obtain q' where
      q': "enq xs q = Some q'" "inv q'" "contents q' = contents q @ xs" "capacity q' = capacity q"
      by auto
    with Cons.IH [of q'] Cons.prems Put show ?thesis by auto
  next
    case (Get n)
    with Cons.prems deq_law [of q n] obtain q' where
      q': "deq n q = Some (take n (contents q), q')" "inv q'"
        "contents q' = drop n (contents q)" "capacity q' = capacity q"
      by auto
    with Cons.IH [of q'] Cons.prems Get obtain out q'' where
      "qrun enq deq ops q' = Some (out, q'')" "inv q''" "capacity q'' = capacity q"
      "out @ contents q'' = drop n (contents q) @ puts ops"
      by auto
    with q' Get show ?thesis by auto
  qed
qed

lemma level_conserved:
  assumes "inv q" and "within (capacity q) (length (contents q)) ops"
    and "qrun enq deq ops q = Some (out, q')"
  shows "length out + length (contents q') = length (contents q) + length (puts ops)"
  using fifo_order [OF assms(1,2)] assms(3) by (auto dest: arg_cong [where f = length])

end

end
