(* ===== verification/Fifo.thy ===== *)
theory Fifo
  imports Queue_Contract
begin

text \<open>
  The circular byte FIFO of libutils/fifo.c. The struct's four pointers are offsets into one
  block: \<^verbatim>\<open>buffer\<close> is offset 0, \<^verbatim>\<open>end\<close> is the length of the block, \<^verbatim>\<open>rptr\<close> and \<^verbatim>\<open>wptr\<close> are
  the fields \<open>rptr\<close> and \<open>wptr\<close>; the running counters \<^verbatim>\<open>rndx\<close> and \<^verbatim>\<open>wndx\<close> are 32-bit and wrap.
  The copy loops may run forever (a block of length 0), so they are partial functions; every
  \<^verbatim>\<open>memcpy\<close> is checked against both of its blocks. The abstraction \<open>fifo_contents\<close> is the unread
  bytes in order, and the theory shows that the operations are those of a bounded queue.
\<close>

section \<open>State and allocation\<close>

record fifo =
  fbuf :: "u8 list"
  rptr :: nat
  wptr :: nat
  rndx :: u32
  wndx :: u32

text \<open>
  The heap is the set of live blocks, by address. The field \<^verbatim>\<open>buffer\<close> is the first member of
  the struct, so \<^verbatim>\<open>&f->buffer\<close> is the address of the struct itself.
\<close>

type_synonym heap = "nat set"

definition cfree :: "heap \<Rightarrow> nat \<Rightarrow> heap res" where
  "cfree h p = (if p \<in> h then Inr (h - {p}) else Inl DoubleFree)"

definition offsetof_buffer :: nat where
  "offsetof_buffer = 0"

definition st_fifo_reset :: "fifo \<Rightarrow> fifo" where
  "st_fifo_reset f = f\<lparr>wptr := 0, rptr := 0, wndx := 0, rndx := 0\<rparr>"

text \<open>
  \<open>blk\<close> is the data block (address and bytes) or \<open>None\<close> for NULL; \<open>obj\<close> is what the
  \<^verbatim>\<open>malloc\<close> of the struct returns.
\<close>

definition fifo_alloc_common ::
    "(nat \<times> u8 list) option \<Rightarrow> nat option \<Rightarrow> heap \<Rightarrow> ((nat \<times> fifo) option \<times> heap) res" where
  "fifo_alloc_common blk obj h =
     (case blk of
        None \<Rightarrow> Inr (None, h)
      | Some (b, bytes) \<Rightarrow>
          (case obj of
             None \<Rightarrow> bindE (cfree h b) (\<lambda>h'. Inr (None, h'))
           | Some p \<Rightarrow>
               Inr (Some (p, st_fifo_reset
                 \<lparr>fbuf = bytes, rptr = 0, wptr = 0, rndx = 0, wndx = 0\<rparr>), insert p h)))"

text \<open>
  \<open>alloc n\<close> stands for \<^verbatim>\<open>malloc\<close> of the data block: its address and (unspecified) bytes.
\<close>

definition st_fifo_alloc ::
    "(nat \<Rightarrow> (nat \<times> u8 list) option) \<Rightarrow> nat option \<Rightarrow> u32 \<Rightarrow> heap
      \<Rightarrow> ((nat \<times> fifo) option \<times> heap) res" where
  "st_fifo_alloc alloc obj sz h =
     (let blk = alloc (unat sz)
      in fifo_alloc_common blk obj (case blk of None \<Rightarrow> h | Some (b, _) \<Rightarrow> insert b h))"

definition st_fifo_free :: "nat option \<Rightarrow> heap \<Rightarrow> heap res" where
  "st_fifo_free f h =
     (case f of
        None \<Rightarrow> Inr h
      | Some p \<Rightarrow> bindE (cfree h (p + offsetof_buffer)) (\<lambda>h'. cfree h' p))"

section \<open>Queries\<close>

definition st_fifo_size :: "fifo \<Rightarrow> int" where
  "st_fifo_size f = sint (wndx f - rndx f)"

definition st_fifo_space :: "fifo \<Rightarrow> int" where
  "st_fifo_space f = sint (of_int (int (length (fbuf f)) - st_fifo_size f) :: u32)"

section \<open>Writing, reading and draining\<close>

definition STMIN :: "int \<Rightarrow> int \<Rightarrow> int" where
  "STMIN a b = (if a > b then b else a)"

text \<open>
  The body of a \<^verbatim>\<open>memcpy\<close> between two blocks: a negative length converts to a huge
  \<^verbatim>\<open>size_t\<close> and is out of bounds.
\<close>

definition memcpy_blk :: "u8 list \<Rightarrow> nat \<Rightarrow> u8 list \<Rightarrow> nat \<Rightarrow> int \<Rightarrow> u8 list res" where
  "memcpy_blk dst d src s len =
     (if len < 0 then Inl OutOfBounds
      else bindE (slice src s (nat len)) (\<lambda>xs. blit dst d xs))"

partial_function (option) fifo_write_loop ::
    "u8 list \<Rightarrow> u8 list \<Rightarrow> nat \<Rightarrow> u32 \<Rightarrow> nat \<Rightarrow> int \<Rightarrow> (u8 list \<times> u32 \<times> nat \<times> int) res option" where
  "fifo_write_loop buf src s wi wp sz =
     (let len = STMIN (int (length buf) - int wp) sz in
      case memcpy_blk buf wp src s len of
        Inl e \<Rightarrow> Some (Inl e)
      | Inr buf' \<Rightarrow>
          (let s' = s + nat len;
               wp1 = wp + nat len;
               wp' = (if wp1 \<ge> length buf' then 0 else wp1);
               wi' = wi + of_int len;
               sz' = sz - len
           in if sz' > 0 then fifo_write_loop buf' src s' wi' wp' sz'
              else Some (Inr (buf', wi', wp', sz'))))"

definition st_fifo_write :: "fifo \<Rightarrow> u8 list \<Rightarrow> int \<Rightarrow> (int \<times> fifo) res option" where
  "st_fifo_write f src sz =
     (case fifo_write_loop (fbuf f) src 0 (wndx f) (wptr f) sz of
        None \<Rightarrow> None
      | Some (Inl e) \<Rightarrow> Some (Inl e)
      | Some (Inr (buf', wi', wp', sz')) \<Rightarrow>
          Some (Inr (sz - sz', f\<lparr>fbuf := buf', wndx := wi', wptr := wp'\<rparr>)))"

definition st_fifo_drain :: "fifo \<Rightarrow> int \<Rightarrow> fifo res" where
  "st_fifo_drain f sz =
     (let r = int (rptr f) + sz;
          r' = (if r \<ge> int (length (fbuf f)) then r - int (length (fbuf f)) else r)
      in if r' < 0 then Inl OutOfBounds
         else Inr (f\<lparr>rptr := nat r', rndx := rndx f + of_int sz\<rparr>))"

text \<open>The callback \<^verbatim>\<open>func\<close> is never used by the code.\<close>

partial_function (option) st_fifo_read_loop ::
    "fifo \<Rightarrow> u8 list \<Rightarrow> nat \<Rightarrow> int \<Rightarrow> (u8 list \<times> fifo) res option" where
  "st_fifo_read_loop f dest d buf_size =
     (let len = STMIN (int (length (fbuf f)) - int (rptr f)) buf_size in
      case bindE (memcpy_blk dest d (fbuf f) (rptr f) len)
             (\<lambda>dest'. bindE (st_fifo_drain f len) (\<lambda>f'. Inr (dest', f'))) of
        Inl e \<Rightarrow> Some (Inl e)
      | Inr (dest', f') \<Rightarrow>
          (if buf_size - len > 0 then st_fifo_read_loop f' dest' (d + nat len) (buf_size - len)
           else Some (Inr (dest', f'))))"

definition st_fifo_read :: "fifo \<Rightarrow> u8 list \<Rightarrow> int \<Rightarrow> (int \<times> u8 list \<times> fifo) res option" where
  "st_fifo_read f dest buf_size =
     (case st_fifo_read_loop f dest 0 buf_size of
        None \<Rightarrow> None
      | Some (Inl e) \<Rightarrow> Some (Inl e)
      | Some (Inr (dest', f')) \<Rightarrow> Some (Inr (0, dest', f')))"

section \<open>The abstraction\<close>

definition fifo_cap :: "fifo \<Rightarrow> nat" where
  "fifo_cap f = length (fbuf f)"

definition fifo_used :: "fifo \<Rightarrow> nat" where
  "fifo_used f = unat (wndx f - rndx f)"

definition fifo_wf :: "fifo \<Rightarrow> bool" where
  "fifo_wf f \<longleftrightarrow> 0 < fifo_cap f \<and> fifo_cap f < 2 ^ 31 \<and> rptr f < fifo_cap f
     \<and> fifo_used f \<le> fifo_cap f \<and> wptr f = (rptr f + fifo_used f) mod fifo_cap f"

definition fifo_contents :: "fifo \<Rightarrow> u8 list" where
  "fifo_contents f = map (\<lambda>i. fbuf f ! ((rptr f + i) mod fifo_cap f)) [0..<fifo_used f]"

section \<open>Moving a chunk\<close>

lemma mod_wrap: "a < c \<Longrightarrow> b \<le> c \<Longrightarrow> (a + b) mod c = (if a + b < c then a + b else a + b - c)"
  for a b c :: nat
  by (auto simp: le_mod_geq)

lemma length_fifo_contents [simp]: "length (fifo_contents f) = fifo_used f"
  by (simp add: fifo_contents_def)

lemma nth_fifo_contents:
  "i < fifo_used f \<Longrightarrow> fifo_contents f ! i = fbuf f ! ((rptr f + i) mod fifo_cap f)"
  by (simp add: fifo_contents_def)

lemma fifo_used_bound: "fifo_wf f \<Longrightarrow> fifo_used f < 2 ^ 31"
  by (simp add: fifo_wf_def)

definition put_chunk :: "fifo \<Rightarrow> u8 list \<Rightarrow> fifo" where
  "put_chunk f xs = f\<lparr>fbuf := overwrite (fbuf f) (wptr f) xs,
     wndx := wndx f + of_nat (length xs),
     wptr := (if wptr f + length xs \<ge> fifo_cap f then 0 else wptr f + length xs)\<rparr>"

lemma put_chunk_cap [simp]:
  "wptr f + length xs \<le> fifo_cap f \<Longrightarrow> fifo_cap (put_chunk f xs) = fifo_cap f"
  by (simp add: put_chunk_def fifo_cap_def)

lemma put_chunk_used:
  assumes "fifo_wf f" and "fifo_used f + length xs \<le> fifo_cap f"
  shows "fifo_used (put_chunk f xs) = fifo_used f + length xs"
  using assms by (simp add: put_chunk_def fifo_used_def fifo_wf_def unat_diff_add)

lemma put_chunk_wf:
  assumes "fifo_wf f" and "fifo_used f + length xs \<le> fifo_cap f"
    and "wptr f + length xs \<le> fifo_cap f"
  shows "fifo_wf (put_chunk f xs)"
proof -
  have "rptr (put_chunk f xs) = rptr f" by (simp add: put_chunk_def)
  moreover have "wptr (put_chunk f xs) = (rptr f + (fifo_used f + length xs)) mod fifo_cap f"
    using assms by (auto simp: put_chunk_def fifo_wf_def mod_wrap split: if_splits)
  ultimately show ?thesis
    using assms put_chunk_used [OF assms(1,2)] by (simp add: fifo_wf_def)
qed

lemma put_chunk_contents:
  assumes "fifo_wf f" and "fifo_used f + length xs \<le> fifo_cap f"
    and "wptr f + length xs \<le> fifo_cap f"
  shows "fifo_contents (put_chunk f xs) = fifo_contents f @ xs"
proof (rule nth_equalityI)
  show "length (fifo_contents (put_chunk f xs)) = length (fifo_contents f @ xs)"
    using assms by (simp add: put_chunk_used)
next
  fix i assume "i < length (fifo_contents (put_chunk f xs))"
  then have i: "i < fifo_used f + length xs" using assms by (simp add: put_chunk_used)
  define k where "k = (rptr f + i) mod fifo_cap f"
  have k: "k < fifo_cap f" using assms(1) by (simp add: k_def fifo_wf_def)
  have "fifo_contents (put_chunk f xs) ! i = overwrite (fbuf f) (wptr f) xs ! k"
    using i assms by (simp add: nth_fifo_contents put_chunk_used k_def) (simp add: put_chunk_def)
  also have "\<dots> = (if wptr f \<le> k \<and> k < wptr f + length xs then xs ! (k - wptr f) else fbuf f ! k)"
    using assms(3) k by (simp add: nth_overwrite fifo_cap_def)
  also have "\<dots> = (fifo_contents f @ xs) ! i"
  proof (cases "i < fifo_used f")
    case True
    then have "\<not> (wptr f \<le> k \<and> k < wptr f + length xs)"
      using assms i by (auto simp: k_def fifo_wf_def mod_wrap split: if_splits)
    with True show ?thesis by (auto simp: nth_append nth_fifo_contents k_def)
  next
    case False
    with i obtain j where j: "i = fifo_used f + j" "j < length xs"
      by (metis add_diff_inverse_nat nat_add_left_cancel_less)
    then have "k = wptr f + j"
      using assms by (auto simp: k_def fifo_wf_def mod_wrap split: if_splits)
    with j show ?thesis by (simp add: nth_append)
  qed
  finally show "fifo_contents (put_chunk f xs) ! i = (fifo_contents f @ xs) ! i" .
qed

lemma drain_ok:
  assumes "fifo_wf f" and "n \<le> fifo_used f"
  shows "\<exists>f'. st_fifo_drain f (int n) = Inr f' \<and> fifo_wf f' \<and> fifo_cap f' = fifo_cap f
    \<and> fbuf f' = fbuf f \<and> rptr f' = (rptr f + n) mod fifo_cap f
    \<and> fifo_contents f' = drop n (fifo_contents f)"
proof -
  define f' where "f' = f\<lparr>rptr := (rptr f + n) mod fifo_cap f, rndx := rndx f + of_nat n\<rparr>"
  have drain: "st_fifo_drain f (int n) = Inr f'"
    using assms unfolding st_fifo_drain_def f'_def
    by (auto simp: fifo_wf_def fifo_cap_def mod_wrap Let_def nat_diff_distrib nat_add_distrib
        simp flip: of_nat_add)
  have cap: "fifo_cap f' = fifo_cap f" by (simp add: f'_def fifo_cap_def)
  have used: "fifo_used f' = fifo_used f - n"
    using assms by (simp add: f'_def fifo_used_def unat_diff_sub)
  have wf: "fifo_wf f'"
  proof -
    have "((rptr f + n) mod fifo_cap f + (fifo_used f - n)) mod fifo_cap f
        = (rptr f + n + (fifo_used f - n)) mod fifo_cap f"
      by (rule mod_add_left_eq)
    moreover have "rptr f + n + (fifo_used f - n) = rptr f + fifo_used f"
      using assms(2) by simp
    ultimately have "wptr f = (rptr f' + fifo_used f') mod fifo_cap f'"
      using assms(1) used cap by (simp add: fifo_wf_def f'_def)
    moreover have "fifo_used f - n \<le> fifo_cap f"
      using assms(1) by (auto simp: fifo_wf_def)
    ultimately show ?thesis using assms(1) used cap by (simp add: fifo_wf_def f'_def)
  qed
  have "fifo_contents f' = drop n (fifo_contents f)"
  proof (rule nth_equalityI)
    fix i assume "i < length (fifo_contents f')"
    then have "i < fifo_used f - n" by (simp add: used)
    then show "fifo_contents f' ! i = drop n (fifo_contents f) ! i"
      by (simp add: nth_fifo_contents used cap)
        (simp add: f'_def fifo_cap_def mod_add_left_eq add.assoc)
  qed (simp add: used)
  with drain wf cap show ?thesis by (auto simp: f'_def)
qed

section \<open>The copy loops\<close>

lemma memcpy_blk_ok:
  assumes "s + m \<le> length src" and "d + m \<le> length dst"
  shows "memcpy_blk dst d src s (int m) = Inr (overwrite dst d (take m (drop s src)))"
  using assms by (simp add: memcpy_blk_def mem_simps)

lemma STMIN_int: "STMIN (int a - int b) (int n) = int (min (a - b) n)" if "b \<le> a" for a b n :: nat
  using that by (simp add: STMIN_def min_def of_nat_diff) linarith

lemma fifo_write_loop_ok:
  assumes "fifo_wf f" and "fifo_used f + n \<le> fifo_cap f" and "s + n \<le> length src"
  shows "\<exists>f'. fifo_write_loop (fbuf f) src s (wndx f) (wptr f) (int n)
      = Some (Inr (fbuf f', wndx f', wptr f', 0))
    \<and> fifo_wf f' \<and> fifo_cap f' = fifo_cap f \<and> rptr f' = rptr f \<and> rndx f' = rndx f
    \<and> fifo_contents f' = fifo_contents f @ take n (drop s src)"
  using assms
proof (induction n arbitrary: f s rule: less_induct)
  case (less n)
  have w: "wptr f < fifo_cap f" using less.prems(1) by (simp add: fifo_wf_def)
  define m where "m = min (fifo_cap f - wptr f) n"
  define xs where "xs = take m (drop s src)"
  define f1 where "f1 = put_chunk f xs"
  have len: "length xs = m" using less.prems(3) by (simp add: xs_def m_def)
  have fits: "wptr f + length xs \<le> fifo_cap f" "fifo_used f + length xs \<le> fifo_cap f"
    using w less.prems(2) len by (auto simp: m_def)
  note chunk = put_chunk_wf [OF less.prems(1) fits(2,1)] put_chunk_contents [OF less.prems(1) fits(2,1)]
    put_chunk_used [OF less.prems(1) fits(2)]
  have stmin: "STMIN (int (length (fbuf f)) - int (wptr f)) (int n) = int m"
    using w by (simp add: STMIN_int m_def fifo_cap_def)
  have cpy: "memcpy_blk (fbuf f) (wptr f) src s (int m) = Inr (fbuf f1)"
    using less.prems(3) fits(1) len
    by (simp add: memcpy_blk_ok m_def fifo_cap_def f1_def put_chunk_def xs_def)
  have unfold: "fifo_write_loop (fbuf f) src s (wndx f) (wptr f) (int n) =
    (if n - m > 0 then fifo_write_loop (fbuf f1) src (s + m) (wndx f1) (wptr f1) (int (n - m))
     else Some (Inr (fbuf f1, wndx f1, wptr f1, 0)))"
  proof -
    have "wndx f + of_int (int m) = wndx f1" "m \<le> n"
      "(if length (fbuf f1) \<le> wptr f + m then 0 else wptr f + m) = wptr f1"
      using fits len by (simp_all add: f1_def put_chunk_def fifo_cap_def m_def)
    then show ?thesis
      by (subst fifo_write_loop.simps)
        (auto simp: stmin cpy Let_def simp flip: of_nat_diff split: if_splits)
  qed
  have f1: "fifo_wf f1" "fifo_cap f1 = fifo_cap f" "rptr f1 = rptr f" "rndx f1 = rndx f"
    "fifo_used f1 = fifo_used f + m"
    using chunk fits len by (auto simp: f1_def) (simp_all add: put_chunk_def)
  have c1: "fifo_contents f1 = fifo_contents f @ xs"
    using chunk(2) by (simp add: f1_def)
  show ?case
  proof (cases "n - m > 0")
    case False
    then have "m = n" by (simp add: m_def)
    then show ?thesis
      by (intro exI [of _ f1]) (use unfold f1(1-4) c1 in \<open>simp add: xs_def\<close>)
  next
    case True
    then have "m > 0" using w by (auto simp: m_def)
    with True have lt: "n - m < n" by simp
    have "fifo_used f1 + (n - m) \<le> fifo_cap f1" "s + m + (n - m) \<le> length src"
      using f1 less.prems by (simp_all add: m_def)
    from less.IH [OF lt f1(1) this] obtain f' where f':
      "fifo_write_loop (fbuf f1) src (s + m) (wndx f1) (wptr f1) (int (n - m))
        = Some (Inr (fbuf f', wndx f', wptr f', 0))"
      "fifo_wf f'" "fifo_cap f' = fifo_cap f1" "rptr f' = rptr f1" "rndx f' = rndx f1"
      "fifo_contents f' = fifo_contents f1 @ take (n - m) (drop (s + m) src)"
      by blast
    have "take n (drop s src) = xs @ take (n - m) (drop (s + m) src)"
      using True by (metis add.commute drop_drop le_add_diff_inverse less_imp_le_nat take_add xs_def
          zero_less_diff)
    then show ?thesis
      by (intro exI [of _ f']) (use True unfold f' f1(2-4) c1 in simp)
  qed
qed

lemma st_fifo_read_loop_ok:
  assumes "fifo_wf f" and "n \<le> fifo_used f" and "d + n \<le> length dest"
  shows "\<exists>f'. st_fifo_read_loop f dest d (int n)
      = Some (Inr (overwrite dest d (take n (fifo_contents f)), f'))
    \<and> fifo_wf f' \<and> fifo_cap f' = fifo_cap f \<and> fifo_contents f' = drop n (fifo_contents f)"
  using assms
proof (induction n arbitrary: f d dest rule: less_induct)
  case (less n)
  have r: "rptr f < fifo_cap f" "fifo_used f \<le> fifo_cap f"
    using less.prems(1) by (simp_all add: fifo_wf_def)
  define m where "m = min (fifo_cap f - rptr f) n"
  define dest1 where "dest1 = overwrite dest d (take m (drop (rptr f) (fbuf f)))"
  have m: "m \<le> n" "m \<le> fifo_used f" "rptr f + m \<le> fifo_cap f"
    using r less.prems(2) by (auto simp: m_def)
  obtain f1 where f1: "st_fifo_drain f (int m) = Inr f1" "fifo_wf f1" "fifo_cap f1 = fifo_cap f"
    "fifo_contents f1 = drop m (fifo_contents f)"
    using drain_ok [OF less.prems(1) m(2)] by blast
  have chunk: "take m (drop (rptr f) (fbuf f)) = take m (fifo_contents f)"
    using m r by (intro nth_equalityI) (auto simp: fifo_cap_def nth_fifo_contents mod_wrap)
  have stmin: "STMIN (int (length (fbuf f)) - int (rptr f)) (int n) = int m"
    using r by (simp add: STMIN_int m_def fifo_cap_def)
  have cpy: "memcpy_blk dest d (fbuf f) (rptr f) (int m) = Inr dest1"
    using m less.prems(3) by (simp add: memcpy_blk_ok fifo_cap_def dest1_def)
  have unfold: "st_fifo_read_loop f dest d (int n) =
    (if n - m > 0 then st_fifo_read_loop f1 dest1 (d + m) (int (n - m)) else Some (Inr (dest1, f1)))"
    using stmin cpy f1(1) m(1)
    by (subst st_fifo_read_loop.simps) (auto simp: of_nat_diff)
  have d1: "dest1 = overwrite dest d (take m (fifo_contents f))" by (simp add: dest1_def chunk)
  show ?case
  proof (cases "n - m > 0")
    case False
    then have "m = n" by (simp add: m_def)
    with False unfold f1 d1 show ?thesis by auto
  next
    case True
    then have "m > 0" using r by (auto simp: m_def)
    with True have lt: "n - m < n" by simp
    have used1: "fifo_used f1 = fifo_used f - m"
      using arg_cong [OF f1(4), where f = length] by simp
    have len1: "length dest1 = length dest"
      using less.prems m by (simp add: d1)
    have "n - m \<le> fifo_used f1" "d + m + (n - m) \<le> length dest1"
      using used1 len1 less.prems m by simp_all
    from less.IH [OF lt f1(2) this] obtain f' where f':
      "st_fifo_read_loop f1 dest1 (d + m) (int (n - m))
        = Some (Inr (overwrite dest1 (d + m) (take (n - m) (fifo_contents f1)), f'))"
      "fifo_wf f'" "fifo_cap f' = fifo_cap f1"
      "fifo_contents f' = drop (n - m) (fifo_contents f1)"
      by blast
    have "overwrite dest1 (d + m) (take (n - m) (fifo_contents f1))
        = overwrite dest d (take n (fifo_contents f))"
      using m less.prems unfolding d1 f1(4)
      by (intro nth_equalityI) (auto simp: nth_overwrite nth_append)
    with True unfold f' f1 m show ?thesis by auto
  qed
qed

section \<open>The FIFO is a bounded queue\<close>

definition fifo_put :: "u8 list \<Rightarrow> fifo \<Rightarrow> fifo option" where
  "fifo_put xs f =
     (case st_fifo_write f xs (int (length xs)) of Some (Inr (_, f')) \<Rightarrow> Some f' | _ \<Rightarrow> None)"

definition fifo_get :: "nat \<Rightarrow> fifo \<Rightarrow> (u8 list \<times> fifo) option" where
  "fifo_get n f =
     (case st_fifo_read f (replicate n 0) (int n) of
        Some (Inr (_, d, f')) \<Rightarrow> Some (d, f') | _ \<Rightarrow> None)"

lemma write_ok:
  assumes "fifo_wf f" and "fifo_used f + n \<le> fifo_cap f" and "n \<le> length src"
  shows "\<exists>f'. st_fifo_write f src (int n) = Some (Inr (int n, f')) \<and> fifo_wf f'
    \<and> fifo_cap f' = fifo_cap f \<and> fifo_contents f' = fifo_contents f @ take n src"
proof -
  obtain g where g: "fifo_write_loop (fbuf f) src 0 (wndx f) (wptr f) (int n)
      = Some (Inr (fbuf g, wndx g, wptr g, 0))"
    "fifo_wf g" "fifo_cap g = fifo_cap f" "rptr g = rptr f" "rndx g = rndx f"
    "fifo_contents g = fifo_contents f @ take n src"
    using fifo_write_loop_ok [OF assms(1,2), of 0 src] assms(3) by auto
  have "st_fifo_write f src (int n)
      = Some (Inr (int n, f\<lparr>fbuf := fbuf g, wndx := wndx g, wptr := wptr g\<rparr>))"
    by (simp add: st_fifo_write_def g(1))
  also have "f\<lparr>fbuf := fbuf g, wndx := wndx g, wptr := wptr g\<rparr> = g"
    using g(4,5) by simp
  finally show ?thesis using g(2,3,6) by blast
qed

lemma read_ok:
  assumes "fifo_wf f" and "n \<le> fifo_used f" and "n \<le> length dest"
  shows "\<exists>f'. st_fifo_read f dest (int n)
      = Some (Inr (0, take n (fifo_contents f) @ drop n dest, f')) \<and> fifo_wf f'
    \<and> fifo_cap f' = fifo_cap f \<and> fifo_contents f' = drop n (fifo_contents f)"
proof -
  have "overwrite dest 0 (take n (fifo_contents f)) = take n (fifo_contents f) @ drop n dest"
    using assms(2) by (simp add: overwrite_def)
  with st_fifo_read_loop_ok [OF assms(1,2), of 0 dest] assms(3) show ?thesis
    by (auto simp: st_fifo_read_def)
qed

interpretation fifo_q: bounded_queue fifo_wf fifo_contents fifo_cap fifo_put fifo_get
proof
  fix q assume "fifo_wf q"
  then show "length (fifo_contents q) \<le> fifo_cap q" by (simp add: fifo_wf_def)
next
  fix q and xs :: "u8 list"
  assume "fifo_wf q" "length (fifo_contents q) + length xs \<le> fifo_cap q"
  with write_ok [of q "length xs" xs]
  show "\<exists>q'. fifo_put xs q = Some q' \<and> fifo_wf q' \<and> fifo_contents q' = fifo_contents q @ xs
      \<and> fifo_cap q' = fifo_cap q"
    by (auto simp: fifo_put_def)
next
  fix q and n :: nat
  assume "fifo_wf q" "n \<le> length (fifo_contents q)"
  with read_ok [of q n "replicate n 0"]
  show "\<exists>q'. fifo_get n q = Some (take n (fifo_contents q), q') \<and> fifo_wf q'
      \<and> fifo_contents q' = drop n (fifo_contents q) \<and> fifo_cap q' = fifo_cap q"
    by (auto simp: fifo_get_def)
qed

lemma fifo_write_loop_total:
  assumes "wp < length buf" and "s + n \<le> length src"
  shows "\<exists>buf' wp'. fifo_write_loop buf src s wi wp (int n) = Some (Inr (buf', wi + of_nat n, wp', 0))
    \<and> length buf' = length buf \<and> wp' < length buf"
  using assms
proof (induction n arbitrary: buf s wi wp rule: less_induct)
  case (less n)
  define m where "m = min (length buf - wp) n"
  define buf1 where "buf1 = overwrite buf wp (take m (drop s src))"
  define wp1 where "wp1 = (if length buf \<le> wp + m then 0 else wp + m)"
  have m: "m \<le> n" "wp + m \<le> length buf" "n - m > 0 \<Longrightarrow> n - m < n"
    using less.prems by (auto simp: m_def)
  have len: "length buf1 = length buf" "wp1 < length buf"
    using less.prems m by (auto simp: buf1_def wp1_def)
  have stmin: "STMIN (int (length buf) - int wp) (int n) = int m"
    using less.prems by (simp add: STMIN_int m_def)
  have cpy: "memcpy_blk buf wp src s (int m) = Inr buf1"
    using less.prems m by (simp add: memcpy_blk_ok buf1_def)
  have unfold: "fifo_write_loop buf src s wi wp (int n) =
    (if n - m > 0 then fifo_write_loop buf1 src (s + m) (wi + of_nat m) wp1 (int (n - m))
     else Some (Inr (buf1, wi + of_nat m, wp1, 0)))"
    using m(1) len(1) unfolding wp1_def
    by (subst fifo_write_loop.simps)
      (auto simp: stmin cpy Let_def simp flip: of_nat_diff split: if_splits)
  show ?case
  proof (cases "n - m > 0")
    case False
    with m(1) have "m = n" by simp
    with False unfold len show ?thesis by simp
  next
    case True
    have "wp1 < length buf1" "s + m + (n - m) \<le> length src"
      using len m less.prems by simp_all
    from less.IH [OF m(3) [OF True] this, of "wi + of_nat m"] obtain buf' wp' where
      "fifo_write_loop buf1 src (s + m) (wi + of_nat m) wp1 (int (n - m))
        = Some (Inr (buf', wi + of_nat m + of_nat (n - m), wp', 0))"
      "length buf' = length buf1" "wp' < length buf1" by blast
    moreover have "wi + of_nat m + of_nat (n - m) = wi + (of_nat n :: u32)"
      using m(1) by (simp flip: of_nat_add add.assoc)
    ultimately show ?thesis using True unfold len by simp
  qed
qed

section \<open>Properties\<close>

abbreviation demo_fifo :: fifo where
  "demo_fifo \<equiv> \<lparr>fbuf = [7, 0, 5, 6], rptr = 2, wptr = 1, rndx = -1, wndx = 2\<rparr>"

text \<open>C4: A write that fits the free space returns the number of bytes asked for, keeps the FIFO
  well formed and its capacity, and appends exactly the first bytes of the source to the unread
  contents, across the end of the block and the 32-bit wrap of the counters.\<close>

theorem st_fifo_write_appends:
  assumes "fifo_wf f" and "fifo_used f + n \<le> fifo_cap f" and "n \<le> length src"
  shows "\<exists>f'. st_fifo_write f src (int n) = Some (Inr (int n, f')) \<and> fifo_wf f'
    \<and> fifo_cap f' = fifo_cap f \<and> fifo_contents f' = fifo_contents f @ take n src"
  by (rule write_ok [OF assms])

theorem st_fifo_write_appends_witness:
  "\<exists>f'. st_fifo_write (demo_fifo\<lparr>wptr := 0, wndx := 1\<rparr>) [8, 9] (int 2) = Some (Inr (int 2, f'))
    \<and> fifo_contents f' = [5, 6, 8, 9]"
proof -
  let ?f = "demo_fifo\<lparr>wptr := 0, wndx := 1\<rparr>"
  have "fifo_wf ?f" "fifo_used ?f + 2 \<le> fifo_cap ?f" "2 \<le> length [8, 9 :: u8]"
    by (simp_all add: fifo_wf_def fifo_used_def fifo_cap_def)
  note st_fifo_write_appends [OF this]
  moreover have "fifo_contents ?f = [5, 6]" by code_simp
  ultimately show ?thesis by auto
qed

text \<open>C6: A read of at most the unread bytes returns 0, fills the front of the destination with
  the oldest unread bytes in order, leaves the rest of the destination alone, and removes exactly
  these bytes from the FIFO.\<close>

theorem st_fifo_read_takes:
  assumes "fifo_wf f" and "n \<le> fifo_used f" and "n \<le> length dest"
  shows "\<exists>f'. st_fifo_read f dest (int n)
      = Some (Inr (0, take n (fifo_contents f) @ drop n dest, f')) \<and> fifo_wf f'
    \<and> fifo_cap f' = fifo_cap f \<and> fifo_contents f' = drop n (fifo_contents f)"
  by (rule read_ok [OF assms])

theorem st_fifo_read_takes_witness:
  "\<exists>f'. st_fifo_read demo_fifo [0, 0, 0] (int 2) = Some (Inr (0, [5, 6, 0], f')) \<and> fifo_wf f'"
proof -
  have "fifo_wf demo_fifo" "2 \<le> fifo_used demo_fifo" "2 \<le> length [0, 0, 0 :: u8]"
    by (simp_all add: fifo_wf_def fifo_used_def fifo_cap_def)
  note st_fifo_read_takes [OF this]
  moreover have "fifo_contents demo_fifo = [5, 6, 7]" by code_simp
  ultimately show ?thesis by auto
qed

text \<open>C9: Over any schedule of writes and reads that never writes more than the space nor reads
  more than the size, every operation returns and no byte is lost, duplicated or reordered: the
  bytes read followed by the bytes still unread are the bytes first unread followed by those
  written.\<close>

theorem fifo_preserves_order:
  assumes "fifo_wf f" and "within (fifo_cap f) (fifo_used f) ops"
  shows "\<exists>out f'. qrun fifo_put fifo_get ops f = Some (out, f') \<and> fifo_wf f'
    \<and> out @ fifo_contents f' = fifo_contents f @ puts ops"
  using fifo_q.fifo_order [of f ops] assms by auto

theorem fifo_preserves_order_witness:
  "\<exists>out f'. qrun fifo_put fifo_get [Get 2, Put [1, 2, 3], Get 4] demo_fifo = Some (out, f')
    \<and> out @ fifo_contents f' = [5, 6, 7] @ [1, 2, 3]"
proof -
  have "fifo_wf demo_fifo"
    "within (fifo_cap demo_fifo) (fifo_used demo_fifo) [Get 2, Put [1, 2, 3], Get 4]"
    by (simp_all add: fifo_wf_def fifo_used_def fifo_cap_def)
  note fifo_preserves_order [OF this]
  moreover have "fifo_contents demo_fifo = [5, 6, 7]" by code_simp
  ultimately show ?thesis by auto
qed

text \<open>The size reported is the number of unread bytes and the space reported is the rest of the
  capacity, whatever the wrap of the 32-bit counters.\<close>

theorem st_fifo_size_space:
  assumes "fifo_wf f"
  shows "st_fifo_size f = int (length (fifo_contents f))
    \<and> st_fifo_space f = int (fifo_cap f) - int (length (fifo_contents f))"
proof -
  have "fifo_used f < 2 ^ 31" "fifo_used f \<le> fifo_cap f" "fifo_cap f < 2 ^ 31"
    using assms by (auto simp: fifo_wf_def)
  moreover from this have "sint (of_int (int (fifo_cap f) - int (fifo_used f)) :: u32)
      = int (fifo_cap f) - int (fifo_used f)"
    by (intro sint_of_int_u32) simp_all
  ultimately show ?thesis
    by (simp add: st_fifo_size_def st_fifo_space_def sint_small_u32 flip: fifo_used_def fifo_cap_def)
qed

theorem st_fifo_size_space_witness:
  "st_fifo_size demo_fifo = 3 \<and> st_fifo_space demo_fifo = 1"
proof -
  have "fifo_wf demo_fifo" by (simp add: fifo_wf_def fifo_used_def fifo_cap_def)
  note st_fifo_size_space [OF this]
  moreover have "fifo_used demo_fifo = 3" by code_simp
  ultimately show ?thesis by (simp add: fifo_cap_def)
qed

text \<open>A write never looks at the free space. A write of more bytes than are free still returns
  the full count, counts all of them as unread, and leaves a FIFO that holds more unread bytes than
  its capacity, so that unread bytes have been overwritten.\<close>

theorem st_fifo_write_overrun:
  assumes "fifo_wf f" and "fifo_cap f < fifo_used f + n" and "fifo_used f + n < 2 ^ 32"
    and "n \<le> length src"
  shows "\<exists>f'. st_fifo_write f src (int n) = Some (Inr (int n, f'))
    \<and> fifo_used f' = fifo_used f + n \<and> fifo_cap f' < fifo_used f' \<and> \<not> fifo_wf f'"
proof -
  have "wptr f < length (fbuf f)" using assms(1) by (auto simp: fifo_wf_def fifo_cap_def)
  with fifo_write_loop_total [of "wptr f" "fbuf f" 0 n src "wndx f"] assms(4)
  obtain buf' wp' where loop: "fifo_write_loop (fbuf f) src 0 (wndx f) (wptr f) (int n)
      = Some (Inr (buf', wndx f + of_nat n, wp', 0))" and len: "length buf' = length (fbuf f)"
    by auto
  define f' where "f' = f\<lparr>fbuf := buf', wndx := wndx f + of_nat n, wptr := wp'\<rparr>"
  have "st_fifo_write f src (int n) = Some (Inr (int n, f'))"
    by (simp add: st_fifo_write_def loop f'_def)
  moreover have "fifo_used f' = fifo_used f + n"
    using assms(3) by (simp add: f'_def fifo_used_def unat_diff_add)
  moreover have "fifo_cap f' = fifo_cap f" by (simp add: f'_def fifo_cap_def len)
  ultimately show ?thesis using assms(2) by (auto simp: fifo_wf_def)
qed

theorem st_fifo_write_overrun_witness:
  "\<exists>f'. st_fifo_write demo_fifo [1, 2] (int 2) = Some (Inr (int 2, f')) \<and> \<not> fifo_wf f'"
proof -
  have "fifo_wf demo_fifo" "fifo_cap demo_fifo < fifo_used demo_fifo + 2"
    "fifo_used demo_fifo + 2 < 2 ^ 32" "2 \<le> length [1, 2 :: u8]"
    by (simp_all add: fifo_wf_def fifo_used_def fifo_cap_def)
  from st_fifo_write_overrun [OF this] show ?thesis by auto
qed

text \<open>Releasing a live FIFO frees the struct twice: the first call passes the address of the
  field \<^verbatim>\<open>buffer\<close>, which is the address of the struct, instead of the block it points to.\<close>

theorem st_fifo_free_double_free:
  assumes "p \<in> h"
  shows "st_fifo_free (Some p) h = Inl DoubleFree"
  using assms by (simp add: st_fifo_free_def cfree_def offsetof_buffer_def)

theorem st_fifo_free_double_free_witness:
  "st_fifo_free (Some 16) {16, 48} = Inl DoubleFree"
  using st_fifo_free_double_free [of 16 "{16, 48}"] by simp

text \<open>Allocation with both blocks granted gives an empty, well-formed FIFO of the size asked
  for; when the struct is refused the data block is given back to the heap, and nothing leaks.\<close>

theorem st_fifo_alloc_correct:
  assumes "alloc (unat n) = Some (b, bytes)" and "length bytes = unat n"
    and "0 < n" and "unat n < 2 ^ 31" and "b \<notin> h"
  shows "(\<exists>f. st_fifo_alloc alloc (Some p) n h = Inr (Some (p, f), insert p (insert b h))
      \<and> fifo_wf f \<and> fifo_cap f = unat n \<and> fifo_contents f = [])
    \<and> st_fifo_alloc alloc None n h = Inr (None, h)"
  using assms
  by (auto simp: st_fifo_alloc_def fifo_alloc_common_def st_fifo_reset_def cfree_def
      fifo_wf_def fifo_cap_def fifo_used_def fifo_contents_def word_less_nat_alt)

theorem st_fifo_alloc_correct_witness:
  "\<exists>f. st_fifo_alloc (\<lambda>n. Some (8, replicate n 0)) (Some 40) 5 {} = Inr (Some (40, f), {40, 8})
    \<and> fifo_cap f = 5"
  using st_fifo_alloc_correct [of "\<lambda>n. Some (8, replicate n 0)" 5 8 "replicate 5 0" "{}" 40]
  by auto

end
