(* ===== verification/ListNodes.thy ===== *)
theory ListNodes
  imports Prelude
begin

text \<open>
  The intrusive doubly linked lists of libutils/list.h: nodes in a heap, their four operations, the
  three loops of the traversal macros, and what they promise about rings of nodes. An address is a
  number, and the heap maps the addresses that hold a node; an access to any other address, \<^verbatim>\<open>NULL\<close>
  among them, is a fault. A loop over a broken ring may never end: then its value is \<^term>\<open>None\<close>.
\<close>

section \<open>Nodes and operations\<close>

record listnode =
  nxt :: nat
  prv :: nat

type_synonym nodes = "nat \<rightharpoonup> listnode"

definition node_at :: "nodes \<Rightarrow> nat \<Rightarrow> listnode res" where
  "node_at h a = (case h a of None \<Rightarrow> Inl NullDeref | Some n \<Rightarrow> Inr n)"

definition set_nxt :: "nat \<Rightarrow> nat \<Rightarrow> nodes \<Rightarrow> nodes res" where
  "set_nxt a x h = bindE (node_at h a) (\<lambda>n. Inr (h(a \<mapsto> n\<lparr>nxt := x\<rparr>)))"

definition set_prv :: "nat \<Rightarrow> nat \<Rightarrow> nodes \<Rightarrow> nodes res" where
  "set_prv a x h = bindE (node_at h a) (\<lambda>n. Inr (h(a \<mapsto> n\<lparr>prv := x\<rparr>)))"

definition list_init :: "nat \<Rightarrow> nodes \<Rightarrow> nodes res" where
  "list_init node h = bindE (set_nxt node node h) (set_prv node node)"

definition list_add_tail :: "nat \<Rightarrow> nat \<Rightarrow> nodes \<Rightarrow> nodes res" where
  "list_add_tail head item h =
     bindE (set_nxt item head h) (\<lambda>h1.
     bindE (node_at h1 head) (\<lambda>n1.
     bindE (set_prv item (prv n1) h1) (\<lambda>h2.
     bindE (node_at h2 head) (\<lambda>n2.
     bindE (set_nxt (prv n2) item h2) (\<lambda>h3.
       set_prv head item h3)))))"

definition list_add_head :: "nat \<Rightarrow> nat \<Rightarrow> nodes \<Rightarrow> nodes res" where
  "list_add_head head item h =
     bindE (node_at h head) (\<lambda>n0.
     bindE (set_nxt item (nxt n0) h) (\<lambda>h1.
     bindE (set_prv item head h1) (\<lambda>h2.
     bindE (node_at h2 head) (\<lambda>n2.
     bindE (set_prv (nxt n2) item h2) (\<lambda>h3.
       set_nxt head item h3)))))"

definition list_remove :: "nat \<Rightarrow> nodes \<Rightarrow> nodes res" where
  "list_remove item h =
     bindE (node_at h item) (\<lambda>n.
     bindE (set_prv (nxt n) (prv n) h) (\<lambda>h1.
     bindE (node_at h1 item) (\<lambda>n1.
       set_nxt (prv n1) (nxt n1) h1)))"

definition list_empty :: "nat \<Rightarrow> nodes \<Rightarrow> bool res" where
  "list_empty list h = bindE (node_at h list) (\<lambda>n. Inr (list = nxt n))"

definition list_head :: "nat \<Rightarrow> nodes \<Rightarrow> nat res" where
  "list_head list h = bindE (node_at h list) (\<lambda>n. Inr (nxt n))"

definition list_tail :: "nat \<Rightarrow> nodes \<Rightarrow> nat res" where
  "list_tail list h = bindE (node_at h list) (\<lambda>n. Inr (prv n))"

text \<open>The static initialiser of a list gives its head what \<^verbatim>\<open>list_init\<close> gives it.\<close>

definition list_declare :: "nat \<Rightarrow> nodes \<Rightarrow> nodes" where
  "list_declare name h = h(name \<mapsto> \<lparr>nxt = name, prv = name\<rparr>)"

lemma list_declare_init:
  assumes "name \<in> dom h"
  shows "list_init name h = Inr (list_declare name h)"
proof -
  obtain n where "h name = Some n" using assms by blast
  then have "list_init name h = Inr (h(name \<mapsto> n\<lparr>nxt := name, prv := name\<rparr>))"
    by (simp add: list_init_def set_nxt_def set_prv_def node_at_def)
  moreover have "n\<lparr>nxt := name, prv := name\<rparr> = \<lparr>nxt = name, prv = name\<rparr>" by (cases n) simp
  ultimately show ?thesis unfolding list_declare_def by (simp only:)
qed

text \<open>The entry that holds a node at an offset, in the arithmetic of 64-bit pointers.\<close>

definition node_to_item :: "u64 \<Rightarrow> u64 \<Rightarrow> u64" where
  "node_to_item node off = node - off"

section \<open>The loops\<close>

text \<open>
  The body of a loop gets the node and the heap, beside what it works on; it may change the heap.
\<close>

type_synonym 'a body = "nat \<Rightarrow> nodes \<times> 'a \<Rightarrow> (nodes \<times> 'a) res"

partial_function (option) each_from :: "'a body \<Rightarrow> nat \<Rightarrow> nat \<Rightarrow> nodes \<times> 'a \<Rightarrow> (nodes \<times> 'a) res option" where
  "each_from body list node s =
     (if node = list then Some (Inr s)
      else case bindE (body node s) (\<lambda>s'. bindE (node_at (fst s') node) (\<lambda>n. Inr (nxt n, s'))) of
             Inl f \<Rightarrow> Some (Inl f)
           | Inr (node', s') \<Rightarrow> each_from body list node' s')"

definition list_for_each :: "'a body \<Rightarrow> nat \<Rightarrow> nodes \<times> 'a \<Rightarrow> (nodes \<times> 'a) res option" where
  "list_for_each body list s =
     (case node_at (fst s) list of Inl f \<Rightarrow> Some (Inl f) | Inr n \<Rightarrow> each_from body list (nxt n) s)"

partial_function (option) reverse_from :: "'a body \<Rightarrow> nat \<Rightarrow> nat \<Rightarrow> nodes \<times> 'a \<Rightarrow> (nodes \<times> 'a) res option" where
  "reverse_from body list node s =
     (if node = list then Some (Inr s)
      else case bindE (body node s) (\<lambda>s'. bindE (node_at (fst s') node) (\<lambda>n. Inr (prv n, s'))) of
             Inl f \<Rightarrow> Some (Inl f)
           | Inr (node', s') \<Rightarrow> reverse_from body list node' s')"

definition list_for_each_reverse :: "'a body \<Rightarrow> nat \<Rightarrow> nodes \<times> 'a \<Rightarrow> (nodes \<times> 'a) res option" where
  "list_for_each_reverse body list s =
     (case node_at (fst s) list of Inl f \<Rightarrow> Some (Inl f) | Inr n \<Rightarrow> reverse_from body list (prv n) s)"

partial_function (option) safe_from ::
    "'a body \<Rightarrow> nat \<Rightarrow> nat \<Rightarrow> nat \<Rightarrow> nodes \<times> 'a \<Rightarrow> (nodes \<times> 'a) res option" where
  "safe_from body list node n s =
     (if node = list then Some (Inr s)
      else case bindE (body node s) (\<lambda>s'. bindE (node_at (fst s') n) (\<lambda>m. Inr (nxt m, s'))) of
             Inl f \<Rightarrow> Some (Inl f)
           | Inr (n', s') \<Rightarrow> safe_from body list n n' s')"

definition list_for_each_safe :: "'a body \<Rightarrow> nat \<Rightarrow> nodes \<times> 'a \<Rightarrow> (nodes \<times> 'a) res option" where
  "list_for_each_safe body list s =
     (case bindE (node_at (fst s) list) (\<lambda>m. bindE (node_at (fst s) (nxt m)) (\<lambda>m'. Inr (nxt m, nxt m'))) of
        Inl f \<Rightarrow> Some (Inl f)
      | Inr (node, n) \<Rightarrow> safe_from body list node n s)"

section \<open>The heap as two maps\<close>

definition nx :: "nodes \<Rightarrow> nat \<rightharpoonup> nat" where "nx h a = map_option nxt (h a)"
definition pv :: "nodes \<Rightarrow> nat \<rightharpoonup> nat" where "pv h a = map_option prv (h a)"

lemma dom_nx [simp]: "dom (nx h) = dom h" and dom_pv [simp]: "dom (pv h) = dom h"
  by (auto simp: nx_def pv_def dom_def)

lemma node_at_ok: "nx h a = Some x \<Longrightarrow> pv h a = Some y \<Longrightarrow> node_at h a = Inr \<lparr>nxt = x, prv = y\<rparr>"
  by (auto simp: node_at_def nx_def pv_def split: option.splits)

lemma maps_update [simp]:
  "nx (h(a \<mapsto> n)) = (nx h)(a \<mapsto> nxt n)" "pv (h(a \<mapsto> n)) = (pv h)(a \<mapsto> prv n)"
  by (auto simp: nx_def pv_def fun_eq_iff)

lemma set_nxt_ok:
  assumes "a \<in> dom h"
  shows "\<exists>h'. set_nxt a x h = Inr h' \<and> nx h' = (nx h)(a \<mapsto> x) \<and> pv h' = pv h"
proof -
  obtain n where n: "h a = Some n" using assms by blast
  then have "set_nxt a x h = Inr (h(a \<mapsto> n\<lparr>nxt := x\<rparr>))" by (simp add: set_nxt_def node_at_def)
  moreover have "(pv h)(a \<mapsto> prv n) = pv h" using n by (auto simp: pv_def)
  ultimately show ?thesis by simp
qed

lemma set_prv_ok:
  assumes "a \<in> dom h"
  shows "\<exists>h'. set_prv a x h = Inr h' \<and> pv h' = (pv h)(a \<mapsto> x) \<and> nx h' = nx h"
proof -
  obtain n where n: "h a = Some n" using assms by blast
  then have "set_prv a x h = Inr (h(a \<mapsto> n\<lparr>prv := x\<rparr>))" by (simp add: set_prv_def node_at_def)
  moreover have "(nx h)(a \<mapsto> nxt n) = nx h" using n by (auto simp: nx_def)
  ultimately show ?thesis by simp
qed

lemma dom_views: "nx h' = nx h \<Longrightarrow> dom h' = dom h" "pv h' = pv h \<Longrightarrow> dom h' = dom h"
  by (metis dom_nx, metis dom_pv)

text \<open>What each operation does to the two maps.\<close>

lemma list_init_maps:
  assumes "a \<in> dom h"
  shows "\<exists>h'. list_init a h = Inr h' \<and> nx h' = (nx h)(a \<mapsto> a) \<and> pv h' = (pv h)(a \<mapsto> a)"
proof -
  obtain h1 where 1: "set_nxt a a h = Inr h1" "nx h1 = (nx h)(a \<mapsto> a)" "pv h1 = pv h" using set_nxt_ok [OF assms] by blast
  then have "a \<in> dom h1" using assms dom_views(2) [of h1 h] by simp
  then obtain h2 where "set_prv a a h1 = Inr h2" "pv h2 = (pv h1)(a \<mapsto> a)" "nx h2 = nx h1" using set_prv_ok by blast
  then show ?thesis using 1 by (simp add: list_init_def)
qed

lemma list_add_tail_maps:
  assumes "nx h head = Some f" and "pv h head = Some l" and "l \<in> dom h" and "item \<in> dom h" and "item \<noteq> head"
  shows "\<exists>h'. list_add_tail head item h = Inr h'
    \<and> nx h' = (nx h)(item \<mapsto> head, l \<mapsto> item) \<and> pv h' = (pv h)(item \<mapsto> l, head \<mapsto> item)"
proof -
  obtain h1 where 1: "set_nxt item head h = Inr h1" "nx h1 = (nx h)(item \<mapsto> head)" "pv h1 = pv h"
    using set_nxt_ok [OF assms(4)] by blast
  have d1: "dom h1 = dom h" using 1(3) by (rule dom_views)
  have n1: "node_at h1 head = Inr \<lparr>nxt = f, prv = l\<rparr>" using assms 1 by (intro node_at_ok) auto
  obtain h2 where 2: "set_prv item l h1 = Inr h2" "pv h2 = (pv h1)(item \<mapsto> l)" "nx h2 = nx h1"
    using set_prv_ok [of item h1] assms(4) d1 by blast
  have d2: "dom h2 = dom h" using dom_views(1) [OF 2(3)] d1 by simp
  have n2: "node_at h2 head = Inr \<lparr>nxt = f, prv = l\<rparr>" using assms 1 2 by (intro node_at_ok) auto
  obtain h3 where 3: "set_nxt l item h2 = Inr h3" "nx h3 = (nx h2)(l \<mapsto> item)" "pv h3 = pv h2"
    using set_nxt_ok [of l h2] assms(3) d2 by blast
  have "head \<in> dom h3" using dom_views(2) [OF 3(3)] d2 assms(1) by (metis dom_nx domI)
  then obtain h4 where "set_prv head item h3 = Inr h4" "pv h4 = (pv h3)(head \<mapsto> item)" "nx h4 = nx h3"
    using set_prv_ok by blast
  then show ?thesis using 1 2 3 n1 n2 by (simp add: list_add_tail_def)
qed

lemma list_add_head_maps:
  assumes "nx h head = Some f" and "pv h head = Some l" and "f \<in> dom h" and "item \<in> dom h" and "item \<noteq> head"
  shows "\<exists>h'. list_add_head head item h = Inr h'
    \<and> nx h' = (nx h)(item \<mapsto> f, head \<mapsto> item) \<and> pv h' = (pv h)(item \<mapsto> head, f \<mapsto> item)"
proof -
  have n0: "node_at h head = Inr \<lparr>nxt = f, prv = l\<rparr>" using assms by (intro node_at_ok) auto
  obtain h1 where 1: "set_nxt item f h = Inr h1" "nx h1 = (nx h)(item \<mapsto> f)" "pv h1 = pv h"
    using set_nxt_ok [OF assms(4)] by blast
  have d1: "dom h1 = dom h" using 1(3) by (rule dom_views)
  obtain h2 where 2: "set_prv item head h1 = Inr h2" "pv h2 = (pv h1)(item \<mapsto> head)" "nx h2 = nx h1"
    using set_prv_ok [of item h1] assms(4) d1 by blast
  have d2: "dom h2 = dom h" using dom_views(1) [OF 2(3)] d1 by simp
  have n2: "node_at h2 head = Inr \<lparr>nxt = f, prv = l\<rparr>" using assms 1 2 by (intro node_at_ok) auto
  obtain h3 where 3: "set_prv f item h2 = Inr h3" "pv h3 = (pv h2)(f \<mapsto> item)" "nx h3 = nx h2"
    using set_prv_ok [of f h2] assms(3) d2 by blast
  have "head \<in> dom h3" using dom_views(1) [OF 3(3)] d2 assms(1) by (metis dom_nx domI)
  then obtain h4 where "set_nxt head item h3 = Inr h4" "nx h4 = (nx h3)(head \<mapsto> item)" "pv h4 = pv h3"
    using set_nxt_ok by blast
  then show ?thesis using 1 2 3 n0 n2 by (simp add: list_add_head_def)
qed

lemma list_remove_maps:
  assumes "nx h item = Some a" and "pv h item = Some b" and "a \<in> dom h" and "b \<in> dom h"
  shows "\<exists>h'. list_remove item h = Inr h' \<and> nx h' = (nx h)(b \<mapsto> a) \<and> pv h' = (pv h)(a \<mapsto> b)"
proof -
  have n: "node_at h item = Inr \<lparr>nxt = a, prv = b\<rparr>" using assms by (intro node_at_ok) auto
  obtain h1 where 1: "set_prv a b h = Inr h1" "pv h1 = (pv h)(a \<mapsto> b)" "nx h1 = nx h"
    using set_prv_ok [OF assms(3)] by blast
  have n1: "node_at h1 item = Inr \<lparr>nxt = a, prv = b\<rparr>" using assms 1 by (intro node_at_ok) auto
  have "b \<in> dom h1" using dom_views(1) [OF 1(3)] assms(4) by simp
  then obtain h2 where "set_nxt b a h1 = Inr h2" "nx h2 = (nx h1)(b \<mapsto> a)" "pv h2 = pv h1" using set_nxt_ok by blast
  then show ?thesis using 1 n n1 by (simp add: list_remove_def)
qed

end
