(* ===== verification/ListRings.thy ===== *)
theory ListRings
  imports ListNodes
begin

text \<open>
  What the operations of ListNodes do to rings: a list is a ring of nodes through its head, each
  operation changes one ring the way the list of its elements says and leaves every other node alone,
  and the loops visit the elements in order.
\<close>

section \<open>Calls\<close>

datatype list_call = Init nat | Add_tail nat nat | Add_head nat nat | Remove nat

fun list_exec :: "list_call \<Rightarrow> nodes \<Rightarrow> nodes res" where
  "list_exec (Init a) h = list_init a h"
| "list_exec (Add_tail head i) h = list_add_tail head i h"
| "list_exec (Add_head head i) h = list_add_head head i h"
| "list_exec (Remove i) h = list_remove i h"

section \<open>Links\<close>

text \<open>Every node of \<open>U\<close> has its successor and its predecessor in \<open>U\<close>, and they point back.\<close>

definition well_linked :: "nodes \<Rightarrow> nat set \<Rightarrow> bool" where
  "well_linked h U \<longleftrightarrow> (\<forall>a \<in> U. \<exists>b \<in> U. \<exists>c \<in> U. nx h a = Some b \<and> pv h b = Some a \<and> pv h a = Some c \<and> nx h c = Some a)"

fun links_fit :: "list_call \<Rightarrow> nat set \<Rightarrow> bool" where
  "links_fit (Init a) U \<longleftrightarrow> a \<notin> U"
| "links_fit (Add_tail head i) U \<longleftrightarrow> head \<in> U \<and> i \<notin> U"
| "links_fit (Add_head head i) U \<longleftrightarrow> head \<in> U \<and> i \<notin> U"
| "links_fit (Remove i) U \<longleftrightarrow> i \<in> U"

fun links_after :: "list_call \<Rightarrow> nat set \<Rightarrow> nat set" where
  "links_after (Init a) U = insert a U"
| "links_after (Add_tail head i) U = insert i U"
| "links_after (Add_head head i) U = insert i U"
| "links_after (Remove i) U = U - {i}"

fun call_node :: "list_call \<Rightarrow> nat" where
  "call_node (Init a) = a"
| "call_node (Add_tail head i) = i"
| "call_node (Add_head head i) = i"
| "call_node (Remove i) = i"

lemma well_linked_dom: "well_linked h U \<Longrightarrow> U \<subseteq> dom h"
  unfolding well_linked_def by (metis dom_nx domI subsetI)

lemma list_init_linked:
  assumes "well_linked h U" and "a \<in> dom h" and "a \<notin> U"
  shows "\<exists>h'. list_init a h = Inr h' \<and> dom h' = dom h \<and> well_linked h' (insert a U)"
proof -
  obtain h' where h': "list_init a h = Inr h'" "nx h' = (nx h)(a \<mapsto> a)" "pv h' = (pv h)(a \<mapsto> a)"
    using list_init_maps [OF assms(2)] by blast
  have "dom h' = dom h" using h'(2) assms(2) by (metis dom_nx dom_fun_upd insert_absorb option.distinct(1))
  moreover have "well_linked h' (insert a U)"
    unfolding well_linked_def
  proof
    fix x assume x: "x \<in> insert a U"
    show "\<exists>b\<in>insert a U. \<exists>c\<in>insert a U. nx h' x = Some b \<and> pv h' b = Some x \<and> pv h' x = Some c \<and> nx h' c = Some x"
    proof (cases "x = a")
      case False
      then obtain b c where "b \<in> U" "c \<in> U" "nx h x = Some b" "pv h b = Some x" "pv h x = Some c" "nx h c = Some x"
        using x assms(1) unfolding well_linked_def by blast
      then show ?thesis using False assms(3) by (intro bexI [of _ b] bexI [of _ c]) (auto simp: h'(2,3))
    qed (simp add: h'(2,3))
  qed
  ultimately show ?thesis using h'(1) by blast
qed

lemma list_add_tail_linked:
  assumes "well_linked h U" and "i \<in> dom h" and "head \<in> U" and "i \<notin> U"
  shows "\<exists>h'. list_add_tail head i h = Inr h' \<and> dom h' = dom h \<and> well_linked h' (insert i U)"
proof -
  obtain f l where n: "nx h head = Some f" "pv h head = Some l" "l \<in> U" "nx h l = Some head"
    using assms(1,3) unfolding well_linked_def by blast
  have l: "l \<in> dom h" using n(3) well_linked_dom [OF assms(1)] by blast
  have "i \<noteq> head" using assms(3,4) by blast
  then obtain h' where h': "list_add_tail head i h = Inr h'"
    "nx h' = (nx h)(i \<mapsto> head, l \<mapsto> i)" "pv h' = (pv h)(i \<mapsto> l, head \<mapsto> i)"
    using list_add_tail_maps [OF n(1,2) l assms(2)] by blast
  have "dom (nx h') = dom h" using assms(2) l by (auto simp: h'(2))
  moreover have "well_linked h' (insert i U)"
    unfolding well_linked_def
  proof
    fix a assume a: "a \<in> insert i U"
    show "\<exists>b\<in>insert i U. \<exists>c\<in>insert i U. nx h' a = Some b \<and> pv h' b = Some a \<and> pv h' a = Some c \<and> nx h' c = Some a"
    proof (cases "a = i")
      case True
      then show ?thesis using n(3) assms(3,4) by (intro bexI [of _ head] bexI [of _ l]) (auto simp: h'(2,3))
    next
      case False
      then obtain b c where bc: "b \<in> U" "c \<in> U" "nx h a = Some b" "pv h b = Some a" "pv h a = Some c" "nx h c = Some a"
        using a assms(1) unfolding well_linked_def by blast
      have "b = head \<longleftrightarrow> a = l" "c = l \<longleftrightarrow> a = head" using bc n by auto
      then show ?thesis using False bc assms(4) n
        by (intro bexI [of _ "if a = l then i else b"] bexI [of _ "if a = head then i else c"]) (auto simp: h'(2,3))
    qed
  qed
  ultimately show ?thesis using h'(1) by auto
qed

lemma list_add_head_linked:
  assumes "well_linked h U" and "i \<in> dom h" and "head \<in> U" and "i \<notin> U"
  shows "\<exists>h'. list_add_head head i h = Inr h' \<and> dom h' = dom h \<and> well_linked h' (insert i U)"
proof -
  obtain f l where n: "nx h head = Some f" "pv h head = Some l" "f \<in> U" "pv h f = Some head"
    using assms(1,3) unfolding well_linked_def by blast
  have l: "f \<in> dom h" using n(3) well_linked_dom [OF assms(1)] by blast
  have "i \<noteq> head" using assms(3,4) by blast
  then obtain h' where h': "list_add_head head i h = Inr h'"
    "nx h' = (nx h)(i \<mapsto> f, head \<mapsto> i)" "pv h' = (pv h)(i \<mapsto> head, f \<mapsto> i)"
    using list_add_head_maps [OF n(1,2) l assms(2)] by blast
  have "head \<in> dom h" using n(1) by (metis dom_nx domI)
  then have "dom (nx h') = dom h" using assms(2) by (auto simp: h'(2))
  moreover have "well_linked h' (insert i U)"
    unfolding well_linked_def
  proof
    fix a assume a: "a \<in> insert i U"
    show "\<exists>b\<in>insert i U. \<exists>c\<in>insert i U. nx h' a = Some b \<and> pv h' b = Some a \<and> pv h' a = Some c \<and> nx h' c = Some a"
    proof (cases "a = i")
      case True
      then show ?thesis using n(3) assms(3,4) by (intro bexI [of _ f] bexI [of _ head]) (auto simp: h'(2,3))
    next
      case False
      then obtain b c where bc: "b \<in> U" "c \<in> U" "nx h a = Some b" "pv h b = Some a" "pv h a = Some c" "nx h c = Some a"
        using a assms(1) unfolding well_linked_def by blast
      have "b = f \<longleftrightarrow> a = head" "c = head \<longleftrightarrow> a = f" using bc n by auto
      then show ?thesis using False bc assms(4) n
        by (intro bexI [of _ "if a = head then i else b"] bexI [of _ "if a = f then i else c"]) (auto simp: h'(2,3))
    qed
  qed
  ultimately show ?thesis using h'(1) by auto
qed

lemma list_remove_linked:
  assumes "well_linked h U" and "i \<in> U"
  shows "\<exists>h'. list_remove i h = Inr h' \<and> dom h' = dom h \<and> well_linked h' (U - {i})"
proof -
  obtain f l where n: "f \<in> U" "l \<in> U" "nx h i = Some f" "pv h i = Some l" "pv h f = Some i" "nx h l = Some i"
    using assms unfolding well_linked_def by blast
  have d: "f \<in> dom h" "l \<in> dom h" using n(1,2) well_linked_dom [OF assms(1)] by auto
  obtain h' where h': "list_remove i h = Inr h'" "nx h' = (nx h)(l \<mapsto> f)" "pv h' = (pv h)(f \<mapsto> l)"
    using list_remove_maps [OF n(3,4) d] by blast
  have "dom (nx h') = dom h" using d by (auto simp: h'(2))
  moreover have "well_linked h' (U - {i})"
    unfolding well_linked_def
  proof
    fix a assume a: "a \<in> U - {i}"
    then obtain b c where bc: "b \<in> U" "c \<in> U" "nx h a = Some b" "pv h b = Some a" "pv h a = Some c" "nx h c = Some a"
      using assms(1) unfolding well_linked_def by blast
    have eqs: "b = i \<longleftrightarrow> a = l" "c = i \<longleftrightarrow> a = f" "b = f \<longrightarrow> a = i" "c = l \<longrightarrow> a = i" "f = i \<longleftrightarrow> l = i"
      using bc n by auto
    show "\<exists>b\<in>U - {i}. \<exists>c\<in>U - {i}. nx h' a = Some b \<and> pv h' b = Some a \<and> pv h' a = Some c \<and> nx h' c = Some a"
    proof (intro bexI conjI)
      show "nx h' a = Some (if a = l then f else b)" using bc by (simp add: h'(2))
      show "pv h' a = Some (if a = f then l else c)" using bc by (simp add: h'(3))
      show "pv h' (if a = l then f else b) = Some a" using a bc eqs by (auto simp: h'(3))
      show "nx h' (if a = f then l else c) = Some a" using a bc eqs by (auto simp: h'(2))
      show "(if a = l then f else b) \<in> U - {i}" using a bc eqs n(1) by auto
      show "(if a = f then l else c) \<in> U - {i}" using a bc eqs n(2) by auto
    qed
  qed
  ultimately show ?thesis using h'(1) by auto
qed

lemma list_exec_linked:
  assumes "well_linked h U" and "links_fit c U" and "call_node c \<in> dom h"
  shows "\<exists>h'. list_exec c h = Inr h' \<and> dom h' = dom h \<and> well_linked h' (links_after c U)"
  using assms list_init_linked list_add_tail_linked list_add_head_linked list_remove_linked by (cases c) auto

fun links_fit_all :: "list_call list \<Rightarrow> nat set \<Rightarrow> bool" where
  "links_fit_all [] U \<longleftrightarrow> True"
| "links_fit_all (c # cs) U \<longleftrightarrow> links_fit c U \<and> links_fit_all cs (links_after c U)"

text \<open>
  every sequence of calls that adds only nodes that are in no list and removes only nodes that are
  in one runs without a fault and keeps the heap well linked: each node of a list has its two
  neighbours in a list, and they point back to it.
\<close>

theorem list_calls_keep_links:
  assumes "well_linked h U" and "links_fit_all cs U" and "call_node ` set cs \<subseteq> dom h"
  shows "\<exists>h'. foldE list_exec cs h = Inr h' \<and> dom h' = dom h \<and> well_linked h' (fold links_after cs U)"
  using assms
proof (induction cs arbitrary: h U)
  case (Cons c cs)
  then obtain h1 where 1: "list_exec c h = Inr h1" "dom h1 = dom h" "well_linked h1 (links_after c U)"
    using list_exec_linked [of h U c] by auto
  with Cons.IH [of h1 "links_after c U"] Cons.prems show ?case by auto
qed simp

theorem list_calls_keep_links_witness:
  "\<exists>h'. foldE list_exec [Init 1, Add_tail 1 2, Add_head 1 3, Init 4, Remove 2, Add_tail 4 2] (\<lambda>a. Some \<lparr>nxt = 0, prv = 0\<rparr>) = Inr h'
    \<and> well_linked h' {1, 2, 3, 4}"
proof -
  have "well_linked (\<lambda>a. Some \<lparr>nxt = 0, prv = 0\<rparr>) {}" by (simp add: well_linked_def)
  from list_calls_keep_links [OF this, of "[Init 1, Add_tail 1 2, Add_head 1 3, Init 4, Remove 2, Add_tail 4 2]"]
  have "\<exists>h'. foldE list_exec [Init 1, Add_tail 1 2, Add_head 1 3, Init 4, Remove 2, Add_tail 4 2] (\<lambda>a. Some \<lparr>nxt = 0, prv = 0\<rparr>) = Inr h'
    \<and> well_linked h' (insert 2 (insert 4 (insert 3 (insert 2 {1})) - {2}))" by (auto simp: dom_def)
  moreover have "insert 2 (insert 4 (insert 3 (insert 2 {1})) - {2}) = {1, 2, 3, 4 :: nat}" by auto
  ultimately show ?thesis by simp
qed

section \<open>Rings as lists\<close>

fun path :: "(nat \<rightharpoonup> nat) \<Rightarrow> (nat \<rightharpoonup> nat) \<Rightarrow> nat \<Rightarrow> nat list \<Rightarrow> nat \<Rightarrow> bool" where
  "path n p a [] b \<longleftrightarrow> n a = Some b \<and> p b = Some a"
| "path n p a (x # xs) b \<longleftrightarrow> n a = Some x \<and> p x = Some a \<and> path n p x xs b"

lemma path_append: "path n p a (xs @ x # ys) b \<longleftrightarrow> path n p a xs x \<and> path n p x ys b"
  by (induction xs arbitrary: a) auto

lemma path_update_nx: "z \<notin> set (a # xs) \<Longrightarrow> path (n(z := v)) p a xs b = path n p a xs b"
  by (induction xs arbitrary: a) auto

lemma path_update_pv: "z \<notin> set (xs @ [b]) \<Longrightarrow> path n (p(z := v)) a xs b = path n p a xs b"
  by (induction xs arbitrary: a) auto

lemma path_first: "path n p a xs b \<Longrightarrow> n a = Some (hd (xs @ [b]))"
  by (cases xs) auto

lemma path_last: "path n p a xs b \<Longrightarrow> p b = Some (last (a # xs))"
  by (induction xs arbitrary: a) auto

lemma path_inside: "path n p a xs b \<Longrightarrow> set xs \<subseteq> dom n"
  by (induction xs arbitrary: a) (auto, metis domI path.elims(2))

definition ring :: "nodes \<Rightarrow> nat \<Rightarrow> nat list \<Rightarrow> bool" where
  "ring h head xs \<longleftrightarrow> distinct (head # xs) \<and> path (nx h) (pv h) head xs head"

lemma ring_inside: "ring h head xs \<Longrightarrow> set (head # xs) \<subseteq> dom h"
proof -
  assume "ring h head xs"
  then have "path (nx h) (pv h) head xs head" by (simp add: ring_def)
  from path_inside [OF this] path_first [OF this] have "set xs \<subseteq> dom (nx h)" "head \<in> dom (nx h)" by (auto simp del: dom_nx)
  then show ?thesis by simp
qed

lemma ring_init: "nx h a = Some a \<Longrightarrow> pv h a = Some a \<Longrightarrow> ring h a []"
  by (simp add: ring_def)

text \<open>A ring does not see the updates of nodes outside it.\<close>

lemma path_same:
  assumes "path n p a xs b" and "\<And>z. z \<in> set (a # xs) \<Longrightarrow> n' z = n z" and "\<And>z. z \<in> set (xs @ [b]) \<Longrightarrow> p' z = p z"
  shows "path n' p' a xs b"
  using assms by (induction xs arbitrary: a) auto

lemma ring_same:
  assumes "ring h head xs" and "\<And>z. z \<in> set (head # xs) \<Longrightarrow> nx h' z = nx h z \<and> pv h' z = pv h z"
  shows "ring h' head xs"
  using assms path_same [of "nx h" "pv h" head xs head "nx h'" "pv h'"] by (auto simp: ring_def)

lemma ring_add_tail:
  assumes "ring h head xs" and "i \<notin> set (head # xs)" and "i \<in> dom h"
  shows "\<exists>h'. list_add_tail head i h = Inr h' \<and> ring h' head (xs @ [i])
    \<and> (\<forall>z. z \<notin> set (i # head # xs) \<longrightarrow> nx h' z = nx h z \<and> pv h' z = pv h z) \<and> dom h' = dom h"
proof -
  let ?l = "last (head # xs)"
  have r: "distinct (head # xs)" "path (nx h) (pv h) head xs head" using assms(1) by (auto simp: ring_def)
  have l: "?l \<in> set (head # xs)" by (rule last_in_set) simp
  then have d: "?l \<in> dom h" "head \<in> dom h" using ring_inside [OF assms(1)] by auto
  obtain h' where h': "list_add_tail head i h = Inr h'"
    "nx h' = (nx h)(i \<mapsto> head, ?l \<mapsto> i)" "pv h' = (pv h)(i \<mapsto> ?l, head \<mapsto> i)"
    using list_add_tail_maps [OF path_first [OF r(2)] path_last [OF r(2)] d(1) assms(3)] assms(2) by auto
  have "dom (nx h') = dom h" using assms(3) d by (auto simp: h'(2))
  then have dm: "dom h' = dom h" by simp
  have pth: "path (nx h') (pv h') head (xs @ [i]) head"
  proof (cases xs rule: rev_cases)
    case (snoc ys y)
    then have "path (nx h) (pv h) head ys y" "y \<notin> set (head # ys)" "head \<notin> set (ys @ [y])" "i \<notin> set (head # ys @ [y])"
      using r assms(2) by (auto simp: path_append)
    then show ?thesis using snoc by (auto simp: path_append path_update_nx path_update_pv h'(2,3))
  qed (use assms(2) h' in auto)
  have "distinct (head # xs @ [i])" using r(1) assms(2) by auto
  with pth have rg: "ring h' head (xs @ [i])" unfolding ring_def by blast
  have "\<forall>z. z \<notin> set (i # head # xs) \<longrightarrow> nx h' z = nx h z \<and> pv h' z = pv h z"
    using l by (auto simp only: h'(2,3) fun_upd_apply set_simps insert_iff split: if_splits)
  then show ?thesis using h'(1) rg dm by blast
qed

lemma ring_add_head:
  assumes "ring h head xs" and "i \<notin> set (head # xs)" and "i \<in> dom h"
  shows "\<exists>h'. list_add_head head i h = Inr h' \<and> ring h' head (i # xs)
    \<and> (\<forall>z. z \<notin> set (i # head # xs) \<longrightarrow> nx h' z = nx h z \<and> pv h' z = pv h z) \<and> dom h' = dom h"
proof -
  let ?f = "hd (xs @ [head])"
  have r: "distinct (head # xs)" "path (nx h) (pv h) head xs head" using assms(1) by (auto simp: ring_def)
  have f: "?f \<in> set (head # xs)" by (cases xs) auto
  then have d: "?f \<in> dom h" "head \<in> dom h" using ring_inside [OF assms(1)] by auto
  obtain h' where h': "list_add_head head i h = Inr h'"
    "nx h' = (nx h)(i \<mapsto> ?f, head \<mapsto> i)" "pv h' = (pv h)(i \<mapsto> head, ?f \<mapsto> i)"
    using list_add_head_maps [OF path_first [OF r(2)] path_last [OF r(2)] d(1) assms(3)] assms(2) by auto
  have "dom (nx h') = dom h" using assms(3) d by (auto simp: h'(2))
  then have dm: "dom h' = dom h" by simp
  have pth: "path (nx h') (pv h') head (i # xs) head"
  proof (cases xs)
    case (Cons y ys)
    then have "path (nx h) (pv h) y ys head" "y \<notin> set (ys @ [head])" "head \<notin> set (y # ys)" "i \<notin> set (head # ys @ [y])"
      using r assms(2) by auto
    then show ?thesis using Cons by (auto simp: path_update_nx path_update_pv h'(2,3))
  qed (use assms(2) h' in auto)
  have "distinct (head # i # xs)" using r(1) assms(2) by auto
  with pth have rg: "ring h' head (i # xs)" unfolding ring_def by blast
  have "\<forall>z. z \<notin> set (i # head # xs) \<longrightarrow> nx h' z = nx h z \<and> pv h' z = pv h z"
    using f by (auto simp only: h'(2,3) fun_upd_apply set_simps insert_iff split: if_splits)
  then show ?thesis using h'(1) rg dm by blast
qed

text \<open>Dropping a node: its predecessor and its successor become neighbours.\<close>

lemma path_bypass:
  assumes "path n p a us i" and "path n p i vs b" and "distinct (us @ i # vs)" and "a \<notin> set (us @ i # vs)" and "b \<notin> set (us @ i # vs)"
  shows "path (n(last (a # us) \<mapsto> hd (vs @ [b]))) (p(hd (vs @ [b]) \<mapsto> last (a # us))) a (us @ vs) b"
  using assms
proof (induction us arbitrary: a)
  case Nil
  show ?case
  proof (cases vs)
    case (Cons v ws)
    then have "path n p v ws b" "a \<notin> set (v # ws)" "v \<notin> set (ws @ [b])" using Nil.prems by auto
    then have "path (n(a \<mapsto> v)) (p(v \<mapsto> a)) v ws b" using path_update_nx path_update_pv by simp
    then show ?thesis unfolding Cons by (simp add: fun_upd_def)
  qed (use Nil in simp)
next
  case (Cons u us)
  have "hd (vs @ [b]) \<in> set (b # vs)" by (cases vs) auto
  then have "hd (vs @ [b]) \<noteq> u" using Cons.prems by auto
  moreover have "last (u # us) \<in> set (u # us)" by (rule last_in_set) simp
  then have "last (u # us) \<noteq> a" using Cons.prems by auto
  ultimately show ?case using Cons by auto
qed

lemma ring_remove:
  assumes "ring h head (us @ i # vs)"
  shows "\<exists>h'. list_remove i h = Inr h' \<and> ring h' head (us @ vs) \<and> nx h' i = nx h i \<and> pv h' i = pv h i
    \<and> (\<forall>z. z \<notin> set (head # us @ vs) \<longrightarrow> nx h' z = nx h z \<and> pv h' z = pv h z) \<and> dom h' = dom h"
proof -
  let ?l = "last (head # us)" and ?f = "hd (vs @ [head])"
  have r: "distinct (head # us @ i # vs)" "path (nx h) (pv h) head us i" "path (nx h) (pv h) i vs head"
    using assms by (auto simp: ring_def path_append)
  have l: "?l \<in> set (head # us)" by (rule last_in_set) simp
  have f: "?f \<in> set (head # vs)" by (cases vs) auto
  have d: "?l \<in> dom h" "?f \<in> dom h" using l f ring_inside [OF assms] by auto
  obtain h' where h': "list_remove i h = Inr h'" "nx h' = (nx h)(?l \<mapsto> ?f)" "pv h' = (pv h)(?f \<mapsto> ?l)"
    using list_remove_maps [OF path_first [OF r(3)] path_last [OF r(2)] d(2,1)] by blast
  have ne: "?l \<noteq> i" "?f \<noteq> i" using l f r(1) by auto
  have "dom (nx h') = dom h" using d by (auto simp: h'(2))
  then have dm: "dom h' = dom h" by simp
  have pth: "path (nx h') (pv h') head (us @ vs) head"
    unfolding h'(2,3) by (rule path_bypass) (use r in auto)
  have "distinct (head # us @ vs)" using r(1) by auto
  with pth have rg: "ring h' head (us @ vs)" unfolding ring_def by blast
  have "\<forall>z. z \<notin> set (head # us @ vs) \<longrightarrow> nx h' z = nx h z \<and> pv h' z = pv h z"
    using l f by (auto simp only: h'(2,3) fun_upd_apply set_simps set_append insert_iff Un_iff split: if_splits)
  moreover have "nx h' i = nx h i \<and> pv h' i = pv h i" using ne by (simp add: h'(2,3))
  ultimately show ?thesis using h'(1) rg dm by blast
qed

section \<open>Many lists at once\<close>

type_synonym lists = "nat \<rightharpoonup> nat list"

definition members :: "lists \<Rightarrow> nat set" where
  "members R = {a. \<exists>head xs. R head = Some xs \<and> a \<in> set (head # xs)}"

definition shows_lists :: "nodes \<Rightarrow> lists \<Rightarrow> bool" where
  "shows_lists h R \<longleftrightarrow> (\<forall>head xs. R head = Some xs \<longrightarrow> ring h head xs)
     \<and> (\<forall>a b xs ys. R a = Some xs \<and> R b = Some ys \<and> a \<noteq> b \<longrightarrow> set (a # xs) \<inter> set (b # ys) = {})"

text \<open>The calls on lists: a node leaves the list that holds it.\<close>

fun list_spec :: "list_call \<Rightarrow> lists \<Rightarrow> lists" where
  "list_spec (Init a) R = R(a \<mapsto> [])"
| "list_spec (Add_tail head i) R = R(head \<mapsto> the (R head) @ [i])"
| "list_spec (Add_head head i) R = R(head \<mapsto> i # the (R head))"
| "list_spec (Remove i) R = (\<lambda>head. map_option (remove1 i) (R head))"

fun lists_fit :: "list_call \<Rightarrow> lists \<Rightarrow> bool" where
  "lists_fit (Init a) R \<longleftrightarrow> a \<notin> members R"
| "lists_fit (Add_tail head i) R \<longleftrightarrow> head \<in> dom R \<and> i \<notin> members R"
| "lists_fit (Add_head head i) R \<longleftrightarrow> head \<in> dom R \<and> i \<notin> members R"
| "lists_fit (Remove i) R \<longleftrightarrow> i \<in> members R - dom R"

fun lists_fit_all :: "list_call list \<Rightarrow> lists \<Rightarrow> bool" where
  "lists_fit_all [] R \<longleftrightarrow> True"
| "lists_fit_all (c # cs) R \<longleftrightarrow> lists_fit c R \<and> lists_fit_all cs (list_spec c R)"

lemma shows_ring: "shows_lists h R \<Longrightarrow> R head = Some xs \<Longrightarrow> ring h head xs"
  by (simp add: shows_lists_def)

lemma shows_disjoint:
  "shows_lists h R \<Longrightarrow> R a = Some xs \<Longrightarrow> R b = Some ys \<Longrightarrow> a \<noteq> b \<Longrightarrow> set (a # xs) \<inter> set (b # ys) = {}"
  unfolding shows_lists_def by blast

lemma clear_of:
  assumes "shows_lists h R" and "R head = Some xs" and "R b = Some zs" and "b \<noteq> head"
  shows "set (b # zs) \<inter> set (head # xs) = {}" "i \<notin> members R \<Longrightarrow> set (b # zs) \<inter> set (i # head # xs) = {}"
proof -
  show 1: "set (b # zs) \<inter> set (head # xs) = {}" by (rule shows_disjoint [OF assms(1,3,2,4)])
  assume "i \<notin> members R"
  then have "i \<notin> set (b # zs)" using assms(3) unfolding members_def by blast
  with 1 show "set (b # zs) \<inter> set (i # head # xs) = {}" by (simp add: disjoint_iff)
qed

text \<open>When one list changes, and no other node.\<close>

lemma shows_update:
  assumes "shows_lists h R" and "ring h' head ys" and "set (head # ys) \<subseteq> S"
    and "\<forall>z. z \<notin> S \<longrightarrow> nx h' z = nx h z \<and> pv h' z = pv h z"
    and "\<And>b zs. R b = Some zs \<Longrightarrow> b \<noteq> head \<Longrightarrow> set (b # zs) \<inter> S = {}"
  shows "shows_lists h' (R(head \<mapsto> ys))"
  unfolding shows_lists_def
proof (intro conjI allI impI)
  fix b zs
  assume b: "(R(head \<mapsto> ys)) b = Some zs"
  show "ring h' b zs"
  proof (cases "b = head")
    case False
    then have z: "R b = Some zs" using b by simp
    have "set (b # zs) \<inter> S = {}" by (rule assms(5) [OF z False])
    then show ?thesis using assms(4) by (intro ring_same [OF shows_ring [OF assms(1) z]]) blast
  qed (use b assms(2) in simp)
next
  fix a b xs zs
  assume ab: "(R(head \<mapsto> ys)) a = Some xs \<and> (R(head \<mapsto> ys)) b = Some zs \<and> a \<noteq> b"
  consider "a = head" "xs = ys" "R b = Some zs" "b \<noteq> head" | "b = head" "zs = ys" "R a = Some xs" "a \<noteq> head"
    | "R a = Some xs" "R b = Some zs" "a \<noteq> b"
  proof (cases "a = head")
    case True
    then show ?thesis using that(1) ab by (cases "b = head") simp_all
  next
    case False
    then have "R a = Some xs" using ab by simp
    then show ?thesis using that(2,3) ab False by (cases "b = head") simp_all
  qed
  then show "set (a # xs) \<inter> set (b # zs) = {}"
  proof cases
    case 1
    then show ?thesis using assms(3) assms(5) [OF 1(3,4)] by blast
  next
    case 2
    then show ?thesis using assms(3) assms(5) [OF 2(3,4)] by blast
  next
    case 3
    then show ?thesis by (rule shows_disjoint [OF assms(1)])
  qed
qed

lemma spec_remove:
  assumes "shows_lists h R" and "R head = Some xs" and "i \<in> set xs"
  shows "list_spec (Remove i) R = R(head \<mapsto> remove1 i xs)"
proof
  fix b
  show "list_spec (Remove i) R b = (R(head \<mapsto> remove1 i xs)) b"
    using assms(2,3) shows_disjoint [OF assms(1,2), of b]
    by (cases "R b") (auto simp: disjoint_iff remove1_idem)
qed

lemma list_exec_lists:
  assumes "shows_lists h R" and "lists_fit c R" and "call_node c \<in> dom h"
  shows "\<exists>h'. list_exec c h = Inr h' \<and> dom h' = dom h \<and> shows_lists h' (list_spec c R)"
proof (cases c)
  case (Init a)
  then have a: "a \<in> dom h" "a \<notin> members R" using assms(2,3) by auto
  obtain h' where h': "list_init a h = Inr h'" "nx h' = (nx h)(a \<mapsto> a)" "pv h' = (pv h)(a \<mapsto> a)"
    using list_init_maps [OF a(1)] by blast
  have "dom (nx h') = dom h" using a(1) by (auto simp: h'(2))
  moreover have "shows_lists h' (R(a \<mapsto> []))"
    by (rule shows_update [OF assms(1), where S = "{a}"]) (use a(2) in \<open>auto simp: h' ring_def members_def\<close>)
  ultimately show ?thesis using Init h'(1) by simp
next
  case (Add_tail head i)
  then obtain xs where xs: "R head = Some xs" "i \<notin> members R" "i \<in> dom h" using assms(2,3) by auto
  then have "i \<notin> set (head # xs)" by (auto simp: members_def)
  from ring_add_tail [OF shows_ring [OF assms(1) xs(1)] this xs(3)] obtain h' where
    h': "list_add_tail head i h = Inr h'" "ring h' head (xs @ [i])"
    "\<forall>z. z \<notin> set (i # head # xs) \<longrightarrow> nx h' z = nx h z \<and> pv h' z = pv h z" "dom h' = dom h" by blast
  have "shows_lists h' (R(head \<mapsto> xs @ [i]))"
    by (rule shows_update [OF assms(1) h'(2) _ h'(3)])
       (use xs(1) clear_of(2) [OF assms(1) xs(1) _ _ xs(2)] in auto)
  then show ?thesis using Add_tail h'(1,4) xs(1) by simp
next
  case (Add_head head i)
  then obtain xs where xs: "R head = Some xs" "i \<notin> members R" "i \<in> dom h" using assms(2,3) by auto
  then have "i \<notin> set (head # xs)" by (auto simp: members_def)
  from ring_add_head [OF shows_ring [OF assms(1) xs(1)] this xs(3)] obtain h' where
    h': "list_add_head head i h = Inr h'" "ring h' head (i # xs)"
    "\<forall>z. z \<notin> set (i # head # xs) \<longrightarrow> nx h' z = nx h z \<and> pv h' z = pv h z" "dom h' = dom h" by blast
  have "shows_lists h' (R(head \<mapsto> i # xs))"
    by (rule shows_update [OF assms(1) h'(2) _ h'(3)])
       (use xs(1) clear_of(2) [OF assms(1) xs(1) _ _ xs(2)] in auto)
  then show ?thesis using Add_head h'(1,4) xs(1) by simp
next
  case (Remove i)
  then obtain head xs where xs: "R head = Some xs" "i \<in> set xs" using assms(2) by (auto simp: members_def)
  then obtain us vs where sp: "xs = us @ i # vs" "i \<notin> set us" by (meson split_list_first)
  have "ring h head (us @ i # vs)" using shows_ring [OF assms(1) xs(1)] sp(1) by simp
  from ring_remove [OF this] obtain h' where
    h': "list_remove i h = Inr h'" "ring h' head (us @ vs)"
    "\<forall>z. z \<notin> set (head # us @ vs) \<longrightarrow> nx h' z = nx h z \<and> pv h' z = pv h z" "dom h' = dom h" by blast
  have "shows_lists h' (R(head \<mapsto> us @ vs))"
    by (rule shows_update [OF assms(1) h'(2) _ h'(3)])
       (use clear_of(1) [OF assms(1) xs(1)] sp(1) in auto)
  moreover have "list_spec c R = R(head \<mapsto> us @ vs)"
    using spec_remove [OF assms(1) xs] sp by (simp add: Remove remove1_append)
  ultimately show ?thesis using Remove h'(1,4) by simp
qed

text \<open>
  C20: any sequence of calls on any number of lists runs without a fault and leaves in the heap the
  lists that the same calls on plain lists give, provided that a node is added only when it is in no
  list and removed only when it is an element of one.
\<close>

theorem list_calls_refine:
  assumes "shows_lists h R" and "lists_fit_all cs R" and "call_node ` set cs \<subseteq> dom h"
  shows "\<exists>h'. foldE list_exec cs h = Inr h' \<and> shows_lists h' (fold list_spec cs R)"
  using assms
proof (induction cs arbitrary: h R)
  case (Cons c cs)
  then obtain h1 where 1: "list_exec c h = Inr h1" "dom h1 = dom h" "shows_lists h1 (list_spec c R)"
    using list_exec_lists [of h R c] by auto
  with Cons.IH [of h1 "list_spec c R"] Cons.prems show ?case by auto
qed simp

theorem list_calls_refine_witness:
  "\<exists>h'. foldE list_exec [Init 1, Add_tail 1 2, Add_head 1 3, Init 4, Remove 2, Add_tail 4 2] (\<lambda>a. Some \<lparr>nxt = 0, prv = 0\<rparr>) = Inr h'
    \<and> ring h' 1 [3] \<and> ring h' 4 [2]"
proof -
  let ?cs = "[Init 1, Add_tail 1 2, Add_head 1 3, Init 4, Remove 2, Add_tail 4 2]"
  have "shows_lists (\<lambda>a. Some \<lparr>nxt = 0, prv = 0\<rparr>) Map.empty" by (simp add: shows_lists_def)
  moreover have "lists_fit_all ?cs Map.empty"
    by (auto simp: members_def split: if_splits)
  ultimately obtain h' where "foldE list_exec ?cs (\<lambda>a. Some \<lparr>nxt = 0, prv = 0\<rparr>) = Inr h'"
    "shows_lists h' (fold list_spec ?cs Map.empty)"
    using list_calls_refine [of "\<lambda>a. Some \<lparr>nxt = 0, prv = 0\<rparr>" Map.empty ?cs] by (auto simp: dom_def)
  moreover from this(2) have "ring h' 1 [3]" "ring h' 4 [2]" by (auto elim!: shows_ring)
  ultimately show ?thesis by blast
qed

section \<open>Traversals\<close>

lemma ring_node:
  assumes "ring h head xs"
  shows "node_at h head = Inr \<lparr>nxt = hd (xs @ [head]), prv = last (head # xs)\<rparr>"
proof -
  have p: "path (nx h) (pv h) head xs head" using assms by (simp add: ring_def)
  show ?thesis by (rule node_at_ok [OF path_first [OF p] path_last [OF p]])
qed

lemma ring_first_inside: "ring h head xs \<Longrightarrow> hd (xs @ [head]) \<in> dom h"
  using ring_inside [of h head xs] by (cases xs) simp_all

lemma each_from_path:
  assumes "path (nx h) (pv h) a xs list" and "list \<notin> set xs" and "\<And>x acc. body x (h, acc) = Inr (h, f x acc)"
  shows "each_from body list (hd (xs @ [list])) (h, acc) = Some (Inr (h, fold f xs acc))"
  using assms(1,2)
proof (induction xs arbitrary: a acc)
  case Nil
  then show ?case by (subst each_from.simps) simp
next
  case (Cons x xs)
  then have "nx h x = Some (hd (xs @ [list]))" by (auto dest: path_first)
  then obtain n where "node_at h x = Inr n" "nxt n = hd (xs @ [list])" by (auto simp: node_at_def nx_def)
  with Cons.IH [of x "f x acc"] Cons.prems show ?case
    by (subst each_from.simps) (simp add: assms(3))
qed

lemma reverse_from_path:
  assumes "path (nx h) (pv h) list xs b" and "list \<notin> set xs" and "\<And>x acc. body x (h, acc) = Inr (h, f x acc)"
  shows "reverse_from body list (last (list # xs)) (h, acc) = Some (Inr (h, fold f (rev xs) acc))"
  using assms(1,2)
proof (induction xs arbitrary: b acc rule: rev_induct)
  case Nil
  then show ?case by (subst reverse_from.simps) simp
next
  case (snoc x xs)
  then have p: "path (nx h) (pv h) list xs x" "list \<notin> set xs" "x \<noteq> list" by (auto simp: path_append)
  then have "pv h x = Some (last (list # xs))" by (auto dest: path_last)
  then obtain n where "node_at h x = Inr n" "prv n = last (list # xs)" by (auto simp: node_at_def pv_def)
  with snoc.IH [OF p(1,2), of "f x acc"] p(3) show ?case
    by (subst reverse_from.simps) (simp add: assms(3))
qed

text \<open>
  the traversal macros visit the elements of a list in its order and in the reverse order, and
  stop at the head, for every body that leaves the heap alone.
\<close>

theorem list_for_each_visits:
  assumes "ring h head xs" and "\<And>x acc. body x (h, acc) = Inr (h, f x acc)"
  shows "list_for_each body head (h, acc) = Some (Inr (h, fold f xs acc))
    \<and> list_for_each_reverse body head (h, acc) = Some (Inr (h, fold f (rev xs) acc))"
proof -
  have p: "path (nx h) (pv h) head xs head" "head \<notin> set xs" using assms(1) by (auto simp: ring_def)
  from each_from_path [OF p, of body f acc] reverse_from_path [OF p, of body f acc] assms(2) ring_node [OF assms(1)]
  show ?thesis by (simp add: list_for_each_def list_for_each_reverse_def)
qed

definition two_nodes :: nodes where
  "two_nodes = [1 \<mapsto> \<lparr>nxt = 5, prv = 7\<rparr>, 5 \<mapsto> \<lparr>nxt = 7, prv = 1\<rparr>, 7 \<mapsto> \<lparr>nxt = 1, prv = 5\<rparr>]"

lemma two_nodes_ring: "ring two_nodes 1 [5, 7]"
  by (simp add: ring_def two_nodes_def nx_def pv_def)

theorem list_for_each_visits_witness:
  "list_for_each (\<lambda>x (h, acc). Inr (h, x # acc)) 1 (two_nodes, []) = Some (Inr (two_nodes, [7, 5]))
    \<and> list_for_each_reverse (\<lambda>x (h, acc). Inr (h, x # acc)) 1 (two_nodes, []) = Some (Inr (two_nodes, [5, 7]))"
  using list_for_each_visits [OF two_nodes_ring, of "\<lambda>x (h, acc). Inr (h, x # acc)" "(#)" "[]"] by simp

text \<open>A body that takes its node out of the list and gives the memory back.\<close>

definition drop_node :: "(nat \<Rightarrow> 'a \<Rightarrow> 'a) \<Rightarrow> 'a body" where
  "drop_node f x s = bindE (list_remove x (fst s)) (\<lambda>h. Inr (h(x := None), f x (snd s)))"

lemma drop_node_first:
  assumes "ring h head (x # xs)"
  shows "\<exists>h'. drop_node f x (h, acc) = Inr (h', f x acc) \<and> ring h' head xs \<and> dom h' = dom h - {x}"
proof -
  have x: "x \<notin> set (head # xs)" using assms by (auto simp: ring_def)
  obtain h1 where h1: "list_remove x h = Inr h1" "ring h1 head xs" "dom h1 = dom h"
    using ring_remove [of h head "[]" x xs] assms by auto
  have "ring (h1(x := None)) head xs"
    by (rule ring_same [OF h1(2)]) (use x in \<open>auto simp: nx_def pv_def\<close>)
  then show ?thesis using h1 by (simp add: drop_node_def)
qed

lemma safe_from_drops:
  assumes "ring h head xs" and "xs \<noteq> [] \<longrightarrow> n = hd (tl xs @ [head])"
  shows "\<exists>h'. safe_from (drop_node f) head (hd (xs @ [head])) n (h, acc) = Some (Inr (h', fold f xs acc))
    \<and> ring h' head [] \<and> dom h' = dom h - set xs"
  using assms
proof (induction xs arbitrary: h n acc)
  case Nil
  then show ?case by (subst safe_from.simps) simp
next
  case (Cons x xs)
  obtain h1 where h1: "drop_node f x (h, acc) = Inr (h1, f x acc)" "ring h1 head xs" "dom h1 = dom h - {x}"
    using drop_node_first [OF Cons.prems(1), of f acc] by blast
  have n: "n = hd (xs @ [head])" using Cons.prems(2) by simp
  have "n \<in> dom h1" using ring_first_inside [OF h1(2)] n by simp
  then obtain m where m: "h1 n = Some m" by blast
  have "xs \<noteq> [] \<longrightarrow> nxt m = hd (tl xs @ [head])"
  proof
    assume "xs \<noteq> []"
    then obtain y ys where xs: "xs = y # ys" by (cases xs) auto
    then have "path (nx h1) (pv h1) y ys head" using h1(2) by (simp add: ring_def)
    then have "nx h1 y = Some (hd (ys @ [head]))" by (rule path_first)
    then show "nxt m = hd (tl xs @ [head])" using m n xs by (simp add: nx_def)
  qed
  from Cons.IH [OF h1(2) this, of "f x acc"] obtain h' where
    "safe_from (drop_node f) head (hd (xs @ [head])) (nxt m) (h1, f x acc) = Some (Inr (h', fold f xs (f x acc)))"
    "ring h' head []" "dom h' = dom h1 - set xs" by blast
  moreover have "x \<noteq> head" using Cons.prems(1) by (auto simp: ring_def)
  ultimately show ?case using h1(1,3) m n
    by (subst safe_from.simps) (auto simp: node_at_def)
qed

text \<open>
  \<^verbatim>\<open>list_for_each_safe\<close> survives a body that removes and frees its node: it visits every element
  and leaves an empty list, with all of the nodes freed; \<^verbatim>\<open>list_for_each\<close> with the same body reads the
  freed node, unless the list is empty.
\<close>

theorem list_for_each_safe_drains:
  assumes "ring h head xs"
  shows "(\<exists>h'. list_for_each_safe (drop_node f) head (h, acc) = Some (Inr (h', fold f xs acc))
        \<and> ring h' head [] \<and> dom h' = dom h - set xs)
    \<and> (xs = [] \<or> list_for_each (drop_node f) head (h, acc) = Some (Inl NullDeref))"
proof -
  have p: "path (nx h) (pv h) head xs head" using assms by (simp add: ring_def)
  obtain m where m: "h (hd (xs @ [head])) = Some m" using ring_first_inside [OF assms] by blast
  have "xs \<noteq> [] \<longrightarrow> nxt m = hd (tl xs @ [head])"
  proof
    assume "xs \<noteq> []"
    then obtain y ys where xs: "xs = y # ys" by (cases xs) auto
    then have "nx h y = Some (hd (ys @ [head]))" using p path_first by auto
    then show "nxt m = hd (tl xs @ [head])" using m xs by (simp add: nx_def)
  qed
  from safe_from_drops [OF assms this, of f acc]
  have 1: "\<exists>h'. list_for_each_safe (drop_node f) head (h, acc) = Some (Inr (h', fold f xs acc))
      \<and> ring h' head [] \<and> dom h' = dom h - set xs"
    using ring_node [OF assms] m by (simp add: list_for_each_safe_def node_at_def)
  have "list_for_each (drop_node f) head (h, acc) = Some (Inl NullDeref)" if ne: "xs \<noteq> []"
  proof -
    obtain y ys where xs: "xs = y # ys" using ne by (cases xs) auto
    then obtain h1 where h1: "drop_node f y (h, acc) = Inr (h1, f y acc)" "dom h1 = dom h - {y}"
      using drop_node_first [of h head y ys f acc] assms xs by blast
    have "y \<noteq> head" using assms xs by (auto simp: ring_def)
    moreover have "h1 y = None" using h1(2) by auto
    ultimately show ?thesis using ring_node [OF assms] h1(1) xs
      by (simp add: list_for_each_def each_from.simps node_at_def)
  qed
  with 1 show ?thesis by blast
qed

theorem list_for_each_safe_drains_witness:
  "(\<exists>h'. list_for_each_safe (drop_node (#)) 1 (two_nodes, []) = Some (Inr (h', [7, 5])) \<and> ring h' 1 [] \<and> dom h' = {1})
    \<and> list_for_each (drop_node (#)) 1 (two_nodes, []) = Some (Inl NullDeref)"
proof -
  have "dom two_nodes - set [5, 7] = {1}" by (auto simp: two_nodes_def)
  with list_for_each_safe_drains [OF two_nodes_ring, of "(#)" "[]"] show ?thesis by simp
qed

end
