(* ===== verification/Llist.thy ===== *)
theory Llist
  imports Prelude
begin

text \<open>
  The \<^verbatim>\<open>NULL\<close>-terminated single linked list of libutils/llist.h. The file descends from the lock-less
  list of the Linux kernel, but its operations are plain loads and stores, and the compare-and-swap of
  \<^verbatim>\<open>llist_add_batch\<close> that would publish the new entries is gone. A node is an address that the heap maps to
  its \<^verbatim>\<open>next\<close> field; 0 is \<^verbatim>\<open>NULL\<close>, and an access to an address without a node is a fault.
\<close>

section \<open>Heads and operations\<close>

record llist_head =
  first :: nat
  links :: "nat \<rightharpoonup> nat"

definition link_at :: "(nat \<rightharpoonup> nat) \<Rightarrow> nat \<Rightarrow> nat res" where
  "link_at h a = (case h a of None \<Rightarrow> Inl NullDeref | Some n \<Rightarrow> Inr n)"

definition init_llist_head :: "llist_head \<Rightarrow> llist_head" where
  "init_llist_head l = l\<lparr>first := 0\<rparr>"

definition llist_empty :: "llist_head \<Rightarrow> bool" where
  "llist_empty l \<longleftrightarrow> first l = 0"

definition llist_next :: "nat \<Rightarrow> (nat \<rightharpoonup> nat) \<Rightarrow> nat res" where
  "llist_next node h = link_at h node"

definition llist_add_batch :: "nat \<Rightarrow> nat \<Rightarrow> llist_head \<Rightarrow> (bool \<times> llist_head) res" where
  "llist_add_batch new_first new_last l =
     bindE (link_at (links l) new_last) (\<lambda>_. Inr (True, l\<lparr>links := (links l)(new_last \<mapsto> first l)\<rparr>))"

definition llist_add :: "nat \<Rightarrow> llist_head \<Rightarrow> (bool \<times> llist_head) res" where
  "llist_add new l = llist_add_batch new new l"

definition llist_del_all :: "llist_head \<Rightarrow> nat \<times> llist_head" where
  "llist_del_all l = (if first l = 0 then (0, l) else (first l, l\<lparr>first := 0\<rparr>))"

definition llist_del_first :: "llist_head \<Rightarrow> (nat \<times> llist_head) res" where
  "llist_del_first l = bindE (link_at (links l) (first l)) (\<lambda>n. Inr (first l, l\<lparr>first := n\<rparr>))"

partial_function (option) reverse_loop :: "nat \<Rightarrow> nat \<Rightarrow> (nat \<rightharpoonup> nat) \<Rightarrow> (nat \<times> (nat \<rightharpoonup> nat)) res option" where
  "reverse_loop head new_head h =
     (if head = 0 then Some (Inr (new_head, h))
      else case link_at h head of
             Inl f \<Rightarrow> Some (Inl f)
           | Inr n \<Rightarrow> reverse_loop n head (h(head \<mapsto> new_head)))"

definition llist_reverse_order :: "nat \<Rightarrow> (nat \<rightharpoonup> nat) \<Rightarrow> (nat \<times> (nat \<rightharpoonup> nat)) res option" where
  "llist_reverse_order head h = reverse_loop head 0 h"

text \<open>The loop \<^verbatim>\<open>llist_for_each\<close>; the body may change the heap.\<close>

partial_function (option) llist_for_each ::
    "(nat \<Rightarrow> (nat \<rightharpoonup> nat) \<times> 'a \<Rightarrow> ((nat \<rightharpoonup> nat) \<times> 'a) res) \<Rightarrow> nat \<Rightarrow> (nat \<rightharpoonup> nat) \<times> 'a \<Rightarrow> ((nat \<rightharpoonup> nat) \<times> 'a) res option" where
  "llist_for_each body pos s =
     (if pos = 0 then Some (Inr s)
      else case bindE (body pos s) (\<lambda>s'. bindE (link_at (fst s') pos) (\<lambda>n. Inr (n, s'))) of
             Inl f \<Rightarrow> Some (Inl f)
           | Inr (pos', s') \<Rightarrow> llist_for_each body pos' s')"

section \<open>Chains\<close>

fun chain :: "(nat \<rightharpoonup> nat) \<Rightarrow> nat \<Rightarrow> nat list \<Rightarrow> bool" where
  "chain h p [] \<longleftrightarrow> p = 0"
| "chain h p (x # xs) \<longleftrightarrow> p = x \<and> x \<noteq> 0 \<and> (\<exists>n. h x = Some n \<and> chain h n xs)"

lemma chain_outside [simp]: "a \<notin> set xs \<Longrightarrow> chain (h(a := v)) p xs = chain h p xs"
  by (induction xs arbitrary: p) auto

lemma chain_zero: "chain h 0 xs \<longleftrightarrow> xs = []"
  by (cases xs) auto

lemma chain_functional: "chain h p xs \<Longrightarrow> chain h p ys \<Longrightarrow> xs = ys"
proof (induction xs arbitrary: p ys)
  case (Cons x xs)
  then show ?case by (cases ys) auto
qed (use chain_zero in auto)

lemma chain_suffix: "chain h p (xs @ y # ys) \<Longrightarrow> chain h y (y # ys)"
  by (induction xs arbitrary: p) auto

lemma chain_distinct: "chain h p xs \<Longrightarrow> distinct xs"
proof (induction xs arbitrary: p)
  case (Cons x xs)
  have "x \<notin> set xs"
  proof
    assume "x \<in> set xs"
    then obtain us vs where xs: "xs = us @ x # vs" by (meson split_list)
    then have "chain h x (x # vs)" using Cons.prems chain_suffix [of h p "x # us" x vs] by simp
    then have "x # xs = x # vs" using Cons.prems chain_functional [of h x "x # xs" "x # vs"] by simp
    then show False using xs by (metis append_Cons append_self_conv2 length_Cons length_append list.inject
      not_add_less2 lessI plus_nat.simps)
  qed
  then show ?case using Cons by auto
qed simp

lemma reverse_loop_chain:
  assumes "chain h p xs" and "chain h q ys" and "set xs \<inter> set ys = {}"
  shows "\<exists>h' r. reverse_loop p q h = Some (Inr (r, h')) \<and> chain h' r (rev xs @ ys)
    \<and> (\<forall>z. z \<notin> set xs \<longrightarrow> h' z = h z)"
  using assms
proof (induction xs arbitrary: h p q ys)
  case Nil
  then show ?case by (subst reverse_loop.simps) simp
next
  case (Cons x xs)
  then obtain n where n: "h x = Some n" "chain h n xs" "p = x" "x \<noteq> 0" by auto
  have x: "x \<notin> set xs" using chain_distinct [OF Cons.prems(1)] by simp
  let ?h = "h(x \<mapsto> q)"
  have "chain ?h n xs" "chain ?h x (x # ys)" "set xs \<inter> set (x # ys) = {}" using n x Cons.prems by auto
  from Cons.IH [OF this] obtain h' r where
    "reverse_loop n x ?h = Some (Inr (r, h'))" "chain h' r (rev xs @ x # ys)" "\<forall>z. z \<notin> set xs \<longrightarrow> h' z = ?h z"
    by blast
  then show ?case using n by (subst reverse_loop.simps) (simp add: link_at_def)
qed

section \<open>Properties\<close>

text \<open>
  C38: \<^verbatim>\<open>llist_reverse_order\<close> ends on every chain, reverses it in place, touches no other node, and a
  second call gives the first chain back.
\<close>

theorem llist_reverse_order_reverses:
  assumes "chain h p xs"
  shows "\<exists>h' r. llist_reverse_order p h = Some (Inr (r, h')) \<and> chain h' r (rev xs) \<and> (\<forall>z. z \<notin> set xs \<longrightarrow> h' z = h z)
    \<and> llist_reverse_order r h' = Some (Inr (p, h))"
proof -
  obtain h1 r1 where 1: "llist_reverse_order p h = Some (Inr (r1, h1))" "chain h1 r1 (rev xs)" "\<forall>z. z \<notin> set xs \<longrightarrow> h1 z = h z"
    using reverse_loop_chain [OF assms, of 0 "[]"] by (auto simp: llist_reverse_order_def)
  obtain h2 r2 where 2: "llist_reverse_order r1 h1 = Some (Inr (r2, h2))" "chain h2 r2 xs" "\<forall>z. z \<notin> set xs \<longrightarrow> h2 z = h1 z"
    using reverse_loop_chain [OF 1(2), of 0 "[]"] by (auto simp: llist_reverse_order_def)
  have "chain h p xs \<Longrightarrow> chain h2 q xs \<Longrightarrow> p = q \<and> (\<forall>z \<in> set xs. h2 z = h z)" for p q xs
  proof (induction xs arbitrary: p q)
    case (Cons x xs)
    then obtain n m where "h x = Some n" "chain h n xs" "h2 x = Some m" "chain h2 m xs" by auto
    with Cons show ?case by auto
  qed simp
  from this [OF assms 2(2)] have "p = r2" "\<forall>z \<in> set xs. h2 z = h z" by auto
  moreover from this(2) 1(3) 2(3) have "h2 = h" by (auto simp: fun_eq_iff)
  ultimately show ?thesis using 1 2(1) by blast
qed

theorem llist_reverse_order_reverses_witness:
  "\<exists>h' r. llist_reverse_order 4 [4 \<mapsto> 9, 9 \<mapsto> 2, 2 \<mapsto> 0] = Some (Inr (r, h')) \<and> chain h' r [2, 9, 4]"
  using llist_reverse_order_reverses [of "[4 \<mapsto> 9, 9 \<mapsto> 2, 2 \<mapsto> 0]" 4 "[4, 9, 2]"] by auto

text \<open>The entries that the callers of \<^verbatim>\<open>llist_add\<close> and \<^verbatim>\<open>llist_add_batch\<close> pass, and a reader in between.\<close>

datatype llist_call = L_add nat | L_add_batch nat nat | L_del_all

fun llist_exec :: "llist_call \<Rightarrow> llist_head \<Rightarrow> llist_head res" where
  "llist_exec (L_add a) l = bindE (llist_add a l) (\<lambda>(_, l'). Inr l')"
| "llist_exec (L_add_batch a b) l = bindE (llist_add_batch a b l) (\<lambda>(_, l'). Inr l')"
| "llist_exec L_del_all l = Inr (snd (llist_del_all l))"

lemma llist_exec_first: "first l = 0 \<Longrightarrow> llist_exec c l = Inr l' \<Longrightarrow> first l' = 0"
  by (cases c) (auto simp: llist_add_def llist_add_batch_def llist_del_all_def res_simps)

lemma llist_exec_dom: "llist_exec c l = Inr l' \<Longrightarrow> dom (links l') = dom (links l)"
  by (cases c) (auto simp: llist_add_def llist_add_batch_def llist_del_all_def res_simps link_at_def split: option.splits if_splits)

lemma llist_exec_all:
  "first l = 0 \<Longrightarrow> foldE llist_exec cs l = Inr l' \<Longrightarrow> first l' = 0 \<and> dom (links l') = dom (links l)"
proof (induction cs arbitrary: l)
  case (Cons c cs)
  then obtain l1 where "llist_exec c l = Inr l1" "foldE llist_exec cs l1 = Inr l'" by (auto simp: res_simps)
  with Cons.IH [of l1] llist_exec_first [OF Cons.prems(1)] llist_exec_dom show ?case by fastforce
qed simp

text \<open>
  an entry that is added never gets into the list: after any additions to a fresh head the list is
  still empty, \<^verbatim>\<open>llist_del_all\<close> answers \<^verbatim>\<open>NULL\<close> and \<^verbatim>\<open>llist_del_first\<close> follows the null pointer; and an
  addition answers true on a list that is not empty, whose entries it leaves as they were.
\<close>

theorem llist_add_loses:
  assumes "foldE llist_exec cs (init_llist_head l) = Inr l'" and "links l 0 = None"
    and "chain (links k) (first k) xs" and "a \<in> dom (links k)" and "a \<notin> set xs"
  shows "llist_empty l' \<and> llist_del_all l' = (0, l') \<and> llist_del_first l' = Inl NullDeref
    \<and> (\<exists>k'. llist_add a k = Inr (True, k') \<and> first k' = first k \<and> chain (links k') (first k') xs
        \<and> (a \<noteq> 0 \<longrightarrow> chain (links k') a (a # xs)))"
proof -
  have "first l' = 0 \<and> dom (links l') = dom (links (init_llist_head l))"
    by (rule llist_exec_all [OF _ assms(1)]) (simp add: init_llist_head_def)
  then have l': "first l' = 0" "links l' 0 = None" using assms(2) by (auto simp: init_llist_head_def)
  have "\<exists>k'. llist_add a k = Inr (True, k') \<and> first k' = first k \<and> chain (links k') (first k') xs
      \<and> (a \<noteq> 0 \<longrightarrow> chain (links k') a (a # xs))"
    using assms(3-5) by (auto simp: llist_add_def llist_add_batch_def link_at_def)
  with l' show ?thesis by (simp add: llist_empty_def llist_del_all_def llist_del_first_def link_at_def)
qed

theorem llist_add_loses_witness:
  "\<exists>l'. foldE llist_exec [L_add 3, L_add 8] (init_llist_head \<lparr>first = 77, links = [3 \<mapsto> 1, 8 \<mapsto> 1]\<rparr>) = Inr l' \<and> llist_empty l'
    \<and> (\<exists>k'. llist_add 3 \<lparr>first = 8, links = [8 \<mapsto> 0, 3 \<mapsto> 0]\<rparr> = Inr (True, k') \<and> chain (links k') (first k') [8])"
proof -
  let ?l = "\<lparr>first = 77, links = [3 \<mapsto> 1, 8 \<mapsto> 1]\<rparr>" and ?k = "\<lparr>first = 8, links = [8 \<mapsto> 0, 3 \<mapsto> 0]\<rparr>"
  obtain l' where l': "foldE llist_exec [L_add 3, L_add 8] (init_llist_head ?l) = Inr l'"
    by (simp add: init_llist_head_def llist_add_def llist_add_batch_def link_at_def)
  have "chain (links ?k) (first ?k) [8]" "3 \<in> dom (links ?k)" "3 \<notin> set [8 :: nat]" "links ?l 0 = None" by simp_all
  from llist_add_loses [OF l' this(4,1-3)] show ?thesis using l' by blast
qed

lemma llist_for_each_chain:
  assumes "chain h p xs" and "\<And>x acc. body x (h, acc) = Inr (h, f x acc)"
  shows "llist_for_each body p (h, acc) = Some (Inr (h, fold f xs acc))"
  using assms(1)
proof (induction xs arbitrary: p acc)
  case Nil
  then show ?case by (subst llist_for_each.simps) simp
next
  case (Cons x xs)
  then obtain n where "p = x" "x \<noteq> 0" "h x = Some n" "chain h n xs" by auto
  with Cons.IH [of n "f x acc"] show ?case
    by (subst llist_for_each.simps) (simp add: assms(2) link_at_def)
qed

text \<open>
  on a list that holds entries, \<^verbatim>\<open>llist_del_first\<close> takes the newest, and \<^verbatim>\<open>llist_del_all\<close> takes the whole
  chain, which a traversal then visits in order, and leaves the list empty.
\<close>

theorem llist_del_takes:
  assumes "chain (links l) (first l) (x # xs)"
  shows "(\<exists>l'. llist_del_first l = Inr (x, l') \<and> chain (links l') (first l') xs)
    \<and> (\<exists>l'. llist_del_all l = (x, l') \<and> llist_empty l'
        \<and> llist_for_each (\<lambda>x (h, acc). Inr (h, acc @ [x])) x (links l', []) = Some (Inr (links l', x # xs)))"
proof -
  have f: "fold (\<lambda>x acc. acc @ [x]) ys zs = zs @ ys" for ys zs :: "nat list" by (induction ys arbitrary: zs) auto
  have "chain (links l) x (x # xs)" using assms by auto
  from llist_for_each_chain [OF this, of "\<lambda>x (h, acc). Inr (h, acc @ [x])" "\<lambda>x acc. acc @ [x]" "[]"]
  show ?thesis using assms
    by (auto simp: llist_del_first_def llist_del_all_def llist_empty_def link_at_def f)
qed

theorem llist_del_takes_witness:
  "\<exists>l'. llist_del_first \<lparr>first = 4, links = [4 \<mapsto> 9, 9 \<mapsto> 0]\<rparr> = Inr (4, l') \<and> chain (links l') (first l') [9]"
  using llist_del_takes [of "\<lparr>first = 4, links = [4 \<mapsto> 9, 9 \<mapsto> 0]\<rparr>" 4 "[9]"] by simp

section \<open>Entries\<close>

text \<open>
  A node may sit inside an entry, at the offset \<open>off\<close>: then the loops go over the addresses of the entries, in the arithmetic
  of 64-bit pointers, and know the end by the node of the entry being \<^verbatim>\<open>NULL\<close>.
\<close>

definition container_of :: "u64 \<Rightarrow> u64 \<Rightarrow> u64" where
  "container_of ptr off = ptr - off"

definition llist_entry :: "nat \<Rightarrow> u64 \<Rightarrow> u64" where
  "llist_entry p off = container_of (of_nat p) off"

definition member_at :: "u64 \<Rightarrow> u64 \<Rightarrow> nat" where
  "member_at pos off = unat (pos + off)"

type_synonym 'a entry_body = "u64 \<Rightarrow> (nat \<rightharpoonup> nat) \<times> 'a \<Rightarrow> ((nat \<rightharpoonup> nat) \<times> 'a) res"

partial_function (option) llist_for_each_entry :: "'a entry_body \<Rightarrow> u64 \<Rightarrow> u64 \<Rightarrow> (nat \<rightharpoonup> nat) \<times> 'a \<Rightarrow> ((nat \<rightharpoonup> nat) \<times> 'a) res option" where
  "llist_for_each_entry body off pos s =
     (if member_at pos off = 0 then Some (Inr s)
      else case bindE (body pos s) (\<lambda>s'. bindE (link_at (fst s') (member_at pos off)) (\<lambda>n. Inr (llist_entry n off, s'))) of
             Inl f \<Rightarrow> Some (Inl f)
           | Inr (pos', s') \<Rightarrow> llist_for_each_entry body off pos' s')"

partial_function (option) llist_for_each_entry_safe :: "'a entry_body \<Rightarrow> u64 \<Rightarrow> u64 \<Rightarrow> (nat \<rightharpoonup> nat) \<times> 'a \<Rightarrow> ((nat \<rightharpoonup> nat) \<times> 'a) res option" where
  "llist_for_each_entry_safe body off pos s =
     (if member_at pos off = 0 then Some (Inr s)
      else case bindE (link_at (fst s) (member_at pos off)) (\<lambda>n. bindE (body pos s) (\<lambda>s'. Inr (llist_entry n off, s'))) of
             Inl f \<Rightarrow> Some (Inl f)
           | Inr (pos', s') \<Rightarrow> llist_for_each_entry_safe body off pos' s')"

text \<open>A body that only looks at its entry, and one that frees it.\<close>

definition look_at :: "(u64 \<Rightarrow> 'a \<Rightarrow> 'a) \<Rightarrow> 'a entry_body" where
  "look_at f pos = (\<lambda>(h, acc). Inr (h, f pos acc))"

definition free_entry :: "u64 \<Rightarrow> (u64 \<Rightarrow> 'a \<Rightarrow> 'a) \<Rightarrow> 'a entry_body" where
  "free_entry off f pos = (\<lambda>(h, acc). Inr (h(member_at pos off := None), f pos acc))"

lemma look_at_apply [simp]: "look_at f pos (h, acc) = Inr (h, f pos acc)"
  by (simp add: look_at_def)

lemma free_entry_apply [simp]: "free_entry off f pos (h, acc) = Inr (h(member_at pos off := None), f pos acc)"
  by (simp add: free_entry_def)

lemma restrict_all [simp]: "h |` UNIV = h"
  by (simp add: restrict_map_def fun_eq_iff)

lemma remove_visited: "h(x := None) |` (- set xs) = h |` (- set (x # xs))"
  by (auto simp: restrict_map_def fun_eq_iff)

lemma member_of_entry [simp]: "p < 2 ^ 64 \<Longrightarrow> member_at (llist_entry p off) off = p"
  by (simp add: member_at_def llist_entry_def container_of_def unat_of_nat_small)

lemma look_chain:
  "chain h p xs \<Longrightarrow> \<forall>x \<in> set xs. x < 2 ^ 64 \<Longrightarrow>
    llist_for_each_entry (look_at f) off (llist_entry p off) (h, acc) = Some (Inr (h, fold (\<lambda>x. f (llist_entry x off)) xs acc))"
proof (induction xs arbitrary: p acc)
  case Nil
  then show ?case by (subst llist_for_each_entry.simps) simp
next
  case (Cons x xs)
  then obtain n where "p = x" "x \<noteq> 0" "h x = Some n" "chain h n xs" by auto
  with Cons show ?case
    by (subst llist_for_each_entry.simps) (simp add: link_at_def)
qed

lemma free_chain:
  "chain h p xs \<Longrightarrow> \<forall>x \<in> set xs. x < 2 ^ 64 \<Longrightarrow>
    llist_for_each_entry_safe (free_entry off f) off (llist_entry p off) (h, acc)
      = Some (Inr (h |` (- set xs), fold (\<lambda>x. f (llist_entry x off)) xs acc))"
proof (induction xs arbitrary: p acc h)
  case Nil
  then show ?case by (subst llist_for_each_entry_safe.simps) simp
next
  case (Cons x xs)
  then obtain n where n: "p = x" "x \<noteq> 0" "h x = Some n" "chain h n xs" by auto
  have "x \<notin> set xs" using chain_distinct [OF Cons.prems(1)] by simp
  with n have c: "chain (h(x := None)) n xs" by simp
  have rest: "llist_for_each_entry_safe (free_entry off f) off (llist_entry n off) (h(x := None), acc')
      = Some (Inr (h |` (- set (x # xs)), fold (\<lambda>x. f (llist_entry x off)) xs acc'))" for acc'
    unfolding remove_visited [symmetric] by (rule Cons.IH [OF c]) (use Cons.prems(2) in simp)
  show ?case using n(1-3) Cons.prems(2)
    by (subst llist_for_each_entry_safe.simps) (simp add: link_at_def rest [simplified])
qed

text \<open>
  the loops over entries visit the entries of the nodes of a chain in order, wherever in its entry a node sits;
  the safe one does so, and frees them all, when its body frees the entry it is given, with which the plain one
  reads the freed entry.
\<close>

theorem llist_entries_visited:
  assumes "chain h p xs" and "\<forall>x \<in> set xs. x < 2 ^ 64"
  shows "llist_for_each_entry (look_at f) off (llist_entry p off) (h, acc) = Some (Inr (h, fold f (map (\<lambda>x. llist_entry x off) xs) acc))
    \<and> llist_for_each_entry_safe (free_entry off f) off (llist_entry p off) (h, acc)
        = Some (Inr (h |` (- set xs), fold f (map (\<lambda>x. llist_entry x off) xs) acc))
    \<and> (xs = [] \<or> llist_for_each_entry (free_entry off f) off (llist_entry p off) (h, acc) = Some (Inl NullDeref))"
proof (intro conjI)
  show "llist_for_each_entry (look_at f) off (llist_entry p off) (h, acc) = Some (Inr (h, fold f (map (\<lambda>x. llist_entry x off) xs) acc))"
    using look_chain [OF assms] by (simp add: fold_map comp_def)
  show "llist_for_each_entry_safe (free_entry off f) off (llist_entry p off) (h, acc)
      = Some (Inr (h |` (- set xs), fold f (map (\<lambda>x. llist_entry x off) xs) acc))"
    using free_chain [OF assms] by (simp add: fold_map comp_def)
  show "xs = [] \<or> llist_for_each_entry (free_entry off f) off (llist_entry p off) (h, acc) = Some (Inl NullDeref)"
    using assms by (cases xs) (auto simp: llist_for_each_entry.simps link_at_def)
qed

theorem llist_entries_visited_witness:
  "llist_for_each_entry_safe (free_entry 16 Cons) 16 (llist_entry 4112 16) ([4112 \<mapsto> 8208, 8208 \<mapsto> 0], []) = Some (Inr (Map.empty, [8192, 4096]))"
proof -
  let ?h = "[4112 :: nat \<mapsto> 8208 :: nat, 8208 \<mapsto> 0]"
  have c: "chain ?h 4112 [4112, 8208]" by simp
  have "?h |` (- set [4112, 8208]) = Map.empty" by (auto simp: restrict_map_def fun_eq_iff)
  moreover have "llist_entry 4112 16 = 4096" "llist_entry 8208 16 = 8192" by (simp_all add: llist_entry_def container_of_def)
  ultimately show ?thesis using llist_entries_visited [OF c, of Cons 16 "[]"] by simp
qed

end
