(* ===== verification/Word_Memory.thy ===== *)
theory Word_Memory
  imports Prelude
begin

text \<open>
  A block of bytes read and written as little-endian 32-bit words, the way the sources cast a
  \<^verbatim>\<open>char *\<close> to an \<^verbatim>\<open>unsigned int *\<close>. \<open>words m\<close> is the block seen as words; loads and stores at
  word offsets are reads and updates of that list.
\<close>

definition bytes_le32 :: "u32 \<Rightarrow> u8 list" where
  "bytes_le32 w = [ucast w, ucast (drop_bit 8 w), ucast (drop_bit 16 w), ucast (drop_bit 24 w)]"

definition word_le32 :: "u8 list \<Rightarrow> u32" where
  "word_le32 bs = foldr (\<lambda>b w. ucast b OR push_bit 8 w) bs 0"

definition ld32 :: "u8 list \<Rightarrow> nat \<Rightarrow> u32 res" where
  "ld32 m off = bindE (slice m off 4) (\<lambda>bs. Inr (word_le32 bs))"

definition st32 :: "u8 list \<Rightarrow> nat \<Rightarrow> u32 \<Rightarrow> u8 list res" where
  "st32 m off w = blit m off (bytes_le32 w)"

definition words :: "u8 list \<Rightarrow> u32 list" where
  "words m = map (\<lambda>i. word_le32 (take 4 (drop (4 * i) m))) [0..<length m div 4]"

lemma length_bytes_le32 [simp]: "length (bytes_le32 w) = 4"
  by (simp add: bytes_le32_def)

lemma four_bytes:
  assumes "length bs = 4"
  obtains a b c d where "bs = [a, b, c, d]"
  using assms by (auto simp: length_Suc_conv numeral_eq_Suc)

lemma nat_less_4: "(n :: nat) < 4 \<Longrightarrow> n = 0 \<or> n = 1 \<or> n = 2 \<or> n = 3"
  by auto

lemma bit_bytes_le32: "n < 32 \<Longrightarrow> bit (bytes_le32 u ! (n div 8)) (n mod 8) = bit u n"
proof -
  assume "n < 32"
  then have "n div 8 < 4" by simp
  moreover have "8 * (n div 8) + n mod 8 = n" by simp
  ultimately show ?thesis
    by (elim nat_less_4 [elim_format] disjE) (auto simp: bytes_le32_def bit_simps)
qed

lemma bytes_le32_inject [simp]: "bytes_le32 v = bytes_le32 w \<longleftrightarrow> v = w"
proof
  assume eq: "bytes_le32 v = bytes_le32 w"
  show "v = w"
  proof (rule bit_word_eqI)
    fix n assume "n < LENGTH(32)"
    then have "n < 32" by simp
    from bit_bytes_le32 [OF this, of v] bit_bytes_le32 [OF this, of w] eq
    show "bit v n = bit w n" by simp
  qed
qed simp

lemma bytes_word_le32: "length bs = 4 \<Longrightarrow> bytes_le32 (word_le32 bs) = bs"
proof (erule four_bytes)
  fix a b c d :: u8 assume bs: "bs = [a, b, c, d]"
  show "bytes_le32 (word_le32 bs) = bs"
    unfolding bs bytes_le32_def word_le32_def
    by (intro list.inject [THEN iffD2] conjI bit_word_eqI) (auto simp: bit_simps)
qed

lemma word_bytes_le32 [simp]: "word_le32 (bytes_le32 w) = w"
  using bytes_word_le32 [of "bytes_le32 w"] by simp

lemma length_words [simp]: "length (words m) = length m div 4"
  by (simp add: words_def)

lemma nth_words: "i < length m div 4 \<Longrightarrow> words m ! i = word_le32 (take 4 (drop (4 * i) m))"
  by (simp add: words_def)

lemma ld32_words [mem_simps]:
  "i < length m div 4 \<Longrightarrow> ld32 m (4 * i) = Inr (words m ! i)"
  by (simp add: ld32_def slice_def nth_words)

lemma st32_words:
  assumes "i < length m div 4"
  shows "\<exists>m'. st32 m (4 * i) w = Inr m' \<and> length m' = length m \<and> words m' = (words m)[i := w]"
proof -
  have i: "4 * i + 4 \<le> length m" using assms by simp
  let ?m = "overwrite m (4 * i) (bytes_le32 w)"
  have len: "length ?m = length m" using i by simp
  have "words ?m = (words m)[i := w]"
  proof (rule nth_equalityI)
    show "length (words ?m) = length ((words m)[i := w])" by (simp add: len)
    fix k assume "k < length (words ?m)"
    then have k: "k < length m div 4" by (simp add: len)
    have "take 4 (drop (4 * k) ?m) = (if k = i then bytes_le32 w else take 4 (drop (4 * k) m))"
    proof (rule nth_equalityI)
      show "length (take 4 (drop (4 * k) ?m))
          = length (if k = i then bytes_le32 w else take 4 (drop (4 * k) m))"
        using k by (simp add: len)
      fix j assume "j < length (take 4 (drop (4 * k) ?m))"
      then have "j < 4" "4 * k + j < length m" using k by (simp_all add: len)
      moreover have "4 * i \<le> 4 * k + j \<and> 4 * k + j < 4 * i + 4 \<longleftrightarrow> k = i" using \<open>j < 4\<close> by auto
      ultimately show "take 4 (drop (4 * k) ?m) ! j
          = (if k = i then bytes_le32 w else take 4 (drop (4 * k) m)) ! j"
        using i by (simp add: nth_overwrite len)
    qed
    then show "words ?m ! k = (words m)[i := w] ! k"
      using k by (simp add: nth_words len nth_list_update)
  qed
  with len i show ?thesis by (simp add: st32_def mem_simps)
qed

text \<open>Words of a concatenation, of a prefix and of a suffix.\<close>

lemma words_bytes: "words (concat (map bytes_le32 ws)) = ws"
proof -
  have len: "length (concat (map bytes_le32 ws)) = 4 * length ws"
    by (induction ws) simp_all
  have at: "take 4 (drop (4 * i) (concat (map bytes_le32 ws))) = bytes_le32 (ws ! i)"
    if "i < length ws" for i
    using that
  proof (induction ws arbitrary: i)
    case (Cons w ws)
    then show ?case by (cases i) simp_all
  qed simp
  show ?thesis
    by (rule nth_equalityI) (simp_all add: len nth_words at)
qed

lemma take_words:
  "k \<le> length m div 4 \<Longrightarrow> take (4 * k) m = concat (map bytes_le32 (take k (words m)))"
proof (induction k)
  case (Suc k)
  then have k: "k < length m div 4" by simp
  then have "length (take 4 (drop (4 * k) m)) = 4" by simp
  then have "bytes_le32 (words m ! k) = take 4 (drop (4 * k) m)"
    using k by (simp only: nth_words bytes_word_le32)
  moreover have "take (4 * Suc k) m = take (4 * k) m @ take 4 (drop (4 * k) m)"
    by (simp add: take_add [symmetric] add.commute)
  ultimately show ?case using Suc.IH k by (simp add: take_Suc_conv_app_nth)
qed simp

end
