(* ===== verification/SpiPack.thy ===== *)
theory SpiPack
  imports Word_Memory
begin

text \<open>
  The display driver's bit packer of demo/perfdemo/perfdemo.c. A display bus symbol is nine bits:
  a D/C bit (0 for a command, 1 for data) and a byte, most significant bit first. The program
  packs a window header and the pixels five times: bit by bit (\<^verbatim>\<open>filling_spi_send_display_data\<close>,
  the reference) and in four optimised ways that write nine bytes per pair of pixels. The
  abstraction is the list of bits of the send buffer and the list of symbols it spells.
  \<^verbatim>\<open>ret\<close> is never assigned on the success paths, so a successful call returns an indeterminate
  value: the model returns \<open>None\<close> there and \<open>Some (-1)\<close> on the error path.
\<close>

section \<open>State\<close>

record spi =
  spi_send_len :: u32
  p_spi_send_buf :: "u8 list"

definition TX_BUF_MAX_LEN :: u32 where
  "TX_BUF_MAX_LEN = 240 * 320 * 4 + 240 * 320 * 4 div 8 + 128"

section \<open>Bytes of words, and the endian swaps\<close>

definition bytes_le64 :: "u64 \<Rightarrow> u8 list" where
  "bytes_le64 w = map (\<lambda>k. ucast (drop_bit (8 * k) w)) [0..<8]"

definition word_le64 :: "u8 list \<Rightarrow> u64" where
  "word_le64 bs = foldr (\<lambda>b w. ucast b OR push_bit 8 w) bs 0"

definition swap_endian_32 :: "u32 \<Rightarrow> u32" where
  "swap_endian_32 x =
     push_bit 24 (x AND 0x000000ff) OR push_bit 8 (x AND 0x0000ff00) OR
     drop_bit 8 (x AND 0x00ff0000) OR drop_bit 24 (x AND 0xff000000)"

definition swap_endian_64 :: "u64 \<Rightarrow> u64" where
  "swap_endian_64 x =
     push_bit 56 (x AND 0x00000000000000ff) OR push_bit 40 (x AND 0x000000000000ff00) OR
     push_bit 24 (x AND 0x0000000000ff0000) OR push_bit 8 (x AND 0x00000000ff000000) OR
     drop_bit 8 (x AND 0x000000ff00000000) OR drop_bit 24 (x AND 0x0000ff0000000000) OR
     drop_bit 40 (x AND 0x00ff000000000000) OR drop_bit 56 (x AND 0xff00000000000000)"

definition get_u8_from_u32 :: "u32 \<Rightarrow> u8 list" where
  "get_u8_from_u32 d = [ucast (drop_bit 24 d), ucast (drop_bit 16 d), ucast (drop_bit 8 d), ucast d]"

section \<open>The reference packer\<close>

definition or_at :: "u8 list \<Rightarrow> nat \<Rightarrow> u8 \<Rightarrow> u8 list res" where
  "or_at buf i v = bindE (ld buf i) (\<lambda>b. st buf i (b OR v))"

definition write_lcm_command :: "u8 \<Rightarrow> u8 list \<times> u32 \<Rightarrow> (u8 list \<times> u32) res" where
  "write_lcm_command c = (\<lambda>(buf, bit_pos).
     (let i = unat (bit_pos div 8);
          j = unat ((bit_pos mod 8 + 1) mod 8)
      in bindE
           (if j = 0 then st buf (i + 1) c
            else bindE (or_at buf i (drop_bit j c))
                   (\<lambda>buf1. or_at buf1 (i + 1) (push_bit (8 - j) c)))
           (\<lambda>buf'. Inr (buf', bit_pos + 9))))"

definition write_lcm_data :: "u8 \<Rightarrow> u8 list \<times> u32 \<Rightarrow> (u8 list \<times> u32) res" where
  "write_lcm_data c = (\<lambda>(buf, bit_pos).
     (let i = unat (bit_pos div 8);
          j0 = unat (bit_pos mod 8);
          j = unat ((bit_pos mod 8 + 1) mod 8)
      in bindE (or_at buf i (drop_bit j0 0x80))
           (\<lambda>buf0. bindE
              (if j = 0 then st buf0 (i + 1) c
               else bindE (or_at buf0 i (drop_bit j c))
                      (\<lambda>buf1. or_at buf1 (i + 1) (push_bit (8 - j) c)))
              (\<lambda>buf'. Inr (buf', bit_pos + 9)))))"

fun write_lcm_datas :: "u8 list \<Rightarrow> u8 list \<times> u32 \<Rightarrow> (u8 list \<times> u32) res" where
  "write_lcm_datas [] bp = Inr bp"
| "write_lcm_datas (d # ds) bp = bindE (write_lcm_data d bp) (write_lcm_datas ds)"

text \<open>The pixel loop: \<open>k\<close> pixels left, the next one at index \<open>i\<close>.\<close>

fun write_lcm_pixels :: "nat \<Rightarrow> nat \<Rightarrow> u32 list \<Rightarrow> u8 list \<times> u32 \<Rightarrow> (u8 list \<times> u32) res" where
  "write_lcm_pixels 0 i p_buf bp = Inr bp"
| "write_lcm_pixels (Suc k) i p_buf bp =
     bindE (ld p_buf i) (\<lambda>px.
       (let temp_buf = get_u8_from_u32 px
        in bindE (write_lcm_datas [temp_buf ! 2, temp_buf ! 3, temp_buf ! 0, temp_buf ! 1] bp)
             (write_lcm_pixels k (i + 1) p_buf)))"

text \<open>The length in bytes of \<open>i\<close> bits, in 32-bit arithmetic.\<close>

definition bytes_for_bits :: "u32 \<Rightarrow> u32" where
  "bytes_for_bits i = (if i mod 8 \<noteq> 0 then i div 8 + 1 else i div 8)"

text \<open>The prologue that all five packers share: the length check and the \<^verbatim>\<open>memset\<close>.\<close>

definition spi_begin :: "u32 \<Rightarrow> spi \<Rightarrow> (spi \<Rightarrow> (int option \<times> spi) res) \<Rightarrow> (int option \<times> spi) res" where
  "spi_begin i s body =
     (let n = bytes_for_bits i; s1 = s\<lparr>spi_send_len := n\<rparr>
      in if n = 0 \<or> n > TX_BUF_MAX_LEN then Inr (Some (-1), s1)
         else bindE (blit (p_spi_send_buf s) 0 (replicate (unat n) 0))
                (\<lambda>b. body (s1\<lparr>p_spi_send_buf := b\<rparr>)))"

definition filling_spi_send_display_data ::
    "u32 list \<Rightarrow> u32 \<Rightarrow> u32 \<Rightarrow> u32 \<Rightarrow> spi \<Rightarrow> (int option \<times> spi) res" where
  "filling_spi_send_display_data data_buf len x y s =
     spi_begin ((12 + len * 4) * 9) s (\<lambda>s1.
       bindE (write_lcm_command 0x2A (p_spi_send_buf s1, 0)) (\<lambda>bp1.
       bindE (write_lcm_datas (get_u8_from_u32 x) bp1) (\<lambda>bp2.
       bindE (write_lcm_command 0x2B bp2) (\<lambda>bp3.
       bindE (write_lcm_datas (get_u8_from_u32 y) bp3) (\<lambda>bp4.
       bindE (write_lcm_command 0x2C bp4) (\<lambda>bp5.
       bindE (write_lcm_pixels (unat len) 0 data_buf bp5) (\<lambda>bp6.
       bindE (write_lcm_command 0x00 bp6) (\<lambda>bp7.
         Inr (None, s1\<lparr>p_spi_send_buf := fst bp7\<rparr>)))))))))"

section \<open>The optimised packers\<close>

text \<open>
  One block: nine bytes from the eight bytes of two pixels. \<open>pack2\<close> is the body of the loop of
  \<^verbatim>\<open>filling_spi_send_display_data2\<close> (byte stores), \<open>pack3\<close> that of \<^verbatim>\<open>data3\<close> (two 32-bit words
  stored after an endian swap), \<open>pack4\<close> that of \<^verbatim>\<open>data4\<close> (two words laid out by masks).
\<close>

definition pack2 :: "u8 list \<Rightarrow> u8 list" where
  "pack2 p =
     [0x80 OR drop_bit 1 (p ! 1),
      0x40 OR drop_bit 2 (p ! 0) OR push_bit 7 (p ! 1),
      0x20 OR drop_bit 3 (p ! 3) OR push_bit 6 (p ! 0),
      0x10 OR drop_bit 4 (p ! 2) OR push_bit 5 (p ! 3),
      0x08 OR drop_bit 5 (p ! 5) OR push_bit 4 (p ! 2),
      0x04 OR drop_bit 6 (p ! 4) OR push_bit 3 (p ! 5),
      0x02 OR drop_bit 7 (p ! 7) OR push_bit 2 (p ! 4),
      0x01 OR push_bit 1 (p ! 7),
      p ! 6]"

definition pack3 :: "u8 list \<Rightarrow> u8 list" where
  "pack3 p =
     (let w = \<lambda>k. (ucast (p ! k) :: u32);
          pbits0 = push_bit 23 (w 1) OR push_bit 14 (w 0) OR push_bit 5 (w 3) OR drop_bit 4 (w 2)
                     OR 0x80402010;
          pbits1 = push_bit 28 (w 2) OR push_bit 19 (w 5) OR push_bit 10 (w 4) OR push_bit 1 (w 7)
                     OR 0x08040201
      in bytes_le32 (swap_endian_32 pbits0) @ bytes_le32 (swap_endian_32 pbits1) @ [p ! 6])"

definition pack4 :: "u8 list \<Rightarrow> u8 list" where
  "pack4 p =
     (let m = \<lambda>k msk. (ucast (p ! k AND msk) :: u32);
          pbits0 = drop_bit 1 (ucast (p ! 1)) OR push_bit 15 (m 1 0x01) OR push_bit 6 (m 0 0xfc)
                     OR push_bit 24 (m 0 0x03) OR push_bit 13 (m 3 0xf8) OR push_bit 29 (m 3 0x07)
                     OR push_bit 20 (m 2 0xf0) OR 0x10204080;
          pbits1 = push_bit 4 (m 2 0x0f) OR drop_bit 5 (m 5 0xe0) OR push_bit 11 (m 5 0x1f)
                     OR push_bit 2 (m 4 0xc0) OR push_bit 18 (m 4 0x3f) OR push_bit 9 (m 7 0x80)
                     OR push_bit 25 (m 7 0xfe) OR 0x01020408
      in bytes_le32 pbits0 @ bytes_le32 pbits1 @ [p ! 6])"

text \<open>
  The loop over pairs of pixels, over any block packer: \<open>k\<close> pairs left, the source at byte \<open>s\<close>,
  the destination at byte \<open>d\<close>.
\<close>

fun pack_blocks :: "(u8 list \<Rightarrow> u8 list) \<Rightarrow> nat \<Rightarrow> u8 list \<Rightarrow> nat \<Rightarrow> u8 list \<Rightarrow> nat \<Rightarrow> u8 list res" where
  "pack_blocks pack 0 psrc s pdst d = Inr pdst"
| "pack_blocks pack (Suc k) psrc s pdst d =
     bindE (slice psrc s 8) (\<lambda>p.
       bindE (blit pdst d (pack p)) (\<lambda>pdst'. pack_blocks pack k psrc (s + 8) pdst' (d + 9)))"

text \<open>
  The header of \<^verbatim>\<open>data3\<close> and \<^verbatim>\<open>data4\<close>: 18 bytes, sixteen symbols, with five NOP commands before
  the write command so that the pixels start on a byte. \<open>px\<close>, \<open>py\<close> are the bytes of the
  arguments in memory.
\<close>

definition fill_header_withnop1 :: "u32 \<Rightarrow> u32 \<Rightarrow> u8 list \<Rightarrow> u8 list" where
  "fill_header_withnop1 x y dst =
     (let px = \<lambda>k. (ucast (bytes_le32 x ! k) :: u32);
          py = \<lambda>k. (ucast (bytes_le32 y ! k) :: u32);
          h0 = push_bit 14 (px 3) OR push_bit 5 (px 2) OR drop_bit 4 (px 1) OR 0x15402010;
          h1 = push_bit 28 (px 1) OR push_bit 19 (px 0) OR push_bit 1 (py 3) OR 0x0800ae01;
          h2 = push_bit 23 (py 1) OR push_bit 14 (py 0) OR 0x80400000
      in bytes_le32 (swap_endian_32 h0) @ bytes_le32 (swap_endian_32 h1) @ [bytes_le32 y ! 2]
         @ bytes_le32 (swap_endian_32 h2) @ bytes_le32 0 @ [0x2c])"

text \<open>
  The header of \<^verbatim>\<open>data1\<close> and \<^verbatim>\<open>data2\<close>: the code takes both pointers from the address of \<open>x\<close>, so
  \<open>y\<close> is never read. The two 64-bit words are or-ed into the 18 bytes \<open>dst\<close> already there.
\<close>

definition BIG_HEADER0_MASK :: u64 where "BIG_HEADER0_MASK = 0xAA0100804005701"
definition BIG_HEADER_NOP_MASK :: u64 where "BIG_HEADER_NOP_MASK = 0x4020000000000000"
definition BIG_DATA_MASK :: u64 where "BIG_DATA_MASK = 0x4020100804020101"

definition fill_header_withnop :: "u32 \<Rightarrow> u32 \<Rightarrow> u8 list \<Rightarrow> u8 list" where
  "fill_header_withnop x y dst =
     (let px = \<lambda>k. (ucast (bytes_le32 x ! k) :: u64);
          py = \<lambda>k. (ucast (bytes_le32 x ! k) :: u64);
          h0 = word_le64 (take 8 dst) OR BIG_HEADER0_MASK OR
                 (push_bit 46 (px 3) OR push_bit 37 (px 2) OR push_bit 28 (px 1)
                  OR push_bit 19 (px 0) OR push_bit 1 (py 3));
          h1 = word_le64 (take 8 (drop 9 dst)) OR BIG_HEADER_NOP_MASK OR
                 (push_bit 55 (py 1) OR push_bit 46 (py 0))
      in bytes_le64 (swap_endian_64 h0) @ [bytes_le32 x ! 2]
         @ bytes_le64 (swap_endian_64 h1) @ [0x2c])"

definition data_bits :: "u8 list \<Rightarrow> u64" where
  "data_bits p =
     (let w = \<lambda>k. (ucast (p ! k) :: u64)
      in push_bit 55 (w 1) OR push_bit 46 (w 0) OR push_bit 37 (w 3)
           OR push_bit 28 (w 2) OR push_bit 19 (w 5) OR push_bit 10 (w 4) OR push_bit 1 (w 7))"

definition fill_data_withnop :: "u8 list \<Rightarrow> u8 list \<Rightarrow> u8 list" where
  "fill_data_withnop p dst =
     (let d0 = word_le64 (take 8 dst) OR BIG_DATA_MASK OR data_bits p
      in bytes_le64 (swap_endian_64 d0) @ [p ! 6])"

text \<open>
  The loop of \<^verbatim>\<open>data1\<close>: \<open>k\<close> pairs left, the loop counter \<open>i\<close>, \<open>q\<close> the offset of \<^verbatim>\<open>pbits\<close> and \<open>d\<close> that
  of \<^verbatim>\<open>pdst\<close>. \<^verbatim>\<open>pbits\<close> still points at the header in the first round, and the swap reads
  \<^verbatim>\<open>pbits[i]\<close>, not \<^verbatim>\<open>pbits[0]\<close>.
\<close>

fun data1_loop :: "nat \<Rightarrow> nat \<Rightarrow> u8 list \<Rightarrow> nat \<Rightarrow> u8 list \<Rightarrow> nat \<Rightarrow> nat \<Rightarrow> u8 list res" where
  "data1_loop 0 i psrc s b q d = Inr b"
| "data1_loop (Suc k) i psrc s b q d =
     bindE (slice psrc s 8) (\<lambda>p.
     bindE (slice b q 8) (\<lambda>w.
     bindE (blit b q (bytes_le64 (word_le64 w OR BIG_DATA_MASK OR data_bits p))) (\<lambda>b1.
     bindE (slice b1 (q + 8 * i) 8) (\<lambda>w'.
     bindE (blit b1 q (bytes_le64 (swap_endian_64 (word_le64 w')))) (\<lambda>b2.
     bindE (st b2 (d + 8) (p ! 6)) (\<lambda>b3.
       data1_loop k (i + 1) psrc (s + 8) b3 (d + 9) (d + 9)))))))"

definition filling_spi_send_display_data1 ::
    "u8 list \<Rightarrow> u32 \<Rightarrow> u32 \<Rightarrow> u32 \<Rightarrow> spi \<Rightarrow> (int option \<times> spi) res" where
  "filling_spi_send_display_data1 data_buf len x y s =
     spi_begin ((16 + len * 4 + 8) * 9) s (\<lambda>s1.
       bindE (slice (p_spi_send_buf s1) 0 18) (\<lambda>dst.
       bindE (blit (p_spi_send_buf s1) 0 (fill_header_withnop x y dst)) (\<lambda>b.
       bindE (data1_loop (unat (len div 2)) 0 data_buf 0 b 0 18) (\<lambda>b'.
         Inr (None, s1\<lparr>p_spi_send_buf := b'\<rparr>)))))"

text \<open>The packers \<^verbatim>\<open>data2\<close>, \<^verbatim>\<open>data3\<close> and \<^verbatim>\<open>data4\<close>, over their header and block.\<close>

definition fill_packed ::
    "(u32 \<Rightarrow> u32 \<Rightarrow> u8 list \<Rightarrow> u8 list) \<Rightarrow> (u8 list \<Rightarrow> u8 list) \<Rightarrow> u8 list \<Rightarrow> u32 \<Rightarrow> u32 \<Rightarrow> u32 \<Rightarrow> spi
      \<Rightarrow> (int option \<times> spi) res" where
  "fill_packed header pack data_buf len x y s =
     spi_begin ((16 + len * 4 + 8) * 9) s (\<lambda>s1.
       bindE (slice (p_spi_send_buf s1) 0 18) (\<lambda>dst.
       bindE (blit (p_spi_send_buf s1) 0 (header x y dst)) (\<lambda>b.
       bindE (pack_blocks pack (unat (len div 2)) data_buf 0 b 18) (\<lambda>b'.
         Inr (None, s1\<lparr>p_spi_send_buf := b'\<rparr>)))))"

definition filling_spi_send_display_data2 ::
    "u8 list \<Rightarrow> u32 \<Rightarrow> u32 \<Rightarrow> u32 \<Rightarrow> spi \<Rightarrow> (int option \<times> spi) res" where
  "filling_spi_send_display_data2 = fill_packed fill_header_withnop pack2"

definition filling_spi_send_display_data3 ::
    "u8 list \<Rightarrow> u32 \<Rightarrow> u32 \<Rightarrow> u32 \<Rightarrow> spi \<Rightarrow> (int option \<times> spi) res" where
  "filling_spi_send_display_data3 = fill_packed fill_header_withnop1 pack3"

definition filling_spi_send_display_data4 ::
    "u8 list \<Rightarrow> u32 \<Rightarrow> u32 \<Rightarrow> u32 \<Rightarrow> spi \<Rightarrow> (int option \<times> spi) res" where
  "filling_spi_send_display_data4 = fill_packed fill_header_withnop1 pack4"

section \<open>The bits of the buffer and the symbols they spell\<close>

type_synonym lcm_symbol = "bool \<times> u8"

definition byte_bits :: "u8 \<Rightarrow> bool list" where
  "byte_bits b = map (\<lambda>k. bit b (7 - k)) [0..<8]"

definition sym_bits :: "lcm_symbol \<Rightarrow> bool list" where
  "sym_bits s = fst s # byte_bits (snd s)"

definition bits_of :: "u8 list \<Rightarrow> bool list" where
  "bits_of buf = map (\<lambda>p. bit (buf ! (p div 8)) (7 - p mod 8)) [0..<8 * length buf]"

definition encode :: "lcm_symbol list \<Rightarrow> bool list" where
  "encode ss = concat (map sym_bits ss)"

abbreviation Cmd :: "u8 \<Rightarrow> lcm_symbol" where "Cmd c \<equiv> (False, c)"
abbreviation Dat :: "u8 \<Rightarrow> lcm_symbol" where "Dat c \<equiv> (True, c)"

lemma length_sym_bits [simp]: "length (sym_bits s) = 9"
  by (simp add: sym_bits_def byte_bits_def)

lemma length_encode [simp]: "length (encode ss) = 9 * length ss"
  by (induction ss) (simp_all add: encode_def)

lemma encode_simps [simp]:
  "encode [] = []" "encode (s # ss) = sym_bits s @ encode ss"
  "encode (ss @ ts) = encode ss @ encode ts"
  by (simp_all add: encode_def)

lemma length_bits_of [simp]: "length (bits_of buf) = 8 * length buf"
  by (simp add: bits_of_def)

lemma nth_bits_of: "p < 8 * length buf \<Longrightarrow> bits_of buf ! p = bit (buf ! (p div 8)) (7 - p mod 8)"
  by (simp add: bits_of_def)

lemma nth_sym_bits:
  "k < 9 \<Longrightarrow> sym_bits s ! k = (if k = 0 then fst s else bit (snd s) (8 - k))"
  by (cases k) (auto simp: sym_bits_def byte_bits_def)

lemma bits_of_append: "bits_of (a @ b) = bits_of a @ bits_of b"
proof (rule nth_equalityI)
  fix p assume p: "p < length (bits_of (a @ b))"
  show "bits_of (a @ b) ! p = (bits_of a @ bits_of b) ! p"
  proof (cases "p < 8 * length a")
    case True
    with p show ?thesis by (simp add: nth_bits_of nth_append less_mult_imp_div_less mult.commute)
  next
    case False
    then obtain q where q: "p = 8 * length a + q" by (metis le_add_diff_inverse not_less)
    with p have "q < 8 * length b" by simp
    with q p show ?thesis by (simp add: nth_bits_of nth_append)
  qed
qed simp

lemma bits_of_Cons: "bits_of (b # bs) = byte_bits b @ bits_of bs"
proof -
  have "bits_of [b] = byte_bits b"
    by (simp add: bits_of_def byte_bits_def upt_conv_Cons)
  with bits_of_append [of "[b]" bs] show ?thesis by simp
qed

lemma bits_of_Nil [simp]: "bits_of [] = []"
  by (simp add: bits_of_def)

lemma bits_of_zeros: "bits_of (replicate n 0) = replicate (8 * n) False"
  by (rule nth_equalityI) (simp_all add: nth_bits_of less_mult_imp_div_less mult.commute)

section \<open>One symbol into the buffer\<close>

text \<open>The effect of both writers, in one formula: the symbol at bit \<open>p\<close>.\<close>

definition dc_bit :: u8 where
  "dc_bit = 0x80"

definition put_sym :: "lcm_symbol \<Rightarrow> nat \<Rightarrow> u8 list \<Rightarrow> u8 list" where
  "put_sym s p buf =
     (let i = p div 8; r = p mod 8;
          b0 = buf ! i OR (if fst s then drop_bit r dc_bit else 0) OR drop_bit (r + 1) (snd s);
          b1 = (if r = 7 then snd s else buf ! (i + 1) OR push_bit (7 - r) (snd s))
      in buf[i := b0, i + 1 := b1])"

lemma length_put_sym [simp]: "length (put_sym s p buf) = length buf"
  by (simp add: put_sym_def Let_def)

lemma drop_bit_8_u8 [simp]: "drop_bit 8 (c :: u8) = 0"
  by (rule bit_word_eqI) (simp add: bit_simps)

lemma bit_dc_bit: "bit dc_bit n \<longleftrightarrow> n = 7"
proof (cases "n < 8")
  case True
  then have "n = 0 \<or> n = 1 \<or> n = 2 \<or> n = 3 \<or> n = 4 \<or> n = 5 \<or> n = 6 \<or> n = 7" by arith
  then show ?thesis by (elim disjE) (simp_all add: dc_bit_def)
qed auto

lemma pos_arith:
  fixes pos :: u32
  shows "unat (pos div 8) = unat pos div 8" and "unat (pos mod 8) = unat pos mod 8"
    and "unat ((pos mod 8 + 1) mod 8) = (if unat pos mod 8 = 7 then 0 else unat pos mod 8 + 1)"
proof -
  show d: "unat (pos div 8) = unat pos div 8" and m: "unat (pos mod 8) = unat pos mod 8"
    by (simp_all add: unat_div_distrib unat_mod_distrib)
  have "unat (pos mod 8 + 1) = unat pos mod 8 + 1"
    using m by (subst unat_add_lem [THEN iffD1]) auto
  then have "unat ((pos mod 8 + 1) mod 8) = (unat pos mod 8 + 1) mod 8"
    by (simp add: unat_mod_distrib)
  then show "unat ((pos mod 8 + 1) mod 8) = (if unat pos mod 8 = 7 then 0 else unat pos mod 8 + 1)"
    by (simp add: mod_Suc)
qed

lemma sym_room:
  fixes p n :: nat
  assumes "p + 9 \<le> 8 * n"
  shows "p div 8 + 1 < n"
proof -
  have "p div 8 * 8 \<le> p" by simp
  with assms show ?thesis by linarith
qed

lemma write_lcm_command_put:
  assumes "unat pos + 9 \<le> 8 * length buf"
  shows "write_lcm_command c (buf, pos) = Inr (put_sym (Cmd c) (unat pos) buf, pos + 9)"
proof -
  have "unat pos div 8 + 1 < length buf" by (rule sym_room [OF assms])
  then show ?thesis
    unfolding write_lcm_command_def prod.case pos_arith(3)
    unfolding put_sym_def pos_arith(1,2) Let_def or_at_def
    by (auto simp: mem_simps)
qed

lemma write_lcm_data_put:
  assumes "unat pos + 9 \<le> 8 * length buf"
  shows "write_lcm_data c (buf, pos) = Inr (put_sym (Dat c) (unat pos) buf, pos + 9)"
proof -
  have "unat pos div 8 + 1 < length buf" by (rule sym_room [OF assms])
  then show ?thesis
    unfolding write_lcm_data_def prod.case pos_arith(3)
    unfolding put_sym_def pos_arith(1,2) Let_def or_at_def dc_bit_def
    by (auto simp: mem_simps or.assoc)
qed

lemma bits_of_put_sym:
  assumes room: "p + 9 \<le> 8 * length buf"
    and clear: "\<And>k. p \<le> k \<Longrightarrow> k < p + 9 \<Longrightarrow> \<not> bits_of buf ! k"
    and q: "q < 8 * length buf"
  shows "bits_of (put_sym s p buf) ! q
    = (if p \<le> q \<and> q < p + 9 then sym_bits s ! (q - p) else bits_of buf ! q)"
proof -
  define i r where "i = p div 8" and "r = p mod 8"
  have p: "p = 8 * i + r" and r: "r < 8" by (simp_all add: i_def r_def)
  define j k where "j = q div 8" and "k = q mod 8"
  have qq: "q = 8 * j + k" and k: "k < 8" by (simp_all add: j_def k_def)
  have i1: "i + 1 < length buf" unfolding i_def by (rule sym_room [OF room])
  have clr: "\<not> bit (buf ! j) (7 - k)" if "p \<le> q" "q < p + 9"
    using clear [OF that] q by (simp add: nth_bits_of j_def k_def)
  have L: "bits_of (put_sym s p buf) ! q = bit (put_sym s p buf ! j) (7 - k)"
    using q by (simp add: nth_bits_of j_def k_def)
  have R: "bits_of buf ! q = bit (buf ! j) (7 - k)"
    using q by (simp add: nth_bits_of j_def k_def)
  consider "j = i" "k < r" | t where "j = i" "k = r + t" | "j = i + 1" | "j \<noteq> i" "j \<noteq> i + 1"
    by (metis le_add_diff_inverse not_less)
  then show ?thesis
  proof cases
    case 1
    have "put_sym s p buf ! j = buf ! i OR (if fst s then drop_bit r dc_bit else 0)
        OR drop_bit (r + 1) (snd s)"
      using 1 i1 by (simp add: put_sym_def Let_def i_def r_def)
    with 1 p qq r show ?thesis
      unfolding L R by (auto simp: bit_simps bit_dc_bit)
  next
    case 2
    have "put_sym s p buf ! j = buf ! i OR (if fst s then drop_bit r dc_bit else 0)
        OR drop_bit (r + 1) (snd s)"
      using 2 i1 by (simp add: put_sym_def Let_def i_def r_def)
    moreover have "7 - k + r = 7 - t" "7 - k + (r + 1) = 8 - t" "q - p = t" "t < 9"
      using 2 p qq k by simp_all
    moreover have "\<not> bit (buf ! i) (7 - k)" using clr 2 p qq k by simp
    ultimately show ?thesis
      using 2 p qq k unfolding L R by (auto simp: bit_simps bit_dc_bit nth_sym_bits add.commute)
  next
    case 3
    have "put_sym s p buf ! j = (if r = 7 then snd s else buf ! (i + 1) OR push_bit (7 - r) (snd s))"
      using 3 i1 by (simp add: put_sym_def Let_def i_def r_def)
    with 3 p qq r k clr show ?thesis
      unfolding L R by (auto simp: bit_simps nth_sym_bits)
  next
    case 4
    then have "put_sym s p buf ! j = buf ! j"
      by (simp add: put_sym_def Let_def i_def)
    moreover have "\<not> (p \<le> q \<and> q < p + 9)" using 4 p qq r k by auto
    ultimately show ?thesis unfolding L R by auto
  qed
qed

section \<open>The reference packer emits its symbols\<close>

text \<open>
  The first \<open>n\<close> bytes of the buffer and the position spell the symbols \<open>ss\<close> and nothing after
  them; the bytes \<open>rst\<close> behind are untouched.
\<close>

definition spells :: "nat \<Rightarrow> u8 list \<Rightarrow> lcm_symbol list \<Rightarrow> u8 list \<times> u32 \<Rightarrow> bool" where
  "spells n rst ss bp \<longleftrightarrow> 8 * n < 2 ^ 32 \<and> unat (snd bp) = 9 * length ss \<and> 9 * length ss \<le> 8 * n
     \<and> (\<exists>b. fst bp = b @ rst \<and> length b = n
          \<and> bits_of b = encode ss @ replicate (8 * n - 9 * length ss) False)"

lemma put_sym_append:
  assumes "p + 9 \<le> 8 * length b"
  shows "put_sym s p (b @ rst) = put_sym s p b @ rst"
  using sym_room [OF assms] by (simp add: put_sym_def Let_def list_update_append nth_append)

lemma spells_step:
  assumes "spells n rst ss (buf, pos)" and "9 * (length ss + 1) \<le> 8 * n"
  shows "spells n rst (ss @ [s]) (put_sym s (unat pos) buf, pos + 9)"
proof -
  let ?p = "9 * length ss"
  obtain b where bits: "bits_of b = encode ss @ replicate (8 * n - ?p) False"
    and len: "length b = n" and buf: "buf = b @ rst" and pos: "unat pos = ?p" and n: "8 * n < 2 ^ 32"
    using assms(1) by (auto simp: spells_def)
  have clear: "\<not> bits_of b ! k" if "?p \<le> k" "k < ?p + 9" for k
    using that assms(2) by (simp add: bits nth_append)
  have "bits_of (put_sym s ?p b)
      = encode (ss @ [s]) @ replicate (8 * n - 9 * length (ss @ [s])) False"
  proof (rule nth_equalityI)
    show "length (bits_of (put_sym s ?p b))
        = length (encode (ss @ [s]) @ replicate (8 * n - 9 * length (ss @ [s])) False)"
      using assms(2) by (simp add: len)
  next
    fix q assume "q < length (bits_of (put_sym s ?p b))"
    then have q: "q < 8 * length b" by simp
    have "bits_of (put_sym s ?p b) ! q
        = (if ?p \<le> q \<and> q < ?p + 9 then sym_bits s ! (q - ?p) else bits_of b ! q)"
      by (rule bits_of_put_sym [OF _ clear q]) (use assms(2) len in simp_all)
    with q show "bits_of (put_sym s ?p b) ! q
        = (encode (ss @ [s]) @ replicate (8 * n - 9 * length (ss @ [s])) False) ! q"
      by (auto simp: bits nth_append len)
  qed
  moreover have "put_sym s ?p buf = put_sym s ?p b @ rst"
    using assms(2) by (simp add: buf put_sym_append len)
  moreover have "unat (pos + 9) = ?p + 9"
    using pos n assms(2) by (subst unat_add_lem [THEN iffD1]) auto
  ultimately show ?thesis using assms(2) n len pos by (simp add: spells_def)
qed

lemma spells_command:
  assumes "spells n rst ss bp" and "9 * (length ss + 1) \<le> 8 * n"
  shows "\<exists>bp'. write_lcm_command c bp = Inr bp' \<and> spells n rst (ss @ [Cmd c]) bp'"
proof -
  obtain buf pos where bp: "bp = (buf, pos)" by (cases bp)
  have "unat pos + 9 \<le> 8 * length buf" using assms by (auto simp: spells_def bp)
  with spells_step [OF assms(1) [unfolded bp] assms(2), of "Cmd c"] show ?thesis
    by (auto simp: bp write_lcm_command_put)
qed

lemma spells_data:
  assumes "spells n rst ss bp" and "9 * (length ss + 1) \<le> 8 * n"
  shows "\<exists>bp'. write_lcm_data c bp = Inr bp' \<and> spells n rst (ss @ [Dat c]) bp'"
proof -
  obtain buf pos where bp: "bp = (buf, pos)" by (cases bp)
  have "unat pos + 9 \<le> 8 * length buf" using assms by (auto simp: spells_def bp)
  with spells_step [OF assms(1) [unfolded bp] assms(2), of "Dat c"] show ?thesis
    by (auto simp: bp write_lcm_data_put)
qed

lemma spells_datas:
  assumes "spells n rst ss bp" and "9 * (length ss + length ds) \<le> 8 * n"
  shows "\<exists>bp'. write_lcm_datas ds bp = Inr bp' \<and> spells n rst (ss @ map Dat ds) bp'"
  using assms
proof (induction ds arbitrary: ss bp)
  case Nil
  then show ?case by simp
next
  case (Cons d ds)
  then obtain bp1 where "write_lcm_data d bp = Inr bp1" "spells n rst (ss @ [Dat d]) bp1"
    using spells_data [of n rst ss bp d] by auto
  with Cons.IH [of "ss @ [Dat d]" bp1] Cons.prems(2) show ?case by auto
qed

definition pixel_symbols :: "u32 \<Rightarrow> lcm_symbol list" where
  "pixel_symbols px = map Dat [ucast (drop_bit 8 px), ucast px, ucast (drop_bit 24 px), ucast (drop_bit 16 px)]"

lemma length_pixel_symbols [simp]: "length (pixel_symbols px) = 4"
  by (simp add: pixel_symbols_def)

lemma length_concat_pixels [simp]: "length (concat (map pixel_symbols ps)) = 4 * length ps"
  by (induction ps) simp_all

lemma spells_pixels:
  assumes "spells n rst ss bp" and "9 * (length ss + 4 * k) \<le> 8 * n" and "i + k \<le> length p_buf"
  shows "\<exists>bp'. write_lcm_pixels k i p_buf bp = Inr bp'
    \<and> spells n rst (ss @ concat (map pixel_symbols (take k (drop i p_buf)))) bp'"
  using assms
proof (induction k arbitrary: i ss bp)
  case 0
  then show ?case by simp
next
  case (Suc k)
  let ?px = "p_buf ! i"
  let ?t = "get_u8_from_u32 ?px"
  obtain bp1 where bp1: "write_lcm_datas [?t ! 2, ?t ! 3, ?t ! 0, ?t ! 1] bp = Inr bp1"
    "spells n rst (ss @ pixel_symbols ?px) bp1"
    using spells_datas [of n rst ss bp "[?t ! 2, ?t ! 3, ?t ! 0, ?t ! 1]"] Suc.prems
    by (auto simp: pixel_symbols_def get_u8_from_u32_def)
  have "i < length p_buf" using Suc.prems(3) by simp
  moreover from this have "take (Suc k) (drop i p_buf) = ?px # take k (drop (i + 1) p_buf)"
    by (simp add: Cons_nth_drop_Suc [symmetric])
  moreover obtain bp2 where "write_lcm_pixels k (i + 1) p_buf bp1 = Inr bp2"
    "spells n rst ((ss @ pixel_symbols ?px) @ concat (map pixel_symbols (take k (drop (i + 1) p_buf)))) bp2"
    using Suc.IH [OF bp1(2), of "i + 1"] Suc.prems by auto
  ultimately show ?case using bp1(1) by (auto simp: mem_simps Let_def)
qed

definition word_symbols :: "u32 \<Rightarrow> lcm_symbol list" where
  "word_symbols x = map Dat (get_u8_from_u32 x)"

definition frame_symbols :: "u32 \<Rightarrow> u32 \<Rightarrow> u32 list \<Rightarrow> lcm_symbol list" where
  "frame_symbols x y ps = Cmd 0x2A # word_symbols x @ Cmd 0x2B # word_symbols y
     @ Cmd 0x2C # concat (map pixel_symbols ps) @ [Cmd 0x00]"

lemma length_word_symbols [simp]: "length (word_symbols x) = 4"
  by (simp add: word_symbols_def get_u8_from_u32_def)

lemma length_frame_symbols [simp]: "length (frame_symbols x y ps) = 12 + 4 * length ps"
  by (simp add: frame_symbols_def)

text \<open>The prologue: within the limit, it clears exactly the bytes that the bits need.\<close>

lemma ceil8: "(u + 7) div 8 = (if u mod 8 \<noteq> 0 then u div 8 + 1 else u div 8)" for u :: nat
proof -
  have "u = 8 * (u div 8) + u mod 8" "u mod 8 < 8" by simp_all
  then show ?thesis by (simp; linarith)
qed

lemma bytes_for_bits_unat: "unat (bytes_for_bits i) = (unat i + 7) div 8"
proof -
  have "unat (i div 8 + 1) = unat i div 8 + 1"
  proof -
    have "unat i < 2 ^ 32" using unsigned_less [of i] by simp
    then have "unat i div 8 + 1 < 2 ^ 32" by simp
    moreover have "unat (i div 8) = unat i div 8" by (simp add: unat_div_distrib)
    ultimately show ?thesis by (subst unat_add_lem [THEN iffD1]) auto
  qed
  moreover have "(i mod 8 \<noteq> 0) = (unat i mod 8 \<noteq> 0)"
    by (simp add: unat_eq_0 [symmetric] unat_mod_distrib)
  ultimately show ?thesis
    by (simp add: bytes_for_bits_def ceil8 unat_div_distrib)
qed

lemma TX_BUF_MAX_LEN_unat: "unat TX_BUF_MAX_LEN = 345728"
  by (simp add: TX_BUF_MAX_LEN_def)

lemma spi_begin_ok:
  assumes "unat i = b" and "0 < b" and "b \<le> 8 * 345728"
    and "length (p_spi_send_buf s) = 345728"
  shows "spi_begin i s body = body (s\<lparr>spi_send_len := bytes_for_bits i,
    p_spi_send_buf := replicate ((b + 7) div 8) 0 @ drop ((b + 7) div 8) (p_spi_send_buf s)\<rparr>)"
proof -
  let ?n = "bytes_for_bits i"
  have n: "unat ?n = (b + 7) div 8" by (simp add: bytes_for_bits_unat assms(1))
  have "0 < (b + 7) div 8" "(b + 7) div 8 \<le> 345728"
    using assms(2,3) by linarith+
  then have ok: "\<not> (?n = 0 \<or> ?n > TX_BUF_MAX_LEN)"
    using n by (simp add: word_less_nat_alt TX_BUF_MAX_LEN_unat unat_eq_0 [symmetric])
  have "blit (p_spi_send_buf s) 0 (replicate (unat ?n) 0)
      = Inr (replicate ((b + 7) div 8) 0 @ drop ((b + 7) div 8) (p_spi_send_buf s))"
    using assms(3,4) n by (simp add: mem_simps overwrite_def)
  with ok show ?thesis by (simp add: spi_begin_def Let_def)
qed

lemma spells_start:
  assumes "8 * n < 2 ^ 32"
  shows "spells n rst [] (replicate n 0 @ rst, 0)"
  using assms by (auto simp: spells_def bits_of_zeros)

lemma header_bits:
  assumes "9 * (k + 4 * unat len) < 2 ^ 32"
  shows "unat ((of_nat k + len * 4) * 9) = 9 * (k + 4 * unat (len :: u32))"
proof -
  have "(of_nat k + len * 4) * 9 = (of_nat (9 * (k + 4 * unat len)) :: u32)"
    by (simp add: algebra_simps)
  moreover have "unat (of_nat (9 * (k + 4 * unat len)) :: u32) = 9 * (k + 4 * unat len)"
    by (rule unat_of_nat_small) (use assms in simp)
  ultimately show ?thesis by metis
qed

lemma bytes_of_bits_bounds: "8 * ((b + 7) div 8) \<le> b + 7 \<and> b \<le> 8 * ((b + 7) div 8)" for b :: nat
  by presburger

lemma len4: "length (get_u8_from_u32 x) = 4"
  by (simp add: get_u8_from_u32_def)

lemma reference_ok:
  assumes buf: "length (p_spi_send_buf s) = 345728"
    and fits: "9 * (12 + 4 * unat len) \<le> 8 * 345728"
    and pix: "unat len \<le> length data_buf"
  defines "n \<equiv> (9 * (12 + 4 * unat len) + 7) div 8"
  shows "\<exists>b. filling_spi_send_display_data data_buf len x y s
      = Inr (None, s\<lparr>spi_send_len := of_nat n, p_spi_send_buf := b @ drop n (p_spi_send_buf s)\<rparr>)
    \<and> length b = n
    \<and> bits_of b = encode (frame_symbols x y (take (unat len) data_buf))
        @ replicate (8 * n - 9 * (12 + 4 * unat len)) False"
proof -
  let ?B = "9 * (12 + 4 * unat len)"
  let ?rst = "drop n (p_spi_send_buf s)"
  let ?ps = "take (unat len) data_buf"
  have i: "unat ((12 + len * 4) * 9) = ?B"
    using header_bits [of 12 len] fits by simp
  have len: "bytes_for_bits ((12 + len * 4) * 9) = of_nat n"
  proof -
    have "of_nat (unat (bytes_for_bits ((12 + len * 4) * 9))) = bytes_for_bits ((12 + len * 4) * 9)"
      by simp
    then show ?thesis by (simp only: bytes_for_bits_unat i n_def)
  qed
  have n: "8 * n < 2 ^ 32" "?B \<le> 8 * n"
    using bytes_of_bits_bounds [of ?B] fits by (simp_all add: n_def)
  have room: "9 * k \<le> 8 * n" if "k \<le> 12 + 4 * unat len" for k
    using that n(2) by simp
  obtain bp1 where 1: "write_lcm_command 0x2A (replicate n 0 @ ?rst, 0) = Inr bp1"
    "spells n ?rst [Cmd 0x2A] bp1"
    using spells_command [OF spells_start [OF n(1)] room, of "0x2A" ?rst] by auto
  obtain bp2 where 2: "write_lcm_datas (get_u8_from_u32 x) bp1 = Inr bp2"
    "spells n ?rst (Cmd 0x2A # word_symbols x) bp2"
    using spells_datas [OF 1(2) room, of "get_u8_from_u32 x"] by (auto simp: word_symbols_def len4)
  obtain bp3 where 3: "write_lcm_command 0x2B bp2 = Inr bp3"
    "spells n ?rst (Cmd 0x2A # word_symbols x @ [Cmd 0x2B]) bp3"
    using spells_command [OF 2(2) room, of "0x2B"] by auto
  obtain bp4 where 4: "write_lcm_datas (get_u8_from_u32 y) bp3 = Inr bp4"
    "spells n ?rst (Cmd 0x2A # word_symbols x @ Cmd 0x2B # word_symbols y) bp4"
    using spells_datas [OF 3(2) room, of "get_u8_from_u32 y"] by (auto simp: word_symbols_def len4)
  obtain bp5 where 5: "write_lcm_command 0x2C bp4 = Inr bp5"
    "spells n ?rst (Cmd 0x2A # word_symbols x @ Cmd 0x2B # word_symbols y @ [Cmd 0x2C]) bp5"
    using spells_command [OF 4(2) room, of "0x2C"] by auto
  obtain bp6 where 6: "write_lcm_pixels (unat len) 0 data_buf bp5 = Inr bp6"
    "spells n ?rst (Cmd 0x2A # word_symbols x @ Cmd 0x2B # word_symbols y @ Cmd 0x2C
       # concat (map pixel_symbols ?ps)) bp6"
    using spells_pixels [OF 5(2) room, of "unat len" 0 data_buf] pix by auto
  obtain bp7 where 7: "write_lcm_command 0x00 bp6 = Inr bp7"
    "spells n ?rst (frame_symbols x y ?ps) bp7"
    using spells_command [OF 6(2) room, of "0x00"] pix by (auto simp: frame_symbols_def)
  from 7(2) pix obtain b where b: "fst bp7 = b @ ?rst" "length b = n"
    "bits_of b = encode (frame_symbols x y ?ps) @ replicate (8 * n - ?B) False"
    by (auto simp: spells_def)
  have "filling_spi_send_display_data data_buf len x y s
      = Inr (None, s\<lparr>spi_send_len := of_nat n, p_spi_send_buf := b @ ?rst\<rparr>)"
  proof -
    have "spi_begin ((12 + len * 4) * 9) s body = body (s\<lparr>spi_send_len := of_nat n,
        p_spi_send_buf := replicate n 0 @ ?rst\<rparr>)" for body
      using spi_begin_ok [OF i _ fits buf, of body] by (simp only: len flip: n_def) simp
    then show ?thesis
      by (simp only: filling_spi_send_display_data_def) (simp add: 1 2 3 4 5 6 7 b)
  qed
  with b show ?thesis by blast
qed

section \<open>Bits of one block and of the header\<close>

lemma byte_bits_unfold: "byte_bits b = [bit b 7, bit b 6, bit b 5, bit b 4, bit b 3, bit b 2, bit b 1, bit b 0]"
  by (simp add: byte_bits_def upt_conv_Cons)

lemma bit_mult_2: "bit (a * 2) n \<longleftrightarrow> n \<noteq> 0 \<and> n < LENGTH('n) \<and> bit a (n - 1)" for a :: "'n::len word"
  using bit_double_iff [of a n] by (auto simp: mult.commute possible_bit_def)

lemma pack2_bits_list:
  "bits_of (pack2 [a,b,c,d,e,f,g,h]) = encode (map Dat [b,a,d,c,f,e,h,g])"
  by (simp add: pack2_def bits_of_Cons byte_bits_unfold sym_bits_def bit_simps bit_mult_2)
    (simp add: eval_nat_numeral)

lemma swap_masks:
  "(0x000000ff :: u32) = mask 8" "(0x0000ff00 :: u32) = push_bit 8 (mask 8)"
  "(0x00ff0000 :: u32) = push_bit 16 (mask 8)" "(0xff000000 :: u32) = push_bit 24 (mask 8)"
  by code_simp+

lemma bytes_le32_swap: "bytes_le32 (swap_endian_32 w) = get_u8_from_u32 w"
  unfolding bytes_le32_def get_u8_from_u32_def swap_endian_32_def swap_masks
  by (intro conjI arg_cong2 [where f = Cons] bit_word_eqI)
    (auto simp add: bit_simps)

lemma pack3_bits_list:
  "bits_of (pack3 [a,b,c,d,e,f,g,h]) = encode (map Dat [b,a,d,c,f,e,h,g])"
  by (simp add: pack3_def Let_def bytes_le32_swap get_u8_from_u32_def bits_of_Cons byte_bits_unfold sym_bits_def bit_simps bit_mult_2)

lemma header1_first:
  fixes x0 x1 x2 x3 y2 y3 :: u8
  shows "bits_of (get_u8_from_u32 (push_bit 14 (ucast x3) OR push_bit 5 (ucast x2) OR drop_bit 4 (ucast x1) OR 0x15402010)
     @ get_u8_from_u32 (push_bit 28 (ucast x1) OR push_bit 19 (ucast x0) OR push_bit 1 (ucast y3) OR 0x0800ae01) @ [y2])
   = encode [Cmd 0x2A, Dat x3, Dat x2, Dat x1, Dat x0, Cmd 0x2B, Dat y3, Dat y2]"
  by (simp add: get_u8_from_u32_def bits_of_Cons byte_bits_unfold sym_bits_def bit_simps bit_mult_2)

lemma header1_second:
  fixes y0 y1 :: u8
  shows "bits_of (get_u8_from_u32 (push_bit 23 (ucast y1) OR push_bit 14 (ucast y0) OR 0x80400000)
      @ bytes_le32 0 @ [0x2c])
   = encode [Dat y1, Dat y0, Cmd 0, Cmd 0, Cmd 0, Cmd 0, Cmd 0, Cmd 0x2C]"
  by (simp add: get_u8_from_u32_def bytes_le32_def bits_of_Cons byte_bits_unfold sym_bits_def bit_simps bit_mult_2)

lemma header1_bits:
  "bits_of (fill_header_withnop1 x y dst)
    = encode (Cmd 0x2A # word_symbols x @ Cmd 0x2B # word_symbols y @ replicate 5 (Cmd 0) @ [Cmd 0x2C])"
proof -
  have "fill_header_withnop1 x y dst = 
    (get_u8_from_u32 (push_bit 14 (ucast (bytes_le32 x ! 3)) OR push_bit 5 (ucast (bytes_le32 x ! 2)) OR drop_bit 4 (ucast (bytes_le32 x ! 1)) OR 0x15402010)
     @ get_u8_from_u32 (push_bit 28 (ucast (bytes_le32 x ! 1)) OR push_bit 19 (ucast (bytes_le32 x ! 0)) OR push_bit 1 (ucast (bytes_le32 y ! 3)) OR 0x0800ae01) @ [bytes_le32 y ! 2]) @
    (get_u8_from_u32 (push_bit 23 (ucast (bytes_le32 y ! 1)) OR push_bit 14 (ucast (bytes_le32 y ! 0)) OR 0x80400000)
      @ bytes_le32 0 @ [0x2c])"
    unfolding fill_header_withnop1_def Let_def bytes_le32_swap append_assoc ..
  moreover have "word_symbols w = [Dat (bytes_le32 w ! 3), Dat (bytes_le32 w ! 2), Dat (bytes_le32 w ! 1), Dat (bytes_le32 w ! 0)]" for w
    by (simp add: word_symbols_def get_u8_from_u32_def bytes_le32_def)
  ultimately show ?thesis 
    by (simp only: bits_of_append[of "_ @ _ @ [bytes_le32 y ! 2]"] header1_first header1_second)
     (simp add: numeral_eq_Suc)
qed

lemma eight_bytes:
  assumes "length p = 8"
  obtains a b c d e f g h where "p = [a, b, c, d, e, f, g, h]"
  using assms by (auto simp: length_Suc_conv numeral_eq_Suc)

section \<open>The contract of a block packer\<close>

text \<open>The symbols of a run of pixels as they lie in memory, two pixels (eight bytes) at a time.\<close>

definition pair_symbols :: "u8 list \<Rightarrow> lcm_symbol list" where
  "pair_symbols p = map Dat [p ! 1, p ! 0, p ! 3, p ! 2, p ! 5, p ! 4, p ! 7, p ! 6]"

fun pairs_symbols :: "nat \<Rightarrow> u8 list \<Rightarrow> lcm_symbol list" where
  "pairs_symbols 0 src = []"
| "pairs_symbols (Suc k) src = pair_symbols (take 8 src) @ pairs_symbols k (drop 8 src)"

lemma length_pairs_symbols [simp]: "length (pairs_symbols k src) = 8 * k"
  by (induction k arbitrary: src) (simp_all add: pair_symbols_def)

text \<open>The stream of the packed formats: the window, five NOPs, and the pixels.\<close>

definition packed_symbols :: "u32 \<Rightarrow> u32 \<Rightarrow> nat \<Rightarrow> u8 list \<Rightarrow> lcm_symbol list" where
  "packed_symbols x y k src = Cmd 0x2A # word_symbols x @ Cmd 0x2B # word_symbols y
     @ replicate 5 (Cmd 0) @ Cmd 0x2C # pairs_symbols k src"

lemma length_packed_symbols [simp]: "length (packed_symbols x y k src) = 16 + 8 * k"
  by (simp add: packed_symbols_def)

lemma packed_room: "18 + 9 * (l div 2) \<le> (9 * (24 + 4 * l) + 7) div 8" for l :: nat
proof -
  have "(18 + 9 * h) * 8 \<le> 9 * (24 + 4 * l) + 7" if "2 * h \<le> l" for h
    using that by simp
  then have "(18 + 9 * (l div 2)) * 8 \<le> 9 * (24 + 4 * l) + 7" by simp
  then show ?thesis by (simp add: less_eq_div_iff_mult_less_eq del: div_mult_self1)
qed

locale block_packer =
  fixes pack :: "u8 list \<Rightarrow> u8 list"
  assumes pack_bits: "length p = 8 \<Longrightarrow> bits_of (pack p) = encode (pair_symbols p)"
begin

lemma length_pack: "length p = 8 \<Longrightarrow> length (pack p) = 9"
  using arg_cong [OF pack_bits, where f = length] by (simp add: pair_symbols_def)

lemma pack_blocks_ok:
  assumes "s + 8 * k \<le> length psrc" and "d + 9 * k \<le> length pdst"
  shows "\<exists>out. pack_blocks pack k psrc s pdst d = Inr (overwrite pdst d out) \<and> length out = 9 * k
    \<and> bits_of out = encode (pairs_symbols k (drop s psrc))"
  using assms
proof (induction k arbitrary: s d pdst)
  case 0
  then show ?case by simp
next
  case (Suc k)
  let ?p = "take 8 (drop s psrc)"
  have len: "length ?p = 8" "length (pack ?p) = 9" using Suc.prems(1) by (simp_all add: length_pack)
  have p: "slice psrc s 8 = Inr ?p" using Suc.prems(1) by (simp add: mem_simps)
  have b: "blit pdst d (pack ?p) = Inr (overwrite pdst d (pack ?p))"
    using Suc.prems(2) len by (simp add: mem_simps)
  obtain out where out: "pack_blocks pack k psrc (s + 8) (overwrite pdst d (pack ?p)) (d + 9)
      = Inr (overwrite (overwrite pdst d (pack ?p)) (d + 9) out)" "length out = 9 * k"
    "bits_of out = encode (pairs_symbols k (drop (s + 8) psrc))"
    using Suc.IH [of "s + 8" "d + 9" "overwrite pdst d (pack ?p)"] Suc.prems len by auto
  have "overwrite (overwrite pdst d (pack ?p)) (d + 9) out = overwrite pdst d (pack ?p @ out)"
    using overwrite_twice [of d pdst "pack ?p" out] Suc.prems(2) len out(2) by simp
  with out p b len show ?case
    by (intro exI [of _ "pack ?p @ out"])
      (simp add: bits_of_append pack_bits add.commute)
qed

lemma fill_packed_ok:
  assumes buf: "length (p_spi_send_buf s) = 345728"
    and fits: "9 * (24 + 4 * unat len) \<le> 8 * 345728"
    and src: "8 * (unat len div 2) \<le> length src"
  defines "n \<equiv> (9 * (24 + 4 * unat len) + 7) div 8" and "k \<equiv> unat len div 2"
  shows "\<exists>b. fill_packed fill_header_withnop1 pack src len x y s
      = Inr (None, s\<lparr>spi_send_len := of_nat n, p_spi_send_buf := b @ drop n (p_spi_send_buf s)\<rparr>)
    \<and> length b = n
    \<and> bits_of b = encode (packed_symbols x y k src) @ replicate (8 * n - 9 * (16 + 8 * k)) False"
proof -
  let ?rst = "drop n (p_spi_send_buf s)"
  define m0 where "m0 = replicate n 0 @ ?rst"
  define hdr where "hdr = fill_header_withnop1 x y (take 18 m0)"
  have hl: "length hdr = 18" by (simp add: hdr_def fill_header_withnop1_def Let_def bytes_le32_def)
  have "16 + len * 4 + 8 = of_nat 24 + len * 4" by simp
  then have i: "unat ((16 + len * 4 + 8) * 9) = 9 * (24 + 4 * unat len)"
    using header_bits [of 24 len] fits by (simp del: of_nat_numeral)
  have len: "bytes_for_bits ((16 + len * 4 + 8) * 9) = of_nat n"
  proof -
    have "of_nat (unat (bytes_for_bits ((16 + len * 4 + 8) * 9)))
        = bytes_for_bits ((16 + len * 4 + 8) * 9)" by simp
    then show ?thesis by (simp only: bytes_for_bits_unat i n_def)
  qed
  have n: "18 + 9 * k \<le> n" "n \<le> 345728" using fits packed_room [of "unat len"]
    by (simp_all add: n_def k_def)
  have k: "unat (len div 2) = k" by (simp add: k_def unat_div_distrib)
  have m0: "length m0 = 345728" using n buf by (simp add: m0_def)
  have h: "overwrite m0 0 hdr = hdr @ replicate (n - 18) 0 @ ?rst"
    using n(1) by (simp add: overwrite_def hl m0_def)
  obtain out where out: "pack_blocks pack k src 0 (overwrite m0 0 hdr) 18
      = Inr (overwrite (overwrite m0 0 hdr) 18 out)" "length out = 9 * k"
    "bits_of out = encode (pairs_symbols k src)"
    using pack_blocks_ok [of 0 k src 18 "overwrite m0 0 hdr"] src n(1) buf hl h
    by (auto simp: k_def)
  let ?b = "hdr @ out @ replicate (n - 18 - 9 * k) 0"
  have final: "overwrite (overwrite m0 0 hdr) 18 out = ?b @ ?rst"
    unfolding h using n(1) out(2) hl by (simp add: overwrite_def add.commute)
  have run: "fill_packed fill_header_withnop1 pack src len x y s
      = Inr (None, s\<lparr>spi_send_len := of_nat n, p_spi_send_buf := ?b @ ?rst\<rparr>)"
  proof -
    have "spi_begin ((16 + len * 4 + 8) * 9) s body = body (s\<lparr>spi_send_len := of_nat n,
        p_spi_send_buf := m0\<rparr>)" for body
      using spi_begin_ok [OF i _ fits buf, of body] by (simp only: len m0_def flip: n_def) simp
    moreover have "slice m0 0 18 = Inr (take 18 m0)" using m0 by (simp add: mem_simps)
    moreover have "blit m0 0 hdr = Inr (overwrite m0 0 hdr)" using m0 hl by (simp add: blit_def)
    ultimately show ?thesis
      by (simp only: fill_packed_def spi.simps bindE_simps k out(1) final flip: hdr_def)
        (simp add: out(1) [unfolded hdr_def] final [unfolded hdr_def] hdr_def)
  qed
  have "bits_of ?b = encode (packed_symbols x y k src) @ replicate (8 * n - 9 * (16 + 8 * k)) False"
  proof -
    have pad: "8 * (n - 18 - 9 * k) = 8 * n - 9 * (16 + 8 * k)" using n(1) by simp
    show ?thesis
      unfolding bits_of_append out(3) hdr_def header1_bits bits_of_zeros packed_symbols_def pad
      by (simp only: encode_simps append_assoc append.simps)
  qed
  moreover have "length ?b = n" using n(1) out(2) hl by simp
  ultimately show ?thesis using run by blast
qed

end

interpretation pack2: block_packer pack2
proof
  fix p :: "u8 list" assume "length p = 8"
  then show "bits_of (pack2 p) = encode (pair_symbols p)"
    by (rule eight_bytes) (simp add: pack2_bits_list pair_symbols_def del: encode_simps list.map)
qed

interpretation pack3: block_packer pack3
proof
  fix p :: "u8 list" assume "length p = 8"
  then show "bits_of (pack3 p) = encode (pair_symbols p)"
    by (rule eight_bytes) (simp add: pack3_bits_list pair_symbols_def del: encode_simps list.map)
qed

section \<open>The symbols a bus receiver reads\<close>

text \<open>The byte of eight bits, most significant first, and the stream cut into nine-bit symbols.\<close>

definition byte_of_bits :: "bool list \<Rightarrow> u8" where
  "byte_of_bits bs = horner_sum of_bool 2 (rev bs)"

fun decode :: "bool list \<Rightarrow> lcm_symbol list" where
  "decode (d # b7 # b6 # b5 # b4 # b3 # b2 # b1 # b0 # bs)
     = (d, byte_of_bits [b7, b6, b5, b4, b3, b2, b1, b0]) # decode bs"
| "decode bs = []"

text \<open>The bytes that go out on the bus, and the commands and data in them other than NOP.\<close>

definition sent :: "spi \<Rightarrow> u8 list" where
  "sent s = take (unat (spi_send_len s)) (p_spi_send_buf s)"

definition received :: "spi \<Rightarrow> lcm_symbol list" where
  "received s = filter (\<lambda>c. c \<noteq> Cmd 0) (decode (bits_of (sent s)))"

lemma byte_of_byte_bits: "byte_of_bits (byte_bits b) = b"
proof (rule bit_word_eqI)
  fix n assume "n < LENGTH(8)"
  then have "n < 8" by simp
  moreover have "length (rev (byte_bits b)) = 8" by (simp add: byte_bits_def)
  ultimately show "bit (byte_of_bits (byte_bits b)) n = bit b n"
    by (simp add: byte_of_bits_def bit_horner_sum_bit_word_iff byte_bits_def rev_nth)
qed

lemma decode_sym: "decode (sym_bits s @ bs) = s # decode bs"
  using byte_of_byte_bits [of "snd s"]
  by (simp add: sym_bits_def byte_bits_unfold)

lemma decode_encode: "decode (encode ss @ bs) = ss @ decode bs"
  by (induction ss) (simp_all only: encode_simps append_assoc append.simps decode_sym)

lemma byte_of_zeros: "byte_of_bits [False, False, False, False, False, False, False, False] = 0"
  by (simp add: byte_of_bits_def)

lemma decode_short: "length bs < 9 \<Longrightarrow> decode bs = []"
  by (cases bs rule: decode.cases) auto

lemma decode_False: "decode (replicate k False) = replicate (k div 9) (Cmd 0)"
proof (induction k rule: less_induct)
  case (less k)
  show ?case
  proof (cases "k < 9")
    case True
    then show ?thesis by (simp add: decode_short)
  next
    case False
    then have "replicate k False = replicate 9 False @ replicate (k - 9) False"
      by (simp flip: replicate_add)
    moreover have "replicate 9 False @ bs = False # False # False # False # False # False # False # False # False # bs" for bs
      by (simp add: numeral_eq_Suc)
    moreover have "k div 9 = Suc ((k - 9) div 9)" using False by (simp add: le_div_geq)
    ultimately show ?thesis using less [of "k - 9"] False by (simp add: byte_of_zeros)
  qed
qed

lemma decode_stream: "decode (encode ss @ replicate k False) = ss @ replicate (k div 9) (Cmd 0)"
  by (simp only: decode_encode decode_False)

lemma encode_inject: "encode ss = encode ts \<Longrightarrow> ss = ts"
proof -
  assume "encode ss = encode ts"
  then have "ss @ decode [] = ts @ decode []" by (simp only: flip: decode_encode)
  then show "ss = ts" by (simp only: append_same_eq)
qed

lemma bits_of_inject: "bits_of a = bits_of b \<Longrightarrow> a = b"
proof -
  assume eq: "bits_of a = bits_of b"
  have "length a = length b" using arg_cong [OF eq, of length] by simp
  then show "a = b" using eq
  proof (induction a b rule: list_induct2)
    case (Cons x a y b)
    have len: "length (byte_bits x) = length (byte_bits y)" by (simp add: byte_bits_def)
    from Cons.prems have "byte_bits x = byte_bits y \<and> bits_of a = bits_of b"
      unfolding bits_of_Cons using append_eq_append_conv [OF disjI1, OF len] by blast
    then show ?case
      using Cons.IH byte_of_byte_bits [of x] byte_of_byte_bits [of y] by metis
  qed simp
qed

section \<open>Properties\<close>

lemma sent_prefix:
  assumes "length b = n" and "n \<le> 345728"
  shows "sent (s\<lparr>spi_send_len := of_nat n, p_spi_send_buf := b @ rst\<rparr>) = b"
proof -
  have "unat (of_nat n :: u32) = n" by (rule unat_of_nat_small) (use assms(2) in simp)
  then show ?thesis using assms(1) by (simp add: sent_def)
qed

lemma pair_of_pixels: "pair_symbols (bytes_le32 p @ bytes_le32 q) = pixel_symbols p @ pixel_symbols q"
  by (simp add: pair_symbols_def pixel_symbols_def bytes_le32_def)

lemma pairs_of_pixels:
  "2 * k \<le> length ps \<Longrightarrow> pairs_symbols k (concat (map bytes_le32 ps)) = concat (map pixel_symbols (take (2 * k) ps))"
proof (induction k arbitrary: ps)
  case (Suc k)
  then obtain p q qs where ps: "ps = p # q # qs" by (cases ps; cases "tl ps") auto
  have "pairs_symbols k (concat (map bytes_le32 qs)) = concat (map pixel_symbols (take (2 * k) qs))"
    using Suc.IH [of qs] Suc.prems ps by simp
  then show ?case by (simp add: ps length_bytes_le32 flip: pair_of_pixels)
qed simp

lemma reference_stream:
  assumes "length (p_spi_send_buf s) = 345728" and "9 * (12 + 4 * unat len) \<le> 8 * 345728"
    and "unat len \<le> length data_buf"
  shows "\<exists>s'. filling_spi_send_display_data data_buf len x y s = Inr (None, s')
    \<and> decode (bits_of (sent s')) = frame_symbols x y (take (unat len) data_buf)
    \<and> unat (spi_send_len s') = (9 * (12 + 4 * unat len) + 7) div 8
    \<and> drop (unat (spi_send_len s')) (p_spi_send_buf s') = drop (unat (spi_send_len s')) (p_spi_send_buf s)"
proof -
  let ?n = "(9 * (12 + 4 * unat len) + 7) div 8"
  have n: "?n \<le> 345728" "unat (of_nat ?n :: u32) = ?n"
    using assms(2) by (auto intro!: unat_of_nat_small)
  obtain b where b: "filling_spi_send_display_data data_buf len x y s
      = Inr (None, s\<lparr>spi_send_len := of_nat ?n, p_spi_send_buf := b @ drop ?n (p_spi_send_buf s)\<rparr>)"
    "length b = ?n" "bits_of b = encode (frame_symbols x y (take (unat len) data_buf))
        @ replicate (8 * ?n - 9 * (12 + 4 * unat len)) False"
    using reference_ok [OF assms, of x y] by blast
  have "8 * ?n - 9 * (12 + 4 * unat len) < 9"
    using bytes_of_bits_bounds [of "9 * (12 + 4 * unat len)"] by linarith
  then have "decode (bits_of b) = frame_symbols x y (take (unat len) data_buf)"
    unfolding b(3) decode_stream by simp
  then show ?thesis
    using b(1,2) n sent_prefix [OF b(2) n(1), of "drop ?n (p_spi_send_buf s)" s]
    by (intro exI [of _ "s\<lparr>spi_send_len := of_nat ?n, p_spi_send_buf := b @ drop ?n (p_spi_send_buf s)\<rparr>"])
      simp
qed


definition spi_cleared :: spi where
  "spi_cleared = \<lparr>spi_send_len = 0, p_spi_send_buf = replicate 345728 0\<rparr>"

lemma spi_cleared_length: "length (p_spi_send_buf spi_cleared) = 345728"
  by (simp add: spi_cleared_def)


lemma packed_padding:
  "(8 * ((9 * (24 + 4 * l) + 7) div 8) - 9 * (16 + 8 * (l div 2))) div 9 = 8 + 4 * (l mod 2)" for l :: nat
proof -
  define h where "h = l div 2"
  define r where "r = l mod 2"
  have l: "l = 2 * h + r" by (simp add: h_def r_def)
  define n where "n = (9 * (24 + 4 * l) + 7) div 8"
  have n: "9 * (24 + 4 * l) \<le> 8 * n" "8 * n \<le> 9 * (24 + 4 * l) + 7"
    using bytes_of_bits_bounds [of "9 * (24 + 4 * l)"] by (simp_all add: n_def)
  have "(8 * n - 9 * (16 + 8 * h)) div 9 = 8 + 4 * r"
    by (rule div_nat_eqI) (use n l in auto)
  then show ?thesis by (simp add: n_def h_def r_def)
qed

lemma packed_stream:
  assumes "block_packer pack" and "length (p_spi_send_buf s) = 345728"
    and "9 * (24 + 4 * unat len) \<le> 8 * 345728" and "8 * (unat len div 2) \<le> length src"
  shows "\<exists>s'. fill_packed fill_header_withnop1 pack src len x y s = Inr (None, s')
    \<and> decode (bits_of (sent s')) = packed_symbols x y (unat len div 2) src
        @ replicate (8 + 4 * (unat len mod 2)) (Cmd 0)"
proof -
  let ?n = "(9 * (24 + 4 * unat len) + 7) div 8"
  have n: "?n \<le> 345728" using assms(3) by auto
  obtain b where b: "fill_packed fill_header_withnop1 pack src len x y s
      = Inr (None, s\<lparr>spi_send_len := of_nat ?n, p_spi_send_buf := b @ drop ?n (p_spi_send_buf s)\<rparr>)"
    "length b = ?n" "bits_of b = encode (packed_symbols x y (unat len div 2) src)
        @ replicate (8 * ?n - 9 * (16 + 8 * (unat len div 2))) False"
    using block_packer.fill_packed_ok [OF assms, of x y] by blast
  have "decode (bits_of b) = packed_symbols x y (unat len div 2) src
      @ replicate (8 + 4 * (unat len mod 2)) (Cmd 0)"
    unfolding b(3) decode_stream packed_padding ..
  then show ?thesis
    using b(1) sent_prefix [OF b(2) n, of "drop ?n (p_spi_send_buf s)" s] by auto
qed

text \<open>
  C18: the packer of 32-bit words sends the window, the pixels of the pairs in order, and only NOPs
  besides; of an odd number of pixels the last one is dropped.
\<close>

theorem filling_spi_send_display_data3_stream:
  assumes "length (p_spi_send_buf s) = 345728" and "9 * (24 + 4 * unat len) \<le> 8 * 345728"
    and "8 * (unat len div 2) \<le> length src"
  shows "\<exists>s'. filling_spi_send_display_data3 src len x y s = Inr (None, s')
    \<and> decode (bits_of (sent s')) = packed_symbols x y (unat len div 2) src
        @ replicate (8 + 4 * (unat len mod 2)) (Cmd 0)"
  unfolding filling_spi_send_display_data3_def
  by (rule packed_stream [OF pack3.block_packer_axioms assms])

theorem filling_spi_send_display_data3_stream_witness:
  "\<exists>s'. filling_spi_send_display_data3 [1, 2, 3, 4, 5, 6, 7, 8] 2 239 319 spi_cleared = Inr (None, s')
    \<and> decode (bits_of (sent s')) = packed_symbols 239 319 1 [1, 2, 3, 4, 5, 6, 7, 8] @ replicate 8 (Cmd 0)"
  using filling_spi_send_display_data3_stream [OF spi_cleared_length, of 2 "[1, 2, 3, 4, 5, 6, 7, 8]" 239 319]
  by auto

lemma filter_data: "filter (\<lambda>c. c \<noteq> Cmd 0) (map Dat ds) = map Dat ds"
  by (induction ds) auto

lemma filter_word: "filter (\<lambda>c. c \<noteq> Cmd 0) (word_symbols x) = word_symbols x"
  by (simp only: word_symbols_def filter_data)

lemma filter_pixels:
  "filter (\<lambda>c. c \<noteq> Cmd 0) (concat (map pixel_symbols ps)) = concat (map pixel_symbols ps)"
  by (induction ps) (simp_all add: pixel_symbols_def)

lemma received_frame:
  "filter (\<lambda>c. c \<noteq> Cmd 0) (frame_symbols x y ps) = Cmd 0x2A # word_symbols x @ Cmd 0x2B # word_symbols y
     @ Cmd 0x2C # concat (map pixel_symbols ps)"
  by (simp add: frame_symbols_def filter_word filter_pixels)

lemma received_packed:
  assumes "pairs_symbols k src = concat (map pixel_symbols ps)"
  shows "filter (\<lambda>c. c \<noteq> Cmd 0) (packed_symbols x y k src) = Cmd 0x2A # word_symbols x @ Cmd 0x2B # word_symbols y
     @ Cmd 0x2C # concat (map pixel_symbols ps)"
  by (simp add: packed_symbols_def assms filter_word filter_pixels)

lemma packers_agree:
  assumes buf: "length (p_spi_send_buf s) = 345728" "length (p_spi_send_buf t) = 345728"
    and fits: "9 * (24 + 4 * unat len) \<le> 8 * 345728"
    and pix: "unat len \<le> length pixels" and even: "even (unat len)"
  shows "\<exists>s' t'. filling_spi_send_display_data pixels len x y s = Inr (None, s')
    \<and> filling_spi_send_display_data3 (concat (map bytes_le32 pixels)) len x y t = Inr (None, t')
    \<and> received s' = received t'"
proof -
  let ?k = "unat len div 2" and ?src = "concat (map bytes_le32 pixels)"
  have k: "2 * ?k = unat len" using even by simp
  have src: "length ?src = 4 * length pixels" by (induction pixels) (simp_all add: length_bytes_le32)
  obtain s' where s': "filling_spi_send_display_data pixels len x y s = Inr (None, s')"
    "decode (bits_of (sent s')) = frame_symbols x y (take (unat len) pixels)"
    using reference_stream [OF buf(1) _ pix, of x y] fits by auto
  obtain t' where t': "filling_spi_send_display_data3 ?src len x y t = Inr (None, t')"
    "decode (bits_of (sent t')) = packed_symbols x y ?k ?src @ replicate (8 + 4 * (unat len mod 2)) (Cmd 0)"
    using packed_stream [OF pack3.block_packer_axioms buf(2) fits, of ?src x y] src pix even
    by (auto simp: filling_spi_send_display_data3_def)
  have "pairs_symbols ?k ?src = concat (map pixel_symbols (take (unat len) pixels))"
    using pairs_of_pixels [of ?k pixels] k pix by simp
  then have "received s' = received t'"
    by (simp add: received_def s'(2) t'(2) received_frame received_packed)
  with s'(1) t'(1) show ?thesis by blast
qed

text \<open>
  C1: on an even number of pixels the optimised packer and the bit-by-bit reference are the same
  to the panel: whatever the buffer held, it receives the same commands and data in the same order.
\<close>

theorem filling_spi_send_display_data3_equiv:
  assumes buf: "length (p_spi_send_buf s) = 345728" "length (p_spi_send_buf t) = 345728"
    and fits: "9 * (24 + 4 * unat len) \<le> 8 * 345728"
    and pix: "unat len \<le> length pixels" and even: "even (unat len)"
  shows "\<exists>s' t'. filling_spi_send_display_data pixels len x y s = Inr (None, s')
    \<and> filling_spi_send_display_data3 (concat (map bytes_le32 pixels)) len x y t = Inr (None, t')
    \<and> received s' = received t'"
  by (rule packers_agree [OF assms])

theorem filling_spi_send_display_data3_equiv_witness:
  "\<exists>s' t'. filling_spi_send_display_data [0x11223344, 0x55667788] 2 239 319 spi_cleared = Inr (None, s')
    \<and> filling_spi_send_display_data3 (concat (map bytes_le32 [0x11223344, 0x55667788])) 2 239 319 spi_cleared
        = Inr (None, t') \<and> received s' = received t'"
  using filling_spi_send_display_data3_equiv [OF spi_cleared_length spi_cleared_length,
      of 2 "[0x11223344, 0x55667788]" 239 319]
  by auto

lemma spi_begin_refuses:
  assumes "unat i = b" and "8 * 345728 < b"
  shows "spi_begin i s body = Inr (Some (-1), s\<lparr>spi_send_len := bytes_for_bits i\<rparr>)"
proof -
  have "345728 < (b + 7) div 8" using assms(2) by linarith
  then have "TX_BUF_MAX_LEN < bytes_for_bits i"
    by (simp add: word_less_nat_alt TX_BUF_MAX_LEN_unat bytes_for_bits_unat assms(1))
  then show ?thesis by (simp add: spi_begin_def Let_def)
qed

text \<open>
  a request whose symbols do not fit the send buffer (and whose bit count does not wrap) is
  refused by every packer with -1, and no byte of the buffer changes.
\<close>

theorem filling_refuses_long:
  assumes "8 * 345728 < 9 * (12 + 4 * unat len)" and "9 * (24 + 4 * unat len) < 2 ^ 32"
  shows "\<exists>n m. filling_spi_send_display_data pixels len x y s = Inr (Some (-1), s\<lparr>spi_send_len := n\<rparr>)
    \<and> (\<forall>fill \<in> {filling_spi_send_display_data2, filling_spi_send_display_data3,
          filling_spi_send_display_data4}. fill src len x y s = Inr (Some (-1), s\<lparr>spi_send_len := m\<rparr>))"
proof -
  have i: "unat ((12 + len * 4) * 9) = 9 * (12 + 4 * unat len)"
    using header_bits [of 12 len] assms(2) by simp
  have "16 + len * 4 + 8 = of_nat 24 + len * 4" by simp
  then have j: "unat ((16 + len * 4 + 8) * 9) = 9 * (24 + 4 * unat len)"
    using header_bits [of 24 len] assms(2) by (simp del: of_nat_numeral)
  have long: "8 * 345728 < 9 * (24 + 4 * unat len)" using assms(1) by simp
  have "fill_packed h p src len x y s
      = Inr (Some (-1), s\<lparr>spi_send_len := bytes_for_bits ((16 + len * 4 + 8) * 9)\<rparr>)" for h p
    unfolding fill_packed_def by (rule spi_begin_refuses [OF j long])
  moreover have "filling_spi_send_display_data pixels len x y s
      = Inr (Some (-1), s\<lparr>spi_send_len := bytes_for_bits ((12 + len * 4) * 9)\<rparr>)"
    unfolding filling_spi_send_display_data_def by (rule spi_begin_refuses [OF i assms(1)])
  ultimately show ?thesis
    by (auto simp: filling_spi_send_display_data2_def filling_spi_send_display_data3_def
        filling_spi_send_display_data4_def)
qed

theorem filling_refuses_long_witness:
  "\<exists>n m. filling_spi_send_display_data [] 80000 0 0 spi_cleared = Inr (Some (-1), spi_cleared\<lparr>spi_send_len := n\<rparr>)
    \<and> (\<forall>fill \<in> {filling_spi_send_display_data2, filling_spi_send_display_data3,
          filling_spi_send_display_data4}. fill [] 80000 0 0 spi_cleared = Inr (Some (-1), spi_cleared\<lparr>spi_send_len := m\<rparr>))"
  by (rule filling_refuses_long) simp_all

lemma pack_blocks_overrun:
  assumes "\<And>p. length p = 8 \<Longrightarrow> length (pack p) = 9"
    and "d \<le> length pdst" and "length pdst < d + 9 * k"
  shows "pack_blocks pack k psrc s pdst d = Inl OutOfBounds"
  using assms(2,3)
proof (induction k arbitrary: s d pdst)
  case (Suc k)
  show ?case
  proof (cases "s + 8 \<le> length psrc \<and> d + 9 \<le> length pdst")
    case True
    then have "length (take 8 (drop s psrc)) = 8" by (simp only: length_take length_drop) linarith
    then have "length (pack (take 8 (drop s psrc))) = 9" by (rule assms(1))
    with True Suc show ?thesis by (simp add: mem_simps length_overwrite)
  next
    case False
    then show ?thesis using assms(1) [of "take 8 (drop s psrc)"] by (auto simp: slice_def blit_def)
  qed
qed simp

text \<open>
  the length check is made on a product taken modulo 2^32. A request for 119304648 pixels
  passes it, announces 31 bytes, and the copy runs off the end of the buffer.
\<close>

theorem filling_spi_send_display_data3_wraps:
  assumes "length (p_spi_send_buf s) = 345728"
  shows "bytes_for_bits ((16 + 119304648 * 4 + 8) * 9) = 31
    \<and> filling_spi_send_display_data3 src 119304648 x y s = Inl OutOfBounds"
proof -
  let ?i = "(16 + 119304648 * 4 + 8) * 9 :: u32"
  have n: "bytes_for_bits ?i = 31" by (simp add: bytes_for_bits_def)
  have start: "spi_begin ?i s body = body (s\<lparr>spi_send_len := bytes_for_bits ?i,
      p_spi_send_buf := replicate ((248 + 7) div 8) 0 @ drop ((248 + 7) div 8) (p_spi_send_buf s)\<rparr>)" for body
    by (rule spi_begin_ok [OF _ _ _ assms]) simp_all
  let ?m = "replicate 31 0 @ drop 31 (p_spi_send_buf s)"
  have m: "length ?m = 345728" using assms by simp
  define hdr where "hdr = fill_header_withnop1 x y (take 18 ?m)"
  have hl: "length hdr = 18" by (simp add: hdr_def fill_header_withnop1_def Let_def bytes_le32_def)
  have "pack_blocks pack3 59652324 src 0 (overwrite ?m 0 hdr) 18 = Inl OutOfBounds"
    by (rule pack_blocks_overrun) (use m hl in \<open>simp_all add: pack3.length_pack length_overwrite\<close>)
  moreover have "unat ((119304648 :: u32) div 2) = 59652324" by simp
  moreover have "slice ?m 0 18 = Inr (take 18 ?m)" "blit ?m 0 hdr = Inr (overwrite ?m 0 hdr)"
    using m hl by (simp_all add: mem_simps)
  ultimately have "filling_spi_send_display_data3 src 119304648 x y s = Inl OutOfBounds"
    unfolding filling_spi_send_display_data3_def fill_packed_def start
    by (simp del: replicate.simps take_append flip: hdr_def)
  with n show ?thesis by blast
qed

theorem filling_spi_send_display_data3_wraps_witness:
  "bytes_for_bits ((16 + 119304648 * 4 + 8) * 9) = 31
    \<and> filling_spi_send_display_data3 [] 119304648 0 0 spi_cleared = Inl OutOfBounds"
  by (rule filling_spi_send_display_data3_wraps [OF spi_cleared_length])

text \<open>
  the byte-by-byte block and the block of two swapped 32-bit words store the same nine bytes,
  which spell the eight data symbols of the two pixels.
\<close>

theorem pack2_pack3_agree:
  assumes "length p = 8"
  shows "pack2 p = pack3 p \<and> decode (bits_of (pack2 p)) = pair_symbols p"
proof
  show "pack2 p = pack3 p"
    by (rule bits_of_inject) (simp only: pack2.pack_bits [OF assms] pack3.pack_bits [OF assms])
  show "decode (bits_of (pack2 p)) = pair_symbols p"
    using decode_stream [of "pair_symbols p" 0] by (simp add: pack2.pack_bits [OF assms])
qed

theorem pack2_pack3_agree_witness:
  "pack2 [1, 2, 3, 4, 5, 6, 7, 8] = pack3 [1, 2, 3, 4, 5, 6, 7, 8]
    \<and> decode (bits_of (pack2 [1, 2, 3, 4, 5, 6, 7, 8])) = map Dat [2, 1, 4, 3, 6, 5, 8, 7]"
  using pack2_pack3_agree [of "[1, 2, 3, 4, 5, 6, 7, 8]"]
  by (auto simp: pair_symbols_def simp del: One_nat_def)

lemma pack4_bits_iff:
  "bits_of (pack4 [a, b, c, d, e, f, g, h]) = bits_of (pack2 [a, b, c, d, e, f, g, h])
    \<longleftrightarrow> \<not> bit a 0 \<and> \<not> bit a 1 \<and> \<not> bit h 0"
  by (auto simp add: pack2_def pack4_def Let_def bytes_le32_def bits_of_Cons byte_bits_unfold bit_simps bit_mult_2)

text \<open>
  the block that lays its words out by masks stores the right nine bytes exactly when the low
  two bits of the first byte and the lowest bit of the last are clear: two of its masks are wrong.
\<close>

theorem pack4_correct_iff:
  assumes "length p = 8"
  shows "pack4 p = pack2 p \<longleftrightarrow> \<not> bit (p ! 0) 0 \<and> \<not> bit (p ! 0) 1 \<and> \<not> bit (p ! 7) 0"
proof -
  obtain a b c d e f g h where p: "p = [a, b, c, d, e, f, g, h]"
    using assms by (rule eight_bytes)
  have "pack4 p = pack2 p \<longleftrightarrow> bits_of (pack4 p) = bits_of (pack2 p)"
    by (auto dest: bits_of_inject)
  then show ?thesis unfolding p pack4_bits_iff by simp
qed

theorem pack4_correct_iff_witness:
  "pack4 [0x78, 0x56, 0x34, 0x12, 0x78, 0x56, 0x34, 0x12] = pack2 [0x78, 0x56, 0x34, 0x12, 0x78, 0x56, 0x34, 0x12]
    \<and> pack4 [0x79, 0, 0, 0, 0, 0, 0, 0] \<noteq> pack2 [0x79, 0, 0, 0, 0, 0, 0, 0]"
  using pack4_correct_iff [of "[0x78, 0x56, 0x34, 0x12, 0x78, 0x56, 0x34, 0x12]"]
    pack4_correct_iff [of "[0x79, 0, 0, 0, 0, 0, 0, 0]"]
  by simp

text \<open>The header of \<^verbatim>\<open>data1\<close> and \<^verbatim>\<open>data2\<close> does not depend on \<open>y\<close>: both its pointers are taken from \<open>x\<close>.\<close>

lemma fill_header_withnop_ignores_y: "fill_header_withnop x y dst = fill_header_withnop x y' dst"
  by (simp add: fill_header_withnop_def)

text \<open>The 64-bit data mask lacks the D/C bit of the first symbol, so on cleared memory it stays zero.\<close>

lemma fill_data_withnop_first_bit:
  "\<not> bit (fill_data_withnop p (replicate 9 0) ! 0) 7"
proof -
  have "word_le64 (take 8 (replicate 9 0)) = 0" by code_simp
  then show ?thesis
    by (simp add: fill_data_withnop_def data_bits_def bytes_le64_def upt_conv_Cons
        swap_endian_64_def BIG_DATA_MASK_def bit_simps bit_mult_2 del: take_replicate)
qed

lemma length_bytes_le64 [simp]: "length (bytes_le64 w) = 8"
  by (simp add: bytes_le64_def)

text \<open>
  With two pixels \<^verbatim>\<open>data1\<close> never writes the eight bytes of their block: \<^verbatim>\<open>pbits\<close> still points at the
  header, so the first pair is or-ed over the window commands.
\<close>

lemma data1_first_block_missing:
  assumes "length (p_spi_send_buf s) = 345728" and "8 \<le> length src"
  shows "\<exists>s'. filling_spi_send_display_data1 src 2 x y s = Inr (None, s')
    \<and> take 8 (drop 18 (p_spi_send_buf s')) = replicate 8 0"
proof -
  let ?i = "(16 + 2 * 4 + 8) * 9 :: u32"
  define m where "m = replicate 36 0 @ drop 36 (p_spi_send_buf s)"
  have start: "spi_begin ?i s body = body (s\<lparr>spi_send_len := bytes_for_bits ?i, p_spi_send_buf := m\<rparr>)" for body
    using spi_begin_ok [of ?i "9 * 32" s body] assms(1) by (simp add: m_def)
  have m: "length m = 345728" "take 8 (drop 18 m) = replicate 8 0" using assms(1) by (simp_all add: m_def)
  define hdr where "hdr = fill_header_withnop x y (take 18 m)"
  have hl: "length hdr = 18" by (simp add: hdr_def fill_header_withnop_def Let_def)
  define b where "b = overwrite m 0 hdr"
  have b: "length b = 345728" "drop 18 b = drop 18 m"
    using m hl by (simp_all add: b_def overwrite_def)
  obtain b2 where b2: "data1_loop 1 0 src 0 b 0 18 = Inr (b2[26 := src ! 6])"
    "length b2 = 345728" "drop 8 b2 = drop 8 b"
    using assms(2) b(1) by (auto simp: mem_simps drop_overwrite_before)
  have "drop 18 (b2[26 := src ! 6]) = (drop 18 m)[8 := src ! 6]"
    using arg_cong [OF b2(3), of "drop 10"] b(2) by (simp add: drop_update_swap)
  then have "take 8 (drop 18 (b2[26 := src ! 6])) = replicate 8 0"
    using m(2) by simp
  moreover have "filling_spi_send_display_data1 src 2 x y s
      = Inr (None, s\<lparr>spi_send_len := bytes_for_bits ?i, p_spi_send_buf := b2[26 := src ! 6]\<rparr>)"
    unfolding filling_spi_send_display_data1_def start
    using b2(1) m(1) hl by (simp add: mem_simps flip: hdr_def b_def)
  ultimately show ?thesis by auto
qed

end
