(* ===== verification/PcmParams.thy ===== *)
theory PcmParams
  imports Prelude
begin

text \<open>
  The hardware parameter block of speech/src/pcm.c (\<^verbatim>\<open>struct snd_pcm_hw_params\<close>): three masks of 256
  bits and twelve intervals, the accessors of both, and the report that
  \<^verbatim>\<open>pcm_params_to_string\<close> prints into a buffer that may be too short. The arrays of the struct
  have fixed lengths; \<open>hw_params_wf\<close> states them and every operation keeps it.
\<close>

section \<open>Formats and parameters\<close>

datatype pcm_format =
    PCM_FORMAT_INVALID | PCM_FORMAT_S16_LE | PCM_FORMAT_S32_LE | PCM_FORMAT_S8
  | PCM_FORMAT_S24_LE | PCM_FORMAT_S24_3LE | PCM_FORMAT_MAX | PCM_FORMAT_OTHER int

definition SNDRV_PCM_FORMAT_S8 :: u32 where "SNDRV_PCM_FORMAT_S8 = 0"
definition SNDRV_PCM_FORMAT_S16_LE :: u32 where "SNDRV_PCM_FORMAT_S16_LE = 2"
definition SNDRV_PCM_FORMAT_S24_LE :: u32 where "SNDRV_PCM_FORMAT_S24_LE = 6"
definition SNDRV_PCM_FORMAT_S32_LE :: u32 where "SNDRV_PCM_FORMAT_S32_LE = 10"
definition SNDRV_PCM_FORMAT_S24_3LE :: u32 where "SNDRV_PCM_FORMAT_S24_3LE = 32"

lemmas alsa_format_defs = SNDRV_PCM_FORMAT_S8_def SNDRV_PCM_FORMAT_S16_LE_def
  SNDRV_PCM_FORMAT_S24_LE_def SNDRV_PCM_FORMAT_S32_LE_def SNDRV_PCM_FORMAT_S24_3LE_def

definition pcm_format_to_alsa :: "pcm_format \<Rightarrow> u32" where
  "pcm_format_to_alsa f =
     (case f of
        PCM_FORMAT_S32_LE \<Rightarrow> SNDRV_PCM_FORMAT_S32_LE
      | PCM_FORMAT_S8 \<Rightarrow> SNDRV_PCM_FORMAT_S8
      | PCM_FORMAT_S24_3LE \<Rightarrow> SNDRV_PCM_FORMAT_S24_3LE
      | PCM_FORMAT_S24_LE \<Rightarrow> SNDRV_PCM_FORMAT_S24_LE
      | _ \<Rightarrow> SNDRV_PCM_FORMAT_S16_LE)"

definition pcm_format_to_bits :: "pcm_format \<Rightarrow> u32" where
  "pcm_format_to_bits f =
     (case f of
        PCM_FORMAT_S32_LE \<Rightarrow> 32
      | PCM_FORMAT_S24_LE \<Rightarrow> 32
      | PCM_FORMAT_S24_3LE \<Rightarrow> 24
      | _ \<Rightarrow> 16)"

datatype pcm_param =
    PCM_PARAM_ACCESS | PCM_PARAM_FORMAT | PCM_PARAM_SUBFORMAT
  | PCM_PARAM_SAMPLE_BITS | PCM_PARAM_FRAME_BITS | PCM_PARAM_CHANNELS | PCM_PARAM_RATE
  | PCM_PARAM_PERIOD_TIME | PCM_PARAM_PERIOD_SIZE | PCM_PARAM_PERIOD_BYTES | PCM_PARAM_PERIODS
  | PCM_PARAM_BUFFER_TIME | PCM_PARAM_BUFFER_SIZE | PCM_PARAM_BUFFER_BYTES | PCM_PARAM_TICK_TIME
  | PCM_PARAM_OTHER int

abbreviation (input) SNDRV_PCM_HW_PARAM_ACCESS :: int where "SNDRV_PCM_HW_PARAM_ACCESS \<equiv> 0"
abbreviation (input) SNDRV_PCM_HW_PARAM_FORMAT :: int where "SNDRV_PCM_HW_PARAM_FORMAT \<equiv> 1"
abbreviation (input) SNDRV_PCM_HW_PARAM_SUBFORMAT :: int where "SNDRV_PCM_HW_PARAM_SUBFORMAT \<equiv> 2"
abbreviation (input) SNDRV_PCM_HW_PARAM_SAMPLE_BITS :: int where "SNDRV_PCM_HW_PARAM_SAMPLE_BITS \<equiv> 8"
abbreviation (input) SNDRV_PCM_HW_PARAM_FRAME_BITS :: int where "SNDRV_PCM_HW_PARAM_FRAME_BITS \<equiv> 9"
abbreviation (input) SNDRV_PCM_HW_PARAM_CHANNELS :: int where "SNDRV_PCM_HW_PARAM_CHANNELS \<equiv> 10"
abbreviation (input) SNDRV_PCM_HW_PARAM_RATE :: int where "SNDRV_PCM_HW_PARAM_RATE \<equiv> 11"
abbreviation (input) SNDRV_PCM_HW_PARAM_PERIOD_SIZE :: int where "SNDRV_PCM_HW_PARAM_PERIOD_SIZE \<equiv> 13"
abbreviation (input) SNDRV_PCM_HW_PARAM_PERIODS :: int where "SNDRV_PCM_HW_PARAM_PERIODS \<equiv> 15"
abbreviation (input) SNDRV_PCM_HW_PARAM_TICK_TIME :: int where "SNDRV_PCM_HW_PARAM_TICK_TIME \<equiv> 19"

definition pcm_param_to_alsa :: "pcm_param \<Rightarrow> int" where
  "pcm_param_to_alsa p =
     (case p of
        PCM_PARAM_ACCESS \<Rightarrow> SNDRV_PCM_HW_PARAM_ACCESS
      | PCM_PARAM_FORMAT \<Rightarrow> SNDRV_PCM_HW_PARAM_FORMAT
      | PCM_PARAM_SUBFORMAT \<Rightarrow> SNDRV_PCM_HW_PARAM_SUBFORMAT
      | PCM_PARAM_SAMPLE_BITS \<Rightarrow> SNDRV_PCM_HW_PARAM_SAMPLE_BITS
      | PCM_PARAM_FRAME_BITS \<Rightarrow> SNDRV_PCM_HW_PARAM_FRAME_BITS
      | PCM_PARAM_CHANNELS \<Rightarrow> SNDRV_PCM_HW_PARAM_CHANNELS
      | PCM_PARAM_RATE \<Rightarrow> SNDRV_PCM_HW_PARAM_RATE
      | PCM_PARAM_PERIOD_TIME \<Rightarrow> 12
      | PCM_PARAM_PERIOD_SIZE \<Rightarrow> SNDRV_PCM_HW_PARAM_PERIOD_SIZE
      | PCM_PARAM_PERIOD_BYTES \<Rightarrow> 14
      | PCM_PARAM_PERIODS \<Rightarrow> SNDRV_PCM_HW_PARAM_PERIODS
      | PCM_PARAM_BUFFER_TIME \<Rightarrow> 16
      | PCM_PARAM_BUFFER_SIZE \<Rightarrow> 17
      | PCM_PARAM_BUFFER_BYTES \<Rightarrow> 18
      | PCM_PARAM_TICK_TIME \<Rightarrow> SNDRV_PCM_HW_PARAM_TICK_TIME
      | PCM_PARAM_OTHER _ \<Rightarrow> -1)"

section \<open>The parameter block\<close>

record snd_interval =
  imin :: u32
  imax :: u32
  openmin :: bool
  openmax :: bool
  integer :: bool
  empty :: bool

type_synonym snd_mask = "u32 list"

record snd_pcm_hw_params =
  hw_flags :: u32
  masks :: "snd_mask list"
  intervals :: "snd_interval list"
  rmask :: u32
  cmask :: u32
  info :: u32
  msbits :: u32
  rate_num :: u32
  rate_den :: u32
  fifo_size :: u64

definition SNDRV_MASK_MAX :: u32 where
  "SNDRV_MASK_MAX = 256"

definition param_is_mask :: "int \<Rightarrow> bool" where
  "param_is_mask p \<longleftrightarrow> SNDRV_PCM_HW_PARAM_ACCESS \<le> p \<and> p \<le> SNDRV_PCM_HW_PARAM_SUBFORMAT"

definition param_is_interval :: "int \<Rightarrow> bool" where
  "param_is_interval p \<longleftrightarrow> SNDRV_PCM_HW_PARAM_SAMPLE_BITS \<le> p \<and> p \<le> SNDRV_PCM_HW_PARAM_TICK_TIME"

text \<open>The pointers into the block, as indices.\<close>

definition param_to_interval :: "int \<Rightarrow> nat" where
  "param_to_interval n = nat (n - SNDRV_PCM_HW_PARAM_SAMPLE_BITS)"

definition param_to_mask :: "int \<Rightarrow> nat" where
  "param_to_mask n = nat (n - SNDRV_PCM_HW_PARAM_ACCESS)"

definition param_set_mask :: "int \<Rightarrow> u32 \<Rightarrow> snd_pcm_hw_params \<Rightarrow> snd_pcm_hw_params" where
  "param_set_mask n b p =
     (if b \<ge> SNDRV_MASK_MAX then p
      else if param_is_mask n
      then let i = param_to_mask n; m = (masks p ! i)[0 := 0, 1 := 0]; w = unat (drop_bit 5 b)
           in p\<lparr>masks := (masks p)[i := m[w := m ! w OR push_bit (unat (b AND 31)) 1]]\<rparr>
      else p)"

definition upd_interval :: "int \<Rightarrow> (snd_interval \<Rightarrow> snd_interval) \<Rightarrow> snd_pcm_hw_params \<Rightarrow> snd_pcm_hw_params" where
  "upd_interval n f p =
     (let i = param_to_interval n in p\<lparr>intervals := (intervals p)[i := f (intervals p ! i)]\<rparr>)"

definition param_set_min :: "int \<Rightarrow> u32 \<Rightarrow> snd_pcm_hw_params \<Rightarrow> snd_pcm_hw_params" where
  "param_set_min n val p = (if param_is_interval n then upd_interval n (\<lambda>i. i\<lparr>imin := val\<rparr>) p else p)"

definition param_get_min :: "int \<Rightarrow> snd_pcm_hw_params \<Rightarrow> u32" where
  "param_get_min n p = (if param_is_interval n then imin (intervals p ! param_to_interval n) else 0)"

definition param_set_max :: "int \<Rightarrow> u32 \<Rightarrow> snd_pcm_hw_params \<Rightarrow> snd_pcm_hw_params" where
  "param_set_max n val p = (if param_is_interval n then upd_interval n (\<lambda>i. i\<lparr>imax := val\<rparr>) p else p)"

definition param_get_max :: "int \<Rightarrow> snd_pcm_hw_params \<Rightarrow> u32" where
  "param_get_max n p = (if param_is_interval n then imax (intervals p ! param_to_interval n) else 0)"

definition param_set_int :: "int \<Rightarrow> u32 \<Rightarrow> snd_pcm_hw_params \<Rightarrow> snd_pcm_hw_params" where
  "param_set_int n val p =
     (if param_is_interval n
      then upd_interval n (\<lambda>i. i\<lparr>imin := val, imax := val, integer := True\<rparr>) p else p)"

definition param_get_int :: "int \<Rightarrow> snd_pcm_hw_params \<Rightarrow> u32" where
  "param_get_int n p =
     (if param_is_interval n \<and> integer (intervals p ! param_to_interval n)
      then imax (intervals p ! param_to_interval n) else 0)"

definition zero_interval :: snd_interval where
  "zero_interval = \<lparr>imin = 0, imax = 0, openmin = False, openmax = False, integer = False, empty = False\<rparr>"

definition zero_params :: snd_pcm_hw_params where
  "zero_params = \<lparr>hw_flags = 0, masks = replicate 3 (replicate 8 0), intervals = replicate 12 zero_interval,
     rmask = 0, cmask = 0, info = 0, msbits = 0, rate_num = 0, rate_den = 0, fifo_size = 0\<rparr>"

text \<open>\<^verbatim>\<open>memset\<close>, the two loops over the masks and the intervals, and the three words at the end.\<close>

definition param_init :: snd_pcm_hw_params where
  "param_init =
     (let p1 = fold (\<lambda>n p. p\<lparr>masks := (masks p)[n := (masks p ! n)[0 := -1, 1 := -1]]\<rparr>) [0..<3] zero_params;
          p2 = fold (\<lambda>n p. p\<lparr>intervals := (intervals p)[n := (intervals p ! n)\<lparr>imin := 0, imax := -1\<rparr>]\<rparr>)
                 [0..<12] p1
      in p2\<lparr>rmask := -1, cmask := 0, info := -1\<rparr>)"

section \<open>The public accessors\<close>

text \<open>\<open>None\<close> is the NULL pointer.\<close>

definition pcm_params_get_mask :: "snd_pcm_hw_params option \<Rightarrow> pcm_param \<Rightarrow> snd_mask option" where
  "pcm_params_get_mask params param =
     (case params of
        None \<Rightarrow> None
      | Some p \<Rightarrow>
          (let n = pcm_param_to_alsa param
           in if n < 0 \<or> \<not> param_is_mask n then None else Some (masks p ! param_to_mask n)))"

definition pcm_params_get_min :: "snd_pcm_hw_params option \<Rightarrow> pcm_param \<Rightarrow> u32" where
  "pcm_params_get_min params param =
     (case params of
        None \<Rightarrow> 0
      | Some p \<Rightarrow> (let n = pcm_param_to_alsa param in if n < 0 then 0 else param_get_min n p))"

definition pcm_params_get_max :: "snd_pcm_hw_params option \<Rightarrow> pcm_param \<Rightarrow> u32" where
  "pcm_params_get_max params param =
     (case params of
        None \<Rightarrow> 0
      | Some p \<Rightarrow> (let n = pcm_param_to_alsa param in if n < 0 then 0 else param_get_max n p))"

definition pcm_params_set_min ::
    "snd_pcm_hw_params option \<Rightarrow> pcm_param \<Rightarrow> u32 \<Rightarrow> snd_pcm_hw_params option" where
  "pcm_params_set_min params param val =
     (case params of
        None \<Rightarrow> None
      | Some p \<Rightarrow> (let n = pcm_param_to_alsa param in if n < 0 then Some p else Some (param_set_min n val p)))"

definition pcm_params_set_max ::
    "snd_pcm_hw_params option \<Rightarrow> pcm_param \<Rightarrow> u32 \<Rightarrow> snd_pcm_hw_params option" where
  "pcm_params_set_max params param val =
     (case params of
        None \<Rightarrow> None
      | Some p \<Rightarrow> (let n = pcm_param_to_alsa param in if n < 0 then Some p else Some (param_set_max n val p)))"

definition pcm_mask_test :: "snd_mask \<Rightarrow> u32 \<Rightarrow> u32" where
  "pcm_mask_test m index =
     (let element = drop_bit 5 index
      in if element \<ge> 8 then 0
         else drop_bit (unat (index AND 31)) (m ! unat element) AND 1)"

definition pcm_params_format_test :: "snd_pcm_hw_params option \<Rightarrow> pcm_format \<Rightarrow> u32 res" where
  "pcm_params_format_test params f =
     (let alsa_format = pcm_format_to_alsa f
      in if alsa_format = SNDRV_PCM_FORMAT_S16_LE \<and> f \<noteq> PCM_FORMAT_S16_LE then Inr 0
         else case pcm_params_get_mask params PCM_PARAM_FORMAT of
                None \<Rightarrow> Inl NullDeref
              | Some m \<Rightarrow> Inr (pcm_mask_test m alsa_format))"

section \<open>Printing\<close>

fun digits :: "nat \<Rightarrow> nat \<Rightarrow> string" where
  "digits b n = (if n < b \<or> b < 2 then [''0123456789abcdef'' ! (n mod 16)]
     else digits b (n div b) @ [''0123456789abcdef'' ! (n mod b mod 16)])"

declare digits.simps [simp del]

definition pad_left :: "char \<Rightarrow> nat \<Rightarrow> string \<Rightarrow> string" where
  "pad_left c w s = replicate (w - length s) c @ s"

text \<open>The conversions \<^verbatim>\<open>%u\<close>, \<^verbatim>\<open>%Ns\<close> and \<^verbatim>\<open>%#08x\<close>.\<close>

definition fmt_u :: "u32 \<Rightarrow> string" where
  "fmt_u w = digits 10 (unat w)"

definition fmt_s :: "nat \<Rightarrow> string \<Rightarrow> string" where
  "fmt_s w s = pad_left CHR '' '' w s"

definition fmt_x8 :: "u32 \<Rightarrow> string" where
  "fmt_x8 w = (if w = 0 then ''00000000'' else ''0x'' @ pad_left CHR ''0'' 6 (digits 16 (unat w)))"

definition tab :: string where "tab = [CHR 0x09]"
definition nl :: string where "nl = [CHR 0x0A]"

text \<open>\<^verbatim>\<open>snprintf (buf + pos, n, ...)\<close> of an already formatted text: the length of the text is returned.\<close>

definition snprintf :: "string \<Rightarrow> nat \<Rightarrow> nat \<Rightarrow> string \<Rightarrow> (string \<times> nat) res" where
  "snprintf buf pos n tx =
     (if n = 0 then Inr (buf, length tx)
      else bindE (blit buf pos (take (n - 1) tx @ [CHR 0x00])) (\<lambda>b. Inr (b, length tx)))"

text \<open>The macro \<^verbatim>\<open>STRLOG\<close> on the buffer at \<open>base\<close> of length \<open>sz\<close>, from and to a pair of buffer and offset.\<close>

definition STRLOG :: "nat \<Rightarrow> nat \<Rightarrow> string \<Rightarrow> string \<times> nat \<Rightarrow> (string \<times> nat) res" where
  "STRLOG base sz tx = (\<lambda>(buf, offset).
     (let clipoffset = (if offset > sz then sz else offset)
      in bindE (snprintf buf (base + clipoffset) (sz - clipoffset) tx)
           (\<lambda>(b, temp). Inr (b, if temp > 0 then offset + temp else offset))))"

definition access_lookup :: "string option list" where
  "access_lookup = map Some
     [''MMAP_INTERLEAVED'', ''MMAP_NONINTERLEAVED'', ''MMAP_COMPLEX'', ''RW_INTERLEAVED'', ''RW_NONINTERLEAVED'']"

definition format_lookup :: "string option list" where
  "format_lookup = map Some
     [''S8'', ''U8'', ''S16_LE'', ''S16_BE'', ''U16_LE'', ''U16_BE'', ''S24_LE'', ''S24_BE'', ''U24_LE'', ''U24_BE'',
      ''S32_LE'', ''S32_BE'', ''U32_LE'', ''U32_BE'', ''FLOAT_LE'', ''FLOAT_BE'', ''FLOAT64_LE'', ''FLOAT64_BE'',
      ''IEC958_SUBFRAME_LE'', ''IEC958_SUBFRAME_BE'', ''MU_LAW'', ''A_LAW'', ''IMA_ADPCM'', ''MPEG'', ''GSM'']
     @ replicate 6 None @ map Some
     [''SPECIAL'', ''S24_3LE'', ''S24_3BE'', ''U24_3LE'', ''U24_3BE'', ''S20_3LE'', ''S20_3BE'', ''U20_3LE'',
      ''U20_3BE'', ''S18_3LE'', ''S18_3BE'', ''U18_3LE'', ''U18_3BE'']"

definition subformat_lookup :: "string option list" where
  "subformat_lookup = map Some [''STD'']"

definition mask_header :: "string \<Rightarrow> nat \<Rightarrow> snd_mask \<Rightarrow> string list" where
  "mask_header mask_name n m =
     (if n < 32 then [fmt_s 12 mask_name @ '':'' @ tab @ fmt_x8 (m ! 0) @ nl]
      else map (\<lambda>i. fmt_s 9 mask_name @ ''['' @ digits 10 i @ '']:'' @ tab @ fmt_x8 (m ! i) @ nl)
             [0..<(n + 31) div 32])"

text \<open>One line per bit that is set; a bit without a name is a NULL argument to \<^verbatim>\<open>%s\<close>.\<close>

definition mask_line :: "string \<Rightarrow> string" where
  "mask_line s = fmt_s 12 '''' @ '' '' @ tab @ s @ nl"

definition log_bit :: "nat \<Rightarrow> nat \<Rightarrow> snd_mask \<Rightarrow> nat \<times> string option \<Rightarrow> string \<times> nat \<Rightarrow> (string \<times> nat) res" where
  "log_bit base sz m = (\<lambda>(i, name) st.
     (if pcm_mask_test m (of_nat i) \<noteq> 0
      then case name of None \<Rightarrow> Inl NullDeref | Some s \<Rightarrow> STRLOG base sz (mask_line s) st
      else Inr st))"

definition pcm_mask_to_string ::
    "snd_mask option \<Rightarrow> nat \<Rightarrow> nat \<Rightarrow> string \<Rightarrow> string option list \<Rightarrow> string \<Rightarrow> (string \<times> nat) res" where
  "pcm_mask_to_string mo base sz mask_name bit_array_name buf =
     (case mo of
        None \<Rightarrow> Inr (buf, 0)
      | Some m \<Rightarrow>
          bindE (foldE (STRLOG base sz) (mask_header mask_name (length bit_array_name) m) (buf, 0))
            (foldE (log_bit base sz m) (enumerate 0 bit_array_name)))"

text \<open>A nested mask at the current offset, then the five intervals.\<close>

definition log_mask ::
    "nat \<Rightarrow> snd_mask option \<Rightarrow> string \<Rightarrow> string option list \<Rightarrow> string \<times> nat \<Rightarrow> (string \<times> nat) res" where
  "log_mask sz mo mask_name names = (\<lambda>(buf, offset).
     (let clipoffset = (if offset > sz then sz else offset)
      in bindE (pcm_mask_to_string mo clipoffset (sz - clipoffset) mask_name names buf)
           (\<lambda>(b, n). Inr (b, offset + n))))"

definition range_lines :: "snd_pcm_hw_params option \<Rightarrow> string list" where
  "range_lines params =
     (let line = \<lambda>label lo hi unit param.
            label @ tab @ lo @ fmt_u (pcm_params_get_min params param) @ hi
              @ fmt_u (pcm_params_get_max params param) @ unit @ nl
      in [line ''        Rate:'' ''min='' (''Hz'' @ tab @ ''max='') ''Hz'' PCM_PARAM_RATE,
          line ''    Channels:'' ''min='' (tab @ tab @ ''max='') '''' PCM_PARAM_CHANNELS,
          line '' Sample bits:'' ''min='' (tab @ tab @ ''max='') '''' PCM_PARAM_SAMPLE_BITS,
          line '' Period size:'' ''min='' (tab @ tab @ ''max='') '''' PCM_PARAM_PERIOD_SIZE,
          line ''Period count:'' ''min='' (tab @ tab @ ''max='') '''' PCM_PARAM_PERIODS])"

definition pcm_params_to_string ::
    "snd_pcm_hw_params option \<Rightarrow> nat \<Rightarrow> string \<Rightarrow> (string \<times> nat) res" where
  "pcm_params_to_string params sz buf =
     bindE (pcm_mask_to_string (pcm_params_get_mask params PCM_PARAM_ACCESS) 0 sz ''Access'' access_lookup buf)
       (\<lambda>s1. bindE (log_mask sz (pcm_params_get_mask params PCM_PARAM_FORMAT) ''Format'' format_lookup s1)
       (\<lambda>s2. bindE (log_mask sz (pcm_params_get_mask params PCM_PARAM_SUBFORMAT) ''Subformat'' subformat_lookup s2)
       (\<lambda>s3. foldE (STRLOG 0 sz) (range_lines params) s3)))"

section \<open>The report as one text\<close>

definition mask_text :: "snd_mask option \<Rightarrow> string \<Rightarrow> string option list \<Rightarrow> string" where
  "mask_text mo mask_name names =
     (case mo of
        None \<Rightarrow> ''''
      | Some m \<Rightarrow> concat (mask_header mask_name (length names) m)
          @ concat (map (\<lambda>(i, name). if pcm_mask_test m (of_nat i) \<noteq> 0 then mask_line (the name) else '''')
              (enumerate 0 names)))"

definition params_text :: "snd_pcm_hw_params option \<Rightarrow> string" where
  "params_text params =
     mask_text (pcm_params_get_mask params PCM_PARAM_ACCESS) ''Access'' access_lookup
     @ mask_text (pcm_params_get_mask params PCM_PARAM_FORMAT) ''Format'' format_lookup
     @ mask_text (pcm_params_get_mask params PCM_PARAM_SUBFORMAT) ''Subformat'' subformat_lookup
     @ concat (range_lines params)"

text \<open>What a single \<^verbatim>\<open>snprintf\<close> of the whole text leaves in the buffer.\<close>

definition logged :: "nat \<Rightarrow> nat \<Rightarrow> string \<Rightarrow> string \<Rightarrow> string" where
  "logged base sz buf tx =
     (if sz = 0 \<or> tx = '''' then buf else overwrite buf base (take (sz - 1) tx @ [CHR 0x00]))"

lemma STRLOG_logged:
  assumes "base + sz \<le> length buf" and "tx' \<noteq> ''''"
  shows "STRLOG base sz tx' (logged base sz buf tx, length tx)
    = Inr (logged base sz buf (tx @ tx'), length tx + length tx')"
proof -
  consider (zero) "sz = 0" | (first) "0 < sz" "tx = ''''" | (clip) "0 < sz" "sz \<le> length tx"
    | (more) "length tx < sz" "tx \<noteq> ''''" by linarith
  then show ?thesis
  proof cases
    case zero
    then show ?thesis by (simp add: STRLOG_def snprintf_def logged_def)
  next
    case first
    then show ?thesis using assms
      by (simp add: STRLOG_def snprintf_def logged_def mem_simps)
  next
    case clip
    then have "tx \<noteq> ''''" by auto
    with clip show ?thesis by (auto simp: STRLOG_def snprintf_def logged_def Let_def)
  next
    case more
    let ?n = "sz - length tx"
    have len: "length (overwrite buf base (tx @ [CHR 0x00])) = length buf"
      using assms(1) more(1) by simp
    have "overwrite (overwrite buf base (tx @ [CHR 0x00])) (base + length tx) (take (?n - 1) tx' @ [CHR 0x00])
        = overwrite buf base (tx @ take (?n - 1) tx' @ [CHR 0x00])"
      by (rule overwrite_replace_last) (use assms(1) more(1) in simp_all)
    moreover have "take (sz - 1) tx = tx" "sz - 1 - length tx = ?n - 1" using more by simp_all
    ultimately show ?thesis
      using assms more by (simp add: STRLOG_def snprintf_def logged_def blit_def len Let_def)
  qed
qed

lemma foldE_STRLOG:
  assumes "base + sz \<le> length buf" and "\<forall>t \<in> set ts. t \<noteq> ''''"
  shows "foldE (STRLOG base sz) ts (logged base sz buf tx, length tx)
    = Inr (logged base sz buf (tx @ concat ts), length tx + length (concat ts))"
  using assms(2)
proof (induction ts arbitrary: tx)
  case (Cons t ts)
  then show ?case using STRLOG_logged [OF assms(1), of t tx] Cons.IH [of "tx @ t"] by simp
qed simp

text \<open>Logging into the rest of the buffer from offset 0 is logging into the whole buffer from the clip offset.\<close>

lemma STRLOG_shift:
  "STRLOG (base + min l sz) (sz - min l sz) tx (b, k)
    = map_sum id (\<lambda>(b', n). (b', n - l)) (STRLOG base sz tx (b, l + k))"
proof -
  define c where "c = (if l + k > sz then sz else l + k)"
  have clip: "base + min l sz + (if k > sz - min l sz then sz - min l sz else k) = base + c"
    "sz - min l sz - (if k > sz - min l sz then sz - min l sz else k) = sz - c"
    by (auto simp: c_def)
  have "STRLOG (base + min l sz) (sz - min l sz) tx (b, k)
      = bindE (snprintf b (base + c) (sz - c) tx) (\<lambda>(b, temp). Inr (b, if temp > 0 then k + temp else k))"
    unfolding STRLOG_def Let_def prod.case clip ..
  moreover have "STRLOG base sz tx (b, l + k)
      = bindE (snprintf b (base + c) (sz - c) tx) (\<lambda>(b, temp). Inr (b, if temp > 0 then l + k + temp else l + k))"
    unfolding STRLOG_def Let_def prod.case c_def [symmetric] ..
  ultimately show ?thesis
    by (cases "snprintf b (base + c) (sz - c) tx") auto
qed

lemma STRLOG_nested:
  assumes "sz \<le> length buf" and "t \<noteq> ''''"
  shows "STRLOG (min (length tx) sz) (sz - min (length tx) sz) t (logged 0 sz buf (tx @ u), length u)
    = Inr (logged 0 sz buf (tx @ u @ t), length u + length t)"
  using STRLOG_shift [of 0 "length tx" sz t "logged 0 sz buf (tx @ u)" "length u"]
    STRLOG_logged [of 0 sz buf t "tx @ u"] assms by simp

lemma foldE_STRLOG_nested:
  assumes "sz \<le> length buf" and "\<forall>t \<in> set ts. t \<noteq> ''''"
  shows "foldE (STRLOG (min (length tx) sz) (sz - min (length tx) sz)) ts (logged 0 sz buf (tx @ u), length u)
    = Inr (logged 0 sz buf (tx @ u @ concat ts), length u + length (concat ts))"
  using assms(2)
proof (induction ts arbitrary: u)
  case (Cons t ts)
  then show ?case using STRLOG_nested [OF assms(1), of t tx u] Cons.IH [of "u @ t"] by simp
qed simp

definition named :: "snd_mask option \<Rightarrow> string option list \<Rightarrow> bool" where
  "named mo names \<longleftrightarrow> (case mo of None \<Rightarrow> True
     | Some m \<Rightarrow> list_all (\<lambda>(i, name). pcm_mask_test m (of_nat i) \<noteq> 0 \<longrightarrow> name \<noteq> None) (enumerate 0 names))"

lemma mask_line_nonempty [simp]: "mask_line s \<noteq> ''''"
  by (simp add: mask_line_def nl_def)

lemma foldE_log_bit:
  assumes "sz \<le> length buf"
    and "list_all (\<lambda>(i, name). pcm_mask_test m (of_nat i) \<noteq> 0 \<longrightarrow> name \<noteq> None) es"
  shows "foldE (log_bit (min (length tx) sz) (sz - min (length tx) sz) m) es (logged 0 sz buf (tx @ u), length u)
    = (let t = concat (map (\<lambda>(i, name). if pcm_mask_test m (of_nat i) \<noteq> 0 then mask_line (the name) else '''') es)
       in Inr (logged 0 sz buf (tx @ u @ t), length u + length t))"
  using assms(2)
proof (induction es arbitrary: u)
  case (Cons e es)
  obtain i name where e: "e = (i, name)" by (cases e)
  show ?case
  proof (cases "pcm_mask_test m (of_nat i) = 0")
    case True
    then show ?thesis using Cons by (simp add: e log_bit_def)
  next
    case False
    then obtain s where "name = Some s" using Cons.prems by (auto simp: e)
    then show ?thesis
      using False Cons.IH [of "u @ mask_line s"] Cons.prems STRLOG_nested [OF assms(1), of "mask_line s" tx u]
      by (simp add: e log_bit_def Let_def add.assoc)
  qed
qed simp

lemma mask_header_nonempty: "\<forall>t \<in> set (mask_header nm n m). t \<noteq> ''''"
  by (simp add: mask_header_def nl_def)

lemma pcm_mask_to_string_nested:
  assumes "sz \<le> length buf" and "named mo names"
  shows "pcm_mask_to_string mo (min (length tx) sz) (sz - min (length tx) sz) nm names (logged 0 sz buf tx)
    = Inr (logged 0 sz buf (tx @ mask_text mo nm names), length (mask_text mo nm names))"
proof (cases mo)
  case None
  then show ?thesis by (simp add: pcm_mask_to_string_def mask_text_def)
next
  case (Some m)
  let ?h = "concat (mask_header nm (length names) m)"
  have "foldE (STRLOG (min (length tx) sz) (sz - min (length tx) sz)) (mask_header nm (length names) m)
      (logged 0 sz buf tx, 0) = Inr (logged 0 sz buf (tx @ ?h), length ?h)"
    using foldE_STRLOG_nested [OF assms(1) mask_header_nonempty, where u = "[]"] by simp
  moreover have "list_all (\<lambda>(i, name). pcm_mask_test m (of_nat i) \<noteq> 0 \<longrightarrow> name \<noteq> None) (enumerate 0 names)"
    using assms(2) Some by (simp add: named_def)
  ultimately show ?thesis
    using foldE_log_bit [OF assms(1), of m "enumerate 0 names" tx ?h] Some
    by (simp add: pcm_mask_to_string_def mask_text_def Let_def)
qed

lemma log_mask_logged:
  assumes "sz \<le> length buf" and "named mo names"
  shows "log_mask sz mo nm names (logged 0 sz buf tx, length tx)
    = Inr (logged 0 sz buf (tx @ mask_text mo nm names), length (tx @ mask_text mo nm names))"
proof -
  have "(if length tx > sz then sz else length tx) = min (length tx) sz" by simp
  then show ?thesis
    using pcm_mask_to_string_nested [OF assms, of tx nm]
    unfolding log_mask_def Let_def prod.case by simp
qed

lemma range_lines_nonempty: "\<forall>t \<in> set (range_lines p). t \<noteq> ''''"
  by (simp add: range_lines_def nl_def)

lemma params_to_string_logged:
  assumes "sz \<le> length buf"
    and "named (pcm_params_get_mask params PCM_PARAM_ACCESS) access_lookup"
    and "named (pcm_params_get_mask params PCM_PARAM_FORMAT) format_lookup"
    and "named (pcm_params_get_mask params PCM_PARAM_SUBFORMAT) subformat_lookup"
  shows "pcm_params_to_string params sz buf
    = Inr (logged 0 sz buf (params_text params), length (params_text params))"
proof -
  let ?a = "mask_text (pcm_params_get_mask params PCM_PARAM_ACCESS) ''Access'' access_lookup"
  let ?f = "mask_text (pcm_params_get_mask params PCM_PARAM_FORMAT) ''Format'' format_lookup"
  let ?u = "mask_text (pcm_params_get_mask params PCM_PARAM_SUBFORMAT) ''Subformat'' subformat_lookup"
  have "pcm_mask_to_string (pcm_params_get_mask params PCM_PARAM_ACCESS) 0 sz ''Access'' access_lookup buf
      = Inr (logged 0 sz buf ?a, length ?a)"
    using pcm_mask_to_string_nested [OF assms(1,2), of "''''"] by (simp add: logged_def)
  moreover have "log_mask sz (pcm_params_get_mask params PCM_PARAM_SUBFORMAT) ''Subformat'' subformat_lookup
      (logged 0 sz buf (?a @ ?f), length (?a @ ?f)) = Inr (logged 0 sz buf ((?a @ ?f) @ ?u), length ((?a @ ?f) @ ?u))"
    by (rule log_mask_logged [OF assms(1,4)])
  ultimately show ?thesis
    using log_mask_logged [OF assms(1,3), of "''Format''" ?a] foldE_STRLOG [of 0 sz buf "range_lines params" "(?a @ ?f) @ ?u"]
      assms(1) range_lines_nonempty [of params]
    by (simp add: pcm_params_to_string_def params_text_def)
qed

section \<open>The shape of the block, and stores by key\<close>

definition hw_params_wf :: "snd_pcm_hw_params \<Rightarrow> bool" where
  "hw_params_wf p \<longleftrightarrow> length (masks p) = 3 \<and> list_all (\<lambda>m. length m = 8) (masks p)
     \<and> length (intervals p) = 12"

lemma param_init_wf [simp]: "hw_params_wf param_init"
  by code_simp

lemma hw_params_wf_mask: "hw_params_wf p \<Longrightarrow> i < 3 \<Longrightarrow> length (masks p ! i) = 8"
  by (simp add: hw_params_wf_def list_all_length)

lemma param_set_mask_wf [simp]:
  assumes "hw_params_wf p"
  shows "hw_params_wf (param_set_mask n b p)"
proof -
  have "param_is_mask n \<Longrightarrow> param_to_mask n < 3"
    by (auto simp: param_is_mask_def param_to_mask_def)
  then show ?thesis
    using assms hw_params_wf_mask [OF assms]
    by (auto simp: hw_params_wf_def param_set_mask_def Let_def list_all_length nth_list_update)
qed

lemma upd_interval_wf [simp]: "hw_params_wf p \<Longrightarrow> hw_params_wf (upd_interval n f p)"
  by (simp add: hw_params_wf_def upd_interval_def Let_def)

lemma param_set_wf [simp]:
  assumes "hw_params_wf p"
  shows "hw_params_wf (param_set_int n v p)" "hw_params_wf (param_set_min n v p)"
    "hw_params_wf (param_set_max n v p)"
  using assms by (simp_all add: param_set_int_def param_set_min_def param_set_max_def)

lemma interval_index: "param_is_interval n \<Longrightarrow> param_to_interval n < 12"
  by (auto simp: param_is_interval_def param_to_interval_def)

lemma interval_index_inject:
  "param_is_interval n \<Longrightarrow> param_is_interval m \<Longrightarrow> param_to_interval n = param_to_interval m \<Longrightarrow> n = m"
  by (auto simp: param_is_interval_def param_to_interval_def)

lemma nth_upd_interval:
  assumes "hw_params_wf p" and "param_is_interval n" and "param_is_interval m"
  shows "intervals (upd_interval n f p) ! param_to_interval m
    = (if m = n then f (intervals p ! param_to_interval n) else intervals p ! param_to_interval m)"
  using assms interval_index [of n] interval_index_inject [of n m]
  by (auto simp: upd_interval_def Let_def hw_params_wf_def nth_list_update)

text \<open>A store whose reads see the last write under the same key.\<close>

locale keyed_store =
  fixes valid :: "'s \<Rightarrow> bool"
    and key :: "'k \<Rightarrow> bool"
    and fetch :: "'k \<Rightarrow> 's \<Rightarrow> 'v"
    and store :: "'k \<Rightarrow> 'v \<Rightarrow> 's \<Rightarrow> 's"
  assumes store_valid: "valid s \<Longrightarrow> valid (store k v s)"
    and fetch_same: "valid s \<Longrightarrow> key k \<Longrightarrow> fetch k (store k v s) = v"
    and fetch_other: "valid s \<Longrightarrow> l \<noteq> k \<Longrightarrow> fetch l (store k v s) = fetch l s"
begin

lemma fold_valid: "valid s \<Longrightarrow> valid (fold (\<lambda>(k, v). store k v) ops s)"
  by (induction ops arbitrary: s) (auto simp: store_valid)

lemma fetch_last:
  assumes "valid s" and "key k"
  shows "fetch k (fold (\<lambda>(k, v). store k v) ops s)
    = (case map_of (rev ops) k of Some v \<Rightarrow> v | None \<Rightarrow> fetch k s)"
proof (induction ops rule: rev_induct)
  case (snoc op ops)
  obtain l v where op: "op = (l, v)" by (cases op)
  have "valid (fold (\<lambda>(k, v). store k v) ops s)" by (rule fold_valid [OF assms(1)])
  then show ?case using snoc fetch_same [OF _ assms(2)] fetch_other by (auto simp: op)
qed simp

end

interpretation int_store: keyed_store hw_params_wf param_is_interval param_get_int param_set_int
  by unfold_locales (auto simp: param_get_int_def param_set_int_def nth_upd_interval)

interpretation min_store: keyed_store hw_params_wf param_is_interval param_get_min param_set_min
  by unfold_locales (auto simp: param_get_min_def param_set_min_def nth_upd_interval)

interpretation max_store: keyed_store hw_params_wf param_is_interval param_get_max param_set_max
  by unfold_locales (auto simp: param_get_max_def param_set_max_def nth_upd_interval)

section \<open>Masks by bit\<close>

lemma and_31: "unat (k AND 31 :: u32) = unat k mod 32"
proof -
  have "(31 :: u32) = mask 5" by (simp add: mask_eq_exp_minus_1)
  then have "k AND 31 = take_bit 5 k" by (simp add: take_bit_eq_mask)
  then show ?thesis by (simp add: take_bit_eq_mod unat_mod_distrib)
qed

lemma drop_5: "unat (drop_bit 5 k :: u32) = unat k div 32"
  by (simp add: drop_bit_eq_div unat_div_distrib)

lemma pcm_mask_test_bit:
  assumes "unat k < 256"
  shows "pcm_mask_test m k = of_bool (bit (m ! (unat k div 32)) (unat k mod 32))"
proof -
  have "\<not> drop_bit 5 k \<ge> 8"
    using assms by (simp add: word_le_nat_alt drop_5)
  moreover have "w AND 1 = of_bool (bit w 0)" for w :: u32
    by (simp add: and_one_eq mod2_eq_if bit_0)
  ultimately show ?thesis
    by (simp add: pcm_mask_test_def Let_def and_31 drop_5 bit_drop_bit_eq)
qed

lemma pcm_mask_test_high: "256 \<le> unat k \<Longrightarrow> pcm_mask_test m k = 0"
  by (simp add: pcm_mask_test_def Let_def word_le_nat_alt drop_5)

lemma param_set_mask_bits:
  assumes "hw_params_wf p" and "param_is_mask n" and "unat b < 64" and "unat k < 256"
  shows "pcm_mask_test (masks (param_set_mask n b p) ! param_to_mask n) k
    = (if unat k < 64 then of_bool (k = b) else pcm_mask_test (masks p ! param_to_mask n) k)"
proof -
  let ?m = "masks p ! param_to_mask n"
  have n: "param_to_mask n < 3" using assms(2) by (auto simp: param_is_mask_def param_to_mask_def)
  have len: "length ?m = 8" using hw_params_wf_mask [OF assms(1) n] .
  have nb: "\<not> SNDRV_MASK_MAX \<le> b" using assms(3) by (simp add: SNDRV_MASK_MAX_def word_le_nat_alt)
  have "length (masks p) = 3" using assms(1) by (simp add: hw_params_wf_def)
  then have m: "masks (param_set_mask n b p) ! param_to_mask n
      = ?m[0 := 0, 1 := 0, unat b div 32 := (?m[0 := 0, 1 := 0] ! (unat b div 32)) OR push_bit (unat b mod 32) 1]"
    using n nb assms(2) by (simp add: param_set_mask_def Let_def and_31 drop_5)
  let ?r = "unat k div 32" and ?b = "unat b div 32"
  have b2: "?b < 2" using assms(3) by simp
  have k8: "?r < 8" using assms(4) by simp
  have bit: "bit (push_bit (unat b mod 32) 1 :: u32) (unat k mod 32) \<longleftrightarrow> unat k mod 32 = unat b mod 32"
    by (auto simp: bit_simps)
  have row: "masks (param_set_mask n b p) ! param_to_mask n ! ?r
    = (if ?r < 2 then if ?r = ?b then push_bit (unat b mod 32) 1 else 0 else ?m ! ?r)"
    unfolding m using b2 k8 len by (auto simp: nth_list_update less_2_cases_iff)
  have low: "?r < 2 \<longleftrightarrow> unat k < 64" by auto
  have kb: "k = b \<longleftrightarrow> ?r = ?b \<and> unat k mod 32 = unat b mod 32"
    by (metis div_mult_mod_eq unsigned_word_eqI)
  show ?thesis
    unfolding pcm_mask_test_bit [OF assms(4)] row low kb using bit by simp
qed

section \<open>Properties\<close>

lemma masks_param_init: "masks param_init = replicate 3 (-1 # -1 # replicate 6 0)"
  by code_simp

lemma param_init_high: "i < 3 \<Longrightarrow> 64 \<le> unat k \<Longrightarrow> unat k < 256 \<Longrightarrow> pcm_mask_test (masks param_init ! i) k = 0"
proof -
  assume k: "i < 3" "64 \<le> unat k" "unat k < 256"
  then have "2 \<le> unat k div 32" "unat k div 32 < 8" by simp_all
  then have "(-1 # -1 # replicate 6 0) ! (unat k div 32) = (0 :: u32)"
    by (auto simp: nth_Cons split: nat.splits)
  then show "pcm_mask_test (masks param_init ! i) k = 0"
    using k by (simp add: masks_param_init pcm_mask_test_bit)
qed

text \<open>
  from the open request that \<^verbatim>\<open>param_init\<close> makes, setting one of the first 64 bits of a mask
  leaves exactly this bit of that mask, although the code clears two of the eight words only.
\<close>

theorem param_set_mask_single:
  assumes "param_is_mask n" and "unat b < 64" and "unat k < 256"
  shows "pcm_mask_test (masks (param_set_mask n b param_init) ! param_to_mask n) k = of_bool (k = b)"
proof -
  have n: "param_to_mask n < 3" using assms(1) by (auto simp: param_is_mask_def param_to_mask_def)
  have "64 \<le> unat k \<Longrightarrow> k \<noteq> b" using assms(2) by auto
  then show ?thesis
    using param_set_mask_bits [OF param_init_wf assms] param_init_high [OF n _ assms(3)] by auto
qed

theorem param_set_mask_single_witness:
  "pcm_mask_test (masks (param_set_mask SNDRV_PCM_HW_PARAM_FORMAT 10 param_init) ! 1) 10 = 1
    \<and> pcm_mask_test (masks (param_set_mask SNDRV_PCM_HW_PARAM_FORMAT 10 param_init) ! 1) 2 = 0"
  using param_set_mask_single [of 1 10 10] param_set_mask_single [of 1 10 2]
  by (simp add: param_is_mask_def param_to_mask_def)

definition recognised :: "pcm_format \<Rightarrow> bool" where
  "recognised f \<longleftrightarrow> f \<in> {PCM_FORMAT_S16_LE, PCM_FORMAT_S32_LE, PCM_FORMAT_S8, PCM_FORMAT_S24_LE, PCM_FORMAT_S24_3LE}"

text \<open>
  the format test answers 1 for exactly the recognised format whose bit was set; a format it
  does not know is never taken for the 16-bit one that it is translated to.
\<close>

theorem pcm_params_format_test_exact:
  assumes "hw_params_wf p"
  shows "pcm_params_format_test (Some (param_set_mask SNDRV_PCM_HW_PARAM_FORMAT (pcm_format_to_alsa f) p)) g
    = Inr (of_bool (recognised g \<and> pcm_format_to_alsa g = pcm_format_to_alsa f))"
proof -
  have f: "unat (pcm_format_to_alsa f) < 64" "unat (pcm_format_to_alsa g) < 64"
    by (simp_all add: pcm_format_to_alsa_def alsa_format_defs split: pcm_format.splits)
  have n: "param_is_mask SNDRV_PCM_HW_PARAM_FORMAT" by (simp add: param_is_mask_def)
  have "pcm_mask_test (masks (param_set_mask SNDRV_PCM_HW_PARAM_FORMAT (pcm_format_to_alsa f) p) ! param_to_mask 1)
      (pcm_format_to_alsa g) = of_bool (pcm_format_to_alsa g = pcm_format_to_alsa f)"
    using param_set_mask_bits [OF assms n f(1), of "pcm_format_to_alsa g"] f(2) by simp
  moreover have "pcm_format_to_alsa g = SNDRV_PCM_FORMAT_S16_LE \<and> g \<noteq> PCM_FORMAT_S16_LE \<longleftrightarrow> \<not> recognised g"
    by (cases g) (simp_all add: pcm_format_to_alsa_def alsa_format_defs recognised_def)
  ultimately show ?thesis
    using n by (auto simp: pcm_params_format_test_def Let_def pcm_params_get_mask_def pcm_param_to_alsa_def)
qed

theorem pcm_params_format_test_exact_witness:
  "pcm_params_format_test (Some (param_set_mask SNDRV_PCM_HW_PARAM_FORMAT (pcm_format_to_alsa PCM_FORMAT_S32_LE) param_init))
    PCM_FORMAT_S32_LE = Inr 1"
  using pcm_params_format_test_exact [OF param_init_wf, of PCM_FORMAT_S32_LE PCM_FORMAT_S32_LE]
  by (simp add: recognised_def)

text \<open>
  the single-value intervals behave as a store: after any sequence of \<^verbatim>\<open>param_set_int\<close> on the
  request of \<^verbatim>\<open>param_init\<close>, each interval reads back its last value, and 0 if it was never set.
\<close>

theorem param_set_int_last:
  assumes "param_is_interval n"
  shows "param_get_int n (fold (\<lambda>(k, v). param_set_int k v) ops param_init)
    = (case map_of (rev ops) n of Some v \<Rightarrow> v | None \<Rightarrow> 0)"
proof -
  have "param_to_interval n < 12" using interval_index [OF assms] .
  moreover have "intervals param_init = replicate 12 (zero_interval\<lparr>imax := -1\<rparr>)" by code_simp
  ultimately have "param_get_int n param_init = 0"
    by (simp add: param_get_int_def zero_interval_def)
  then show ?thesis
    using int_store.fetch_last [OF param_init_wf assms, of ops] by (simp split: option.splits)
qed

theorem param_set_int_last_witness:
  "param_get_int SNDRV_PCM_HW_PARAM_RATE
      (fold (\<lambda>(k, v). param_set_int k v) [(SNDRV_PCM_HW_PARAM_RATE, 44100), (SNDRV_PCM_HW_PARAM_CHANNELS, 2),
        (SNDRV_PCM_HW_PARAM_RATE, 96000)] param_init) = 96000"
  using param_set_int_last [of SNDRV_PCM_HW_PARAM_RATE "[(11, 44100), (10, 2), (11, 96000)]"]
  by (simp add: param_is_interval_def)

text \<open>
  however short the buffer, the report is written as one \<^verbatim>\<open>snprintf\<close> of the whole text would
  write it: the returned length is that of the whole text, the buffer holds as much of it as fits
  before a terminating NUL, and nothing is written to a buffer of size 0.
\<close>

theorem pcm_params_to_string_truncates:
  assumes "sz \<le> length buf"
    and "named (pcm_params_get_mask params PCM_PARAM_ACCESS) access_lookup"
    and "named (pcm_params_get_mask params PCM_PARAM_FORMAT) format_lookup"
    and "named (pcm_params_get_mask params PCM_PARAM_SUBFORMAT) subformat_lookup"
  shows "pcm_params_to_string params sz buf
    = Inr (if sz = 0 then buf else overwrite buf 0 (take (sz - 1) (params_text params) @ [CHR 0x00]),
        length (params_text params))"
proof -
  have "params_text params \<noteq> ''''"
    by (simp add: params_text_def range_lines_def nl_def)
  then show ?thesis
    using params_to_string_logged [OF assms] by (simp add: logged_def)
qed

theorem pcm_params_to_string_truncates_witness:
  "pcm_params_to_string None 16 (replicate 20 CHR ''x'')
    = Inr (''        Rate:'' @ tab @ ''m'' @ [CHR 0x00] @ ''xxxx'', 138)"
proof -
  have "named (pcm_params_get_mask None PCM_PARAM_ACCESS) access_lookup"
    "named (pcm_params_get_mask None PCM_PARAM_FORMAT) format_lookup"
    "named (pcm_params_get_mask None PCM_PARAM_SUBFORMAT) subformat_lookup"
    by (simp_all add: named_def pcm_params_get_mask_def)
  note pcm_params_to_string_truncates [OF _ this, of 16 "replicate 20 CHR ''x''"]
  moreover have "length (params_text None) = 138" by code_simp
  moreover have "overwrite (replicate 20 CHR ''x'') 0 (take (16 - 1) (params_text None) @ [CHR 0x00])
      = ''        Rate:'' @ tab @ ''m'' @ [CHR 0x00] @ ''xxxx''" by code_simp
  ultimately show ?thesis by simp
qed

end
