(* ===== verification/Texts.thy ===== *)
theory Texts
  imports PcmParams
begin

text \<open>The conversions of \<^verbatim>\<open>printf\<close> that the tools and programs share.\<close>

text \<open>\<^verbatim>\<open>%d\<close> and \<^verbatim>\<open>%lld\<close>, \<^verbatim>\<open>%02x\<close>, and the padding of \<^verbatim>\<open>%-40s\<close>.\<close>

definition fmt_int :: "int \<Rightarrow> string" where
  "fmt_int n = (if n < 0 then CHR ''-'' # digits 10 (nat (- n)) else digits 10 (nat n))"

definition fmt_02x :: "u8 \<Rightarrow> string" where
  "fmt_02x b = pad_left CHR ''0'' 2 (digits 16 (unat b))"

definition pad_right :: "nat \<Rightarrow> string \<Rightarrow> string" where
  "pad_right n s = s @ replicate (n - length s) CHR '' ''"

end
