(* ===== verification/PerfDemo.thy ===== *)
theory PerfDemo
  imports SpiPack Texts "HOL-Library.Signed_Division"
begin

text \<open>
  demo/perfdemo/perfdemo.c: the program that times two of the packers on a full screen and prints what they have put into
  the send buffer. The packers are those of \<^theory_text>\<open>SpiPack\<close>; the answers of \<^verbatim>\<open>malloc\<close> and the readings of the clock are
  arguments.
\<close>

section \<open>Byte order and time\<close>

definition isLittleEndian :: int where
  "isLittleEndian = uint (hd (bytes_le32 1))"

definition toBigEndian :: "u64 \<Rightarrow> u64" where
  "toBigEndian w = (if isLittleEndian \<noteq> 0 then swap_endian_64 w else w)"

text \<open>Arithmetic on \<^verbatim>\<open>long long\<close>: what does not fit is a fault.\<close>

definition llong :: "int \<Rightarrow> int res" where
  "llong i = (if - (2 ^ 63) \<le> i \<and> i < 2 ^ 63 then Inr i else Inl SignedOverflow)"

definition getSystemTime :: "int \<times> int \<Rightarrow> int res" where
  "getSystemTime t = bindE (llong (fst t * 1000000000)) (\<lambda>s. llong (s + snd t))"

section \<open>The program\<close>

definition TEST_DATA_LEN :: nat where "TEST_DATA_LEN = 320 * 240 div 2"

definition FrameBuff :: "u32 list" where
  "FrameBuff = replicate TEST_DATA_LEN 0x12345678"

definition rule_line :: string where "rule_line = replicate 67 CHR ''#'' @ nl"
definition short_line :: string where "short_line = replicate 43 CHR ''#'' @ nl"

definition print_byte :: "u8 list \<Rightarrow> nat \<Rightarrow> string res" where
  "print_byte b i = bindE (ld b i) (\<lambda>x. Inr (''0x'' @ fmt_02x x @ '' ''))"

text \<open>The header and the data of the send buffer, with a line break after every sixteenth byte of the data.\<close>

definition print_buffer :: "u8 list \<Rightarrow> string \<Rightarrow> string res" where
  "print_buffer b out =
     bindE (foldE (\<lambda>i t. bindE (print_byte b i) (\<lambda>x. Inr (t @ x))) [0..<18] (out @ short_line @ ''spi_header:'' @ nl)) (\<lambda>t1.
     bindE (foldE (\<lambda>i t. bindE (print_byte b (i + 18)) (\<lambda>x. Inr (t @ x @ (if i mod 16 = 0 then nl else []))))
              [0..<TEST_DATA_LEN * 4] (t1 @ nl @ ''spi_data:'' @ nl)) (\<lambda>t2.
       Inr (t2 @ nl @ short_line)))"

text \<open>One timing: sixty calls between two readings of the clock, the average, and the buffer of the last call.\<close>

definition time_calls :: "string \<Rightarrow> (spi \<Rightarrow> (int option \<times> spi) res) \<Rightarrow> (int \<times> int) \<times> (int \<times> int) \<Rightarrow> string \<times> spi \<Rightarrow> (string \<times> spi) res" where
  "time_calls name packer clock = (\<lambda>(out, s).
     bindE (getSystemTime (fst clock)) (\<lambda>start.
     bindE (foldE (\<lambda>_ t. bindE (packer t) (\<lambda>(ret, t'). Inr t')) [0..<60] s) (\<lambda>s1.
     bindE (getSystemTime (snd clock)) (\<lambda>now.
     bindE (llong (now - start)) (\<lambda>d.
     bindE (print_buffer (p_spi_send_buf s1)
              (out @ rule_line @ ''call '' @ name @ '' av used '' @ fmt_int (d sdiv 60) @ '' nsecs'' @ nl)) (\<lambda>out1.
       Inr (out1, s1)))))))"

definition platform_text :: string where
  "platform_text =
     (let hex = (\<lambda>b. ''0x'' @ fmt_02x b); p = bytes_le64 0x12345678abcdef09; q = bytes_le64 (swap_endian_64 0x12345678abcdef09)
      in rule_line @ ''sizeof ll: 8, sizeof l: 8, sizeof int: 4'' @ nl @ rule_line
         @ ''platform endian: '' @ (if isLittleEndian \<noteq> 0 then ''little endian'' else ''big endian'') @ nl
         @ '' endianLL = '' @ digits 16 (unat (0x12345678abcdef09 :: u64)) @ '' '' @ nl @ '' endianLL char:''
         @ concat (map (\<lambda>i. (if i = 0 then '''' else '' '') @ hex (p ! i)) [0..<8]) @ nl
         @ ''swapendian:'' @ concat (map (\<lambda>i. (if i = 0 then '''' else '' '') @ (if i = 4 then fmt_02x (q ! i) else hex (q ! i))) [0..<8]) @ nl
         @ rule_line)"

text \<open>
  The whole program: the exit code and what it prints. \<open>got\<close> is whether the first buffer, which is not used, was
  allocated, \<open>junk\<close> the send buffer as \<^verbatim>\<open>malloc\<close> gives it; the four readings of the clock are \<open>c1\<close> and \<open>c2\<close>.
\<close>

definition perfdemo ::
    "bool \<Rightarrow> u8 list option \<Rightarrow> (int \<times> int) \<times> (int \<times> int) \<Rightarrow> (int \<times> int) \<times> (int \<times> int) \<Rightarrow> (int \<times> string) res" where
  "perfdemo got junk c1 c2 =
     (case (if got then junk else None) of
        None \<Rightarrow> Inr (-1, ''no mem'' @ nl)
      | Some b \<Rightarrow>
          bindE (time_calls ''send_display_data'' (filling_spi_send_display_data FrameBuff (of_nat TEST_DATA_LEN) 239 319) c1
                   (platform_text, \<lparr>spi_send_len = 0, p_spi_send_buf = b\<rparr>)) (\<lambda>(out, s).
          bindE (time_calls ''send_display_data3''
                   (filling_spi_send_display_data3 (concat (map bytes_le32 FrameBuff)) (of_nat TEST_DATA_LEN) 239 319) c2
                   (out, s)) (\<lambda>(out1, s1).
            Inr (0, out1 @ rule_line))))"

section \<open>What it prints\<close>

lemma foldE_print:
  assumes "\<forall>i \<in> set xs. f i = Inr (g i)"
  shows "foldE (\<lambda>i t. bindE (f i) (\<lambda>x. Inr (t @ x @ h i))) xs t = Inr (t @ concat (map (\<lambda>i. g i @ h i) xs))"
  using assms by (induction xs arbitrary: t) auto

definition buffer_text :: "u8 list \<Rightarrow> string" where
  "buffer_text b = short_line @ ''spi_header:'' @ nl @ concat (map (\<lambda>i. ''0x'' @ fmt_02x (b ! i) @ '' '') [0..<18])
     @ nl @ ''spi_data:'' @ nl
     @ concat (map (\<lambda>i. ''0x'' @ fmt_02x (b ! (i + 18)) @ '' '' @ (if i mod 16 = 0 then nl else [])) [0..<153600]) @ nl @ short_line"

lemma print_buffer_text:
  assumes "153618 \<le> length b"
  shows "print_buffer b out = Inr (out @ buffer_text b)"
proof -
  have 1: "foldE (\<lambda>i t. bindE (print_byte b i) (\<lambda>x. Inr (t @ x @ []))) [0..<18] t
      = Inr (t @ concat (map (\<lambda>i. (''0x'' @ fmt_02x (b ! i) @ '' '') @ []) [0..<18]))" for t
    by (rule foldE_print) (use assms in \<open>simp add: print_byte_def ld_ok\<close>)
  have 2: "foldE (\<lambda>i t. bindE (print_byte b (i + 18)) (\<lambda>x. Inr (t @ x @ (if i mod 16 = 0 then nl else [])))) [0..<n] t
      = Inr (t @ concat (map (\<lambda>i. (''0x'' @ fmt_02x (b ! (i + 18)) @ '' '') @ (if i mod 16 = 0 then nl else [])) [0..<n]))"
    if "n \<le> 153600" for n t
    by (rule foldE_print) (use assms that in \<open>simp add: print_byte_def ld_ok\<close>)
  have n: "TEST_DATA_LEN * 4 = 153600" by (simp add: TEST_DATA_LEN_def)
  show ?thesis using 1 2 [OF order_refl] unfolding print_buffer_def buffer_text_def n
    by (simp only: append_Nil2 append_assoc bindE_simps)
qed

text \<open>The packers keep the length of the send buffer.\<close>

lemma blit_length: "blit m i xs = Inr m' \<Longrightarrow> length m' = length m"
  by (auto simp: blit_def split: if_splits)

lemma pack_blocks_length: "pack_blocks pack k psrc s m d = Inr m' \<Longrightarrow> length m' = length m"
  by (induction pack k psrc s m d rule: pack_blocks.induct) (auto simp: res_simps dest!: blit_length)

lemma fill_packed_length:
  assumes "fill_packed header pack src len x y s = Inr (r, s')"
  shows "length (p_spi_send_buf s') = length (p_spi_send_buf s)"
  using assms by (auto simp: fill_packed_def spi_begin_def Let_def res_simps dest!: blit_length pack_blocks_length split: if_splits)

definition buffer_ok :: "spi \<Rightarrow> bool" where
  "buffer_ok s \<longleftrightarrow> length (p_spi_send_buf s) = 345728"

lemma frame_length: "length FrameBuff = 38400" "unat (of_nat TEST_DATA_LEN :: u32) = 38400"
  by (simp_all add: FrameBuff_def TEST_DATA_LEN_def)

lemma reference_frame:
  assumes "buffer_ok s"
  shows "\<exists>s'. filling_spi_send_display_data FrameBuff (of_nat TEST_DATA_LEN) 239 319 s = Inr (None, s') \<and> buffer_ok s'
    \<and> decode (bits_of (sent s')) = frame_symbols 239 319 FrameBuff"
proof -
  obtain s' where s': "filling_spi_send_display_data FrameBuff (of_nat TEST_DATA_LEN) 239 319 s = Inr (None, s')"
    "decode (bits_of (sent s')) = frame_symbols 239 319 (take 38400 FrameBuff)"
    "unat (spi_send_len s') = (9 * (12 + 4 * 38400) + 7) div 8"
    "drop (unat (spi_send_len s')) (p_spi_send_buf s') = drop (unat (spi_send_len s')) (p_spi_send_buf s)"
    using reference_stream [of s "of_nat TEST_DATA_LEN" FrameBuff 239 319] assms unfolding frame_length by (auto simp: buffer_ok_def)
  from arg_cong [OF s'(4), of length] have "buffer_ok s'" using s'(3) assms by (simp add: buffer_ok_def)
  then show ?thesis using s'(1,2) frame_length(1) by simp
qed

text \<open>Sixty calls that keep the buffer leave the state of a last call.\<close>

lemma repeat_calls:
  assumes "\<forall>s. buffer_ok s \<longrightarrow> (\<exists>r s'. packer s = Inr (r, s') \<and> buffer_ok s')" and "buffer_ok s" and "xs \<noteq> []"
  shows "\<exists>t s' r. foldE (\<lambda>_ u. bindE (packer u) (\<lambda>(ret, u'). Inr u')) xs s = Inr s' \<and> buffer_ok s' \<and> buffer_ok t \<and> packer t = Inr (r, s')"
  using assms(2,3)
proof (induction xs arbitrary: s)
  case (Cons x xs)
  obtain r s1 where s1: "packer s = Inr (r, s1)" "buffer_ok s1" using assms(1) Cons.prems(1) by blast
  show ?case
  proof (cases "xs = []")
    case True
    then show ?thesis using s1 Cons.prems(1) by auto
  next
    case False
    from Cons.IH [OF s1(2) this] show ?thesis using s1(1) by simp
  qed
qed simp

text \<open>A clock that shows a time within 272 years, and the average of a timing.\<close>

definition clock_ok :: "int \<times> int \<Rightarrow> bool" where
  "clock_ok t \<longleftrightarrow> 0 \<le> fst t \<and> fst t < 2 ^ 33 \<and> 0 \<le> snd t \<and> snd t < 10 ^ 9"

definition average :: "(int \<times> int) \<times> (int \<times> int) \<Rightarrow> int" where
  "average c = ((fst (snd c) - fst (fst c)) * 10 ^ 9 + (snd (snd c) - snd (fst c))) sdiv 60"

definition timing_text :: "string \<Rightarrow> (int \<times> int) \<times> (int \<times> int) \<Rightarrow> u8 list \<Rightarrow> string" where
  "timing_text name c b = rule_line @ ''call '' @ name @ '' av used '' @ fmt_int (average c) @ '' nsecs'' @ nl @ buffer_text b"

lemma system_time: "clock_ok t \<Longrightarrow> getSystemTime t = Inr (fst t * 10 ^ 9 + snd t)"
  by (simp add: getSystemTime_def llong_def clock_ok_def)

lemma time_calls_text:
  assumes "\<forall>s. buffer_ok s \<longrightarrow> (\<exists>r s'. packer s = Inr (r, s') \<and> buffer_ok s')" and "buffer_ok s"
    and "clock_ok (fst c)" and "clock_ok (snd c)"
  shows "\<exists>t s' r. time_calls name packer c (out, s) = Inr (out @ timing_text name c (p_spi_send_buf s'), s')
    \<and> buffer_ok s' \<and> buffer_ok t \<and> packer t = Inr (r, s')"
proof -
  obtain t s' r where r: "foldE (\<lambda>_ u. bindE (packer u) (\<lambda>(ret, u'). Inr u')) [0..<60 :: nat] s = Inr s'"
    "buffer_ok s'" "buffer_ok t" "packer t = Inr (r, s')" using repeat_calls [OF assms(1,2), where xs = "[0..<60 :: nat]"] by auto
  define d where "d = (fst (snd c) - fst (fst c)) * 10 ^ 9 + (snd (snd c) - snd (fst c))"
  have "fst (snd c) * 10 ^ 9 + snd (snd c) - (fst (fst c) * 10 ^ 9 + snd (fst c)) = d" by (simp add: d_def algebra_simps)
  moreover have "llong d = Inr d" using assms(3,4) by (auto simp: llong_def clock_ok_def d_def)
  moreover have "print_buffer (p_spi_send_buf s') out1 = Inr (out1 @ buffer_text (p_spi_send_buf s'))" for out1
    using r(2) by (intro print_buffer_text) (simp add: buffer_ok_def)
  ultimately have "time_calls name packer c (out, s) = Inr (out @ timing_text name c (p_spi_send_buf s'), s')"
    unfolding time_calls_def timing_text_def average_def
    by (simp only: prod.case system_time [OF assms(3)] system_time [OF assms(4)] r(1) bindE_simps append_assoc d_def)
  with r(2-4) show ?thesis by blast
qed

text \<open>
  C15: the program runs to its end and prints its two averages with the send buffers they belong to: that of the
  reference packer spells the screen of equal pixels, and the optimised packer has sent the panel the same.
\<close>

theorem perfdemo_output:
  assumes "length b = 345728" and "clock_ok (fst c1)" and "clock_ok (snd c1)" and "clock_ok (fst c2)" and "clock_ok (snd c2)"
  shows "\<exists>s s'. perfdemo True (Some b) c1 c2 = Inr (0, platform_text @ timing_text ''send_display_data'' c1 (p_spi_send_buf s)
        @ timing_text ''send_display_data3'' c2 (p_spi_send_buf s') @ rule_line)
    \<and> decode (bits_of (sent s)) = frame_symbols 239 319 FrameBuff \<and> received s' = received s"
proof -
  let ?p = "filling_spi_send_display_data FrameBuff (of_nat TEST_DATA_LEN) 239 319"
  let ?q = "filling_spi_send_display_data3 (concat (map bytes_le32 FrameBuff)) (of_nat TEST_DATA_LEN) 239 319"
  have len: "9 * (24 + 4 * unat (of_nat TEST_DATA_LEN :: u32)) \<le> 8 * 345728" "unat (of_nat TEST_DATA_LEN :: u32) \<le> length FrameBuff"
    "even (unat (of_nat TEST_DATA_LEN :: u32))" unfolding frame_length by simp_all
  have agree: "\<exists>s' t'. ?p s = Inr (None, s') \<and> ?q t = Inr (None, t') \<and> received s' = received t'"
    if "buffer_ok s" "buffer_ok t" for s t
    using that packers_agree [OF _ _ len, of s t 239 319] by (simp add: buffer_ok_def)
  have p: "\<forall>s. buffer_ok s \<longrightarrow> (\<exists>r s'. ?p s = Inr (r, s') \<and> buffer_ok s')" using reference_frame by blast
  have "\<exists>r s'. ?q s = Inr (r, s') \<and> buffer_ok s'" if "buffer_ok s" for s
  proof -
    note ok = that
    obtain s' where s': "?q s = Inr (None, s')" using agree [OF ok ok] by blast
    from fill_packed_length [OF s' [unfolded filling_spi_send_display_data3_def]] s' ok show ?thesis by (simp add: buffer_ok_def)
  qed
  then have q: "\<forall>s. buffer_ok s \<longrightarrow> (\<exists>r s'. ?q s = Inr (r, s') \<and> buffer_ok s')" by blast
  have b: "buffer_ok \<lparr>spi_send_len = 0, p_spi_send_buf = b\<rparr>" using assms(1) by (simp add: buffer_ok_def)
  from time_calls_text [OF p b assms(2,3), of "''send_display_data''" platform_text] obtain t s r where
    1: "time_calls ''send_display_data'' ?p c1 (platform_text, \<lparr>spi_send_len = 0, p_spi_send_buf = b\<rparr>)
      = Inr (platform_text @ timing_text ''send_display_data'' c1 (p_spi_send_buf s), s)" "buffer_ok s" "buffer_ok t" "?p t = Inr (r, s)"
    by blast
  from time_calls_text [OF q 1(2) assms(4,5), of "''send_display_data3''" "platform_text @ timing_text ''send_display_data'' c1 (p_spi_send_buf s)"]
  obtain t' s' r' where
    2: "time_calls ''send_display_data3'' ?q c2 (platform_text @ timing_text ''send_display_data'' c1 (p_spi_send_buf s), s)
      = Inr ((platform_text @ timing_text ''send_display_data'' c1 (p_spi_send_buf s)) @ timing_text ''send_display_data3'' c2 (p_spi_send_buf s'), s')"
      "buffer_ok t'" "?q t' = Inr (r', s')" by blast
  have "received s' = received s" using agree [OF 1(3) 2(2)] 1(4) 2(3) by auto
  moreover have "decode (bits_of (sent s)) = frame_symbols 239 319 FrameBuff" using reference_frame [OF 1(3)] 1(4) by auto
  moreover have "perfdemo True (Some b) c1 c2 = Inr (0, platform_text @ timing_text ''send_display_data'' c1 (p_spi_send_buf s)
        @ timing_text ''send_display_data3'' c2 (p_spi_send_buf s') @ rule_line)"
    unfolding perfdemo_def by (simp only: if_True option.case 1(1) 2(1) bindE_simps prod.case append_assoc)
  ultimately show ?thesis by blast
qed

theorem perfdemo_output_witness:
  "\<exists>s s'. perfdemo True (Some (replicate 345728 7)) ((10, 0), (11, 0)) ((12, 0), (13, 0))
      = Inr (0, platform_text @ timing_text ''send_display_data'' ((10, 0), (11, 0)) (p_spi_send_buf s)
        @ timing_text ''send_display_data3'' ((12, 0), (13, 0)) (p_spi_send_buf s') @ rule_line)
    \<and> received s' = received s"
  using perfdemo_output [of "replicate 345728 7" "((10, 0), (11, 0))" "((12, 0), (13, 0))"] by (auto simp: clock_ok_def)

end
