(* ===== verification/SpeechFormat.thy ===== *)
theory SpeechFormat
  imports Word_Memory
begin

text \<open>
  The microphone stream of speech/src/speecharray.c. The hardware delivers frames of twelve 32-bit
  words, the word of channel c carrying c in bits 8 to 11 and its 16-bit sample in the high half.
  \<^verbatim>\<open>skipData\<close> looks for the first frame that is tagged and not silent; \<^verbatim>\<open>parseData_INT32\<close> packs six
  channels of every tagged frame in place. Both are modelled over the whole block that the
  pointer lies in, so that a read past its end is a fault. The abstraction is a parser of word
  lists that knows nothing of offsets or of the reuse of the buffer.
\<close>

section \<open>The checks on one frame\<close>

text \<open>The disjunction of \<^verbatim>\<open>CHECKERROR_INT32_LE\<close>, evaluated from the left up to the first mismatch.\<close>

fun chk_tags :: "u32 list \<Rightarrow> u8 list \<Rightarrow> nat \<Rightarrow> bool res" where
  "chk_tags [] m off = Inr False"
| "chk_tags (t # ts) m off =
     bindE (ld32 m off) (\<lambda>w. if w AND 0x00000f00 \<noteq> t then Inr True else chk_tags ts m (off + 4))"

definition channel_tags :: "u32 list" where
  "channel_tags = [0x100, 0x200, 0x300, 0x400, 0x500, 0x600, 0x700, 0x800, 0x900, 0xa00, 0xb00, 0xc00]"

definition CHECKERROR_INT32_LE :: "u8 list \<Rightarrow> nat \<Rightarrow> bool res" where
  "CHECKERROR_INT32_LE m off = chk_tags channel_tags m off"

definition quiet :: "u32 \<Rightarrow> bool" where
  "quiet w \<longleftrightarrow> w AND 0xffff0000 = 0 \<or> w AND 0xffff0000 = 0xffff0000"

fun chk_quiet :: "nat \<Rightarrow> u8 list \<Rightarrow> nat \<Rightarrow> bool res" where
  "chk_quiet 0 m off = Inr True"
| "chk_quiet (Suc k) m off =
     bindE (ld32 m off) (\<lambda>w. if quiet w then chk_quiet k m (off + 4) else Inr False)"

definition CHECKDATA_INT32 :: "u8 list \<Rightarrow> nat \<Rightarrow> bool res" where
  "CHECKDATA_INT32 m off = chk_quiet 12 m off"

text \<open>The diagnostics print twelve words, so they read them.\<close>

definition dumpdata_12 :: "u8 list \<Rightarrow> nat \<Rightarrow> unit res" where
  "dumpdata_12 m off = bindE (slice m off 48) (\<lambda>_. Inr ())"

section \<open>Skipping to the first frame with sound\<close>

datatype skip_verdict = Skip_word | Skip_frame | Stop

definition skip_step :: "u8 list \<Rightarrow> nat \<Rightarrow> skip_verdict res" where
  "skip_step m sk =
     bindE (ld32 m sk) (\<lambda>w.
       if w = 0x00000000 then Inr Skip_word
       else bindE (CHECKERROR_INT32_LE m sk) (\<lambda>e.
         if e then bindE (dumpdata_12 m sk) (\<lambda>_. Inr Skip_word)
         else bindE (CHECKDATA_INT32 m sk) (\<lambda>q.
           if q then bindE (dumpdata_12 m sk) (\<lambda>_. Inr Skip_frame)
           else Inr Stop)))"

function skip_loop :: "u8 list \<Rightarrow> nat \<Rightarrow> nat \<Rightarrow> nat res" where
  "skip_loop m len sk =
     (case skip_step m sk of
        Inl f \<Rightarrow> Inl f
      | Inr Stop \<Rightarrow> Inr sk
      | Inr Skip_word \<Rightarrow> if sk + 4 < len then skip_loop m len (sk + 4) else Inr (sk + 4)
      | Inr Skip_frame \<Rightarrow> if sk + 48 < len then skip_loop m len (sk + 48) else Inr (sk + 48))"
  by pat_completeness auto
termination by (relation "measure (\<lambda>(m, len, sk). len - sk)") auto

declare skip_loop.simps [simp del]

definition MINI_SINGLE_SAMPLE_BYTES :: int where
  "MINI_SINGLE_SAMPLE_BYTES = 48"

definition skipData :: "u8 list \<Rightarrow> int \<Rightarrow> int res" where
  "skipData m len =
     (if len < MINI_SINGLE_SAMPLE_BYTES then Inr (-1)
      else let len' = (if len mod MINI_SINGLE_SAMPLE_BYTES \<noteq> 0
                       then len - len mod MINI_SINGLE_SAMPLE_BYTES else len)
           in bindE (skip_loop m (nat len') 0) (\<lambda>sk. Inr (int sk)))"

section \<open>Packing the frames in place\<close>

definition pack_halves :: "u8 list \<Rightarrow> nat \<Rightarrow> nat \<Rightarrow> nat \<Rightarrow> u8 list res" where
  "pack_halves m dst i j =
     bindE (ld32 m i) (\<lambda>a. bindE (ld32 m j) (\<lambda>b.
       st32 m dst ((a AND 0xffff0000) OR drop_bit 16 (b AND 0xffff0000))))"

definition demux_store :: "u8 list \<Rightarrow> nat \<Rightarrow> nat \<Rightarrow> u8 list res" where
  "demux_store m sp av =
     bindE (pack_halves m av sp (sp + 4)) (\<lambda>m1.
     bindE (pack_halves m1 (av + 4) (sp + 24) (sp + 28)) (\<lambda>m2.
     pack_halves m2 (av + 8) (sp + 12) (sp + 36)))"

function parse_loop :: "u8 list \<Rightarrow> nat \<Rightarrow> nat \<Rightarrow> nat \<Rightarrow> nat \<Rightarrow> (nat \<times> u8 list) res" where
  "parse_loop m en sp av datalen =
     (case CHECKERROR_INT32_LE m sp of
        Inl f \<Rightarrow> Inl f
      | Inr True \<Rightarrow>
          (case ld32 m sp of
             Inl f \<Rightarrow> Inl f
           | Inr _ \<Rightarrow> if sp + 4 < en then parse_loop m en (sp + 4) av datalen else Inr (datalen, m))
      | Inr False \<Rightarrow>
          (case demux_store m sp av of
             Inl f \<Rightarrow> Inl f
           | Inr m' \<Rightarrow>
               if sp + 48 < en then parse_loop m' en (sp + 48) (av + 12) (datalen + 48)
               else Inr (datalen + 48, m')))"
  by pat_completeness auto
termination by (relation "measure (\<lambda>(m, en, sp, av, d). en - sp)") auto

declare parse_loop.simps [simp del]

definition parseData_INT32 :: "u8 list \<Rightarrow> int \<Rightarrow> (int \<times> u8 list) res" where
  "parseData_INT32 m len =
     (if len < MINI_SINGLE_SAMPLE_BYTES then Inr (-1, m)
      else let len' = (if len mod MINI_SINGLE_SAMPLE_BYTES \<noteq> 0
                       then len - len mod MINI_SINGLE_SAMPLE_BYTES else len)
           in bindE (parse_loop m (4 * (nat len' div 4)) 0 0 0)
                (\<lambda>(datalen, m'). Inr (int (datalen div 4), m')))"

section \<open>The abstract parser\<close>

definition tagged :: "u32 list \<Rightarrow> bool" where
  "tagged ws \<longleftrightarrow> map (\<lambda>w. w AND 0xf00) (take 12 ws) = channel_tags"

definition silent :: "u32 list \<Rightarrow> bool" where
  "silent ws \<longleftrightarrow> list_all quiet (take 12 ws)"

definition halves :: "u32 \<Rightarrow> u32 \<Rightarrow> u32" where
  "halves a b = (a AND 0xffff0000) OR drop_bit 16 (b AND 0xffff0000)"

definition demux :: "u32 list \<Rightarrow> u32 list" where
  "demux fr = [halves (fr ! 0) (fr ! 1), halves (fr ! 6) (fr ! 7), halves (fr ! 3) (fr ! 9)]"

text \<open>The tagged frames that start within the next \<open>n\<close> words.\<close>

fun frames :: "nat \<Rightarrow> u32 list \<Rightarrow> u32 list list" where
  "frames n ws =
     (if tagged ws then take 12 ws # (if 12 < n then frames (n - 12) (drop 12 ws) else [])
      else if 1 < n then frames (n - 1) (drop 1 ws) else [])"

declare frames.simps [simp del]

fun skip_count :: "nat \<Rightarrow> u32 list \<Rightarrow> nat" where
  "skip_count n ws =
     (if \<not> tagged ws then (if 1 < n then 1 + skip_count (n - 1) (drop 1 ws) else 1)
      else if silent ws then (if 12 < n then 12 + skip_count (n - 12) (drop 12 ws) else 12)
      else 0)"

declare skip_count.simps [simp del]

lemma tagged_head: "tagged ws \<Longrightarrow> ws ! 0 \<noteq> 0"
  by (cases ws) (auto simp: tagged_def channel_tags_def)

lemma chk_tags_words:
  "i + length ts \<le> length m div 4 \<Longrightarrow>
    chk_tags ts m (4 * i) = Inr (map (\<lambda>w. w AND 0xf00) (take (length ts) (drop i (words m))) \<noteq> ts)"
proof (induction ts arbitrary: i)
  case (Cons t ts)
  then have i: "i < length (words m)" by simp
  then have d: "drop i (words m) = words m ! i # drop (Suc i) (words m)"
    by (rule Cons_nth_drop_Suc [symmetric])
  have "chk_tags ts m (4 * i + 4) = chk_tags ts m (4 * Suc i)" by (simp add: add.commute)
  then show ?case using Cons.IH [of "Suc i"] Cons.prems i by (auto simp: mem_simps d)
qed simp

lemma chk_quiet_words:
  "i + k \<le> length m div 4 \<Longrightarrow>
    chk_quiet k m (4 * i) = Inr (list_all quiet (take k (drop i (words m))))"
proof (induction k arbitrary: i)
  case (Suc k)
  then have i: "i < length (words m)" by simp
  then have d: "drop i (words m) = words m ! i # drop (Suc i) (words m)"
    by (rule Cons_nth_drop_Suc [symmetric])
  have "chk_quiet k m (4 * i + 4) = chk_quiet k m (4 * Suc i)" by (simp add: add.commute)
  then show ?case using Suc.IH [of "Suc i"] Suc.prems i by (auto simp: mem_simps d)
qed simp

lemma checks_words:
  assumes "i + 12 \<le> length m div 4"
  shows "CHECKERROR_INT32_LE m (4 * i) = Inr (\<not> tagged (drop i (words m)))"
    and "CHECKDATA_INT32 m (4 * i) = Inr (silent (drop i (words m)))"
    and "dumpdata_12 m (4 * i) = Inr ()"
proof -
  have "length channel_tags = 12" by (simp add: channel_tags_def)
  then show "CHECKERROR_INT32_LE m (4 * i) = Inr (\<not> tagged (drop i (words m)))"
    using chk_tags_words [of i channel_tags m] assms
    by (simp add: CHECKERROR_INT32_LE_def tagged_def)
  show "CHECKDATA_INT32 m (4 * i) = Inr (silent (drop i (words m)))"
    using chk_quiet_words [of i 12 m] assms by (simp add: CHECKDATA_INT32_def silent_def)
  show "dumpdata_12 m (4 * i) = Inr ()" using assms by (simp add: dumpdata_12_def mem_simps)
qed

section \<open>Refinement\<close>

text \<open>
  Reading stays inside the block when eleven more words follow, or when the words to parse are
  whole tagged frames.
\<close>

fun clean :: "nat \<Rightarrow> u32 list \<Rightarrow> bool" where
  "clean n ws \<longleftrightarrow> (if n = 0 then True
     else if 12 \<le> n \<and> 12 \<le> length ws \<and> tagged ws then clean (n - 12) (drop 12 ws) else False)"

declare clean.simps [simp del]

definition fits :: "nat \<Rightarrow> u32 list \<Rightarrow> bool" where
  "fits n ws \<longleftrightarrow> n + 11 \<le> length ws \<or> clean n ws"

lemma fits_room: "0 < n \<Longrightarrow> fits n ws \<Longrightarrow> 12 \<le> length ws"
  using clean.simps [of n ws] by (auto simp: fits_def split: if_splits)

lemma fits_word: "0 < n \<Longrightarrow> fits n ws \<Longrightarrow> \<not> tagged ws \<Longrightarrow> fits (n - 1) (drop 1 ws)"
  using clean.simps [of n ws] by (auto simp: fits_def split: if_splits)

lemma fits_frame: "12 < n \<Longrightarrow> fits n ws \<Longrightarrow> fits (n - 12) (drop 12 ws)"
  using clean.simps [of n ws] by (auto simp: fits_def split: if_splits)

lemma skip_step_words:
  assumes "i + 12 \<le> length m div 4"
  shows "skip_step m (4 * i) = Inr
    (if \<not> tagged (drop i (words m)) then Skip_word
     else if silent (drop i (words m)) then Skip_frame else Stop)"
  using assms tagged_head [of "drop i (words m)"] by (simp add: skip_step_def checks_words mem_simps)

lemma skip_loop_words:
  assumes "i < n" and "fits (n - i) (drop i (words m))"
  shows "skip_loop m (4 * n) (4 * i) = Inr (4 * (i + skip_count (n - i) (drop i (words m))))"
  using assms
proof (induction "n - i" arbitrary: i rule: less_induct)
  case less
  have room: "i + 12 \<le> length m div 4"
    using fits_room [OF _ less.prems(2)] less.prems(1) by simp
  have step: "skip_step m (4 * i) = Inr
    (if \<not> tagged (drop i (words m)) then Skip_word
     else if silent (drop i (words m)) then Skip_frame else Stop)"
    by (rule skip_step_words [OF room])
  have 1: "skip_loop m (4 * n) (4 * i + 4)
      = Inr (4 * (i + (1 + skip_count (n - i - 1) (drop 1 (drop i (words m))))))" if "i + 1 < n" and "\<not> tagged (drop i (words m))"
    using less.hyps [of "i + 1"] less.prems that fits_word [OF _ less.prems(2)] by (simp add: distrib_left add.commute)
  have 12: "skip_loop m (4 * n) (4 * i + 48)
      = Inr (4 * (i + (12 + skip_count (n - i - 12) (drop 12 (drop i (words m))))))" if "i + 12 < n"
    using less.hyps [of "i + 12"] less.prems that fits_frame [OF _ less.prems(2)] by (simp add: distrib_left add.commute)
  have bounds: "4 * i + 4 < 4 * n \<longleftrightarrow> i + 1 < n" "1 < n - i \<longleftrightarrow> i + 1 < n"
    "4 * i + 48 < 4 * n \<longleftrightarrow> i + 12 < n" "12 < n - i \<longleftrightarrow> i + 12 < n" by auto
  show ?case
    unfolding skip_loop.simps [of m "4 * n" "4 * i"] skip_count.simps [of "n - i"] step bounds
    using 1 12 by simp
qed

section \<open>The packing loop\<close>

lemma pack_halves_words:
  assumes "d < length m div 4" and "i < length m div 4" and "j < length m div 4"
  shows "\<exists>m'. pack_halves m (4 * d) (4 * i) (4 * j) = Inr m' \<and> length m' = length m
    \<and> words m' = (words m)[d := halves (words m ! i) (words m ! j)]"
  using assms st32_words [of d m "halves (words m ! i) (words m ! j)"]
  by (auto simp: pack_halves_def mem_simps halves_def)

lemma demux_store_words:
  assumes "a \<le> i" and "i + 12 \<le> length m div 4"
  shows "\<exists>m'. demux_store m (4 * i) (4 * a) = Inr m' \<and> length m' = length m
    \<and> words m' = overwrite (words m) a (demux (take 12 (drop i (words m))))"
proof -
  let ?w = "words m"
  obtain m1 where 1: "pack_halves m (4 * a) (4 * i) (4 * i + 4) = Inr m1" "length m1 = length m"
    "words m1 = ?w[a := halves (?w ! i) (?w ! (i + 1))]"
    using pack_halves_words [of a m i "i + 1"] assms by (auto simp: distrib_left add.commute)
  obtain m2 where 2: "pack_halves m1 (4 * a + 4) (4 * i + 24) (4 * i + 28) = Inr m2" "length m2 = length m"
    "words m2 = (words m1)[a + 1 := halves (words m1 ! (i + 6)) (words m1 ! (i + 7))]"
    using pack_halves_words [of "a + 1" m1 "i + 6" "i + 7"] assms 1(2) by (auto simp: distrib_left add.commute)
  obtain m3 where 3: "pack_halves m2 (4 * a + 8) (4 * i + 12) (4 * i + 36) = Inr m3" "length m3 = length m"
    "words m3 = (words m2)[a + 2 := halves (words m2 ! (i + 3)) (words m2 ! (i + 9))]"
    using pack_halves_words [of "a + 2" m2 "i + 3" "i + 9"] assms 2(2) by (auto simp: distrib_left add.commute)
  have eq: "words m3 = overwrite ?w a (demux (take 12 (drop i ?w)))"
  proof (rule nth_equalityI)
    show "length (words m3) = length (overwrite ?w a (demux (take 12 (drop i ?w))))"
      using assms 3(2) by (simp add: demux_def)
    fix k assume "k < length (words m3)"
    then have k: "k < length ?w" using 3(2) by simp
    have "(words m3) ! k = (if k = a + 2 then halves (?w ! (i + 3)) (?w ! (i + 9))
        else if k = a + 1 then halves (?w ! (i + 6)) (?w ! (i + 7))
        else if k = a then halves (?w ! i) (?w ! (i + 1)) else ?w ! k)"
      using assms k unfolding 3(3) 2(3) 1(3) by (simp add: nth_list_update)
    moreover have "k \<noteq> a \<Longrightarrow> k \<noteq> a + 1 \<Longrightarrow> k \<noteq> a + 2 \<Longrightarrow> \<not> (a \<le> k \<and> k < a + 3)" by auto
    ultimately show "(words m3) ! k = overwrite ?w a (demux (take 12 (drop i ?w))) ! k"
      using assms k by (auto simp: nth_overwrite demux_def)
  qed
  with 1 2 3 show ?thesis by (auto simp: demux_store_def)
qed

lemma length_demux [simp]: "length (demux fr) = 3"
  by (simp add: demux_def)

lemma length_demux_frames [simp]: "length (concat (map demux fs)) = 3 * length fs"
  by (induction fs) simp_all

lemma parse_loop_words:
  assumes "i < n" and "a \<le> i" and "fits (n - i) (drop i (words m))"
  shows "\<exists>m'. parse_loop m (4 * n) (4 * i) (4 * a) d
      = Inr (d + 48 * length (frames (n - i) (drop i (words m))), m') \<and> length m' = length m
    \<and> words m' = overwrite (words m) a (concat (map demux (frames (n - i) (drop i (words m)))))"
  using assms
proof (induction "n - i" arbitrary: i a m d rule: less_induct)
  case less
  let ?w = "drop i (words m)"
  have room: "i + 12 \<le> length m div 4"
    using fits_room [OF _ less.prems(3)] less.prems(1) by simp
  have chk: "CHECKERROR_INT32_LE m (4 * i) = Inr (\<not> tagged ?w)"
    by (rule checks_words [OF room])
  have ld: "ld32 m (4 * i) = Inr (words m ! i)" using room by (simp add: mem_simps)
  have bounds: "4 * i + 4 < 4 * n \<longleftrightarrow> i + 1 < n" "1 < n - i \<longleftrightarrow> i + 1 < n"
    "4 * i + 48 < 4 * n \<longleftrightarrow> i + 12 < n" "12 < n - i \<longleftrightarrow> i + 12 < n" by auto
  show ?case
  proof (cases "tagged ?w")
    case False
    have "\<exists>m'. parse_loop m (4 * n) (4 * i + 4) (4 * a) d
        = Inr (d + 48 * length (frames (n - i - 1) (drop 1 ?w)), m') \<and> length m' = length m
      \<and> words m' = overwrite (words m) a (concat (map demux (frames (n - i - 1) (drop 1 ?w))))"
      if "i + 1 < n"
      using less.hyps [of "i + 1" a m d] less.prems that fits_word [OF _ less.prems(3) False] by (simp add: distrib_left add.commute)
    with False show ?thesis
      unfolding parse_loop.simps [of m "4 * n" "4 * i"] frames.simps [of "n - i"] chk ld bounds
      by simp
  next
    case True
    obtain m1 where m1: "demux_store m (4 * i) (4 * a) = Inr m1" "length m1 = length m"
      "words m1 = overwrite (words m) a (demux (take 12 ?w))"
      using demux_store_words [of a i m] less.prems room by auto
    have keep: "drop (i + 12) (words m1) = drop (i + 12) (words m)"
      unfolding m1(3) using less.prems room by (simp add: drop_overwrite_before)
    have "\<exists>m'. parse_loop m1 (4 * n) (4 * i + 48) (4 * a + 12) (d + 48)
        = Inr (d + 48 + 48 * length (frames (n - i - 12) (drop 12 ?w)), m') \<and> length m' = length m
      \<and> words m' = overwrite (words m) a (demux (take 12 ?w) @ concat (map demux (frames (n - i - 12) (drop 12 ?w))))"
      if "i + 12 < n"
    proof -
      let ?fs = "frames (n - i - 12) (drop 12 ?w)"
      have fs: "frames (n - (i + 12)) (drop (i + 12) (words m1)) = ?fs"
        by (simp add: keep add.commute)
      have "a \<le> length (words m)" using less.prems room by simp
      from overwrite_twice [OF this, of "demux (take 12 ?w)" "concat (map demux ?fs)"]
      have two: "overwrite (words m1) (a + 3) (concat (map demux ?fs))
          = overwrite (words m) a (demux (take 12 ?w) @ concat (map demux ?fs))"
        by (simp add: m1(3))
      show ?thesis
        using less.hyps [of "i + 12" "a + 3" m1 "d + 48"] less.prems that m1(2) fs two
          fits_frame [OF _ less.prems(3)]
        by (simp add: distrib_left add.commute keep)
    qed
    with True show ?thesis
      unfolding parse_loop.simps [of m "4 * n" "4 * i"] frames.simps [of "n - i"] chk bounds
      using m1 by auto
  qed
qed

section \<open>Whole calls\<close>

lemma whole_frames:
  assumes "48 \<le> l"
  shows "(if int l mod MINI_SINGLE_SAMPLE_BYTES \<noteq> 0 then int l - int l mod MINI_SINGLE_SAMPLE_BYTES
      else int l) = int (48 * (l div 48))" and "\<not> int l < MINI_SINGLE_SAMPLE_BYTES"
    and "0 < 12 * (l div 48)" and "nat (48 * int k) = 48 * k"
proof -
  have "int l - int l mod 48 = int (48 * (l div 48))"
    by (simp add: minus_mod_eq_mult_div zdiv_int)
  then show "(if int l mod MINI_SINGLE_SAMPLE_BYTES \<noteq> 0 then int l - int l mod MINI_SINGLE_SAMPLE_BYTES
      else int l) = int (48 * (l div 48))" by (auto simp: MINI_SINGLE_SAMPLE_BYTES_def)
  show "\<not> int l < MINI_SINGLE_SAMPLE_BYTES" using assms by (simp add: MINI_SINGLE_SAMPLE_BYTES_def)
  show "0 < 12 * (l div 48)" using assms by (simp add: div_greater_zero_iff)
  show "nat (48 * int k) = 48 * k" by (simp add: nat_mult_distrib)
qed

lemma skipData_words:
  assumes "48 \<le> l" and "fits (12 * (l div 48)) (words m)"
  shows "skipData m (int l) = Inr (int (4 * skip_count (12 * (l div 48)) (words m)))"
  using skip_loop_words [of 0 "12 * (l div 48)" m] assms whole_frames [OF assms(1)]
  by (simp add: skipData_def Let_def)

lemma parseData_words:
  assumes "48 \<le> l" and "fits (12 * (l div 48)) (words m)"
  defines "fs \<equiv> frames (12 * (l div 48)) (words m)"
  shows "\<exists>m'. parseData_INT32 m (int l) = Inr (int (12 * length fs), m') \<and> length m' = length m
    \<and> words m' = overwrite (words m) 0 (concat (map demux fs))"
proof -
  obtain m' where "parse_loop m (4 * (12 * (l div 48))) (4 * 0) (4 * 0) 0
      = Inr (0 + 48 * length (frames (12 * (l div 48) - 0) (drop 0 (words m))), m')" "length m' = length m"
    "words m' = overwrite (words m) 0 (concat (map demux (frames (12 * (l div 48) - 0) (drop 0 (words m)))))"
    using parse_loop_words [of 0 "12 * (l div 48)" 0 m 0] assms(2) whole_frames(3) [OF assms(1)] by auto
  then show ?thesis
    using whole_frames [OF assms(1)] by (simp add: parseData_INT32_def Let_def fs_def)
qed

section \<open>What the abstract parsers deliver\<close>

lemma silent_take [simp]: "silent (take 12 ws) = silent ws"
  by (simp add: silent_def)

lemma tagged_take [simp]: "tagged (take 12 ws) = tagged ws"
  by (simp add: tagged_def)

lemma skip_count_live:
  "0 < n \<Longrightarrow> skip_count n ws < n \<Longrightarrow>
    tagged (drop (skip_count n ws) ws) \<and> \<not> silent (drop (skip_count n ws) ws)"
proof (induction n ws rule: skip_count.induct)
  case (1 n ws)
  then show ?case
    using skip_count.simps [of n ws] by (auto simp: add.commute split: if_splits)
qed

lemma skip_count_silent:
  "0 < n \<Longrightarrow> 0 < skip_count n ws \<Longrightarrow> \<forall>fr \<in> set (frames (skip_count n ws) ws). silent fr"
proof (induction n ws rule: skip_count.induct)
  case (1 n ws)
  let ?k = "skip_count n ws"
  show ?case
  proof (cases "tagged ws")
    case False
    then have k: "?k = (if 1 < n then 1 + skip_count (n - 1) (drop 1 ws) else 1)"
      by (subst skip_count.simps) simp
    then show ?thesis
      using 1 False frames.simps [of ?k ws] by (auto split: if_splits)
  next
    case True
    then have k: "?k = (if 12 < n then 12 + skip_count (n - 12) (drop 12 ws) else 12)" "silent ws"
      using 1(4) skip_count.simps [of n ws] by (auto split: if_splits)
    then show ?thesis
      using 1 True frames.simps [of ?k ws] by (auto split: if_splits)
  qed
qed

lemma frames_head:
  "tagged ws \<Longrightarrow> \<exists>frs. frames n ws = take 12 ws # frs"
  by (subst frames.simps) simp

lemma tagged_append: "length fr = 12 \<Longrightarrow> tagged (fr @ ys) = tagged fr"
  by (simp add: tagged_def)

lemma frames_concat:
  assumes "\<forall>fr \<in> set frs. length fr = 12 \<and> tagged fr" and "frs \<noteq> []"
  shows "frames (12 * length frs) (concat frs @ rest) = frs"
  using assms
proof (induction frs)
  case (Cons fr frs)
  then have fr: "length fr = 12" "tagged (fr @ ys)" for ys by (simp_all add: tagged_append)
  show ?case
  proof (cases "frs = []")
    case True
    with fr show ?thesis by (subst frames.simps) simp
  next
    case False
    then have "frames (12 * length frs) (concat frs @ rest) = frs" using Cons by simp
    with fr False show ?thesis by (subst frames.simps) simp
  qed
qed simp

lemma clean_concat:
  assumes "\<forall>fr \<in> set frs. length fr = 12 \<and> tagged fr"
  shows "clean (12 * length frs) (concat frs @ rest)"
  using assms
proof (induction frs)
  case Nil
  then show ?case by (subst clean.simps) simp
next
  case (Cons fr frs)
  then have "length fr = 12" "tagged (fr @ ys)" for ys by (simp_all add: tagged_append)
  with Cons show ?case by (subst clean.simps) simp
qed

definition sample :: "u32 \<Rightarrow> u8 list" where
  "sample w = drop 2 (bytes_le32 w)"

lemma high_mask: "(0xffff0000 :: u32) = push_bit 16 (mask 16)"
  by code_simp

lemma drop_bit_mask_high: "drop_bit 16 (b AND 0xffff0000) = drop_bit 16 (b :: u32)"
  unfolding high_mask by (rule bit_word_eqI) (auto simp: bit_simps dest: bit_imp_le_length)

lemma bytes_halves: "bytes_le32 (halves a b) = sample b @ sample a"
  unfolding halves_def drop_bit_mask_high sample_def bytes_le32_def high_mask
  by (simp, intro conjI bit_word_eqI)
    (auto simp: bit_simps dest: bit_imp_le_length)

lemma fits_margin: "l + 44 \<le> length m \<Longrightarrow> fits (12 * (l div 48)) (words m)"
proof -
  assume "l + 44 \<le> length m"
  moreover have "4 * (12 * (l div 48) + 11) \<le> l + 44" by simp
  ultimately have "4 * (12 * (l div 48) + 11) \<le> length m" by linarith
  then show ?thesis by (simp add: fits_def less_eq_div_iff_mult_less_eq)
qed

lemma overwrite_prefix:
  assumes "length xs \<le> length ws"
  shows "take (length xs) (overwrite ws 0 xs) = xs \<and> drop (length xs) (overwrite ws 0 xs) = drop (length xs) ws"
  using assms by (simp add: overwrite_def)

lemma frames_length: "12 * length (frames n ws) \<le> n + 11 + (if n = 0 then 1 else 0)"
proof (induction n ws rule: frames.induct)
  case (1 n ws)
  then show ?case
    by (subst frames.simps) (auto split: if_splits)
qed

section \<open>Properties\<close>

definition demo_frame :: "u32 \<Rightarrow> u32 list" where
  "demo_frame v = map (\<lambda>k. push_bit 16 (v + k) OR push_bit 8 k) [1, 2, 3, 4, 5, 6, 7, 8, 9, 10, 11, 12]"

lemma demo_frame_ok: "length (demo_frame 0x40) = 12" "tagged (demo_frame 0x40)" "\<not> silent (demo_frame 0x40)"
  by code_simp+

text \<open>
  C21: packing in place implements the abstract parser: with a frame's worth of room behind the
  data, \<^verbatim>\<open>parseData_INT32\<close> returns twelve bytes per tagged frame found, the front of the block holds
  the packed words of these frames as they were before the call, and the words behind are unchanged.
\<close>

theorem parseData_INT32_packs:
  assumes "48 \<le> l" and "l + 44 \<le> length m"
  shows "\<exists>m'. parseData_INT32 m (int l) = Inr (int (12 * length (frames (12 * (l div 48)) (words m))), m')
    \<and> length m' = length m
    \<and> words m' = overwrite (words m) 0 (concat (map demux (frames (12 * (l div 48)) (words m))))"
  by (rule parseData_words [OF assms(1) fits_margin [OF assms(2)]])

definition demo_block :: "u8 list" where
  "demo_block = concat (map bytes_le32 (0 # demo_frame 0x40 @ replicate 11 0))"

theorem parseData_INT32_packs_witness:
  "\<exists>m'. parseData_INT32 demo_block (int 50) = Inr (12, m') \<and> length m' = 96
    \<and> take 3 (words m') = demux (demo_frame 0x40)"
proof -
  have len: "48 \<le> (50 :: nat)" "50 + 44 \<le> length demo_block" by (simp, code_simp)
  have "frames (12 * (50 div 48)) (words demo_block) = [demo_frame 0x40]" "length demo_block = 96" by code_simp+
  with parseData_INT32_packs [OF len] overwrite_prefix [of "demux (demo_frame 0x40)" "words demo_block"]
  show ?thesis by auto
qed

lemma stream_bytes:
  assumes "\<forall>fr \<in> set frs. length fr = 12"
  shows "concat (map bytes_le32 (concat (map demux frs)))
    = concat (map (\<lambda>fr. concat (map (\<lambda>c. sample (fr ! (c - 1))) [2, 1, 8, 7, 10, 4])) frs)"
  using assms by (induction frs) (simp_all add: demux_def bytes_halves)

lemma parse_stream:
  assumes "\<forall>fr \<in> set frs. length fr = 12 \<and> tagged fr" and "frs \<noteq> []"
    and "words m = concat frs @ rest"
  shows "\<exists>m'. parseData_INT32 m (int (48 * length frs)) = Inr (int (12 * length frs), m')
    \<and> length m' = length m \<and> words m' = overwrite (words m) 0 (concat (map demux frs))
    \<and> take (12 * length frs) m'
      = concat (map (\<lambda>fr. concat (map (\<lambda>c. sample (fr ! (c - 1))) [2, 1, 8, 7, 10, 4])) frs)"
proof -
  have l: "48 \<le> 48 * length frs" using assms(2) by (cases frs) simp_all
  have fits: "fits (12 * (48 * length frs div 48)) (words m)"
    using clean_concat [OF assms(1), of rest] by (simp add: fits_def assms(3))
  have fs: "frames (12 * (48 * length frs div 48)) (words m) = frs"
    using frames_concat [OF assms(1,2), of rest] by (simp add: assms(3))
  obtain m' where m': "parseData_INT32 m (int (48 * length frs)) = Inr (int (12 * length frs), m')"
    "length m' = length m" "words m' = overwrite (words m) 0 (concat (map demux frs))"
    using parseData_words [OF l fits] unfolding fs by blast
  have "length (concat frs) = 12 * length frs"
    using assms(1) by (induction frs) auto
  then have "length (concat (map demux frs)) \<le> length (words m)" by (simp add: assms(3))
  then have pre: "take (3 * length frs) (words m') = concat (map demux frs)"
    using overwrite_prefix [of "concat (map demux frs)" "words m"] by (simp add: m'(3))
  have "3 * length frs \<le> length m' div 4"
    using \<open>length (concat (map demux frs)) \<le> length (words m)\<close> m'(2) by simp
  from take_words [OF this] have "take (12 * length frs) m' = concat (map bytes_le32 (concat (map demux frs)))"
    by (simp add: pre)
  then show ?thesis using m' stream_bytes [of frs] assms(1) by auto
qed

text \<open>
  C23: on a stream of whole tagged frames the call returns twelve bytes per frame and the output is,
  frame by frame, the 16-bit samples of channels 2, 1, 8, 7, 10 and 4 in this order: on the
  little-endian target each pair comes out swapped with respect to the documented channel order.
\<close>

theorem parseData_INT32_channels:
  assumes "\<forall>fr \<in> set frs. length fr = 12 \<and> tagged fr" and "frs \<noteq> []"
    and "words m = concat frs @ rest"
  shows "\<exists>m'. parseData_INT32 m (int (48 * length frs)) = Inr (int (12 * length frs), m')
    \<and> take (12 * length frs) m'
      = concat (map (\<lambda>fr. concat (map (\<lambda>c. sample (fr ! (c - 1))) [2, 1, 8, 7, 10, 4])) frs)"
  using parse_stream [OF assms] by blast

theorem parseData_INT32_channels_witness:
  "\<exists>m'. parseData_INT32 (concat (map bytes_le32 (demo_frame 0x40))) 48 = Inr (12, m')
    \<and> take 12 m' = [0x42, 0, 0x41, 0, 0x48, 0, 0x47, 0, 0x4a, 0, 0x44, 0]"
proof -
  have "\<forall>fr \<in> set [demo_frame 0x40]. length fr = 12 \<and> tagged fr" using demo_frame_ok by simp
  moreover have "words (concat (map bytes_le32 (demo_frame 0x40))) = concat [demo_frame 0x40] @ []"
    by (simp add: words_bytes)
  ultimately have "\<exists>m'. parseData_INT32 (concat (map bytes_le32 (demo_frame 0x40))) (int (48 * length [demo_frame 0x40]))
      = Inr (int (12 * length [demo_frame 0x40]), m') \<and> take (12 * length [demo_frame 0x40]) m'
      = concat (map (\<lambda>fr. concat (map (\<lambda>c. sample (fr ! (c - 1))) [2, 1, 8, 7, 10, 4])) [demo_frame 0x40])"
    by (intro parseData_INT32_channels) simp_all
  moreover have "concat (map (\<lambda>fr. concat (map (\<lambda>c. sample (fr ! (c - 1))) [2, 1, 8, 7, 10, 4])) [demo_frame 0x40])
      = [0x42, 0, 0x41, 0, 0x48, 0, 0x47, 0, 0x4a, 0, 0x44, 0]" by code_simp
  ultimately show ?thesis by simp
qed

text \<open>
  C28: \<^verbatim>\<open>skipData\<close> returns a multiple of four; if it stops before the end of the data, it stops at a
  tagged frame that is not silent, so that parsing from there delivers this frame first; and every
  frame the parser would have found in the part skipped is silent.
\<close>

theorem skipData_finds_sound:
  assumes "48 \<le> l" and "l + 44 \<le> length m"
  shows "\<exists>k. skipData m (int l) = Inr (int (4 * k))
    \<and> (k < 12 * (l div 48) \<longrightarrow> \<not> silent (drop k (words m))
        \<and> (\<exists>frs. frames (12 * (l div 48) - k) (drop k (words m)) = take 12 (drop k (words m)) # frs))
    \<and> (0 < k \<longrightarrow> (\<forall>fr \<in> set (frames k (words m)). silent fr))"
proof -
  let ?n = "12 * (l div 48)" and ?k = "skip_count (12 * (l div 48)) (words m)"
  have n: "0 < ?n" using whole_frames(3) [OF assms(1)] .
  have "skipData m (int l) = Inr (int (4 * ?k))"
    by (rule skipData_words [OF assms(1) fits_margin [OF assms(2)]])
  then show ?thesis
    using skip_count_live [OF n, of "words m"] skip_count_silent [OF n, of "words m"]
      frames_head [of "drop ?k (words m)" "?n - ?k"]
    by (intro exI [of _ ?k]) simp
qed

theorem skipData_finds_sound_witness:
  "\<exists>k. skipData demo_block (int 50) = Inr (int (4 * k))"
proof -
  have "48 \<le> (50 :: nat)" "50 + 44 \<le> length demo_block" by (simp, code_simp)
  from skipData_finds_sound [OF this] show ?thesis by blast
qed

lemma skip_loop_overread:
  assumes "length m = 4 * n" and "12 \<le> n" and "\<forall>w \<in> set (words m). w \<noteq> 0 \<and> w AND 0xf00 \<noteq> 0x100"
    and "i < n"
  shows "skip_loop m (4 * n) (4 * i) = Inl OutOfBounds"
  using assms(4)
proof (induction "n - i" arbitrary: i rule: less_induct)
  case less
  have "words m ! i \<in> set (words m)" using less.prems assms(1) by (intro nth_mem) simp
  then have w: "ld32 m (4 * i) = Inr (words m ! i)" "words m ! i \<noteq> 0" "words m ! i AND 0xf00 \<noteq> 0x100"
    using assms(1,3) less.prems by (auto simp: mem_simps)
  then have e: "CHECKERROR_INT32_LE m (4 * i) = Inr True"
    by (simp add: CHECKERROR_INT32_LE_def channel_tags_def)
  show ?case
  proof (cases "i + 12 \<le> n")
    case True
    then have "skip_step m (4 * i) = Inr Skip_word"
      using w e assms(1) by (simp add: skip_step_def dumpdata_12_def mem_simps)
    moreover have "skip_loop m (4 * n) (4 * i + 4) = Inl OutOfBounds"
      using less.hyps [of "i + 1"] True by (simp add: distrib_left add.commute)
    ultimately show ?thesis using True by (subst skip_loop.simps) simp
  next
    case False
    then have "skip_step m (4 * i) = Inl OutOfBounds"
      using w e assms(1) by (simp add: skip_step_def dumpdata_12_def slice_def)
    then show ?thesis by (subst skip_loop.simps) simp
  qed
qed

text \<open>
  on a block that holds nothing but data without a frame the diagnostics of \<^verbatim>\<open>skipData\<close> read past
  its end: a full buffer of words that are neither zero nor tagged is a fault.
\<close>

theorem skipData_overreads:
  assumes "length m = 48 * k" and "0 < k" and "\<forall>w \<in> set (words m). w \<noteq> 0 \<and> w AND 0xf00 \<noteq> 0x100"
  shows "skipData m (int (48 * k)) = Inl OutOfBounds"
proof -
  have l: "48 \<le> 48 * k" using assms(2) by simp
  have "skip_loop m (4 * (12 * k)) (4 * 0) = Inl OutOfBounds"
    by (rule skip_loop_overread) (use assms in auto)
  then show ?thesis
    using l by (simp add: skipData_def Let_def MINI_SINGLE_SAMPLE_BYTES_def whole_frames(4) [OF l])
qed

theorem skipData_overreads_witness:
  "skipData (concat (map bytes_le32 (replicate 12 5))) 48 = Inl OutOfBounds"
proof -
  have "words (concat (map bytes_le32 (replicate 12 (5 :: u32)))) = replicate 12 5" by (rule words_bytes)
  moreover have "length (concat (map bytes_le32 (replicate 12 (5 :: u32)))) = 48 * 1" by code_simp
  ultimately have "skipData (concat (map bytes_le32 (replicate 12 5))) (int (48 * 1)) = Inl OutOfBounds"
    by (intro skipData_overreads) simp_all
  then show ?thesis by simp
qed

end
