(* ===== verification/Pcm.thy ===== *)
theory Pcm
  imports PcmParams
begin

text \<open>
  PCM streams (speech/src/pcm.c): the stream object, opening and closing, and the transfers by
  read and write. The kernel is a record of functions on its own state \<open>'k\<close>, one per system call
  the file makes; the two shared pages and the mapped buffer belong to that state, since the
  hardware changes them. A result in \<open>res\<close> is a fault of the program; a \<open>None\<close> of a loop is a
  call that does not return.
\<close>

section \<open>Objects shared with the kernel\<close>

record snd_pcm_mmap_status =
  sstate :: int
  hw_ptr :: u64
  tstamp :: "int \<times> int"

record snd_pcm_mmap_control =
  appl_ptr :: u64
  ctl_avail_min :: u64

record snd_pcm_sync_ptr =
  sflags :: u32
  s_status :: snd_pcm_mmap_status
  c_control :: snd_pcm_mmap_control

record snd_pcm_sw_params =
  tstamp_mode :: int
  period_step :: u32
  sw_avail_min :: u64
  xfer_align :: u64
  sw_start_threshold :: u64
  sw_stop_threshold :: u64
  sw_silence_threshold :: u64
  sw_silence_size :: u64
  sw_boundary :: u64

datatype region = Region_data | Region_status | Region_control

record 'k pcm_kernel =
  k_calloc :: "'k \<Rightarrow> bool \<times> 'k"
  k_open :: "string \<Rightarrow> 'k \<Rightarrow> sysret \<times> 'k"
  k_close :: "int \<Rightarrow> 'k \<Rightarrow> sysret \<times> 'k"
  k_info :: "int \<Rightarrow> 'k \<Rightarrow> sysret \<times> 'k"
  k_hw_refine :: "int \<Rightarrow> snd_pcm_hw_params \<Rightarrow> 'k \<Rightarrow> sysret \<times> snd_pcm_hw_params \<times> 'k"
  k_hw_params :: "int \<Rightarrow> snd_pcm_hw_params \<Rightarrow> 'k \<Rightarrow> sysret \<times> snd_pcm_hw_params \<times> 'k"
  k_sw_params :: "int \<Rightarrow> snd_pcm_sw_params \<Rightarrow> 'k \<Rightarrow> sysret \<times> 'k"
  k_ttstamp :: "int \<Rightarrow> int \<Rightarrow> 'k \<Rightarrow> sysret \<times> 'k"
  k_mmap :: "int \<Rightarrow> region \<Rightarrow> u32 \<Rightarrow> 'k \<Rightarrow> sysret \<times> 'k"
  k_munmap :: "region \<Rightarrow> u32 \<Rightarrow> 'k \<Rightarrow> sysret \<times> 'k"
  k_prepare :: "int \<Rightarrow> 'k \<Rightarrow> sysret \<times> 'k"
  k_start :: "int \<Rightarrow> 'k \<Rightarrow> sysret \<times> 'k"
  k_drop :: "int \<Rightarrow> 'k \<Rightarrow> sysret \<times> 'k"
  k_writei :: "int \<Rightarrow> u8 list \<Rightarrow> u64 \<Rightarrow> 'k \<Rightarrow> sysret \<times> 'k"
  k_readi :: "int \<Rightarrow> u8 list \<Rightarrow> u64 \<Rightarrow> 'k \<Rightarrow> sysret \<times> u8 list \<times> 'k"
  k_sync_ptr :: "int \<Rightarrow> snd_pcm_sync_ptr \<Rightarrow> 'k \<Rightarrow> sysret \<times> snd_pcm_sync_ptr \<times> 'k"
  k_poll :: "int \<Rightarrow> int \<Rightarrow> 'k \<Rightarrow> sysret \<times> u16 \<times> 'k"
  k_status :: "'k \<Rightarrow> snd_pcm_mmap_status \<times> 'k"
  k_control :: "'k \<Rightarrow> snd_pcm_mmap_control"
  k_set_control :: "snd_pcm_mmap_control \<Rightarrow> 'k \<Rightarrow> 'k"
  k_buf :: "'k \<Rightarrow> u8 list"
  k_set_buf :: "u8 list \<Rightarrow> 'k \<Rightarrow> 'k"
  k_page_size :: u32
  k_strerror :: "int \<Rightarrow> string"

text \<open>One system call from the caller's world: its result as an int, and \<^verbatim>\<open>errno\<close> on failure.\<close>

definition sys :: "sysret \<times> 'k \<Rightarrow> 'k world \<Rightarrow> int \<times> 'k world" where
  "sys rk w = (ret_of (fst rk), w\<lparr>kst := snd rk, errno := errno_after (errno w) (fst rk)\<rparr>)"

section \<open>The stream\<close>

record pcm_config =
  channels :: u32
  rate :: u32
  period_size :: u32
  period_count :: u32
  format :: pcm_format
  start_threshold :: u32
  stop_threshold :: u32
  silence_threshold :: u32
  silence_size :: u32
  avail_min :: int

datatype page_ptr = Null_page | Mapped_page | In_sync_ptr
datatype buf_ptr = Null_buf | Mapped_buf | Map_failed

record pcm =
  fd :: int
  flags :: u32
  running :: bool
  prepared :: bool
  underruns :: int
  buffer_size :: u32
  boundary :: u32
  error :: string
  config :: pcm_config
  mmap_status :: page_ptr
  mmap_control :: page_ptr
  sync_ptr :: "snd_pcm_sync_ptr option"
  mmap_buffer :: buf_ptr
  noirq_frames_per_msec :: u32
  wait_for_avail_min :: bool

definition PCM_IN :: u32 where "PCM_IN = 0x10000000"
definition PCM_OUT :: u32 where "PCM_OUT = 0x00000000"
definition PCM_MMAP :: u32 where "PCM_MMAP = 0x00000001"
definition PCM_NOIRQ :: u32 where "PCM_NOIRQ = 0x00000002"
definition PCM_NORESTART :: u32 where "PCM_NORESTART = 0x00000004"
definition PCM_MONOTONIC :: u32 where "PCM_MONOTONIC = 0x00000008"

lemmas pcm_flag_defs = PCM_IN_def PCM_OUT_def PCM_MMAP_def PCM_NOIRQ_def PCM_NORESTART_def PCM_MONOTONIC_def

definition has :: "u32 \<Rightarrow> u32 \<Rightarrow> bool" where
  "has fl bits \<longleftrightarrow> fl AND bits \<noteq> 0"

definition PCM_ERROR_MAX :: nat where "PCM_ERROR_MAX = 128"

text \<open>The message, cut to the array, and the text of the error number while \<^verbatim>\<open>errno\<close> is set.\<close>

definition pcm_fail :: "'k pcm_kernel \<Rightarrow> 'k world \<Rightarrow> int \<Rightarrow> string \<Rightarrow> pcm \<Rightarrow> pcm" where
  "pcm_fail K w e msg p =
     (let m = take (PCM_ERROR_MAX - 1) msg; sz = length m
      in p\<lparr>error := if errno w \<noteq> 0 then m @ take (PCM_ERROR_MAX - sz - 1) ('': '' @ k_strerror K e) else m\<rparr>)"

definition pcm_get_buffer_size :: "pcm \<Rightarrow> u32" where
  "pcm_get_buffer_size p = buffer_size p"

definition pcm_get_error :: "pcm \<Rightarrow> string" where
  "pcm_get_error p = error p"

definition pcm_is_ready :: "pcm \<Rightarrow> bool" where
  "pcm_is_ready p \<longleftrightarrow> 0 \<le> fd p"

definition pcm_get_poll_fd :: "pcm \<Rightarrow> int" where
  "pcm_get_poll_fd p = fd p"

text \<open>Frames and bytes, in 32-bit arithmetic; a division by zero is a fault.\<close>

definition pcm_bytes_to_frames :: "pcm \<Rightarrow> u32 \<Rightarrow> u32 res" where
  "pcm_bytes_to_frames p bytes =
     (let d = channels (config p) * drop_bit 3 (pcm_format_to_bits (format (config p)))
      in if d = 0 then Inl DivByZero else Inr (bytes div d))"

definition pcm_frames_to_bytes :: "pcm \<Rightarrow> u32 \<Rightarrow> u32" where
  "pcm_frames_to_bytes p frames =
     frames * channels (config p) * drop_bit 3 (pcm_format_to_bits (format (config p)))"

definition xfer_frames :: "pcm \<Rightarrow> u32 \<Rightarrow> u64 res" where
  "xfer_frames p count =
     (let d = channels (config p) * pcm_format_to_bits (format (config p)) div 8
      in if d = 0 then Inl DivByZero else Inr (ucast (count div d)))"

section \<open>The shared pages\<close>

definition pcm_sync_ptr :: "'k pcm_kernel \<Rightarrow> u32 \<Rightarrow> pcm \<Rightarrow> 'k world \<Rightarrow> int \<times> pcm \<times> 'k world" where
  "pcm_sync_ptr K fl p w =
     (case sync_ptr p of
        None \<Rightarrow> (0, p, w)
      | Some sp \<Rightarrow>
          (let (r, sp', k') = k_sync_ptr K (fd p) (sp\<lparr>sflags := fl\<rparr>) (kst w);
               (ret, w') = sys (r, k') w
           in (if ret < 0 then -1 else 0, p\<lparr>sync_ptr := Some sp'\<rparr>, w')))"

text \<open>A load of the status page and a load and a store of the control page, wherever they live.\<close>

definition load_status :: "'k pcm_kernel \<Rightarrow> pcm \<Rightarrow> 'k world \<Rightarrow> (snd_pcm_mmap_status \<times> 'k world) res" where
  "load_status K p w =
     (case mmap_status p of
        Null_page \<Rightarrow> Inl NullDeref
      | Mapped_page \<Rightarrow> (let (s, k') = k_status K (kst w) in Inr (s, w\<lparr>kst := k'\<rparr>))
      | In_sync_ptr \<Rightarrow> (case sync_ptr p of None \<Rightarrow> Inl NullDeref | Some sp \<Rightarrow> Inr (s_status sp, w)))"

definition load_control :: "'k pcm_kernel \<Rightarrow> pcm \<Rightarrow> 'k world \<Rightarrow> snd_pcm_mmap_control res" where
  "load_control K p w =
     (case mmap_control p of
        Null_page \<Rightarrow> Inl NullDeref
      | Mapped_page \<Rightarrow> Inr (k_control K (kst w))
      | In_sync_ptr \<Rightarrow> (case sync_ptr p of None \<Rightarrow> Inl NullDeref | Some sp \<Rightarrow> Inr (c_control sp)))"

definition store_control ::
    "'k pcm_kernel \<Rightarrow> snd_pcm_mmap_control \<Rightarrow> pcm \<Rightarrow> 'k world \<Rightarrow> (pcm \<times> 'k world) res" where
  "store_control K c p w =
     (case mmap_control p of
        Null_page \<Rightarrow> Inl NullDeref
      | Mapped_page \<Rightarrow> Inr (p, w\<lparr>kst := k_set_control K c (kst w)\<rparr>)
      | In_sync_ptr \<Rightarrow>
          (case sync_ptr p of
             None \<Rightarrow> Inl NullDeref
           | Some sp \<Rightarrow> Inr (p\<lparr>sync_ptr := Some (sp\<lparr>c_control := c\<rparr>)\<rparr>, w)))"

definition zero_sync_ptr :: snd_pcm_sync_ptr where
  "zero_sync_ptr = \<lparr>sflags = 0, s_status = \<lparr>sstate = 0, hw_ptr = 0, tstamp = (0, 0)\<rparr>,
     c_control = \<lparr>appl_ptr = 0, ctl_avail_min = 0\<rparr>\<rparr>"

definition set_avail_min_field :: "pcm \<Rightarrow> snd_pcm_mmap_control \<Rightarrow> snd_pcm_mmap_control" where
  "set_avail_min_field p c =
     c\<lparr>ctl_avail_min := (if has (flags p) PCM_MMAP then of_int (avail_min (config p)) else 1)\<rparr>"

text \<open>The label \<^verbatim>\<open>mmap_error\<close>: both pages inside a \<^verbatim>\<open>sync_ptr\<close> object of the caller's own.\<close>

definition mmap_fallback :: "'k pcm_kernel \<Rightarrow> pcm \<Rightarrow> 'k world \<Rightarrow> int \<times> pcm \<times> 'k world" where
  "mmap_fallback K p w =
     (let (ok, k') = k_calloc K (kst w); w' = w\<lparr>kst := k'\<rparr>
      in if \<not> ok then (- ENOMEM, p, w')
         else let sp = zero_sync_ptr\<lparr>c_control := set_avail_min_field p (c_control zero_sync_ptr)\<rparr>;
                  p1 = p\<lparr>sync_ptr := Some sp, mmap_status := In_sync_ptr, mmap_control := In_sync_ptr\<rparr>;
                  (_, p2, w2) = pcm_sync_ptr K 0 p1 w'
              in (0, p2, w2))"

definition pcm_hw_mmap_status :: "'k pcm_kernel \<Rightarrow> pcm \<Rightarrow> 'k world \<Rightarrow> int \<times> pcm \<times> 'k world" where
  "pcm_hw_mmap_status K p w =
     (if sync_ptr p \<noteq> None then (0, p, w)
      else let (r, w1) = sys (k_mmap K (fd p) Region_status (k_page_size K) (kst w)) w
           in if r < 0 then mmap_fallback K (p\<lparr>mmap_status := Null_page\<rparr>) w1
              else let (r2, w2) = sys (k_mmap K (fd p) Region_control (k_page_size K) (kst w1)) w1
                   in if r2 < 0
                      then let (_, w3) = sys (k_munmap K Region_status (k_page_size K) (kst w2)) w2
                           in mmap_fallback K (p\<lparr>mmap_status := Null_page, mmap_control := Null_page\<rparr>) w3
                      else (0, p\<lparr>mmap_status := Mapped_page, mmap_control := Mapped_page\<rparr>,
                            w2\<lparr>kst := k_set_control K (set_avail_min_field p (k_control K (kst w2))) (kst w2)\<rparr>))"

definition pcm_hw_munmap_status :: "'k pcm_kernel \<Rightarrow> pcm \<Rightarrow> 'k world \<Rightarrow> pcm \<times> 'k world" where
  "pcm_hw_munmap_status K p w =
     (if sync_ptr p \<noteq> None
      then (p\<lparr>sync_ptr := None, mmap_status := Null_page, mmap_control := Null_page\<rparr>, w)
      else let w1 = (if mmap_status p \<noteq> Null_page
                     then snd (sys (k_munmap K Region_status (k_page_size K) (kst w)) w) else w);
               w2 = (if mmap_control p \<noteq> Null_page
                     then snd (sys (k_munmap K Region_control (k_page_size K) (kst w1)) w1) else w1)
           in (p\<lparr>mmap_status := Null_page, mmap_control := Null_page\<rparr>, w2))"

section \<open>Prepare, start, stop\<close>

definition pcm_prepare :: "'k pcm_kernel \<Rightarrow> pcm \<Rightarrow> 'k world \<Rightarrow> int \<times> pcm \<times> 'k world" where
  "pcm_prepare K p w =
     (if prepared p then (0, p, w)
      else let (r, w1) = sys (k_prepare K (fd p) (kst w)) w
           in if r < 0 then (-1, pcm_fail K w1 (errno w1) ''cannot prepare channel'' p, w1)
              else (0, p\<lparr>prepared := True\<rparr>, w1))"

definition pcm_start :: "'k pcm_kernel \<Rightarrow> pcm \<Rightarrow> 'k world \<Rightarrow> int \<times> pcm \<times> 'k world" where
  "pcm_start K p w =
     (let (prepare_error, p1, w1) = pcm_prepare K p w
      in if prepare_error \<noteq> 0 then (prepare_error, p1, w1)
         else let (_, p2, w2) = (if has (flags p1) PCM_MMAP then pcm_sync_ptr K 0 p1 w1 else (0, p1, w1));
                  (r, w3) = sys (k_start K (fd p2) (kst w2)) w2
              in if r < 0 then (-1, pcm_fail K w3 (errno w3) ''cannot start channel'' p2, w3)
                 else (0, p2\<lparr>running := True\<rparr>, w3))"

definition pcm_stop :: "'k pcm_kernel \<Rightarrow> pcm \<Rightarrow> 'k world \<Rightarrow> int \<times> pcm \<times> 'k world" where
  "pcm_stop K p w =
     (let (r, w1) = sys (k_drop K (fd p) (kst w)) w
      in if r < 0 then (-1, pcm_fail K w1 (errno w1) ''cannot stop channel'' p, w1)
         else (0, p\<lparr>prepared := False, running := False\<rparr>, w1))"

section \<open>Writing\<close>

text \<open>The loop of \<^verbatim>\<open>pcm_write\<close>: a round that continues has cleared \<^verbatim>\<open>running\<close>, so there are at most two.\<close>

function pcm_write_loop ::
    "'k pcm_kernel \<Rightarrow> u8 list \<Rightarrow> u64 \<Rightarrow> pcm \<Rightarrow> 'k world \<Rightarrow> int \<times> pcm \<times> 'k world" where
  "pcm_write_loop K buf frames p w =
     (if \<not> running p
      then let (prepare_error, p1, w1) = pcm_prepare K p w
           in if prepare_error \<noteq> 0 then (prepare_error, p1, w1)
              else let (r, w2) = sys (k_writei K (fd p1) buf frames (kst w1)) w1
                   in if r \<noteq> 0 then (-1, pcm_fail K w2 (errno w2) ''cannot write initial data'' p1, w2)
                      else (0, p1\<lparr>running := True\<rparr>, w2)
      else let (r, w1) = sys (k_writei K (fd p) buf frames (kst w)) w
           in if r \<noteq> 0
              then let p1 = p\<lparr>prepared := False, running := False\<rparr>
                   in if errno w1 = EPIPE
                      then let p2 = p1\<lparr>underruns := underruns p1 + 1\<rparr>
                           in if has (flags p2) PCM_NORESTART then (- EPIPE, p2, w1)
                              else pcm_write_loop K buf frames p2 w1
                      else (-1, pcm_fail K w1 (errno w1) ''cannot write stream data'' p1, w1)
              else (0, p, w1))"
  by pat_completeness auto
termination by (relation "measure (\<lambda>(K, buf, frames, p, w). if running p then 1 else 0)") auto

declare pcm_write_loop.simps [simp del]

definition pcm_write ::
    "'k pcm_kernel \<Rightarrow> u8 list \<Rightarrow> u32 \<Rightarrow> pcm \<Rightarrow> 'k world \<Rightarrow> (int \<times> pcm \<times> 'k world) res" where
  "pcm_write K buf count p w =
     (if has (flags p) PCM_IN then Inr (- EINVAL, p, w)
      else bindE (xfer_frames p count) (\<lambda>frames. Inr (pcm_write_loop K buf frames p w)))"

section \<open>Reading\<close>

text \<open>The loop of \<^verbatim>\<open>pcm_read\<close> starts the stream again after every overrun, so it may run for ever.\<close>

partial_function (option) pcm_read_loop ::
    "'k pcm_kernel \<Rightarrow> u64 \<Rightarrow> u8 list \<Rightarrow> pcm \<Rightarrow> 'k world \<Rightarrow> (int \<times> u8 list \<times> pcm \<times> 'k world) option" where
  "pcm_read_loop K frames buf p w =
     (case (if running p then (0, p, w) else pcm_start K p w) of
        (s, p1, w1) \<Rightarrow>
          if s < 0 then Some (- errno w1, buf, p1, w1)
          else case k_readi K (fd p1) buf frames (kst w1) of
                 (rr, buf', k') \<Rightarrow>
                   (case sys (rr, k') w1 of
                      (r, w2) \<Rightarrow>
                        if r \<noteq> 0
                        then let p2 = p1\<lparr>prepared := False, running := False\<rparr>
                             in if errno w2 = EPIPE
                                then pcm_read_loop K frames buf' (p2\<lparr>underruns := underruns p2 + 1\<rparr>) w2
                                else Some (-1, buf', pcm_fail K w2 (errno w2) ''cannot read stream data'' p2, w2)
                        else Some (0, buf', p1, w2)))"

definition pcm_read ::
    "'k pcm_kernel \<Rightarrow> u8 list \<Rightarrow> u32 \<Rightarrow> pcm \<Rightarrow> 'k world \<Rightarrow> (int \<times> u8 list \<times> pcm \<times> 'k world) res option" where
  "pcm_read K buf count p w =
     (if \<not> has (flags p) PCM_IN then Some (Inr (- EINVAL, buf, p, w))
      else case xfer_frames p count of
             Inl f \<Rightarrow> Some (Inl f)
           | Inr frames \<Rightarrow> map_option Inr (pcm_read_loop K frames buf p w))"

section \<open>Opening\<close>

definition zero_config :: pcm_config where
  "zero_config = \<lparr>channels = 0, rate = 0, period_size = 0, period_count = 0, format = PCM_FORMAT_S16_LE,
     start_threshold = 0, stop_threshold = 0, silence_threshold = 0, silence_size = 0, avail_min = 0\<rparr>"

definition zero_pcm :: pcm where
  "zero_pcm = \<lparr>fd = 0, flags = 0, running = False, prepared = False, underruns = 0, buffer_size = 0,
     boundary = 0, error = '''', config = zero_config, mmap_status = Null_page, mmap_control = Null_page,
     sync_ptr = None, mmap_buffer = Null_buf, noirq_frames_per_msec = 0, wait_for_avail_min = False\<rparr>"

definition pcm_device_name :: "u32 \<Rightarrow> u32 \<Rightarrow> u32 \<Rightarrow> string" where
  "pcm_device_name crd device fl =
     ''/dev/snd/pcmC'' @ fmt_u crd @ ''D'' @ fmt_u device @ (if has fl PCM_IN then ''c'' else ''p'')"

text \<open>The request for \<^verbatim>\<open>HW_PARAMS\<close> before and after the access mask is chosen.\<close>

definition open_request :: "pcm_config \<Rightarrow> snd_pcm_hw_params" where
  "open_request c =
     (let p1 = param_set_mask SNDRV_PCM_HW_PARAM_FORMAT (pcm_format_to_alsa (format c)) param_init;
          p2 = param_set_mask SNDRV_PCM_HW_PARAM_SUBFORMAT 0 p1;
          p3 = param_set_min SNDRV_PCM_HW_PARAM_PERIOD_SIZE (period_size c) p2;
          p4 = param_set_int SNDRV_PCM_HW_PARAM_SAMPLE_BITS (pcm_format_to_bits (format c)) p3;
          p5 = param_set_int SNDRV_PCM_HW_PARAM_FRAME_BITS (pcm_format_to_bits (format c) * channels c) p4;
          p6 = param_set_int SNDRV_PCM_HW_PARAM_CHANNELS (channels c) p5;
          p7 = param_set_int SNDRV_PCM_HW_PARAM_PERIODS (period_count c) p6
      in param_set_int SNDRV_PCM_HW_PARAM_RATE (rate c) p7)"

definition SNDRV_PCM_HW_PARAMS_NO_PERIOD_WAKEUP :: u32 where
  "SNDRV_PCM_HW_PARAMS_NO_PERIOD_WAKEUP = push_bit 2 1"

definition open_params :: "u32 \<Rightarrow> pcm_config \<Rightarrow> snd_pcm_hw_params" where
  "open_params fl c =
     (let p1 = open_request c;
          p2 = (if has fl PCM_NOIRQ
                then p1\<lparr>hw_flags := hw_flags p1 OR SNDRV_PCM_HW_PARAMS_NO_PERIOD_WAKEUP\<rparr> else p1)
      in param_set_mask SNDRV_PCM_HW_PARAM_ACCESS (if has fl PCM_MMAP then 0 else 3) p2)"

text \<open>
  The software parameters, and the thresholds that the stream keeps: \<open>c\<close> is the caller's
  configuration with the refined periods, \<open>p\<close> the stream with the configuration as it was passed.
\<close>

definition open_thresholds :: "pcm_config \<Rightarrow> pcm \<Rightarrow> snd_pcm_sw_params \<times> pcm" where
  "open_thresholds c p =
     (let pc = config p;
          (sst, pc1) =
            (if start_threshold c = 0
             then let v = (if has (flags p) PCM_IN then 1 else period_count c * period_size c div 2)
                  in (v, pc\<lparr>start_threshold := v\<rparr>)
             else (start_threshold c, pc));
          (ssp, pc2) =
            (if stop_threshold c = 0
             then let v = (if has (flags p) PCM_IN then period_count c * period_size c * 10
                           else period_count c * period_size c)
                  in (v, pc1\<lparr>stop_threshold := v\<rparr>)
             else (stop_threshold c, pc1));
          (sam, pc3) =
            (if avail_min pc2 = 0
             then let v = (if has (flags p) PCM_MMAP then period_size pc2 else 1)
                  in (ucast v, pc2\<lparr>avail_min := sint v\<rparr>)
             else (of_int (avail_min c), pc2))
      in (\<lparr>tstamp_mode = 1, period_step = 1, sw_avail_min = sam, xfer_align = ucast (period_size c div 2),
           sw_start_threshold = ucast sst, sw_stop_threshold = ucast ssp,
           sw_silence_threshold = ucast (silence_threshold c), sw_silence_size = ucast (silence_size c),
           sw_boundary = ucast (buffer_size p)\<rparr>,
          p\<lparr>config := pc3, boundary := buffer_size p\<rparr>))"

definition INT_MAX :: u32 where "INT_MAX = 0x7fffffff"

partial_function (option) boundary_loop :: "u32 \<Rightarrow> u32 \<Rightarrow> u32 option" where
  "boundary_loop bs b = (if b * 2 \<le> INT_MAX - bs then boundary_loop bs (b * 2) else Some b)"

definition open_fail_close :: "'k pcm_kernel \<Rightarrow> pcm \<Rightarrow> 'k world \<Rightarrow> pcm \<times> 'k world" where
  "open_fail_close K p w =
     (let (_, w1) = sys (k_close K (fd p) (kst w)) w in (p\<lparr>fd := -1\<rparr>, w1))"

definition open_fail :: "'k pcm_kernel \<Rightarrow> pcm \<Rightarrow> 'k world \<Rightarrow> pcm \<times> 'k world" where
  "open_fail K p w =
     (let w1 = (if has (flags p) PCM_MMAP
                then snd (sys (k_munmap K Region_data (pcm_frames_to_bytes p (buffer_size p)) (kst w)) w) else w)
      in open_fail_close K p w1)"

text \<open>From the software parameters on, with the labels \<^verbatim>\<open>fail\<close> and \<^verbatim>\<open>fail_close\<close>.\<close>

definition open_finish :: "'k pcm_kernel \<Rightarrow> snd_pcm_sw_params \<Rightarrow> pcm \<Rightarrow> 'k world \<Rightarrow> pcm \<times> 'k world" where
  "open_finish K sparams p w =
     (let (r, w1) = sys (k_sw_params K (fd p) sparams (kst w)) w
      in if r \<noteq> 0 then open_fail K (pcm_fail K w1 (errno w1) ''cannot set sw params'' p) w1
         else let (rc, p2, w2) = pcm_hw_mmap_status K p w1
              in if rc < 0 then open_fail K (pcm_fail K w2 rc ''mmap status failed'' p2) w2
                 else if has (flags p2) PCM_MONOTONIC
                 then let (rc2, w3) = sys (k_ttstamp K (fd p2) 1 (kst w2)) w2
                      in if rc2 < 0 then open_fail K (pcm_fail K w3 rc2 ''cannot set timestamp type'' p2) w3
                         else (p2\<lparr>underruns := 0\<rparr>, w3)
                 else (p2\<lparr>underruns := 0\<rparr>, w2))"

text \<open>From the hardware parameters on: the mapping of the data, then the thresholds and the boundary.\<close>

definition open_mapped ::
    "'k pcm_kernel \<Rightarrow> pcm_config \<Rightarrow> pcm \<Rightarrow> 'k world \<Rightarrow> (pcm \<times> 'k world) option" where
  "open_mapped K c p w =
     (let (sparams, p1) = open_thresholds c p
      in case boundary_loop (buffer_size p1) (boundary p1) of
           None \<Rightarrow> None
         | Some b \<Rightarrow> Some (open_finish K sparams (p1\<lparr>boundary := b\<rparr>) w))"

definition open_map ::
    "'k pcm_kernel \<Rightarrow> pcm_config \<Rightarrow> pcm \<Rightarrow> 'k world \<Rightarrow> (pcm \<times> 'k world) option" where
  "open_map K c p w =
     (if has (flags p) PCM_MMAP
      then let (r, w1) = sys (k_mmap K (fd p) Region_data (pcm_frames_to_bytes p (buffer_size p)) (kst w)) w
           in if r < 0
              then Some (open_fail_close K
                     (pcm_fail K w1 (- errno w1)
                       (''failed to mmap buffer '' @ fmt_u (pcm_frames_to_bytes p (buffer_size p)) @ '' bytes'' @ nl)
                       (p\<lparr>mmap_buffer := Map_failed\<rparr>)) w1)
              else open_mapped K c (p\<lparr>mmap_buffer := Mapped_buf\<rparr>) w1
      else open_mapped K c p w)"

text \<open>From \<^verbatim>\<open>IOCTL_INFO\<close> on: the stream and the configuration as it is written back.\<close>

definition open_configure ::
    "'k pcm_kernel \<Rightarrow> u32 \<Rightarrow> pcm_config \<Rightarrow> pcm \<Rightarrow> 'k world \<Rightarrow> ((pcm \<times> 'k world) \<times> pcm_config) option" where
  "open_configure K fl c p w =
     (case sys (k_info K (fd p) (kst w)) w of
        (r1, w1) \<Rightarrow>
          if r1 \<noteq> 0 then Some (open_fail_close K (pcm_fail K w1 (errno w1) ''cannot get info'' p) w1, c)
          else if has fl PCM_NOIRQ \<and> \<not> has fl PCM_MMAP
          then Some (open_fail K (pcm_fail K w1 (- EINVAL)
                 ''noirq only currently supported with mmap().'' p) w1, c)
          else let p1 = (if has fl PCM_NOIRQ then p\<lparr>noirq_frames_per_msec := rate c div 1000\<rparr> else p)
          in case k_hw_params K (fd p1) (open_params fl c) (kst w1) of
               (r, params, k) \<Rightarrow>
                 (case sys (r, k) w1 of
                    (r2, w2) \<Rightarrow>
                      if r2 \<noteq> 0
                      then Some (open_fail_close K (pcm_fail K w2 (errno w2) ''cannot set hw params'' p1) w2, c)
                      else let c' = c\<lparr>period_size := param_get_int SNDRV_PCM_HW_PARAM_PERIOD_SIZE params,
                                  period_count := param_get_int SNDRV_PCM_HW_PARAM_PERIODS params\<rparr>
                      in map_option (\<lambda>pw. (pw, c'))
                           (open_map K c' (p1\<lparr>buffer_size := period_count c' * period_size c'\<rparr>) w2)))"

text \<open>The whole call: the stream (\<open>None\<close> for \<^verbatim>\<open>&bad_pcm\<close>), and the configuration it writes back.\<close>

definition pcm_open ::
    "'k pcm_kernel \<Rightarrow> u32 \<Rightarrow> u32 \<Rightarrow> u32 \<Rightarrow> pcm_config option \<Rightarrow> 'k world
      \<Rightarrow> (pcm option \<times> pcm_config option \<times> 'k world) option" where
  "pcm_open K crd device fl conf w =
     (case k_calloc K (kst w) of
        (ok, k0) \<Rightarrow>
          (let w0 = w\<lparr>kst := k0\<rparr>; fn = pcm_device_name crd device fl
           in case (if ok then conf else None) of
                None \<Rightarrow> Some (None, conf, w0)
              | Some c \<Rightarrow>
                  (case sys (k_open K fn (kst w0)) w0 of
                     (r1, w1) \<Rightarrow>
                       let p = zero_pcm\<lparr>config := c, flags := fl, fd := r1\<rparr>
                       in if r1 < 0
                          then Some (Some (pcm_fail K w1 (errno w1)
                                 (''cannot open device '' @ [CHR 0x27] @ fn @ [CHR 0x27]) p), Some c, w1)
                          else map_option (\<lambda>((p', w'), c'). (Some p', Some c', w'))
                                 (open_configure K fl c p w1))))"

section \<open>Closing, parameters, time stamps\<close>

text \<open>The stream itself is freed, so only the world comes back; \<open>None\<close> is \<^verbatim>\<open>&bad_pcm\<close>.\<close>

definition pcm_close :: "'k pcm_kernel \<Rightarrow> pcm option \<Rightarrow> 'k world \<Rightarrow> int \<times> 'k world" where
  "pcm_close K po w =
     (case po of
        None \<Rightarrow> (0, w)
      | Some p \<Rightarrow>
          (let (p1, w1) = pcm_hw_munmap_status K p w;
               (p2, w2) =
                 (if has (flags p1) PCM_MMAP
                  then let (_, p', w') = pcm_stop K p1 w1
                       in (p', snd (sys (k_munmap K Region_data (pcm_frames_to_bytes p' (buffer_size p')) (kst w')) w'))
                  else (p1, w1));
               w3 = (if 0 \<le> fd p2 then snd (sys (k_close K (fd p2) (kst w2)) w2) else w2)
           in (0, w3)))"

definition pcm_params_get ::
    "'k pcm_kernel \<Rightarrow> u32 \<Rightarrow> u32 \<Rightarrow> u32 \<Rightarrow> 'k world \<Rightarrow> snd_pcm_hw_params option \<times> 'k world" where
  "pcm_params_get K crd device fl w =
     (let (r1, w1) = sys (k_open K (pcm_device_name crd device fl) (kst w)) w
      in if r1 < 0 then (None, w1)
         else let (ok, k2) = k_calloc K (kst w1); w2 = w1\<lparr>kst := k2\<rparr>
              in if \<not> ok then (None, snd (sys (k_close K r1 (kst w2)) w2))
                 else let (r3, params, k3) = k_hw_refine K r1 param_init (kst w2);
                          (r3', w3) = sys (r3, k3) w2;
                          w4 = snd (sys (k_close K r1 (kst w3)) w3)
                      in (if r3' \<noteq> 0 then None else Some params, w4))"

definition PCM_STATE_RUNNING :: int where "PCM_STATE_RUNNING = 3"
definition PCM_STATE_XRUN :: int where "PCM_STATE_XRUN = 4"
definition PCM_STATE_DRAINING :: int where "PCM_STATE_DRAINING = 5"
definition PCM_STATE_SUSPENDED :: int where "PCM_STATE_SUSPENDED = 7"
definition PCM_STATE_DISCONNECTED :: int where "PCM_STATE_DISCONNECTED = 8"

definition SNDRV_PCM_SYNC_PTR_HWSYNC :: u32 where "SNDRV_PCM_SYNC_PTR_HWSYNC = 1"
definition SNDRV_PCM_SYNC_PTR_APPL :: u32 where "SNDRV_PCM_SYNC_PTR_APPL = 2"

text \<open>A wrap-around of a frame count into the range of the boundary, as the code does it on ints.\<close>

definition wrap_signed :: "u32 \<Rightarrow> u32 \<Rightarrow> u32" where
  "wrap_signed bound frames =
     (if sint frames < 0 then frames + bound
      else if sint frames > sint bound then frames - bound else frames)"

text \<open>
  \<open>pcm_get_htimestamp\<close>, with the values stored through \<^verbatim>\<open>avail\<close> and \<^verbatim>\<open>tstamp\<close> when they are. The
  state is loaded again for the second comparison, and the time stamp and the pointer after it.
\<close>

definition pcm_htimestamp_tail ::
    "'k pcm_kernel \<Rightarrow> pcm \<Rightarrow> 'k world \<Rightarrow> (int \<times> u32 option \<times> (int \<times> int) option \<times> pcm \<times> 'k world) res" where
  "pcm_htimestamp_tail K p w =
     bindE (load_status K p w) (\<lambda>(s, w1).
       if tstamp s = (0, 0) then Inr (-1, None, Some (tstamp s), p, w1)
       else bindE (load_status K p w1) (\<lambda>(s', w2).
         bindE (load_control K p w2) (\<lambda>c.
           (let frames = (if has (flags p) PCM_IN then ucast (hw_ptr s' - appl_ptr c)
                          else ucast (hw_ptr s' + ucast (buffer_size p) - appl_ptr c))
            in Inr (0, Some (wrap_signed (boundary p) frames), Some (tstamp s), p, w2)))))"

definition pcm_get_htimestamp ::
    "'k pcm_kernel \<Rightarrow> pcm \<Rightarrow> 'k world \<Rightarrow> (int \<times> u32 option \<times> (int \<times> int) option \<times> pcm \<times> 'k world) res" where
  "pcm_get_htimestamp K p w =
     (if \<not> pcm_is_ready p then Inr (-1, None, None, p, w)
      else let (rc, p1, w1) = pcm_sync_ptr K (SNDRV_PCM_SYNC_PTR_APPL OR SNDRV_PCM_SYNC_PTR_HWSYNC) p w
           in if rc < 0 then Inr (-1, None, None, p1, w1)
              else bindE (load_status K p1 w1) (\<lambda>(s1, w2).
                if sstate s1 = PCM_STATE_RUNNING then pcm_htimestamp_tail K p1 w2
                else bindE (load_status K p1 w2) (\<lambda>(s2, w3).
                  if sstate s2 \<noteq> PCM_STATE_DRAINING then Inr (-1, None, None, p1, w3)
                  else pcm_htimestamp_tail K p1 w3)))"

section \<open>Lemmas on the single calls\<close>

named_theorems pcm_ops \<open>the definitions of the short stream operations\<close>

lemma kst_sys [simp]: "kst (snd (sys rk w)) = snd rk"
  by (simp add: sys_def)

lemma sys_ok [simp]: "sys (SysOk n, k) w = (int n, w\<lparr>kst := k\<rparr>)"
  by (simp add: sys_def)

lemma sys_err [simp]: "sys (SysErr e, k) w = (-1, w\<lparr>kst := k, errno := e\<rparr>)"
  by (simp add: sys_def)

lemma pcm_fail_fields [simp]:
  "running (pcm_fail K w e msg p) = running p" "prepared (pcm_fail K w e msg p) = prepared p"
  "flags (pcm_fail K w e msg p) = flags p" "fd (pcm_fail K w e msg p) = fd p"
  "underruns (pcm_fail K w e msg p) = underruns p" "buffer_size (pcm_fail K w e msg p) = buffer_size p"
  "config (pcm_fail K w e msg p) = config p" "sync_ptr (pcm_fail K w e msg p) = sync_ptr p"
  "mmap_status (pcm_fail K w e msg p) = mmap_status p" "mmap_control (pcm_fail K w e msg p) = mmap_control p"
  "boundary (pcm_fail K w e msg p) = boundary p" "mmap_buffer (pcm_fail K w e msg p) = mmap_buffer p"
  by (simp_all add: pcm_fail_def Let_def)

text \<open>The part of a stream that no transfer changes.\<close>

definition stable :: "pcm \<Rightarrow> pcm \<Rightarrow> bool" where
  "stable p q \<longleftrightarrow> fd q = fd p \<and> flags q = flags p \<and> buffer_size q = buffer_size p
     \<and> boundary q = boundary p \<and> config q = config p
     \<and> mmap_status q = mmap_status p \<and> mmap_control q = mmap_control p \<and> mmap_buffer q = mmap_buffer p
     \<and> (sync_ptr q = None \<longleftrightarrow> sync_ptr p = None)"

lemma stable_refl [simp]: "stable p p"
  by (simp add: stable_def)

lemma stable_trans: "stable p q \<Longrightarrow> stable q r \<Longrightarrow> stable p r"
  by (simp add: stable_def)

lemma stable_updates [simp]:
  "stable p (pcm_fail K w e msg q) = stable p q" "stable p (q\<lparr>running := b\<rparr>) = stable p q"
  "stable p (q\<lparr>prepared := b\<rparr>) = stable p q" "stable p (q\<lparr>underruns := n\<rparr>) = stable p q"
  "stable p (q\<lparr>wait_for_avail_min := b\<rparr>) = stable p q"
  by (simp_all add: stable_def)

lemma pcm_sync_ptr_stable:
  assumes "pcm_sync_ptr K fl p w = (r, p', w')"
  shows "stable p p' \<and> running p' = running p \<and> prepared p' = prepared p \<and> underruns p' = underruns p
    \<and> (r = 0 \<or> r = -1)"
  using assms by (auto simp: pcm_sync_ptr_def stable_def split: option.splits prod.splits if_splits)

lemma pcm_prepare_cases:
  assumes "pcm_prepare K p w = (r, p', w')"
  obtains (ok) "r = 0" "prepared p'" "running p' = running p" "stable p p'" "underruns p' = underruns p"
  | (error) "r = -1" "\<not> prepared p" "\<not> prepared p'" "running p' = running p" "stable p p'"
      "underruns p' = underruns p"
  using assms by (auto simp: pcm_prepare_def stable_def split: prod.splits if_splits)

lemma pcm_start_cases:
  assumes "pcm_start K p w = (r, p', w')"
  obtains (ok) "r = 0" "prepared p'" "running p'" "stable p p'" "underruns p' = underruns p"
  | (error) "r = -1" "running p' = running p" "prepared p \<longrightarrow> prepared p'" "stable p p'"
      "underruns p' = underruns p"
proof -
  obtain r1 p1 w1 where 1: "pcm_prepare K p w = (r1, p1, w1)" by (cases "pcm_prepare K p w") auto
  then show ?thesis
  proof (cases rule: pcm_prepare_cases)
    case error
    with 1 assms that(2) show ?thesis by (simp add: pcm_start_def)
  next
    case ok
    obtain r2 p2 w2 where 2: "(if has (flags p1) PCM_MMAP then pcm_sync_ptr K 0 p1 w1 else (0, p1, w1)) = (r2, p2, w2)"
      by (metis prod_cases3)
    then have p2: "stable p1 p2" "running p2 = running p1" "prepared p2 = prepared p1" "underruns p2 = underruns p1"
      by (auto dest: pcm_sync_ptr_stable split: if_splits)
    from stable_trans [OF ok(4) p2(1)] have "stable p p2" .
    with 1 2 p2 ok assms that show ?thesis
      by (auto simp: pcm_start_def Let_def split: prod.splits if_splits)
  qed
qed

lemma pcm_stop_cases:
  assumes "pcm_stop K p w = (r, p', w')"
  obtains (ok) "r = 0" "\<not> prepared p'" "\<not> running p'" "stable p p'" "underruns p' = underruns p"
  | (error) "r = -1" "running p' = running p" "prepared p' = prepared p" "stable p p'" "underruns p' = underruns p"
  using assms by (auto simp: pcm_stop_def stable_def split: prod.splits if_splits)

section \<open>Writing\<close>

lemma pcm_write_first:
  assumes "\<not> running p" and "pcm_write_loop K buf n p w = (r, p', w')"
  shows "stable p p' \<and> underruns p' = underruns p
    \<and> (r = 0 \<and> running p' \<and> prepared p' \<or> r = -1 \<and> \<not> running p')"
proof -
  obtain r1 p1 w1 where 1: "pcm_prepare K p w = (r1, p1, w1)" by (cases "pcm_prepare K p w") auto
  then show ?thesis
    by (cases rule: pcm_prepare_cases)
      (use 1 assms in \<open>auto simp: pcm_write_loop.simps [of K buf n p w] Let_def split: prod.splits if_splits\<close>)
qed

lemma pcm_write_cases:
  assumes "pcm_write_loop K buf n p w = (r, p', w')"
  shows "stable p p' \<and> (underruns p' = underruns p \<or> underruns p' = underruns p + 1)
    \<and> (r = 0 \<and> running p' \<and> (running p \<and> p' = p \<or> prepared p')
       \<or> r = -1 \<and> \<not> running p'
       \<or> r = - EPIPE \<and> \<not> running p' \<and> \<not> prepared p' \<and> has (flags p) PCM_NORESTART)"
proof (cases "running p")
  case False
  with pcm_write_first [OF False assms] show ?thesis by auto
next
  case True
  obtain r1 w1 where 1: "sys (k_writei K (fd p) buf n (kst w)) w = (r1, w1)" by (metis prod.exhaust)
  let ?p = "p\<lparr>prepared := False, running := False, underruns := underruns p + 1\<rparr>"
  consider (okay) "r1 = 0" | (epipe) "r1 \<noteq> 0" "errno w1 = EPIPE" | (other) "r1 \<noteq> 0" "errno w1 \<noteq> EPIPE" by blast
  then show ?thesis
  proof cases
    case epipe
    show ?thesis
    proof (cases "has (flags p) PCM_NORESTART")
      case True
      then show ?thesis using 1 epipe \<open>running p\<close> assms
        by (auto simp: pcm_write_loop.simps [of K buf n p w] Let_def)
    next
      case False
      then have "pcm_write_loop K buf n ?p w1 = (r, p', w')"
        using 1 epipe \<open>running p\<close> assms by (simp add: pcm_write_loop.simps [of K buf n p w] Let_def)
      from pcm_write_first [OF _ this] show ?thesis by (auto simp: stable_def)
    qed
  qed (use 1 \<open>running p\<close> assms in \<open>auto simp: pcm_write_loop.simps [of K buf n p w] Let_def\<close>)
qed

section \<open>Reading\<close>

definition pcm_inv :: "pcm \<Rightarrow> bool" where
  "pcm_inv p \<longleftrightarrow> (running p \<longrightarrow> prepared p)"

lemma pcm_read_cases:
  assumes "pcm_read_loop K n buf p w = Some (r, buf', p', w')"
  shows "stable p p' \<and> underruns p \<le> underruns p' \<and> (pcm_inv p \<longrightarrow> pcm_inv p')
    \<and> (running p' \<and> r = 0 \<or> \<not> running p')"
proof -
  let ?P = "\<lambda>K n buf p w y. case y of (r, buf', p', w') \<Rightarrow>
    stable p p' \<and> underruns p \<le> underruns p' \<and> (pcm_inv p \<longrightarrow> pcm_inv p') \<and> (running p' \<and> r = 0 \<or> \<not> running p')"
  have "?P K n buf p w (r, buf', p', w')"
  proof (rule pcm_read_loop.raw_induct [of ?P, OF _ assms])
    fix loop K n buf p w y
    assume IH: "\<And>K n buf p w y. loop K n buf p w = Some y \<Longrightarrow> ?P K n buf p w y"
      and eq: "(case (if running p then (0, p, w) else pcm_start K p w) of
        (s, p1, w1) \<Rightarrow>
          if s < 0 then Some (- errno w1, buf, p1, w1)
          else case k_readi K (fd p1) buf n (kst w1) of
                 (rr, buf', k') \<Rightarrow>
                   (case sys (rr, k') w1 of
                      (r, w2) \<Rightarrow>
                        if r \<noteq> 0
                        then let p2 = p1\<lparr>prepared := False, running := False\<rparr>
                             in if errno w2 = EPIPE
                                then loop K n buf' (p2\<lparr>underruns := underruns p2 + 1\<rparr>) w2
                                else Some (-1, buf', pcm_fail K w2 (errno w2) ''cannot read stream data'' p2, w2)
                        else Some (0, buf', p1, w2))) = Some y"
    obtain s p1 w1 where s: "(if running p then (0, p, w) else pcm_start K p w) = (s, p1, w1)"
      by (metis prod_cases3)
    have 1: "stable p p1" "underruns p1 = underruns p" "pcm_inv p \<longrightarrow> pcm_inv p1"
      "s < 0 \<and> \<not> running p1 \<or> \<not> s < 0 \<and> running p1"
    proof -
      consider (run) "running p" "s = 0" "p1 = p" | (start) "\<not> running p" "pcm_start K p w = (s, p1, w1)"
        using s by (auto split: if_splits)
      then have "stable p p1 \<and> underruns p1 = underruns p \<and> (pcm_inv p \<longrightarrow> pcm_inv p1)
        \<and> (s < 0 \<and> \<not> running p1 \<or> \<not> s < 0 \<and> running p1)"
      proof cases
        case start
        from start(2) show ?thesis
          by (cases rule: pcm_start_cases) (use start(1) in \<open>auto simp: pcm_inv_def\<close>)
      qed simp
      then show "stable p p1" "underruns p1 = underruns p" "pcm_inv p \<longrightarrow> pcm_inv p1"
        "s < 0 \<and> \<not> running p1 \<or> \<not> s < 0 \<and> running p1" by blast+
    qed
    obtain rr b k where rd: "k_readi K (fd p1) buf n (kst w1) = (rr, b, k)" by (metis prod_cases3)
    obtain r w2 where sy: "sys (rr, k) w1 = (r, w2)" by (metis prod.exhaust)
    define p2 where "p2 = p1\<lparr>prepared := False, running := False, underruns := underruns p1 + 1\<rparr>"
    define q where "q = pcm_fail K w2 (errno w2) ''cannot read stream data'' (p1\<lparr>prepared := False, running := False\<rparr>)"
    have "underruns (p1\<lparr>prepared := False, running := False\<rparr>) = underruns p1" by simp
    with eq have "(if s < 0 then Some (- errno w1, buf, p1, w1)
        else if r \<noteq> 0 then if errno w2 = EPIPE then loop K n b p2 w2 else Some (-1, b, q, w2)
        else Some (0, b, p1, w2)) = Some y"
      unfolding s prod.case rd sy Let_def p2_def q_def by (simp only:)
    then consider (nostart) "s < 0" "(- errno w1, buf, p1, w1) = y"
      | (good) "\<not> s < 0" "(0, b, p1, w2) = y"
      | (again) "\<not> s < 0" "loop K n b p2 w2 = Some y"
      | (bad) "\<not> s < 0" "(-1, b, q, w2) = y"
      by (simp only: option.inject split: if_splits) blast+
    then show "?P K n buf p w y"
    proof cases
      case again
      obtain r' b' p' w' where y: "y = (r', b', p', w')" by (cases y)
      have p2: "stable p p2" "underruns p \<le> underruns p2" "pcm_inv p2"
        using 1(1,2) by (simp_all add: pcm_inv_def p2_def)
      from IH [OF again(2)] y have "stable p2 p'" "underruns p2 \<le> underruns p'" "pcm_inv p'"
        "running p' \<and> r' = 0 \<or> \<not> running p'" using p2(3) by simp_all
      then show ?thesis using y p2(2) stable_trans [OF p2(1)] by simp
    qed (use 1 in \<open>auto simp: pcm_inv_def q_def\<close>)
  qed
  then show ?thesis by simp
qed

section \<open>Units\<close>

lemma format_bytes:
  "\<exists>b. unat (pcm_format_to_bits f) = 8 * b \<and> unat (drop_bit 3 (pcm_format_to_bits f)) = b \<and> 2 \<le> b \<and> b \<le> 4"
  by (auto simp: pcm_format_to_bits_def split: pcm_format.splits)

lemma unat_mult_small:
  fixes a b :: "'n::len word"
  assumes "unat a * unat b < 2 ^ LENGTH('n)"
  shows "unat (a * b) = unat a * unat b"
  using assms by (simp add: unat_word_ariths)

text \<open>The size of a frame in bytes, when it does not overflow.\<close>

definition frame_bytes :: "pcm \<Rightarrow> nat" where
  "frame_bytes p = unat (channels (config p)) * unat (drop_bit 3 (pcm_format_to_bits (format (config p))))"

lemma frame_bytes_word:
  assumes "unat (channels (config p)) < 2 ^ 27"
  shows "unat (channels (config p) * drop_bit 3 (pcm_format_to_bits (format (config p)))) = frame_bytes p"
    and "unat (channels (config p) * pcm_format_to_bits (format (config p)) div 8) = frame_bytes p"
proof -
  obtain b where b: "unat (pcm_format_to_bits (format (config p))) = 8 * b"
    "unat (drop_bit 3 (pcm_format_to_bits (format (config p)))) = b" "b \<le> 4"
    using format_bytes by blast
  have "unat (channels (config p)) * b \<le> unat (channels (config p)) * 4"
    by (rule mult_le_mono2 [OF b(3)])
  also have "\<dots> < 2 ^ 29" using assms by simp
  finally have c: "unat (channels (config p)) * b < 2 ^ 29" .
  show "unat (channels (config p) * drop_bit 3 (pcm_format_to_bits (format (config p)))) = frame_bytes p"
    unfolding frame_bytes_def by (rule unat_mult_small) (use b(2) c in simp)
  have "unat (channels (config p) * pcm_format_to_bits (format (config p)))
      = unat (channels (config p)) * (8 * b)"
    unfolding b(1) [symmetric] by (rule unat_mult_small) (use b(1) c in \<open>simp add: mult.commute\<close>)
  then show "unat (channels (config p) * pcm_format_to_bits (format (config p)) div 8) = frame_bytes p"
    by (simp add: unat_div_distrib frame_bytes_def b(2))
qed

lemma xfer_frames_eq:
  assumes "unat (channels (config p)) < 2 ^ 27"
  shows "xfer_frames p count = map_sum id ucast (pcm_bytes_to_frames p count)"
proof -
  have "channels (config p) * pcm_format_to_bits (format (config p)) div 8
      = channels (config p) * drop_bit 3 (pcm_format_to_bits (format (config p)))"
    using frame_bytes_word [OF assms] by (metis unsigned_word_eqI)
  then show ?thesis by (simp add: xfer_frames_def pcm_bytes_to_frames_def Let_def)
qed

lemma frames_to_bytes_nat:
  assumes "unat (channels (config p)) < 2 ^ 27" and "unat n * frame_bytes p < 2 ^ 32"
  shows "unat (pcm_frames_to_bytes p n) = unat n * frame_bytes p"
proof -
  have "pcm_frames_to_bytes p n = n * (channels (config p) * drop_bit 3 (pcm_format_to_bits (format (config p))))"
    by (simp add: pcm_frames_to_bytes_def mult.assoc)
  then show ?thesis
    using unat_mult_small [of n "channels (config p) * drop_bit 3 (pcm_format_to_bits (format (config p)))"]
      frame_bytes_word(1) [OF assms(1)] assms(2) by simp
qed

section \<open>The boundary\<close>

lemma boundary_loop_0: "boundary_loop 0 0 = None"
proof (rule ccontr)
  let ?P = "\<lambda>bs b (y :: u32). \<not> (bs = (0 :: u32) \<and> b = (0 :: u32))"
  assume "boundary_loop 0 0 \<noteq> None"
  then obtain y where y: "boundary_loop 0 0 = Some y" by auto
  have "?P 0 0 y"
  proof (rule boundary_loop.raw_induct [of ?P, OF _ y])
    fix loop and bs b y :: u32
    assume IH: "\<And>bs b y. loop bs b = Some y \<Longrightarrow> ?P bs b y"
      and eq: "(if b * 2 \<le> INT_MAX - bs then loop bs (b * 2) else Some b) = Some y"
    show "?P bs b y"
    proof
      assume "bs = 0 \<and> b = 0"
      then have "loop 0 0 = Some y" using eq by simp
      from IH [OF this] show False by simp
    qed
  qed
  then show False by simp
qed

lemma boundary_loop_ok:
  assumes "0 < b" and "unat b < 2 ^ 31" and "unat bs < 2 ^ 31"
  shows "\<exists>k r. boundary_loop bs b = Some r \<and> unat r = unat b * 2 ^ k \<and> unat r < 2 ^ 31
    \<and> 2 ^ 31 - 1 - unat bs < 2 * unat r"
  using assms(1,2)
proof (induction "2 ^ 31 - unat b" arbitrary: b rule: less_induct)
  case less
  have lim: "unat (INT_MAX - bs) = 2 ^ 31 - 1 - unat bs"
  proof -
    have "bs \<le> INT_MAX" using assms(3) by (simp add: word_le_nat_alt INT_MAX_def)
    then have "unat (INT_MAX - bs) = unat INT_MAX - unat bs" by (rule unat_sub)
    then show ?thesis by (simp add: INT_MAX_def)
  qed
  have two: "unat (b * 2) = 2 * unat b"
    using unat_mult_small [of b 2] less.prems(2) by (simp add: mult.commute)
  have b0: "0 < unat b" using less.prems(1) by (simp add: unat_gt_0)
  show ?case
  proof (cases "b * 2 \<le> INT_MAX - bs")
    case False
    then have "2 ^ 31 - 1 - unat bs < 2 * unat b" by (simp add: word_le_nat_alt two lim)
    with False less.prems show ?thesis
      by (intro exI [of _ 0] exI [of _ b]) (simp add: boundary_loop.simps [of bs b])
  next
    case True
    then have le: "2 * unat b \<le> 2 ^ 31 - 1 - unat bs" by (simp add: word_le_nat_alt two lim)
    then have small: "unat (b * 2) < 2 ^ 31" using two by simp
    have "0 < b * 2" using two b0 by (simp add: word_less_nat_alt)
    moreover have "2 ^ 31 - unat (b * 2) < 2 ^ 31 - unat b" using two b0 small by simp
    ultimately obtain k r where "boundary_loop bs (b * 2) = Some r" "unat r = unat (b * 2) * 2 ^ k"
      "unat r < 2 ^ 31" "2 ^ 31 - 1 - unat bs < 2 * unat r"
      using less.hyps [of "b * 2"] small by blast
    with True show ?thesis
      by (intro exI [of _ "Suc k"] exI [of _ r]) (simp add: boundary_loop.simps [of bs b] two)
  qed
qed

end
