(* ===== verification/PcmMmap.thy ===== *)
theory PcmMmap
  imports Pcm
begin

text \<open>
  The memory-mapped transfers of speech/src/pcm.c: the frames available between the hardware and
  the application pointer, the window that \<^verbatim>\<open>pcm_mmap_begin\<close> offers, the copy into the shared
  ring buffer and the loop of \<^verbatim>\<open>pcm_mmap_transfer\<close> that starts, waits and copies. Pointers run modulo
  the boundary, a multiple of the buffer size. The pointer values that the error messages print
  are not loaded in the model.
\<close>

section \<open>Available frames\<close>

definition playback_avail :: "pcm \<Rightarrow> u64 \<Rightarrow> u64 \<Rightarrow> u32" where
  "playback_avail p hw appl = wrap_signed (boundary p) (ucast (hw + ucast (buffer_size p) - appl))"

definition capture_avail :: "pcm \<Rightarrow> u64 \<Rightarrow> u64 \<Rightarrow> u32" where
  "capture_avail p hw appl =
     (let avail = ucast (hw - appl) :: u32 in if sint avail < 0 then avail + boundary p else avail)"

definition pcm_mmap_avail :: "'k pcm_kernel \<Rightarrow> pcm \<Rightarrow> 'k world \<Rightarrow> (u32 \<times> pcm \<times> 'k world) res" where
  "pcm_mmap_avail K p w =
     (let (_, p1, w1) = pcm_sync_ptr K SNDRV_PCM_SYNC_PTR_HWSYNC p w
      in bindE (load_status K p1 w1) (\<lambda>(s, w2).
         bindE (load_control K p1 w2) (\<lambda>c.
           Inr (if has (flags p1) PCM_IN then capture_avail p1 (hw_ptr s) (appl_ptr c)
                else playback_avail p1 (hw_ptr s) (appl_ptr c), p1, w2))))"

definition pcm_avail_update :: "'k pcm_kernel \<Rightarrow> pcm \<Rightarrow> 'k world \<Rightarrow> (u32 \<times> pcm \<times> 'k world) res" where
  "pcm_avail_update K p w =
     (let (_, p1, w1) = pcm_sync_ptr K 0 p w in pcm_mmap_avail K p1 w1)"

section \<open>The window and the pointer\<close>

definition appl_advance :: "u32 \<Rightarrow> u32 \<Rightarrow> u32 \<Rightarrow> u32" where
  "appl_advance bound appl frames =
     (let a = appl + frames in if a > bound then a - bound else a)"

definition pcm_mmap_appl_forward :: "'k pcm_kernel \<Rightarrow> u32 \<Rightarrow> pcm \<Rightarrow> 'k world \<Rightarrow> (pcm \<times> 'k world) res" where
  "pcm_mmap_appl_forward K frames p w =
     bindE (load_control K p w) (\<lambda>c.
       store_control K (c\<lparr>appl_ptr := ucast (appl_advance (boundary p) (ucast (appl_ptr c)) frames)\<rparr>) p w)"

definition window :: "u32 \<Rightarrow> u32 \<Rightarrow> u32 \<Rightarrow> u32 \<Rightarrow> u32" where
  "window bs offset avail frames =
     (let avail' = (if avail > bs then bs else avail);
          continuous = bs - offset;
          c1 = (if frames > avail' then avail' else frames)
      in if c1 > continuous then continuous else c1)"

text \<open>The values stored through \<^verbatim>\<open>offset\<close> and \<^verbatim>\<open>frames\<close>; \<^verbatim>\<open>areas\<close> is the mapped buffer.\<close>

definition pcm_mmap_begin ::
    "'k pcm_kernel \<Rightarrow> u32 \<Rightarrow> pcm \<Rightarrow> 'k world \<Rightarrow> (u32 \<times> u32 \<times> pcm \<times> 'k world) res" where
  "pcm_mmap_begin K frames p w =
     bindE (load_control K p w) (\<lambda>c.
       if buffer_size p = 0 then Inl DivByZero
       else let offset = ucast (appl_ptr c mod ucast (buffer_size p)) :: u32
            in bindE (pcm_mmap_avail K p w) (\<lambda>(avail, p1, w1).
                 Inr (offset, window (buffer_size p1) offset avail frames, p1, w1)))"

definition pcm_mmap_commit :: "'k pcm_kernel \<Rightarrow> u32 \<Rightarrow> pcm \<Rightarrow> 'k world \<Rightarrow> (int \<times> pcm \<times> 'k world) res" where
  "pcm_mmap_commit K frames p w =
     bindE (pcm_mmap_appl_forward K frames p w) (\<lambda>(p1, w1).
       let (_, p2, w2) = pcm_sync_ptr K 0 p1 w1 in Inr (sint frames, p2, w2))"

section \<open>Copying\<close>

text \<open>A byte offset held in an int; a negative one points before the block.\<close>

definition as_offset :: "u32 \<Rightarrow> nat res" where
  "as_offset n = (if sint n < 0 then Inl OutOfBounds else Inr (unat n))"

definition pcm_areas_copy ::
    "'k pcm_kernel \<Rightarrow> u32 \<Rightarrow> u8 list \<Rightarrow> u32 \<Rightarrow> u32 \<Rightarrow> pcm \<Rightarrow> 'k world \<Rightarrow> (u8 list \<times> 'k world) res" where
  "pcm_areas_copy K pcm_offset buf src_offset frames p w =
     bindE (as_offset (pcm_frames_to_bytes p frames)) (\<lambda>n.
     bindE (as_offset (pcm_frames_to_bytes p pcm_offset)) (\<lambda>po.
     bindE (as_offset (pcm_frames_to_bytes p src_offset)) (\<lambda>so.
       case mmap_buffer p of
         Null_buf \<Rightarrow> Inl NullDeref
       | Map_failed \<Rightarrow> Inl OutOfBounds
       | Mapped_buf \<Rightarrow>
           if has (flags p) PCM_IN
           then bindE (slice (k_buf K (kst w)) po n) (\<lambda>d. bindE (blit buf so d) (\<lambda>b. Inr (b, w)))
           else bindE (slice buf so n) (\<lambda>d.
                bindE (blit (k_buf K (kst w)) po d) (\<lambda>m. Inr (buf, w\<lparr>kst := k_set_buf K m (kst w)\<rparr>))))))"

text \<open>One round: offer a window, copy, commit. Negative results of the commit end the loop.\<close>

definition transfer_round ::
    "'k pcm_kernel \<Rightarrow> u8 list \<Rightarrow> u32 \<Rightarrow> u32 \<Rightarrow> pcm \<Rightarrow> 'k world \<Rightarrow> (int \<times> u8 list \<times> pcm \<times> 'k world) res" where
  "transfer_round K buf offset n p w =
     bindE (pcm_mmap_begin K n p w) (\<lambda>(pcm_offset, frames, p1, w1).
     bindE (pcm_areas_copy K pcm_offset buf offset frames p1 w1) (\<lambda>(buf', w2).
     bindE (pcm_mmap_commit K frames p1 w2) (\<lambda>(commit, p2, w3).
       Inr (commit, buf',
         if commit < 0
         then pcm_fail K w3 commit (''failed to commit frames'' @ nl) p2
         else p2, w3))))"

partial_function (option) transfer_loop ::
    "'k pcm_kernel \<Rightarrow> u8 list \<Rightarrow> u32 \<Rightarrow> u32 \<Rightarrow> u32 \<Rightarrow> pcm \<Rightarrow> 'k world
      \<Rightarrow> (int \<times> u8 list \<times> pcm \<times> 'k world) res option" where
  "transfer_loop K buf offset n count p w =
     (if n = 0 then Some (Inr (sint count, buf, p, w))
      else case transfer_round K buf offset n p w of
             Inl f \<Rightarrow> Some (Inl f)
           | Inr (commit, buf', p', w') \<Rightarrow>
               if commit < 0 then Some (Inr (commit, buf', p', w'))
               else transfer_loop K buf' (offset + of_int commit) (n - of_int commit)
                      (count + of_int commit) p' w')"

definition pcm_mmap_transfer_areas ::
    "'k pcm_kernel \<Rightarrow> u8 list \<Rightarrow> u32 \<Rightarrow> u32 \<Rightarrow> pcm \<Rightarrow> 'k world
      \<Rightarrow> (int \<times> u8 list \<times> pcm \<times> 'k world) res option" where
  "pcm_mmap_transfer_areas K buf offset n p w = transfer_loop K buf offset n 0 p w"

section \<open>State, waiting\<close>

definition pcm_state :: "'k pcm_kernel \<Rightarrow> pcm \<Rightarrow> 'k world \<Rightarrow> (int \<times> pcm \<times> 'k world) res" where
  "pcm_state K p w =
     (let (err, p1, w1) = pcm_sync_ptr K 0 p w
      in if err < 0 then Inr (err, p1, w1)
         else bindE (load_status K p1 w1) (\<lambda>(s, w2). Inr (sstate s, p1, w2)))"

definition pcm_set_avail_min :: "int \<Rightarrow> pcm \<Rightarrow> int \<times> pcm" where
  "pcm_set_avail_min n p =
     (if has (NOT (flags p)) (PCM_MMAP OR PCM_NOIRQ) then (- ENOSYS, p)
      else (0, p\<lparr>config := (config p)\<lparr>avail_min := n\<rparr>\<rparr>))"

definition POLLIN :: u16 where "POLLIN = 1"
definition POLLOUT :: u16 where "POLLOUT = 4"
definition POLLERR :: u16 where "POLLERR = 8"
definition POLLNVAL :: u16 where "POLLNVAL = 32"

definition wait_error :: "int \<Rightarrow> int" where
  "wait_error s =
     (if s = PCM_STATE_XRUN then - EPIPE
      else if s = PCM_STATE_SUSPENDED then - ESTRPIPE
      else if s = PCM_STATE_DISCONNECTED then - ENODEV
      else - EIO)"

text \<open>
  The loop of \<^verbatim>\<open>pcm_wait\<close>. The test for an interrupted poll compares \<^verbatim>\<open>errno\<close> with \<^verbatim>\<open>-EINTR\<close>; its
  \<^verbatim>\<open>continue\<close> goes to the loop condition.
\<close>

partial_function (option) pcm_wait ::
    "'k pcm_kernel \<Rightarrow> int \<Rightarrow> pcm \<Rightarrow> 'k world \<Rightarrow> (int \<times> pcm \<times> 'k world) res option" where
  "pcm_wait K timeout p w =
     (case k_poll K (fd p) timeout (kst w) of
        (r, revents, k) \<Rightarrow>
          (case sys (r, k) w of
             (err, w1) \<Rightarrow>
               if err < 0 then Some (Inr (- errno w1, p, w1))
               else if err = 0 then Some (Inr (0, p, w1))
               else if errno w1 \<noteq> - EINTR \<and> revents AND (POLLERR OR POLLNVAL) \<noteq> 0
               then Some (bindE (pcm_state K p w1) (\<lambda>(s, p2, w2). Inr (wait_error s, p2, w2)))
               else if revents AND (POLLIN OR POLLOUT) = 0 then pcm_wait K timeout p w1
               else Some (Inr (1, p, w1))))"

section \<open>The transfer\<close>

text \<open>What one round of \<^verbatim>\<open>pcm_mmap_transfer\<close> decides before it copies.\<close>

datatype 'k transfer_plan =
    Return int pcm "'k world"
  | Wait int pcm "'k world"
  | Copy u32 pcm "'k world"

text \<open>The start at the threshold, then the decision to wait or to copy up to \<open>avail\<close> frames.\<close>

definition plan_copy :: "u32 \<Rightarrow> u32 \<Rightarrow> pcm \<Rightarrow> 'k world \<Rightarrow> 'k transfer_plan" where
  "plan_copy count avail p w = Copy (if sint count > sint avail then avail else count) p w"

definition plan_running :: "u32 \<Rightarrow> u32 \<Rightarrow> pcm \<Rightarrow> 'k world \<Rightarrow> 'k transfer_plan res" where
  "plan_running count avail p w =
     (if running p
      then let p1 = (if \<not> wait_for_avail_min p \<and> count > avail then p\<lparr>wait_for_avail_min := True\<rparr> else p)
           in if wait_for_avail_min p1 \<and> sint avail < avail_min (config p1)
              then let p2 = p1\<lparr>wait_for_avail_min := False\<rparr>
                   in if has (flags p2) PCM_NOIRQ
                      then if noirq_frames_per_msec p2 = 0 then Inl DivByZero
                           else Inr (Wait (sint ((of_int (avail_min (config p2)) - avail)
                                        div noirq_frames_per_msec p2)) p2 w)
                      else Inr (Wait (-1) p2 w)
              else Inr (plan_copy count avail p1 w)
      else Inr (plan_copy count avail p w))"

definition plan_transfer ::
    "'k pcm_kernel \<Rightarrow> int \<Rightarrow> u32 \<Rightarrow> pcm \<Rightarrow> 'k world \<Rightarrow> 'k transfer_plan res" where
  "plan_transfer K err count p w =
     bindE (pcm_avail_update K p w) (\<lambda>(avail, p1, w1).
       if sint avail < 0 then Inr (Return err p1 w1)
       else if \<not> running p1 \<and> buffer_size p1 - avail \<ge> start_threshold (config p1)
       then let (s, p2, w2) = pcm_start K p1 w1
            in if s < 0 then Inr (Return (- errno w2) p2 w2)
               else plan_running count avail (p2\<lparr>wait_for_avail_min := False\<rparr>) w2
       else plan_running count avail p1 w1)"

text \<open>After a failed wait the stream is stopped and the application pointer set to 0.\<close>

definition wait_failed :: "'k pcm_kernel \<Rightarrow> int \<Rightarrow> pcm \<Rightarrow> 'k world \<Rightarrow> (pcm \<times> 'k world) res" where
  "wait_failed K err p w =
     (let p1 = pcm_fail K w err (''wait error'' @ nl) (p\<lparr>prepared := False, running := False\<rparr>)
      in bindE (load_control K p1 w) (\<lambda>c. store_control K (c\<lparr>appl_ptr := 0\<rparr>) p1 w))"

partial_function (option) mmap_transfer_loop ::
    "'k pcm_kernel \<Rightarrow> u8 list \<Rightarrow> int \<Rightarrow> u32 \<Rightarrow> u32 \<Rightarrow> pcm \<Rightarrow> 'k world
      \<Rightarrow> (int \<times> u8 list \<times> pcm \<times> 'k world) res option" where
  "mmap_transfer_loop K buf err offset count p w =
     (if count = 0 then Some (Inr (0, buf, p, w))
      else case plan_transfer K err count p w of
             Inl f \<Rightarrow> Some (Inl f)
           | Inr (Return r p1 w1) \<Rightarrow> Some (Inr (r, buf, p1, w1))
           | Inr (Wait timeout p1 w1) \<Rightarrow>
               (case pcm_wait K timeout p1 w1 of
                  None \<Rightarrow> None
                | Some (Inl f) \<Rightarrow> Some (Inl f)
                | Some (Inr (err', p2, w2)) \<Rightarrow>
                    if err' < 0
                    then Some (bindE (wait_failed K err' p2 w2) (\<lambda>(p3, w3). Inr (err', buf, p3, w3)))
                    else mmap_transfer_loop K buf err' offset count p2 w2)
           | Inr (Copy frames p1 w1) \<Rightarrow>
               if frames = 0 then Some (Inr (0, buf, p1, w1))
               else (case pcm_mmap_transfer_areas K buf offset frames p1 w1 of
                       None \<Rightarrow> None
                     | Some (Inl f) \<Rightarrow> Some (Inl f)
                     | Some (Inr (n, buf', p2, w2)) \<Rightarrow>
                         if n < 0 then Some (Inr (n, buf', p2, w2))
                         else mmap_transfer_loop K buf' err (offset + of_int n) (count - of_int n) p2 w2))"

definition pcm_mmap_transfer ::
    "'k pcm_kernel \<Rightarrow> u8 list \<Rightarrow> u32 \<Rightarrow> pcm \<Rightarrow> 'k world
      \<Rightarrow> (int \<times> u8 list \<times> pcm \<times> 'k world) res option" where
  "pcm_mmap_transfer K buf bytes p w =
     (if bytes = 0 then Some (Inr (0, buf, p, w))
      else case pcm_bytes_to_frames p bytes of
             Inl f \<Rightarrow> Some (Inl f)
           | Inr count \<Rightarrow> mmap_transfer_loop K buf 0 0 count p w)"

definition pcm_mmap_write ::
    "'k pcm_kernel \<Rightarrow> u8 list \<Rightarrow> u32 \<Rightarrow> pcm \<Rightarrow> 'k world
      \<Rightarrow> (int \<times> u8 list \<times> pcm \<times> 'k world) res option" where
  "pcm_mmap_write K buf count p w =
     (if has (NOT (flags p)) (PCM_OUT OR PCM_MMAP) then Some (Inr (- ENOSYS, buf, p, w))
      else pcm_mmap_transfer K buf count p w)"

definition pcm_mmap_read ::
    "'k pcm_kernel \<Rightarrow> u8 list \<Rightarrow> u32 \<Rightarrow> pcm \<Rightarrow> 'k world
      \<Rightarrow> (int \<times> u8 list \<times> pcm \<times> 'k world) res option" where
  "pcm_mmap_read K buf count p w =
     (if has (NOT (flags p)) (PCM_IN OR PCM_MMAP) then Some (Inr (- ENOSYS, buf, p, w))
      else pcm_mmap_transfer K buf count p w)"

section \<open>Other requests\<close>

text \<open>\<open>io\<close> is the \<^verbatim>\<open>ioctl\<close> of the platform for a request number and its argument.\<close>

definition pcm_ioctl ::
    "(int \<Rightarrow> int \<Rightarrow> 'a \<Rightarrow> 'k \<Rightarrow> sysret \<times> 'k) \<Rightarrow> pcm \<Rightarrow> int \<Rightarrow> 'a \<Rightarrow> 'k world \<Rightarrow> int \<times> 'k world" where
  "pcm_ioctl io p request arg w =
     (if \<not> pcm_is_ready p then (-1, w) else sys (io (fd p) request arg (kst w)) w)"

end
