(* ===== verification/PcmStream.thy ===== *)
theory PcmStream
  imports Pcm
begin

text \<open>
  Properties of opening, closing and of the transfers by read and write. The descriptors of the
  process are observed through a function \<open>fds\<close> of the kernel's state; \<open>tracks\<close> states what the
  system calls do to them.
\<close>

section \<open>Descriptors\<close>

definition tracks :: "'k pcm_kernel \<Rightarrow> ('k \<Rightarrow> int set) \<Rightarrow> bool" where
  "tracks K fds \<longleftrightarrow>
     (\<forall>fn k. case k_open K fn k of
        (SysErr e, k') \<Rightarrow> fds k' = fds k
      | (SysOk n, k') \<Rightarrow> int n \<notin> fds k \<and> fds k' = insert (int n) (fds k))
   \<and> (\<forall>d k. fds (snd (k_close K d k)) = fds k - {d})
   \<and> (\<forall>k. fds (snd (k_calloc K k)) = fds k)
   \<and> (\<forall>d k. fds (snd (k_info K d k)) = fds k)
   \<and> (\<forall>d q k. fds (snd (snd (k_hw_refine K d q k))) = fds k)
   \<and> (\<forall>d q k. fds (snd (snd (k_hw_params K d q k))) = fds k)
   \<and> (\<forall>d q k. fds (snd (k_sw_params K d q k)) = fds k)
   \<and> (\<forall>d a k. fds (snd (k_ttstamp K d a k)) = fds k)
   \<and> (\<forall>d r n k. fds (snd (k_mmap K d r n k)) = fds k)
   \<and> (\<forall>r n k. fds (snd (k_munmap K r n k)) = fds k)
   \<and> (\<forall>d q k. fds (snd (snd (k_sync_ptr K d q k))) = fds k)
   \<and> (\<forall>c k. fds (k_set_control K c k) = fds k)
   \<and> (\<forall>d k. fds (snd (k_drop K d k)) = fds k)"

lemma tracks_same:
  assumes "tracks K fds"
  shows "fds (snd (k_calloc K k)) = fds k" "fds (snd (k_info K d k)) = fds k"
    "fds (snd (snd (k_hw_refine K d q k))) = fds k" "fds (snd (snd (k_hw_params K d q k))) = fds k"
    "fds (snd (k_sw_params K d sw k)) = fds k" "fds (snd (k_ttstamp K d a k)) = fds k"
    "fds (snd (k_mmap K d r n k)) = fds k" "fds (snd (k_munmap K r n k)) = fds k"
    "fds (snd (snd (k_sync_ptr K d sp k))) = fds k" "fds (k_set_control K c k) = fds k"
    "fds (snd (k_drop K d k)) = fds k" "fds (snd (k_close K d k)) = fds k - {d}"
  using assms by (simp_all add: tracks_def)

lemma tracks_open:
  assumes "tracks K fds"
  obtains (fail) e k' where "k_open K fn k = (SysErr e, k')" "fds k' = fds k"
  | (ok) n k' where "k_open K fn k = (SysOk n, k')" "int n \<notin> fds k" "fds k' = insert (int n) (fds k)"
proof -
  obtain r k' where rk: "k_open K fn k = (r, k')" by (rule prod.exhaust)
  have "case k_open K fn k of (SysErr e, k') \<Rightarrow> fds k' = fds k
    | (SysOk n, k') \<Rightarrow> int n \<notin> fds k \<and> fds k' = insert (int n) (fds k)"
    by (rule spec [OF spec [OF conjunct1 [OF assms [unfolded tracks_def]]]])
  then show ?thesis using that rk by (cases r) simp_all
qed

lemma fds_step: "sys rk w = (r, w1) \<Longrightarrow> fds (kst w1) = fds (snd rk)"
  by (metis kst_sys snd_conv)

lemma fds_sync_ptr:
  assumes "tracks K fds" and "pcm_sync_ptr K fl p w = (r, p', w')"
  shows "fds (kst w') = fds (kst w) \<and> fd p' = fd p \<and> flags p' = flags p"
proof (cases "sync_ptr p")
  case None
  then show ?thesis using assms(2) by (simp add: pcm_sync_ptr_def)
next
  case (Some sp)
  obtain rr sp' k' where k: "k_sync_ptr K (fd p) (sp\<lparr>sflags := fl\<rparr>) (kst w) = (rr, sp', k')" by (rule prod_cases3)
  have "fds k' = fds (kst w)"
    using tracks_same(9) [OF assms(1), of "fd p" "sp\<lparr>sflags := fl\<rparr>" "kst w"] by (simp add: k)
  moreover have "p' = p\<lparr>sync_ptr := Some sp'\<rparr>" "w' = snd (sys (rr, k') w)"
    using assms(2) by (simp_all add: pcm_sync_ptr_def Some k split_beta)
  ultimately show ?thesis by simp
qed

lemma fds_fallback:
  assumes "tracks K fds" and "mmap_fallback K p w = (r, p', w')"
  shows "fds (kst w') = fds (kst w) \<and> fd p' = fd p \<and> flags p' = flags p"
proof -
  obtain ok k' where k: "k_calloc K (kst w) = (ok, k')" by (cases "k_calloc K (kst w)") auto
  have k': "fds k' = fds (kst w)" using tracks_same(1) [OF assms(1), of "kst w"] by (simp add: k)
  show ?thesis
  proof (cases ok)
    case False
    then have "mmap_fallback K p w = (- ENOMEM, p, w\<lparr>kst := k'\<rparr>)"
      unfolding mmap_fallback_def k Let_def prod.case by (simp only: not_False_eq_True if_True)
    then show ?thesis using assms(2) k' by auto
  next
    case True
    let ?sp = "zero_sync_ptr\<lparr>c_control := set_avail_min_field p (c_control zero_sync_ptr)\<rparr>"
    let ?p1 = "p\<lparr>sync_ptr := Some ?sp, mmap_status := In_sync_ptr, mmap_control := In_sync_ptr\<rparr>"
    obtain r2 p2 w2 where s: "pcm_sync_ptr K 0 ?p1 (w\<lparr>kst := k'\<rparr>) = (r2, p2, w2)" by (rule prod_cases3)
    have "mmap_fallback K p w = (0, p2, w2)"
      unfolding mmap_fallback_def k Let_def prod.case s by (simp only: True not_True_eq_False if_False)
    then have "p' = p2" "w' = w2" using assms(2) by simp_all
    then show ?thesis using fds_sync_ptr [OF assms(1) s] k' by simp
  qed
qed

lemma fds_mmap_status:
  assumes "tracks K fds" and "pcm_hw_mmap_status K p w = (r, p', w')"
  shows "fds (kst w') = fds (kst w) \<and> fd p' = fd p \<and> flags p' = flags p"
proof (cases "sync_ptr p")
  case (Some sp)
  then show ?thesis using assms(2) by (simp add: pcm_hw_mmap_status_def)
next
  case None
  obtain r1 w1 where 1: "sys (k_mmap K (fd p) Region_status (k_page_size K) (kst w)) w = (r1, w1)" by (rule prod.exhaust)
  have w1: "fds (kst w1) = fds (kst w)"
    using fds_step [OF 1, where fds = fds] tracks_same(7) [OF assms(1)] by simp
  obtain r2 w2 where 2: "sys (k_mmap K (fd p) Region_control (k_page_size K) (kst w1)) w1 = (r2, w2)" by (rule prod.exhaust)
  have w2: "fds (kst w2) = fds (kst w)"
    using fds_step [OF 2, where fds = fds] tracks_same(7) [OF assms(1)] by (simp add: w1)
  obtain r3 w3 where 3: "sys (k_munmap K Region_status (k_page_size K) (kst w2)) w2 = (r3, w3)" by (rule prod.exhaust)
  have w3: "fds (kst w3) = fds (kst w)"
    using fds_step [OF 3, where fds = fds] tracks_same(8) [OF assms(1)] by (simp add: w2)
  consider (first) "mmap_fallback K (p\<lparr>mmap_status := Null_page\<rparr>) w1 = (r, p', w')"
    | (second) "mmap_fallback K (p\<lparr>mmap_status := Null_page, mmap_control := Null_page\<rparr>) w3 = (r, p', w')"
    | (both) "p' = p\<lparr>mmap_status := Mapped_page, mmap_control := Mapped_page\<rparr>"
        "w' = w2\<lparr>kst := k_set_control K (set_avail_min_field p (k_control K (kst w2))) (kst w2)\<rparr>"
    using assms(2) None 1 2 3 by (auto simp: pcm_hw_mmap_status_def Let_def split: if_splits)
  then show ?thesis
  proof cases
    case first
    from fds_fallback [OF assms(1) this] w1 show ?thesis by simp
  next
    case second
    from fds_fallback [OF assms(1) this] w3 show ?thesis by simp
  next
    case both
    then show ?thesis using w2 tracks_same(10) [OF assms(1)] by simp
  qed
qed

text \<open>The two ends of an open: a stream that is ready keeps its descriptor, any other has closed it.\<close>

definition settled :: "('k \<Rightarrow> int set) \<Rightarrow> pcm \<Rightarrow> 'k world \<Rightarrow> pcm \<times> 'k world \<Rightarrow> bool" where
  "settled fds p w pw \<longleftrightarrow>
     (fd (fst pw) = fd p \<and> fds (kst (snd pw)) = fds (kst w))
   \<or> (fd (fst pw) = -1 \<and> fds (kst (snd pw)) = fds (kst w) - {fd p})"

lemma settled_trans:
  "fd q = fd p \<Longrightarrow> fds (kst w1) = fds (kst w) \<Longrightarrow> settled fds q w1 pw \<Longrightarrow> settled fds p w pw"
  by (simp add: settled_def)

lemma settled_fail_close:
  assumes "tracks K fds"
  shows "settled fds p w (open_fail_close K p w)"
  using tracks_same(12) [OF assms] by (simp add: settled_def open_fail_close_def sys_def)

lemma settled_fail:
  assumes "tracks K fds"
  shows "settled fds p w (open_fail K p w)"
proof -
  have "fds (kst (snd (sys (k_munmap K Region_data (pcm_frames_to_bytes p (buffer_size p)) (kst w)) w))) = fds (kst w)"
    using tracks_same(8) [OF assms] by simp
  then show ?thesis
    unfolding open_fail_def Let_def
    by (intro settled_trans [OF refl _ settled_fail_close [OF assms]]) simp
qed

lemma settled_finish:
  assumes "tracks K fds"
  shows "settled fds p w (open_finish K sp p w)"
proof -
  obtain r w1 where 1: "sys (k_sw_params K (fd p) sp (kst w)) w = (r, w1)" by (rule prod.exhaust)
  have w1: "fds (kst w1) = fds (kst w)"
    using fds_step [OF 1, where fds = fds] tracks_same(5) [OF assms] by simp
  obtain rc p2 w2 where 2: "pcm_hw_mmap_status K p w1 = (rc, p2, w2)" by (rule prod_cases3)
  have p2: "fds (kst w2) = fds (kst w)" "fd p2 = fd p" using fds_mmap_status [OF assms 2] w1 by simp_all
  obtain r3 w3 where 3: "sys (k_ttstamp K (fd p2) 1 (kst w2)) w2 = (r3, w3)" by (rule prod.exhaust)
  have w3: "fds (kst w3) = fds (kst w)"
    using fds_step [OF 3, where fds = fds] tracks_same(6) [OF assms] p2 by simp
  have fail: "settled fds p w (open_fail K (pcm_fail K u e msg q) v)"
    if "fd q = fd p" "fds (kst v) = fds (kst w)" for u e msg q v
    by (rule settled_trans [OF _ that(2) settled_fail [OF assms]]) (simp add: that(1))
  have good: "settled fds p w (p2\<lparr>underruns := 0\<rparr>, w2)" "settled fds p w (p2\<lparr>underruns := 0\<rparr>, w3)"
    using p2 w3 by (simp_all add: settled_def)
  show ?thesis
    unfolding open_finish_def 1 2 3 Let_def prod.case
    using good fail [OF refl w1] fail [OF p2(2,1)] fail [OF p2(2) w3] by simp
qed

lemma open_thresholds_fields:
  "open_thresholds c p = (sp, p') \<Longrightarrow> fd p' = fd p \<and> flags p' = flags p \<and> buffer_size p' = buffer_size p
    \<and> boundary p' = buffer_size p"
  by (auto simp: open_thresholds_def Let_def split: prod.splits)

lemma settled_mapped:
  assumes "tracks K fds" and "open_mapped K c p w = Some pw"
  shows "settled fds p w pw"
proof -
  obtain sp p1 where t: "open_thresholds c p = (sp, p1)" by (rule prod.exhaust)
  obtain b where "pw = open_finish K sp (p1\<lparr>boundary := b\<rparr>) w"
    using assms(2) by (auto simp: open_mapped_def t split: option.splits)
  then show ?thesis
    using settled_trans [OF _ refl settled_finish [OF assms(1)], of "p1\<lparr>boundary := b\<rparr>" p]
      open_thresholds_fields [OF t] by simp
qed

lemma settled_map:
  assumes "tracks K fds" and "open_map K c p w = Some pw"
  shows "settled fds p w pw"
proof (cases "has (flags p) PCM_MMAP")
  case False
  then show ?thesis using assms settled_mapped by (simp add: open_map_def)
next
  case True
  let ?n = "pcm_frames_to_bytes p (buffer_size p)"
  obtain r w1 where 1: "sys (k_mmap K (fd p) Region_data ?n (kst w)) w = (r, w1)" by (rule prod.exhaust)
  have w1: "fds (kst w1) = fds (kst w)"
    using fds_step [OF 1, where fds = fds] tracks_same(7) [OF assms(1)] by simp
  show ?thesis
  proof (cases "r < 0")
    case True
    with \<open>has _ _\<close> 1 assms(2) obtain q where "pw = open_fail_close K q w1" "fd q = fd p"
      by (auto simp: open_map_def)
    then show ?thesis using settled_trans [OF _ w1 settled_fail_close [OF assms(1)], of q p] by simp
  next
    case False
    with \<open>has _ _\<close> 1 assms(2) have "open_mapped K c (p\<lparr>mmap_buffer := Mapped_buf\<rparr>) w1 = Some pw"
      by (simp add: open_map_def)
    from settled_trans [OF _ w1 settled_mapped [OF assms(1) this]] show ?thesis by simp
  qed
qed

lemma settled_configure:
  assumes "tracks K fds" and "open_configure K fl c p w = Some (pw, c')"
  shows "settled fds p w pw"
proof -
  obtain r1 w1 where 1: "sys (k_info K (fd p) (kst w)) w = (r1, w1)" by (rule prod.exhaust)
  have w1: "fds (kst w1) = fds (kst w)"
    using fds_step [OF 1, where fds = fds] tracks_same(2) [OF assms(1)] by simp
  define p1 where "p1 = (if has fl PCM_NOIRQ then p\<lparr>noirq_frames_per_msec := rate c div 1000\<rparr> else p)"
  have p1: "fd p1 = fd p" by (simp add: p1_def)
  obtain r q k where hw: "k_hw_params K (fd p1) (open_params fl c) (kst w1) = (r, q, k)" by (rule prod_cases3)
  obtain r2 w2 where 2: "sys (r, k) w1 = (r2, w2)" by (rule prod.exhaust)
  have w2: "fds (kst w2) = fds (kst w)"
    using fds_step [OF 2, where fds = fds] tracks_same(4) [OF assms(1), of "fd p1" "open_params fl c" "kst w1"] w1
    by (simp add: hw)
  define cc where "cc = c\<lparr>period_size := param_get_int SNDRV_PCM_HW_PARAM_PERIOD_SIZE q,
    period_count := param_get_int SNDRV_PCM_HW_PARAM_PERIODS q\<rparr>"
  have eq: "open_configure K fl c p w =
    (if r1 \<noteq> 0 then Some (open_fail_close K (pcm_fail K w1 (errno w1) ''cannot get info'' p) w1, c)
     else if has fl PCM_NOIRQ \<and> \<not> has fl PCM_MMAP
     then Some (open_fail K (pcm_fail K w1 (- EINVAL) ''noirq only currently supported with mmap().'' p) w1, c)
     else if r2 \<noteq> 0
     then Some (open_fail_close K (pcm_fail K w2 (errno w2) ''cannot set hw params'' p1) w2, c)
     else map_option (\<lambda>pw. (pw, cc)) (open_map K cc (p1\<lparr>buffer_size := period_count cc * period_size cc\<rparr>) w2))"
    unfolding open_configure_def 1 prod.case Let_def p1_def [symmetric] hw 2 cc_def ..
  consider (info) q' where "pw = open_fail_close K q' w1" "fd q' = fd p"
    | (noirq) q' where "pw = open_fail K q' w1" "fd q' = fd p"
    | (hwp) q' where "pw = open_fail_close K q' w2" "fd q' = fd p"
    | (map) "open_map K cc (p1\<lparr>buffer_size := period_count cc * period_size cc\<rparr>) w2 = Some pw"
    using assms(2) p1 unfolding eq by (auto split: if_splits)
  then show ?thesis
  proof cases
    case info
    then show ?thesis using settled_trans [OF _ w1 settled_fail_close [OF assms(1)], of q' p] by simp
  next
    case noirq
    then show ?thesis using settled_trans [OF _ w1 settled_fail [OF assms(1)], of q' p] by simp
  next
    case hwp
    then show ?thesis using settled_trans [OF _ w2 settled_fail_close [OF assms(1)], of q' p] by simp
  next
    case map
    from settled_trans [OF _ w2 settled_map [OF assms(1) map]] p1 show ?thesis by simp
  qed
qed

lemma fds_munmap_status:
  assumes "tracks K fds" and "pcm_hw_munmap_status K p w = (p', w')"
  shows "fds (kst w') = fds (kst w) \<and> fd p' = fd p \<and> flags p' = flags p"
  using assms(2) tracks_same(8) [OF assms(1)]
  by (auto simp: pcm_hw_munmap_status_def Let_def split: if_splits)

lemma fds_stop:
  assumes "tracks K fds" and "pcm_stop K p w = (r, p', w')"
  shows "fds (kst w') = fds (kst w) \<and> fd p' = fd p"
proof -
  obtain r1 w1 where 1: "sys (k_drop K (fd p) (kst w)) w = (r1, w1)" by (rule prod.exhaust)
  have "fds (kst w1) = fds (kst w)"
    using fds_step [OF 1, where fds = fds] tracks_same(11) [OF assms(1)] by simp
  then show ?thesis using assms(2) by (auto simp: pcm_stop_def 1 split: if_splits)
qed

lemma fds_close:
  assumes "tracks K fds"
  shows "fds (kst (snd (pcm_close K (Some p) w))) = (if pcm_is_ready p then fds (kst w) - {fd p} else fds (kst w))"
proof -
  obtain p1 w1 where 1: "pcm_hw_munmap_status K p w = (p1, w1)" by (rule prod.exhaust)
  have p1: "fds (kst w1) = fds (kst w)" "fd p1 = fd p" using fds_munmap_status [OF assms 1] by simp_all
  obtain r p' w' where 2: "pcm_stop K p1 w1 = (r, p', w')" by (rule prod_cases3)
  have p': "fds (kst w') = fds (kst w)" "fd p' = fd p" using fds_stop [OF assms 2] p1 by simp_all
  define w2 where "w2 = snd (sys (k_munmap K Region_data (pcm_frames_to_bytes p' (buffer_size p')) (kst w')) w')"
  have w2: "fds (kst w2) = fds (kst w)" using tracks_same(8) [OF assms] p' by (simp add: w2_def)
  have "pcm_close K (Some p) w = (0,
    if has (flags p1) PCM_MMAP
    then if 0 \<le> fd p' then snd (sys (k_close K (fd p') (kst w2)) w2) else w2
    else if 0 \<le> fd p1 then snd (sys (k_close K (fd p1) (kst w1)) w1) else w1)"
    by (simp add: pcm_close_def 1 2 w2_def Let_def)
  then show ?thesis
    using p1 p' w2 tracks_same(12) [OF assms] by (simp add: pcm_is_ready_def)
qed

section \<open>A kernel to evaluate the witnesses on\<close>

text \<open>
  It grants every request, except that the results of the transfers come from a script while it
  lasts; the pages and the buffer are plain state.
\<close>

record demo =
  d_fds :: "int list"
  d_script :: "sysret list"
  d_status :: snd_pcm_mmap_status
  d_control :: snd_pcm_mmap_control
  d_buf :: "u8 list"

definition d_next :: "demo \<Rightarrow> sysret \<times> demo" where
  "d_next k = (case d_script k of [] \<Rightarrow> (SysOk 0, k) | r # rs \<Rightarrow> (r, k\<lparr>d_script := rs\<rparr>))"

definition d_fresh :: "demo \<Rightarrow> nat" where
  "d_fresh k = nat (fold max (d_fds k) 2) + 1"

definition demo_kernel :: "demo pcm_kernel" where
  "demo_kernel =
     \<lparr>k_calloc = \<lambda>k. (True, k),
      k_open = \<lambda>fn k. (SysOk (d_fresh k), k\<lparr>d_fds := int (d_fresh k) # d_fds k\<rparr>),
      k_close = \<lambda>d k. (SysOk 0, k\<lparr>d_fds := removeAll d (d_fds k)\<rparr>),
      k_info = \<lambda>d k. (SysOk 0, k),
      k_hw_refine = \<lambda>d q k. (SysOk 0, q, k),
      k_hw_params = \<lambda>d q k. (SysOk 0, param_set_int 13 (param_get_min 13 q) q, k),
      k_sw_params = \<lambda>d q k. (SysOk 0, k),
      k_ttstamp = \<lambda>d a k. (SysOk 0, k),
      k_mmap = \<lambda>d r n k. (SysOk 0, k),
      k_munmap = \<lambda>r n k. (SysOk 0, k),
      k_prepare = \<lambda>d k. (SysOk 0, k),
      k_start = \<lambda>d k. (SysOk 0, k),
      k_drop = \<lambda>d k. (SysOk 0, k),
      k_writei = \<lambda>d b n k. d_next k,
      k_readi = \<lambda>d b n k. (case d_next k of (r, k') \<Rightarrow> (r, b, k')),
      k_sync_ptr = \<lambda>d s k. (SysOk 0, s, k),
      k_poll = \<lambda>d t k. (case d_next k of (r, k') \<Rightarrow> (r, 4, k')),
      k_status = \<lambda>k. (d_status k, k),
      k_control = d_control,
      k_set_control = \<lambda>c k. k\<lparr>d_control := c\<rparr>,
      k_buf = d_buf,
      k_set_buf = \<lambda>b k. k\<lparr>d_buf := b\<rparr>,
      k_page_size = 4096,
      k_strerror = \<lambda>e. ''error''\<rparr>"

definition demo_world :: "sysret list \<Rightarrow> demo world" where
  "demo_world script = \<lparr>kst = \<lparr>d_fds = [0, 1, 2], d_script = script,
     d_status = \<lparr>sstate = 3, hw_ptr = 0, tstamp = (0, 0)\<rparr>, d_control = \<lparr>appl_ptr = 0, ctl_avail_min = 0\<rparr>,
     d_buf = replicate 64 0\<rparr>, errno = 0\<rparr>"

definition demo_config :: pcm_config where
  "demo_config = zero_config\<lparr>channels := 2, rate := 48000, period_size := 4, period_count := 2\<rparr>"

lemma fold_max_ge: "x \<in> set xs \<or> x \<le> a \<Longrightarrow> x \<le> fold max xs (a :: int)"
proof (induction xs arbitrary: a)
  case (Cons y ys)
  from Cons.prems have "x \<in> set ys \<or> x \<le> max y a" by auto
  from Cons.IH [OF this] show ?case by (simp only: fold_simps)
qed simp

lemma demo_tracks: "tracks demo_kernel (\<lambda>k. set (d_fds k))"
proof -
  have "int (d_fresh k) \<notin> set (d_fds k)" for k
    using fold_max_ge [of _ "d_fds k" 2] fold_max_ge [of 2 "d_fds k" 2] by (force simp: d_fresh_def)
  then show ?thesis by (auto simp: tracks_def demo_kernel_def)
qed

section \<open>Properties\<close>

text \<open>
  C34: no descriptor leaks through an open, whatever call fails: a stream that is ready owns exactly
  one new descriptor, any other stream has given it back, and \<^verbatim>\<open>pcm_close\<close> restores the set of open
  descriptors that the process had before.
\<close>

theorem pcm_open_close_balanced:
  assumes "tracks K fds" and "pcm_open K crd device fl conf w = Some (po, conf', w')"
  shows "(case po of
      None \<Rightarrow> fds (kst w') = fds (kst w)
    | Some p \<Rightarrow> if pcm_is_ready p then fd p \<notin> fds (kst w) \<and> fds (kst w') = insert (fd p) (fds (kst w))
               else fds (kst w') = fds (kst w))
    \<and> fds (kst (snd (pcm_close K po w'))) = fds (kst w)"
proof -
  obtain ok k0 where 0: "k_calloc K (kst w) = (ok, k0)" by (rule prod.exhaust)
  have k0: "fds k0 = fds (kst w)" using tracks_same(1) [OF assms(1), of "kst w"] by (simp add: 0)
  define fn where "fn = pcm_device_name crd device fl"
  obtain r1 w1 where 1: "sys (k_open K fn k0) (w\<lparr>kst := k0\<rparr>) = (r1, w1)" by (rule prod.exhaust)
  show ?thesis
  proof (cases "if ok then conf else None")
    case None
    then have "po = None" "w' = w\<lparr>kst := k0\<rparr>"
      using assms(2) unfolding pcm_open_def 0 prod.case Let_def by simp_all
    then show ?thesis using k0 by (simp add: pcm_close_def)
  next
    case (Some c)
    define p where "p = zero_pcm\<lparr>config := c, flags := fl, fd := r1\<rparr>"
    have eq: "pcm_open K crd device fl conf w =
      (if r1 < 0
       then Some (Some (pcm_fail K w1 (errno w1) (''cannot open device '' @ [CHR 0x27] @ fn @ [CHR 0x27]) p), Some c, w1)
       else map_option (\<lambda>((p', w'), c'). (Some p', Some c', w')) (open_configure K fl c p w1))"
      using 1 unfolding pcm_open_def 0 prod.case Let_def Some option.case
      by (simp only: world.select_convs fn_def [symmetric] prod.case p_def) simp
    from assms(1) show ?thesis
    proof (cases rule: tracks_open [where fn = fn and k = k0])
      case (fail e k')
      then have r1: "r1 = -1" "fds (kst w1) = fds (kst w)" using 1 k0 by auto
      then obtain q where "po = Some q" "fd q = -1" "w' = w1" using assms(2) eq by (auto simp: p_def)
      then show ?thesis using r1 fds_close [OF assms(1), of q w1] by (simp add: pcm_is_ready_def)
    next
      case (ok n k')
      then have r1: "r1 = int n" "fds (kst w1) = insert (int n) (fds (kst w))" "int n \<notin> fds (kst w)"
        using 1 k0 by auto
      then obtain q c' where q: "po = Some q" "open_configure K fl c p w1 = Some ((q, w'), c')"
        using assms(2) eq by auto
      have "settled fds p w1 (q, w')" by (rule settled_configure [OF assms(1) q(2)])
      moreover have "fd p = int n" using r1(1) by (simp add: p_def)
      ultimately have "fd q = int n \<and> fds (kst w') = insert (int n) (fds (kst w))
        \<or> fd q = -1 \<and> fds (kst w') = fds (kst w)"
        using r1 by (auto simp: settled_def)
      then show ?thesis
        using q(1) r1(3) fds_close [OF assms(1), of q w'] by (auto simp: pcm_is_ready_def)
    qed
  qed
qed

lemma demo_request:
  "param_get_int 13 (param_set_int 13 (param_get_min 13 (open_params PCM_IN demo_config)) (open_params PCM_IN demo_config)) = 4"
  "param_get_int 15 (param_set_int 13 (param_get_min 13 (open_params PCM_IN demo_config)) (open_params PCM_IN demo_config)) = 2"
  by code_simp+

lemma demo_boundary: "\<exists>b. boundary_loop 8 8 = Some b"
  using boundary_loop_ok [of 8 8] by auto

lemma demo_kernel_simps [simp]:
  "k_calloc demo_kernel k = (True, k)" "k_info demo_kernel d k = (SysOk 0, k)"
  "k_open demo_kernel fn k = (SysOk (d_fresh k), k\<lparr>d_fds := int (d_fresh k) # d_fds k\<rparr>)"
  "k_hw_params demo_kernel d q k = (SysOk 0, param_set_int 13 (param_get_min 13 q) q, k)"
  "k_sw_params demo_kernel d sp k = (SysOk 0, k)" "k_mmap demo_kernel d r n k = (SysOk 0, k)"
  "k_set_control demo_kernel c k = k\<lparr>d_control := c\<rparr>"
  "k_prepare demo_kernel d k = (SysOk 0, k)" "k_start demo_kernel d k = (SysOk 0, k)"
  "k_writei demo_kernel d b fr k = d_next k" "k_sync_ptr demo_kernel d s k = (SysOk 0, s, k)"
  "k_readi demo_kernel d b fr k = (case d_next k of (r, k') \<Rightarrow> (r, b, k'))"
  "k_status demo_kernel k = (d_status k, k)" "k_control demo_kernel = d_control"
  "k_buf demo_kernel = d_buf" "k_set_buf demo_kernel b k = k\<lparr>d_buf := b\<rparr>"
  by (simp_all add: demo_kernel_def)

lemma demo_open:
  "\<exists>p c w'. pcm_open demo_kernel 1 0 PCM_IN (Some demo_config) (demo_world []) = Some (Some p, c, w')
    \<and> d_fds (kst w') = [3, 0, 1, 2]"
proof -
  have fresh: "d_fresh (kst (demo_world [])) = 3" by code_simp
  have flags: "\<not> has PCM_IN PCM_NOIRQ" "\<not> has PCM_IN PCM_MMAP" "\<not> has PCM_IN PCM_MONOTONIC" by code_simp+
  define p where "p = zero_pcm\<lparr>config := demo_config, flags := PCM_IN, fd := 3\<rparr>"
  define c where "c = demo_config\<lparr>period_size := 4, period_count := 2\<rparr>"
  obtain b where b: "boundary_loop 8 8 = Some b" using demo_boundary by blast
  obtain sp p1 where t: "open_thresholds c (p\<lparr>buffer_size := 8\<rparr>) = (sp, p1)" by (rule prod.exhaust)
  note p1 = open_thresholds_fields [OF t]
  have sync: "sync_ptr p1 = None"
    using t by (auto simp: open_thresholds_def Let_def p_def zero_pcm_def split: prod.splits)
  have fin: "\<exists>q w'. open_finish demo_kernel sp (p1\<lparr>boundary := b\<rparr>) w = (q, w') \<and> d_fds (kst w') = d_fds (kst w)" for w
    using flags p1 sync by (simp add: open_finish_def pcm_hw_mmap_status_def Let_def p_def)
  have conf: "\<exists>q w'. open_configure demo_kernel PCM_IN demo_config p w = Some ((q, w'), c) \<and> d_fds (kst w') = d_fds (kst w)" for w
    using flags p1 b t demo_request fin
    by (simp add: open_configure_def p_def c_def open_map_def open_mapped_def)
  let ?w = "demo_world []\<lparr>kst := kst (demo_world [])\<lparr>d_fds := [3, 0, 1, 2]\<rparr>\<rparr>"
  obtain q w' where q: "open_configure demo_kernel PCM_IN demo_config p ?w = Some ((q, w'), c)"
    "d_fds (kst w') = [3, 0, 1, 2]" using conf [of ?w] by auto
  then have "pcm_open demo_kernel 1 0 PCM_IN (Some demo_config) (demo_world []) = Some (Some q, Some c, w')"
    using fresh by (simp add: pcm_open_def Let_def p_def demo_world_def)
  with q(2) show ?thesis by blast
qed

theorem pcm_open_close_balanced_witness:
  "\<exists>p c w'. pcm_open demo_kernel 1 0 PCM_IN (Some demo_config) (demo_world []) = Some (Some p, c, w')
    \<and> set (d_fds (kst w')) = {0, 1, 2, 3}
    \<and> set (d_fds (kst (snd (pcm_close demo_kernel (Some p) w')))) = {0, 1, 2}"
proof -
  obtain p c w' where o: "pcm_open demo_kernel 1 0 PCM_IN (Some demo_config) (demo_world []) = Some (Some p, c, w')"
    and w': "d_fds (kst w') = [3, 0, 1, 2]"
    using demo_open by blast
  show ?thesis
    using pcm_open_close_balanced [OF demo_tracks o] o w' by (auto simp: demo_world_def)
qed

definition demo_stream :: "u32 \<Rightarrow> bool \<Rightarrow> pcm" where
  "demo_stream fl run = zero_pcm\<lparr>fd := 3, flags := fl, config := demo_config, buffer_size := 8,
     boundary := 64, running := run, prepared := run\<rparr>"

lemma demo_stream_fields [simp]:
  "fd (demo_stream fl run) = 3" "flags (demo_stream fl run) = fl" "running (demo_stream fl run) = run"
  "prepared (demo_stream fl run) = run" "config (demo_stream fl run) = demo_config"
  "underruns (demo_stream fl run) = 0" "sync_ptr (demo_stream fl run) = None"
  "buffer_size (demo_stream fl run) = 8" "boundary (demo_stream fl run) = 64"
  "mmap_status (demo_stream fl run) = Null_page" "mmap_control (demo_stream fl run) = Null_page"
  by (simp_all add: demo_stream_def zero_pcm_def)

lemma demo_frames: "xfer_frames (demo_stream fl run) 8 = Inr 2"
  by (simp add: xfer_frames_def demo_config_def zero_config_def pcm_format_to_bits_def)



text \<open>
  after an underrun of a running stream without PCM_NORESTART the same data is written again
  to the stream prepared anew, and when the kernel takes it the call succeeds with one underrun counted.
\<close>

theorem pcm_write_restarts:
  assumes "\<not> has (flags p) PCM_IN" and "\<not> has (flags p) PCM_NORESTART" and "running p"
    and "xfer_frames p count = Inr n"
    and "k_writei K (fd p) buf n (kst w) = (SysErr EPIPE, k1)"
    and "k_prepare K (fd p) k1 = (SysOk a, k2)" and "k_writei K (fd p) buf n k2 = (SysOk 0, k3)"
  shows "pcm_write K buf count p w = Inr (0, p\<lparr>prepared := True, underruns := underruns p + 1\<rparr>,
    w\<lparr>kst := k3, errno := EPIPE\<rparr>)"
proof -
  let ?p = "p\<lparr>prepared := False, running := False, underruns := underruns p + 1\<rparr>"
  have "pcm_write_loop K buf n p w = pcm_write_loop K buf n ?p (w\<lparr>kst := k1, errno := EPIPE\<rparr>)"
    using assms by (simp add: pcm_write_loop.simps [of K buf n p w] Let_def)
  also have "\<dots> = (0, ?p\<lparr>prepared := True, running := True\<rparr>, w\<lparr>kst := k3, errno := EPIPE\<rparr>)"
    using assms by (simp add: pcm_write_loop.simps [of K buf n ?p] pcm_prepare_def Let_def)
  also have "?p\<lparr>prepared := True, running := True\<rparr> = p\<lparr>prepared := True, underruns := underruns p + 1\<rparr>"
    using assms(3) by simp
  finally show ?thesis using assms(1,4) by (simp add: pcm_write_def)
qed

theorem pcm_write_restarts_witness:
  "pcm_write demo_kernel [0,0,0,0,0,0,0,0] 8 (demo_stream 0 True) (demo_world [SysErr EPIPE])
    = Inr (0, (demo_stream 0 True)\<lparr>prepared := True, underruns := 1\<rparr>, (demo_world [])\<lparr>errno := EPIPE\<rparr>)"
proof -
  have "d_next (kst (demo_world [SysErr EPIPE])) = (SysErr EPIPE, kst (demo_world []))"
    "d_next (kst (demo_world [])) = (SysOk 0, kst (demo_world []))" by code_simp+
  moreover have "(demo_world [SysErr EPIPE])\<lparr>kst := kst (demo_world []), errno := EPIPE\<rparr>
    = (demo_world [])\<lparr>errno := EPIPE\<rparr>" by (simp add: demo_world_def)
  ultimately show ?thesis
    using pcm_write_restarts [of "demo_stream 0 True" 8 2 demo_kernel "[0,0,0,0,0,0,0,0]" "demo_world [SysErr EPIPE]"]
      demo_frames by (simp add: has_def)
qed

text \<open>
  under PCM_NORESTART the underrun is reported as -EPIPE and the stream is stopped; the next
  write prepares the stream and, when the kernel takes the data, restarts it.
\<close>

theorem pcm_write_norestart:
  assumes "\<not> has (flags p) PCM_IN" and "has (flags p) PCM_NORESTART" and "running p"
    and "xfer_frames p count = Inr n"
    and "k_writei K (fd p) buf n (kst w) = (SysErr EPIPE, k1)"
    and "k_prepare K (fd p) k1 = (SysOk a, k2)" and "k_writei K (fd p) buf2 n k2 = (SysOk 0, k3)"
  shows "\<exists>p1 w1. pcm_write K buf count p w = Inr (- EPIPE, p1, w1) \<and> \<not> running p1 \<and> \<not> prepared p1
    \<and> underruns p1 = underruns p + 1
    \<and> (\<exists>p2. pcm_write K buf2 count p1 w1 = Inr (0, p2, w\<lparr>kst := k3, errno := EPIPE\<rparr>) \<and> running p2 \<and> prepared p2)"
proof -
  let ?p = "p\<lparr>prepared := False, running := False, underruns := underruns p + 1\<rparr>"
  let ?w = "w\<lparr>kst := k1, errno := EPIPE\<rparr>"
  have 1: "pcm_write K buf count p w = Inr (- EPIPE, ?p, ?w)"
    using assms by (simp add: pcm_write_def pcm_write_loop.simps [of K buf n p w] Let_def)
  have "xfer_frames ?p count = Inr n" using assms(4) by (simp add: xfer_frames_def)
  then have 2: "pcm_write K buf2 count ?p ?w
      = Inr (0, ?p\<lparr>prepared := True, running := True\<rparr>, w\<lparr>kst := k3, errno := EPIPE\<rparr>)"
    using assms by (simp add: pcm_write_def pcm_write_loop.simps [of K buf2 n ?p] pcm_prepare_def Let_def)
  show ?thesis
    by (intro exI [of _ ?p] exI [of _ ?w] conjI 1 exI [of _ "?p\<lparr>prepared := True, running := True\<rparr>"] 2) simp_all
qed

theorem pcm_write_norestart_witness:
  "\<exists>p1 w1. pcm_write demo_kernel [0,0,0,0,0,0,0,0] 8 (demo_stream PCM_NORESTART True) (demo_world [SysErr EPIPE])
    = Inr (- EPIPE, p1, w1) \<and> \<not> running p1"
proof -
  have "d_next (kst (demo_world [SysErr EPIPE])) = (SysErr EPIPE, kst (demo_world []))"
    "d_next (kst (demo_world [])) = (SysOk 0, kst (demo_world []))" by code_simp+
  moreover have "has PCM_NORESTART PCM_NORESTART" "\<not> has PCM_NORESTART PCM_IN" by code_simp+
  ultimately show ?thesis
    using pcm_write_norestart [of "demo_stream PCM_NORESTART True" 8 2 demo_kernel "[0,0,0,0,0,0,0,0]"
        "demo_world [SysErr EPIPE]" "kst (demo_world [])" 0 "kst (demo_world [])" "[]" "kst (demo_world [])"]
      demo_frames by auto
qed

text \<open>What bounds the overruns: a number that every overrun decreases and no restart increases.\<close>

definition overruns_bounded :: "'k pcm_kernel \<Rightarrow> ('k \<Rightarrow> nat) \<Rightarrow> bool" where
  "overruns_bounded K m \<longleftrightarrow>
     (\<forall>d b n k b' k'. k_readi K d b n k = (SysErr EPIPE, b', k') \<longrightarrow> m k' < m k)
   \<and> (\<forall>d b n k b' k' a. k_readi K d b n k = (SysOk a, b', k') \<and> a \<noteq> 0 \<longrightarrow> m k' < m k)
   \<and> (\<forall>d k. m (snd (k_prepare K d k)) \<le> m k)
   \<and> (\<forall>d k. m (snd (k_start K d k)) \<le> m k)
   \<and> (\<forall>d s k. m (snd (snd (k_sync_ptr K d s k))) \<le> m k)"

lemma start_measure:
  assumes "overruns_bounded K m" and "pcm_start K p w = (s, p1, w1)"
  shows "m (kst w1) \<le> m (kst w)"
proof -
  have b: "m (snd (k_prepare K d k)) \<le> m k" "m (snd (k_start K d k)) \<le> m k"
    "m (snd (snd (k_sync_ptr K d s k))) \<le> m k" for d s k
    using assms(1) unfolding overruns_bounded_def by blast+
  obtain s1 q1 v1 where 1: "pcm_prepare K p w = (s1, q1, v1)" by (rule prod_cases3)
  have m1: "m (kst v1) \<le> m (kst w)"
    using 1 b(1) [of "fd p" "kst w"] by (auto simp: pcm_prepare_def sys_def split: if_splits)
  obtain s2 q2 v2 where 2: "(if has (flags q1) PCM_MMAP then pcm_sync_ptr K 0 q1 v1 else (0, q1, v1)) = (s2, q2, v2)"
    by (rule prod_cases3)
  have m2: "m (kst v2) \<le> m (kst v1)"
  proof (cases "sync_ptr q1")
    case None
    then show ?thesis using 2 by (auto simp: pcm_sync_ptr_def split: if_splits)
  next
    case (Some sp)
    obtain rr sp' k' where k: "k_sync_ptr K (fd q1) (sp\<lparr>sflags := 0\<rparr>) (kst v1) = (rr, sp', k')" by (rule prod_cases3)
    have "m k' \<le> m (kst v1)" using b(3) [of "fd q1" "sp\<lparr>sflags := 0\<rparr>" "kst v1"] by (simp add: k)
    moreover have "v2 = v1 \<or> v2 = snd (sys (rr, k') v1)"
      using 2 by (auto simp: pcm_sync_ptr_def Some k split_beta split: if_splits)
    ultimately show ?thesis by auto
  qed
  obtain r3 v3 where 3: "sys (k_start K (fd q2) (kst v2)) v2 = (r3, v3)" by (rule prod.exhaust)
  have "m (kst v3) \<le> m (kst v2)"
    using b(2) [of "fd q2" "kst v2"] kst_sys [of "k_start K (fd q2) (kst v2)" v2] by (simp add: 3)
  moreover have "w1 = v1 \<or> w1 = v3"
    using assms(2) unfolding pcm_start_def 1 prod.case Let_def 2 3 by (auto split: if_splits)
  ultimately show ?thesis using m1 m2 by auto
qed

lemma pcm_read_loop_returns:
  assumes "overruns_bounded K m"
  shows "\<exists>y. pcm_read_loop K n buf p w = Some y"
proof (induction "m (kst w)" arbitrary: p w buf rule: less_induct)
  case less
  obtain s p1 w1 where s: "(if running p then (0, p, w) else pcm_start K p w) = (s, p1, w1)" by (rule prod_cases3)
  have m1: "m (kst w1) \<le> m (kst w)"
    using s start_measure [OF assms] by (auto split: if_splits)
  obtain rr b k where rd: "k_readi K (fd p1) buf n (kst w1) = (rr, b, k)" by (rule prod_cases3)
  obtain r w2 where sy: "sys (rr, k) w1 = (r, w2)" by (rule prod.exhaust)
  define p2 where "p2 = p1\<lparr>prepared := False, running := False, underruns := underruns p1 + 1\<rparr>"
  have eq: "pcm_read_loop K n buf p w =
    (if s < 0 then Some (- errno w1, buf, p1, w1)
     else if r \<noteq> 0 then if errno w2 = EPIPE then pcm_read_loop K n b p2 w2
       else Some (-1, b, pcm_fail K w2 (errno w2) ''cannot read stream data'' (p1\<lparr>prepared := False, running := False\<rparr>), w2)
     else Some (0, b, p1, w2))"
    by (subst pcm_read_loop.simps) (simp add: s rd sy p2_def Let_def)
  show ?case
  proof (cases "r \<noteq> 0 \<and> errno w2 = EPIPE")
    case False
    then show ?thesis unfolding eq by auto
  next
    case True
    have "m k < m (kst w1)"
    proof (cases rr)
      case (SysErr e)
      then have "e = EPIPE" using True sy by auto
      then show ?thesis using assms rd SysErr unfolding overruns_bounded_def by blast
    next
      case (SysOk a)
      then have "a \<noteq> 0" using True sy by auto
      then show ?thesis using assms rd SysOk unfolding overruns_bounded_def by blast
    qed
    moreover have "kst w2 = k" using kst_sys [of "(rr, k)" w1] by (simp add: sy)
    ultimately have "m (kst w2) < m (kst w)" using m1 by simp
    from less [OF this] show ?thesis unfolding eq by auto
  qed
qed


lemma demo_overruns: "overruns_bounded demo_kernel (\<lambda>k. length (d_script k))"
  by (auto simp: overruns_bounded_def d_next_def split: list.splits)


text \<open>
  there is no bound in \<^verbatim>\<open>pcm_read\<close> itself: on a device that can be restarted but overruns at
  every read, the call never returns.
\<close>

theorem pcm_read_diverges:
  assumes "has (flags p) PCM_IN" and "xfer_frames p count = Inr n" and "\<not> has (flags p) PCM_MMAP"
    and "\<And>d b k. \<exists>b' k'. k_readi K d b n k = (SysErr EPIPE, b', k')"
    and "\<And>d k. \<exists>k' a. k_prepare K d k = (SysOk a, k')" and "\<And>d k. \<exists>k' a. k_start K d k = (SysOk a, k')"
  shows "pcm_read K buf count p w = None"
proof -
  have start: "\<exists>p1 w1. pcm_start K p w = (0, p1, w1) \<and> flags p1 = flags p"
    if "\<not> has (flags p) PCM_MMAP" for p w
  proof -
    obtain p1 w1 where 1: "pcm_prepare K p w = (0, p1, w1)" "flags p1 = flags p"
      using assms(5) [of "fd p" "kst w"] by (cases "prepared p") (auto simp: pcm_prepare_def)
    then show ?thesis using assms(6) [of "fd p1" "kst w1"] that by (auto simp: pcm_start_def)
  qed
  let ?P = "\<lambda>K' n' buf p w y. \<not> (K' = K \<and> n' = n \<and> \<not> has (flags p) PCM_MMAP)"
  have "\<not> pcm_read_loop K n buf p w = Some y" for y
  proof
    assume y: "pcm_read_loop K n buf p w = Some y"
    have "?P K n buf p w y"
    proof (rule pcm_read_loop.raw_induct [of ?P, OF _ y])
      fix loop K' n' buf p w y
      assume IH: "\<And>K' n' buf p w y. loop K' n' buf p w = Some y \<Longrightarrow> ?P K' n' buf p w y"
        and eq: "(case (if running p then (0, p, w) else pcm_start K' p w) of
          (s, p1, w1) \<Rightarrow>
            if s < 0 then Some (- errno w1, buf, p1, w1)
            else case k_readi K' (fd p1) buf n' (kst w1) of
                   (rr, buf', k') \<Rightarrow>
                     (case sys (rr, k') w1 of
                        (r, w2) \<Rightarrow>
                          if r \<noteq> 0
                          then let p2 = p1\<lparr>prepared := False, running := False\<rparr>
                               in if errno w2 = EPIPE
                                  then loop K' n' buf' (p2\<lparr>underruns := underruns p2 + 1\<rparr>) w2
                                  else Some (-1, buf', pcm_fail K' w2 (errno w2) ''cannot read stream data'' p2, w2)
                          else Some (0, buf', p1, w2))) = Some y"
      show "?P K' n' buf p w y"
      proof
        assume a: "K' = K \<and> n' = n \<and> \<not> has (flags p) PCM_MMAP"
        obtain p1 w1 where s: "(if running p then (0, p, w) else pcm_start K p w) = (0, p1, w1)" "flags p1 = flags p"
          using start [of p w] a by (cases "running p") auto
        obtain b' k' where rd: "k_readi K (fd p1) buf n (kst w1) = (SysErr EPIPE, b', k')" using assms(4) by blast
        have "loop K n b' (p1\<lparr>prepared := False, running := False, underruns := underruns p1 + 1\<rparr>)
            (w1\<lparr>kst := k', errno := EPIPE\<rparr>) = Some y"
          using eq unfolding conjunct1 [OF a] conjunct1 [OF conjunct2 [OF a]] s(1) prod.case rd Let_def by simp
        from IH [OF this] a s(2) show False by simp
      qed
    qed
    with assms(3) show False by simp
  qed
  then have "pcm_read_loop K n buf p w = None" by (cases "pcm_read_loop K n buf p w") auto
  then show ?thesis using assms(1,2) by (simp add: pcm_read_def)
qed

theorem pcm_read_diverges_witness:
  "pcm_read (demo_kernel\<lparr>k_readi := \<lambda>d b n k. (SysErr EPIPE, b, k)\<rparr>) [0,0,0,0,0,0,0,0] 8
    (demo_stream PCM_IN False) (demo_world []) = None"
proof -
  have "has (flags (demo_stream PCM_IN False)) PCM_IN" "\<not> has (flags (demo_stream PCM_IN False)) PCM_MMAP"
    by (simp_all add: has_def PCM_IN_def PCM_MMAP_def)
  then show ?thesis
    by (rule pcm_read_diverges [OF _ demo_frames]) (simp_all add: demo_kernel_def)
qed

text \<open>
  as long as a frame count of bytes does not overflow, the division that \<^verbatim>\<open>pcm_write\<close> and
  \<^verbatim>\<open>pcm_read\<close> write out is \<^verbatim>\<open>pcm_bytes_to_frames\<close>, and it inverts \<^verbatim>\<open>pcm_frames_to_bytes\<close>.
\<close>

theorem transfer_units:
  assumes "0 < unat (channels (config p))" and "unat (channels (config p)) < 2 ^ 27"
    and "unat n * frame_bytes p < 2 ^ 32"
  shows "pcm_bytes_to_frames p (pcm_frames_to_bytes p n) = Inr n
    \<and> xfer_frames p count = map_sum id ucast (pcm_bytes_to_frames p count)"
proof -
  let ?d = "channels (config p) * drop_bit 3 (pcm_format_to_bits (format (config p)))"
  have d: "unat ?d = frame_bytes p" by (rule frame_bytes_word(1) [OF assms(2)])
  have pos: "0 < frame_bytes p"
    using assms(1) format_bytes [of "format (config p)"] by (auto simp: frame_bytes_def)
  then have "?d \<noteq> 0" using d by (metis less_numeral_extra(3) unat_0)
  moreover have "unat (pcm_frames_to_bytes p n div ?d) = unat n"
    using pos by (simp add: unat_div_distrib d frames_to_bytes_nat [OF assms(2,3)])
  then have "pcm_frames_to_bytes p n div ?d = n" by (rule unsigned_word_eqI)
  ultimately show ?thesis
    using xfer_frames_eq [OF assms(2), of count] by (simp add: pcm_bytes_to_frames_def Let_def)
qed

theorem transfer_units_witness:
  "pcm_bytes_to_frames (demo_stream 0 True) (pcm_frames_to_bytes (demo_stream 0 True) 1000) = Inr 1000"
  using transfer_units [of "demo_stream 0 True" 1000 0]
  by (simp add: demo_config_def zero_config_def frame_bytes_def pcm_format_to_bits_def)

text \<open>
  the search for the pointer boundary in \<^verbatim>\<open>pcm_open\<close> ends for every buffer size below 2^31
  but 0, with the largest power-of-two multiple of the buffer size in the range of an int; for the
  size 0, which a kernel that leaves the period open produces, it never ends.
\<close>

theorem boundary_of_buffer:
  assumes "unat bs < 2 ^ 31"
  shows "(bs = 0 \<longrightarrow> boundary_loop bs bs = None)
    \<and> (bs \<noteq> 0 \<longrightarrow> (\<exists>k b. boundary_loop bs bs = Some b \<and> unat b = unat bs * 2 ^ k \<and> unat b < 2 ^ 31
          \<and> 2 ^ 31 - 1 - unat bs < 2 * unat b))"
  using boundary_loop_0 boundary_loop_ok [OF _ assms assms] by (auto simp: word_gt_0)

theorem boundary_of_buffer_witness:
  "boundary_loop 0 0 = None \<and> (\<exists>k b. boundary_loop 6144 6144 = Some b \<and> unat b = 6144 * 2 ^ k)"
  using boundary_of_buffer [of 0] boundary_of_buffer [of 6144] by auto

text \<open>
  the defaults of the thresholds of a playback stream: half the buffer to start, where the
  header documents the whole buffer, and the whole buffer to stop.
\<close>

theorem default_thresholds:
  assumes "\<not> has (flags p) PCM_IN" and "start_threshold c = 0" and "stop_threshold c = 0"
    and "open_thresholds c p = (sp, p')"
  shows "start_threshold (config p') = period_count c * period_size c div 2
    \<and> stop_threshold (config p') = period_count c * period_size c
    \<and> sw_start_threshold sp = ucast (start_threshold (config p'))
    \<and> sw_stop_threshold sp = ucast (stop_threshold (config p'))"
  using assms by (auto simp: open_thresholds_def Let_def split: if_splits)

theorem default_thresholds_witness:
  "start_threshold (config (snd (open_thresholds demo_config (demo_stream 0 False)))) = 4
    \<and> stop_threshold (config (snd (open_thresholds demo_config (demo_stream 0 False)))) = 8"
proof -
  obtain sp p' where t: "open_thresholds demo_config (demo_stream 0 False) = (sp, p')" by (rule prod.exhaust)
  have "\<not> has (flags (demo_stream 0 False)) PCM_IN" "start_threshold demo_config = 0"
    "stop_threshold demo_config = 0" by (simp_all add: has_def demo_config_def zero_config_def)
  moreover have "period_count demo_config * period_size demo_config = 8" by (simp add: demo_config_def)
  ultimately show ?thesis using default_thresholds [OF _ _ _ t] unfolding t by simp
qed

lemma param_get_int_other:
  "param_get_int n (param_set_mask m b p) = param_get_int n p"
  "param_is_interval n \<Longrightarrow> hw_params_wf p \<Longrightarrow> n \<noteq> m \<Longrightarrow> param_get_int n (param_set_min m v p) = param_get_int n p"
  "param_get_int n (p\<lparr>hw_flags := f\<rparr>) = param_get_int n p"
  by (auto simp: param_get_int_def param_set_mask_def Let_def param_set_min_def nth_upd_interval)

lemma hw_params_wf_flags [simp]: "hw_params_wf (p\<lparr>hw_flags := f\<rparr>) = hw_params_wf p"
  by (simp add: hw_params_wf_def)

lemma open_request_wf: "hw_params_wf (open_request c)"
  by (simp add: open_request_def Let_def)

text \<open>
  the request that \<^verbatim>\<open>pcm_open\<close> sends to the driver is the caller's configuration: its rate,
  channels, periods and sample sizes, the one access type of the mode, and nothing else asked for
  that mask.
\<close>

theorem open_params_request:
  "param_get_int SNDRV_PCM_HW_PARAM_RATE (open_params fl c) = rate c
    \<and> param_get_int SNDRV_PCM_HW_PARAM_CHANNELS (open_params fl c) = channels c
    \<and> param_get_int SNDRV_PCM_HW_PARAM_PERIODS (open_params fl c) = period_count c
    \<and> param_get_int SNDRV_PCM_HW_PARAM_SAMPLE_BITS (open_params fl c) = pcm_format_to_bits (format c)
    \<and> param_get_int SNDRV_PCM_HW_PARAM_FRAME_BITS (open_params fl c) = pcm_format_to_bits (format c) * channels c
    \<and> (\<forall>k. unat k < 64 \<longrightarrow> pcm_mask_test (masks (open_params fl c) ! 0) k
          = of_bool (k = (if has fl PCM_MMAP then 0 else 3)))"
proof -
  define q where "q = (if has fl PCM_NOIRQ
    then (open_request c)\<lparr>hw_flags := hw_flags (open_request c) OR SNDRV_PCM_HW_PARAMS_NO_PERIOD_WAKEUP\<rparr>
    else open_request c)"
  have q: "hw_params_wf q" "param_get_int n q = param_get_int n (open_request c)" for n
    using open_request_wf [of c] by (simp_all add: q_def param_get_int_other)
  have eq: "open_params fl c = param_set_mask SNDRV_PCM_HW_PARAM_ACCESS (if has fl PCM_MMAP then 0 else 3) q"
    by (simp add: open_params_def q_def Let_def)
  have ivl: "param_is_interval 8" "param_is_interval 9" "param_is_interval 10" "param_is_interval 11"
    "param_is_interval 15" by (simp_all add: param_is_interval_def)
  have mask: "pcm_mask_test (masks (open_params fl c) ! 0) k = of_bool (k = (if has fl PCM_MMAP then 0 else 3))"
    if "unat k < 64" for k
    using param_set_mask_bits [OF q(1), of 0 "if has fl PCM_MMAP then 0 else 3" k] that
    by (auto simp: eq param_is_mask_def param_to_mask_def)
  show ?thesis
    unfolding eq param_get_int_other q(2) using ivl mask
    by (simp add: open_request_def Let_def int_store.fetch_same int_store.fetch_other eq)
qed

theorem open_params_request_witness:
  "param_get_int SNDRV_PCM_HW_PARAM_RATE (open_params PCM_MMAP demo_config) = 48000
    \<and> pcm_mask_test (masks (open_params PCM_MMAP demo_config) ! 0) 0 = 1
    \<and> pcm_mask_test (masks (open_params 0 demo_config) ! 0) 0 = 0"
proof -
  have "rate demo_config = 48000" "has PCM_MMAP PCM_MMAP" "\<not> has 0 PCM_MMAP"
    by (simp_all add: demo_config_def has_def PCM_MMAP_def)
  then show ?thesis
    using open_params_request [of PCM_MMAP demo_config] open_params_request [of 0 demo_config] by force
qed

end
