(* ===== verification/PcmRing.thy ===== *)
theory PcmRing
  imports PcmMmap PcmStream
begin

text \<open>
  Properties of the memory-mapped transfers: what the frame counts mean as positions on a ring, the
  window that is offered, the copy into the ring on a quiet device, and the state of the stream over
  every operation of the file.
\<close>

section \<open>Pointers\<close>

lemma ucast_of_int_down:
  "LENGTH('a) \<le> LENGTH('b) \<Longrightarrow> (ucast (of_int i :: 'b::len word) :: 'a::len word) = of_int i"
  by (rule bit_word_eqI) (simp add: bit_ucast_iff bit_word_of_int_iff)

lemma ucast_frames:
  "(ucast (hw + ucast (bs :: u32) - appl :: u64) :: u32) = of_int (int (unat hw) + int (unat bs) - int (unat appl))"
proof -
  have "(ucast bs :: u64) = of_int (int (unat bs))" by simp
  moreover have "hw = of_int (int (unat hw))" "appl = of_int (int (unat appl))" by simp_all
  ultimately have "hw + ucast bs - appl = of_int (int (unat hw) + int (unat bs) - int (unat appl))"
    by (metis of_int_add of_int_diff)
  then show ?thesis by (simp only: ucast_of_int_down len_of_numeral_defs)
qed

lemma wrap_signed_of_int:
  assumes "- (2 ^ 31) \<le> i" and "i < 2 ^ 31" and "unat b < 2 ^ 31"
  shows "wrap_signed b (of_int i)
    = of_int (if i < 0 then i + int (unat b) else if int (unat b) < i then i - int (unat b) else i)"
  using assms by (simp add: wrap_signed_def sint_of_int_u32 sint_small_u32)

text \<open>The frames between the hardware and the application pointer, on the ring of the boundary.\<close>

definition queued :: "pcm \<Rightarrow> u64 \<Rightarrow> u64 \<Rightarrow> nat" where
  "queued p hw appl = (unat appl + unat (boundary p) - unat hw) mod unat (boundary p)"

lemma mod_ring_cases:
  fixes h a b :: nat
  assumes "h < b" and "a \<le> b"
  shows "(a + b - h) mod b = (if h \<le> a then if h = 0 \<and> a = b then 0 else a - h else a + b - h)"
  using assms by (auto simp: mod_if)

lemma playback_wrap:
  fixes h a b s :: nat
  assumes "h < b" and "a \<le> b" and "(a + b - h) mod b \<le> s" and "2 * s \<le> b" and "0 < s"
    and i: "i = int h + int s - int a"
  shows "(if i < 0 then i + int b else if int b < i then i - int b else i)
    = (if a < h \<and> (a + b - h) mod b = s then int b else int s - int ((a + b - h) mod b))"
  using assms(1-5) unfolding mod_ring_cases [OF assms(1,2)] i by (auto split: if_splits)

lemma capture_wrap:
  fixes h a b :: nat
  assumes "h < b" and "a \<le> b"
  shows "(int h - int a) mod int b = (if h < a then int h - int a + int b else int h - int a)"
proof (cases "h < a")
  case True
  have "(int h - int a) mod int b = (int h - int a + int b) mod int b" by simp
  also have "\<dots> = int h - int a + int b" using assms True by (intro mod_pos_pos_trivial) simp_all
  finally show ?thesis using True by simp
qed (use assms in \<open>simp add: mod_pos_pos_trivial\<close>)

text \<open>A stream whose boundary is at least two buffers, as the loop of \<^verbatim>\<open>pcm_open\<close> leaves it.\<close>

definition ring_ok :: "pcm \<Rightarrow> bool" where
  "ring_ok p \<longleftrightarrow> 0 < unat (buffer_size p) \<and> 2 * unat (buffer_size p) \<le> unat (boundary p)
    \<and> unat (boundary p) + unat (buffer_size p) < 2 ^ 31 \<and> unat (buffer_size p) dvd unat (boundary p)"

lemma ring_ok_bounds:
  assumes "ring_ok p" and "unat hw < unat (boundary p)" and "unat appl \<le> unat (boundary p)"
  shows "- (2 ^ 31) \<le> int (unat hw) + int (unat (buffer_size p)) - int (unat appl)"
    and "int (unat hw) + int (unat (buffer_size p)) - int (unat appl) < 2 ^ 31"
    and "- (2 ^ 31) \<le> int (unat hw) - int (unat appl)" and "int (unat hw) - int (unat appl) < 2 ^ 31"
    and "unat (boundary p) < 2 ^ 31" and "unat (buffer_size p) < 2 ^ 31"
  using assms by (auto simp: ring_ok_def simp del: of_nat_unat)

lemma playback_avail_int:
  assumes "ring_ok p" and "unat hw < unat (boundary p)" and "unat appl \<le> unat (boundary p)"
    and "queued p hw appl \<le> unat (buffer_size p)"
  shows "playback_avail p hw appl = of_int (if unat appl < unat hw \<and> queued p hw appl = unat (buffer_size p)
    then int (unat (boundary p)) else int (unat (buffer_size p)) - int (queued p hw appl))"
  unfolding playback_avail_def ucast_frames wrap_signed_of_int [OF ring_ok_bounds(1,2,5) [OF assms(1-3)]]
  using playback_wrap [OF assms(2,3) _ _ _ refl, of "unat (buffer_size p)"] assms
  by (simp only: queued_def ring_ok_def)

lemma capture_avail_int:
  assumes "ring_ok p" and "unat hw < unat (boundary p)" and "unat appl \<le> unat (boundary p)"
  shows "capture_avail p hw appl = of_int ((int (unat hw) - int (unat appl)) mod int (unat (boundary p)))"
proof -
  have "(ucast (hw - appl) :: u32) = of_int (int (unat hw) - int (unat appl))"
    using ucast_frames [of hw 0 appl] by simp
  moreover have "sint (of_int (int (unat hw) - int (unat appl)) :: u32) = int (unat hw) - int (unat appl)"
    by (rule sint_of_int_u32 [OF ring_ok_bounds(3,4) [OF assms]])
  ultimately show ?thesis
    unfolding capture_wrap [OF assms(2,3)] capture_avail_def Let_def
    by (simp del: of_nat_unat) (simp add: of_nat_unat)
qed


text \<open>
  the frames available to a playback stream are the free part of the ring, those of a capture
  stream its filled part, with one exception: when the ring is full and the application pointer has
  wrapped, the playback count is the boundary instead of 0.
\<close>

theorem mmap_avail_exact:
  assumes "ring_ok p" and "unat hw < unat (boundary p)" and "unat appl \<le> unat (boundary p)"
  shows "(queued p hw appl \<le> unat (buffer_size p) \<longrightarrow>
      sint (playback_avail p hw appl) = (if unat appl < unat hw \<and> queued p hw appl = unat (buffer_size p)
        then int (unat (boundary p)) else int (unat (buffer_size p) - queued p hw appl)))
    \<and> sint (capture_avail p hw appl) = (int (unat hw) - int (unat appl)) mod int (unat (boundary p))"
proof (intro conjI impI)
  note b = ring_ok_bounds [OF assms]
  assume q: "queued p hw appl \<le> unat (buffer_size p)"
  have "unat (buffer_size p) - queued p hw appl < 2 ^ 31" using b(6) by simp
  then show "sint (playback_avail p hw appl) = (if unat appl < unat hw \<and> queued p hw appl = unat (buffer_size p)
      then int (unat (boundary p)) else int (unat (buffer_size p) - queued p hw appl))"
    unfolding playback_avail_int [OF assms q] using q b(5)
    by (subst sint_of_int_u32) (auto simp: of_nat_diff simp del: of_nat_unat)
next
  have "0 \<le> (int (unat hw) - int (unat appl)) mod int (unat (boundary p))"
    "(int (unat hw) - int (unat appl)) mod int (unat (boundary p)) < int (unat (boundary p))"
    using assms(1) by (simp_all add: ring_ok_def del: of_nat_unat)
  then show "sint (capture_avail p hw appl) = (int (unat hw) - int (unat appl)) mod int (unat (boundary p))"
    unfolding capture_avail_int [OF assms] using ring_ok_bounds(5) [OF assms]
    by (subst sint_of_int_u32) (auto simp del: of_nat_unat)
qed

lemma demo_ring: "ring_ok (demo_stream fl run)"
  by (simp add: ring_ok_def)

theorem mmap_avail_exact_witness:
  "sint (playback_avail (demo_stream 0 True) 60 4) = 64 \<and> sint (playback_avail (demo_stream 0 True) 60 3) = 1
    \<and> sint (capture_avail (demo_stream 0 True) 3 60) = 7"
  using mmap_avail_exact [OF demo_ring, of 60 0 True 4] mmap_avail_exact [OF demo_ring, of 60 0 True 3]
    mmap_avail_exact [OF demo_ring, of 3 0 True 60]
  by (simp add: queued_def)

section \<open>The window\<close>

lemma unat_window:
  assumes "offset \<le> bs"
  shows "unat (window bs offset avail frames)
    = min (unat frames) (min (unat avail) (unat bs - unat offset))"
proof -
  have "unat (bs - offset) = unat bs - unat offset" using assms by (rule unat_sub)
  then show ?thesis by (auto simp: window_def Let_def word_less_nat_alt)
qed

section \<open>A quiet device\<close>

text \<open>
  The pages as memory: what is stored in the control page and in the buffer is read back, and
  nothing else changes while the call runs (the hardware does not move).
\<close>

definition quiet :: "'k pcm_kernel \<Rightarrow> bool" where
  "quiet K \<longleftrightarrow>
     (\<forall>k. snd (k_status K k) = k)
   \<and> (\<forall>c k. k_control K (k_set_control K c k) = c)
   \<and> (\<forall>c k. k_buf K (k_set_control K c k) = k_buf K k)
   \<and> (\<forall>c k. fst (k_status K (k_set_control K c k)) = fst (k_status K k))
   \<and> (\<forall>b k. k_buf K (k_set_buf K b k) = b)
   \<and> (\<forall>b k. k_control K (k_set_buf K b k) = k_control K k)
   \<and> (\<forall>b k. fst (k_status K (k_set_buf K b k)) = fst (k_status K k))"

lemma quiet_simps:
  assumes "quiet K"
  shows "k_control K (k_set_control K c k) = c" "k_buf K (k_set_control K c k) = k_buf K k"
    "fst (k_status K (k_set_control K c k)) = fst (k_status K k)"
    "k_buf K (k_set_buf K m k) = m" "k_control K (k_set_buf K m k) = k_control K k"
    "fst (k_status K (k_set_buf K m k)) = fst (k_status K k)" "snd (k_status K k) = k"
  using assms by (simp_all add: quiet_def)

text \<open>A playback stream over mapped pages.\<close>

definition mapped :: "pcm \<Rightarrow> bool" where
  "mapped p \<longleftrightarrow> mmap_status p = Mapped_page \<and> mmap_control p = Mapped_page \<and> sync_ptr p = None
    \<and> mmap_buffer p = Mapped_buf \<and> \<not> has (flags p) PCM_IN"

abbreviation appl_of :: "'k pcm_kernel \<Rightarrow> 'k world \<Rightarrow> u64" where
  "appl_of K w \<equiv> appl_ptr (k_control K (kst w))"

abbreviation hw_of :: "'k pcm_kernel \<Rightarrow> 'k world \<Rightarrow> u64" where
  "hw_of K w \<equiv> hw_ptr (fst (k_status K (kst w)))"

lemma sync_mapped: "sync_ptr p = None \<Longrightarrow> pcm_sync_ptr K fl p w = (0, p, w)"
  by (simp add: pcm_sync_ptr_def)

lemma avail_mapped:
  assumes "quiet K" and "mapped p"
  shows "pcm_mmap_avail K p w = Inr (playback_avail p (hw_of K w) (appl_of K w), p, w)"
proof -
  show ?thesis
    using assms(2)
    by (simp add: pcm_mmap_avail_def mapped_def sync_mapped load_status_def load_control_def split_beta
        quiet_simps [OF assms(1)])
qed

lemma begin_mapped:
  assumes "quiet K" and "mapped p" and "buffer_size p \<noteq> 0"
  shows "pcm_mmap_begin K n p w =
    (let offset = ucast (appl_of K w mod ucast (buffer_size p))
     in Inr (offset, window (buffer_size p) offset (playback_avail p (hw_of K w) (appl_of K w)) n, p, w))"
  using assms by (simp add: pcm_mmap_begin_def load_control_def avail_mapped mapped_def Let_def)

lemma ring_offset:
  assumes "0 < unat bs"
  shows "unat (ucast (appl mod ucast bs) :: u32) = unat (appl :: u64) mod unat (bs :: u32)"
    and "(ucast (appl mod ucast bs) :: u32) \<le> bs"
proof -
  have "unat bs < 2 ^ 64" using unsigned_less [of bs, where 'a = nat] by simp
  then have bs: "take_bit 64 (unat bs) = unat bs" by (rule take_bit_nat_eq_self)
  have "unat appl mod unat bs < 2 ^ 32"
    using mod_less_divisor [OF assms, of "unat appl"] unsigned_less [of bs, where 'a = nat] by simp
  then show *: "unat (ucast (appl mod ucast bs) :: u32) = unat appl mod unat bs"
    by (simp add: unsigned_ucast_eq take_bit_nat_eq_self unat_mod_distrib bs)
  show "(ucast (appl mod ucast bs) :: u32) \<le> bs"
    unfolding word_le_nat_alt * using assms by (simp add: less_imp_le)
qed

text \<open>The frames that one round may copy: free, and contiguous from the application pointer.\<close>

definition offered :: "pcm \<Rightarrow> u64 \<Rightarrow> u64 \<Rightarrow> nat" where
  "offered p hw appl =
     (if unat appl < unat hw \<and> queued p hw appl = unat (buffer_size p) then unat (buffer_size p)
      else unat (buffer_size p) - queued p hw appl)"

lemma begin_offers:
  assumes "quiet K" and "mapped p" and "ring_ok p" and "unat (hw_of K w) < unat (boundary p)"
    and "unat (appl_of K w) \<le> unat (boundary p)"
    and "queued p (hw_of K w) (appl_of K w) \<le> unat (buffer_size p)"
  shows "\<exists>offset frames. pcm_mmap_begin K n p w = Inr (offset, frames, p, w)
    \<and> unat offset = unat (appl_of K w) mod unat (buffer_size p)
    \<and> unat frames = min (unat n) (min (offered p (hw_of K w) (appl_of K w))
        (unat (buffer_size p) - unat (appl_of K w) mod unat (buffer_size p)))"
proof -
  let ?hw = "hw_of K w" and ?appl = "appl_of K w"
  have bs: "0 < unat (buffer_size p)" "buffer_size p \<noteq> 0" "unat (buffer_size p) < 2 ^ 31"
    "unat (boundary p) < 2 ^ 31" "unat (buffer_size p) \<le> unat (boundary p)"
    using assms(3) by (auto simp: ring_ok_def)
  note o = ring_offset [OF bs(1), of ?appl]
  let ?a = "if unat ?appl < unat ?hw \<and> queued p ?hw ?appl = unat (buffer_size p)
    then unat (boundary p) else unat (buffer_size p) - queued p ?hw ?appl"
  have "playback_avail p ?hw ?appl = of_nat ?a"
    unfolding playback_avail_int [OF assms(3-6)] using assms(6) by (simp add: of_nat_diff)
  moreover have "?a < 2 ^ LENGTH(32)" using bs by auto
  ultimately have "unat (playback_avail p ?hw ?appl) = ?a" by (simp only: unat_of_nat_small)
  then show ?thesis
    unfolding begin_mapped [OF assms(1,2) bs(2)] Let_def
    using bs(5) by (auto simp: o unat_window offered_def)
qed

section \<open>Copying into the ring\<close>

lemma as_offset_small: "unat n < 2 ^ 31 \<Longrightarrow> as_offset n = Inr (unat n)"
  using sint_small_u32 [of n] by (simp add: as_offset_def)

lemma areas_copy_mapped:
  assumes "mapped p" and "unat (channels (config p)) < 2 ^ 27"
    and "unat n * frame_bytes p < 2 ^ 31" and "unat po * frame_bytes p < 2 ^ 31"
    and "unat so * frame_bytes p < 2 ^ 31"
    and "(unat so + unat n) * frame_bytes p \<le> length buf"
    and "(unat po + unat n) * frame_bytes p \<le> length (k_buf K (kst w))"
  shows "pcm_areas_copy K po buf so n p w = Inr (buf, w\<lparr>kst := k_set_buf K
    (overwrite (k_buf K (kst w)) (unat po * frame_bytes p)
       (take (unat n * frame_bytes p) (drop (unat so * frame_bytes p) buf))) (kst w)\<rparr>)"
proof -
  have bytes: "as_offset (pcm_frames_to_bytes p m) = Inr (unat m * frame_bytes p)"
    if "unat m * frame_bytes p < 2 ^ 31" for m
    using frames_to_bytes_nat [OF assms(2), of m] that as_offset_small [of "pcm_frames_to_bytes p m"] by simp
  have len: "length (take (unat n * frame_bytes p) (drop (unat so * frame_bytes p) buf)) = unat n * frame_bytes p"
    using assms(6) by (simp add: algebra_simps)
  show ?thesis
    using assms(1) assms(6,7) len
    by (simp add: pcm_areas_copy_def bytes [OF assms(3)] bytes [OF assms(4)] bytes [OF assms(5)] mapped_def slice_ok blit_ok distrib_right)
qed

lemma appl_advance_nat:
  assumes "unat a \<le> unat b" and "unat b < 2 ^ 31" and "unat n < 2 ^ 31"
  shows "unat (appl_advance b a n) = (if unat b < unat a + unat n then unat a + unat n - unat b else unat a + unat n)"
proof -
  have sum: "unat (a + n) = unat a + unat n"
    using assms by (intro unat_add_lem [THEN iffD1]) simp
  have "unat (a + n - b) = unat a + unat n - unat b" if "\<not> a + n \<le> b"
    using that unat_sub [of b "a + n"] sum by simp
  then show ?thesis using sum by (simp add: appl_advance_def Let_def word_less_nat_alt word_le_nat_alt)
qed

lemma commit_mapped:
  assumes "mapped p"
  shows "pcm_mmap_commit K n p w = Inr (sint n, p, w\<lparr>kst := k_set_control K ((k_control K (kst w))
    \<lparr>appl_ptr := ucast (appl_advance (boundary p) (ucast (appl_of K w)) n)\<rparr>) (kst w)\<rparr>)"
  using assms by (simp add: pcm_mmap_commit_def pcm_mmap_appl_forward_def load_control_def store_control_def
      mapped_def sync_mapped)

lemma unat_appl_advance:
  assumes "unat (appl :: u64) \<le> unat b" and "unat b < 2 ^ 31" and "unat n < 2 ^ 31"
  shows "unat (ucast (appl_advance b (ucast appl) n) :: u64)
    = (if unat b < unat appl + unat n then unat appl + unat n - unat b else unat appl + unat n)"
proof -
  have a: "unat (ucast appl :: u32) = unat appl"
    using assms(1,2) by (simp add: unsigned_ucast_eq take_bit_nat_eq_self)
  have "unat (ucast x :: u64) = unat x" for x :: u32
    using unsigned_less [of x, where 'a = nat] by (simp add: unsigned_ucast_eq take_bit_nat_eq_self)
  then show ?thesis using appl_advance_nat [of "ucast appl" b n] assms by (simp add: a)
qed

text \<open>Writing data on a ring from a position, byte by byte.\<close>

definition ring_write :: "'a list \<Rightarrow> nat \<Rightarrow> 'a list \<Rightarrow> 'a list" where
  "ring_write m s d =
     map (\<lambda>i. let j = (i + length m - s) mod length m in if j < length d then d ! j else m ! i) [0..<length m]"

lemma length_ring_write [simp]: "length (ring_write m s d) = length m"
  by (simp add: ring_write_def)

lemma nth_ring_write:
  assumes "s < length m" and "i < length m"
  shows "ring_write m s d ! i = (let j = if s \<le> i then i - s else i + length m - s
    in if j < length d then d ! j else m ! i)"
proof -
  have "(i + length m - s) mod length m = (if s \<le> i then i - s else i + length m - s)"
  proof (cases "s \<le> i")
    case True
    then have "i + length m - s = (i - s) + length m" by simp
    then show ?thesis using assms True by (simp only: mod_add_self2) simp
  qed (use assms in simp)
  then show ?thesis using assms(2) by (simp add: ring_write_def Let_def)
qed

lemma ring_write_straight:
  assumes "s < length m" and "s + length d \<le> length m"
  shows "ring_write m s d = overwrite m s d"
proof (rule nth_equalityI)
  fix i assume "i < length (ring_write m s d)"
  then have i: "i < length m" by simp
  show "ring_write m s d ! i = overwrite m s d ! i"
  proof (cases "s \<le> i")
    case True
    then have "(i - s < length d) = (i < s + length d)" by linarith
    with True show ?thesis
      unfolding nth_ring_write [OF assms(1) i] nth_overwrite [OF assms(2) i] by (simp add: Let_def)
  next
    case False
    then have "\<not> i + length m - s < length d" using assms by linarith
    with False show ?thesis
      unfolding nth_ring_write [OF assms(1) i] nth_overwrite [OF assms(2) i] by (simp add: Let_def)
  qed
qed (use assms in simp)

lemma ring_write_wrapped:
  assumes "s < length m" and "s + length d1 = length m" and "length d1 + length d2 \<le> length m"
  shows "ring_write m s (d1 @ d2) = overwrite (overwrite m s d1) 0 d2"
proof (rule nth_equalityI)
  have l1: "s + length d1 \<le> length m" and l2: "0 + length d2 \<le> length (overwrite m s d1)"
    using assms by simp_all
  fix i assume "i < length (ring_write m s (d1 @ d2))"
  then have i: "i < length m" and i': "i < length (overwrite m s d1)" using l1 by simp_all
  note unfold = nth_ring_write [OF assms(1) i] nth_overwrite [OF l2 i'] nth_overwrite [OF l1 i]
  show "ring_write m s (d1 @ d2) ! i = overwrite (overwrite m s d1) 0 d2 ! i"
  proof (cases "s \<le> i")
    case True
    then have "i - s < length d1" "i < s + length d1" "\<not> i < length d2" using assms i by linarith+
    with True show ?thesis unfolding unfold by (simp add: Let_def nth_append)
  next
    case False
    then have "i + length m - s = length d1 + i" using assms(2) by linarith
    with False show ?thesis unfolding unfold by (simp add: Let_def nth_append)
  qed
qed (use assms in simp)

lemma queued_advance:
  assumes "ring_ok p" and "unat hw < unat (boundary p)" and "unat appl \<le> unat (boundary p)"
    and "queued p hw appl + n \<le> unat (buffer_size p)" and "unat appl mod unat (buffer_size p) + n \<le> unat (buffer_size p)"
    and "unat appl' = (if unat (boundary p) < unat appl + n then unat appl + n - unat (boundary p) else unat appl + n)"
  shows "queued p hw appl' = queued p hw appl + n" and "unat appl' \<le> unat (boundary p)"
    and "unat appl' mod unat (buffer_size p) = (unat appl + n) mod unat (buffer_size p)"
proof -
  let ?b = "unat (boundary p)" and ?s = "unat (buffer_size p)"
  have s: "0 < ?s" "2 * ?s \<le> ?b" "?s dvd ?b" using assms(1) by (simp_all add: ring_ok_def)
  then obtain k where k: "?b = ?s * k" by blast
  show le: "unat appl' \<le> ?b" using assms(3,5,6) s by (auto split: if_splits)
  have n: "n \<le> ?s" using assms(5) by simp
  have "queued p hw appl' = (unat appl + n + ?b - unat hw) mod ?b"
  proof (cases "?b < unat appl + n")
    case True
    then have "unat appl' + ?b - unat hw + ?b = unat appl + n + ?b - unat hw" using assms(2,6) by simp
    then show ?thesis unfolding queued_def by (metis mod_add_self2)
  qed (use assms(6) in \<open>simp add: queued_def\<close>)
  also have "\<dots> = ((unat appl + ?b - unat hw) mod ?b + n) mod ?b"
    unfolding mod_add_left_eq using assms(2) by (simp add: add.commute add.left_commute)
  also have "\<dots> = queued p hw appl + n" using assms(4) s unfolding queued_def by (intro mod_less) simp
  finally show "queued p hw appl' = queued p hw appl + n" .
  show "unat appl' mod ?s = (unat appl + n) mod ?s"
  proof (cases "?b < unat appl + n")
    case True
    then have "unat appl + n = unat appl' + ?s * k" using assms(6) k by simp
    then show ?thesis by simp
  qed (use assms(6) in simp)
qed

text \<open>What the transfers need of the stream and of the device, and the view of the ring they keep.\<close>

definition ring_ready :: "'k pcm_kernel \<Rightarrow> pcm \<Rightarrow> 'k world \<Rightarrow> bool" where
  "ring_ready K p w \<longleftrightarrow> quiet K \<and> mapped p \<and> ring_ok p \<and> unat (channels (config p)) < 2 ^ 27
    \<and> 0 < frame_bytes p \<and> unat (buffer_size p) * frame_bytes p < 2 ^ 31
    \<and> length (k_buf K (kst w)) = unat (buffer_size p) * frame_bytes p
    \<and> unat (hw_of K w) < unat (boundary p) \<and> unat (appl_of K w) \<le> unat (boundary p)"

abbreviation ring_pos :: "'k pcm_kernel \<Rightarrow> pcm \<Rightarrow> 'k world \<Rightarrow> nat" where
  "ring_pos K p w \<equiv> unat (appl_of K w) mod unat (buffer_size p)"

abbreviation ring_fill :: "'k pcm_kernel \<Rightarrow> pcm \<Rightarrow> 'k world \<Rightarrow> nat" where
  "ring_fill K p w \<equiv> queued p (hw_of K w) (appl_of K w)"

definition frames_of :: "pcm \<Rightarrow> u8 list \<Rightarrow> nat \<Rightarrow> nat \<Rightarrow> u8 list" where
  "frames_of p buf i n = take (n * frame_bytes p) (drop (i * frame_bytes p) buf)"

lemma transfer_round_ring:
  assumes "ring_ready K p w" and "0 < unat n" and "ring_fill K p w + unat n \<le> unat (buffer_size p)"
    and "(unat off + unat n) * frame_bytes p \<le> length buf" and "(unat off + unat n) * frame_bytes p < 2 ^ 31"
    and c: "c = min (unat n) (unat (buffer_size p) - ring_pos K p w)"
  shows "\<exists>w'. transfer_round K buf off n p w = Inr (int c, buf, p, w') \<and> ring_ready K p w'
    \<and> k_buf K (kst w') = overwrite (k_buf K (kst w)) (ring_pos K p w * frame_bytes p) (frames_of p buf (unat off) c)
    \<and> hw_of K w' = hw_of K w \<and> ring_fill K p w' = ring_fill K p w + c
    \<and> ring_pos K p w' = (ring_pos K p w + c) mod unat (buffer_size p)"
proof -
  let ?fb = "frame_bytes p" and ?s = "unat (buffer_size p)"
  have r: "quiet K" "mapped p" "ring_ok p" "unat (channels (config p)) < 2 ^ 27" "?s * ?fb < 2 ^ 31"
    "length (k_buf K (kst w)) = ?s * ?fb" "unat (hw_of K w) < unat (boundary p)"
    "unat (appl_of K w) \<le> unat (boundary p)" "0 < ?s" "?s < 2 ^ 31" "unat (boundary p) < 2 ^ 31"
    using assms(1) by (auto simp: ring_ready_def ring_ok_def)
  have fb: "0 < ?fb" using assms(1) by (simp add: ring_ready_def)
  have fill: "ring_fill K p w \<le> ?s" "ring_fill K p w \<noteq> ?s" using assms(2,3) by simp_all
  obtain o' f where b: "pcm_mmap_begin K n p w = Inr (o', f, p, w)" "unat o' = ring_pos K p w"
    "unat f = min (unat n) (min (offered p (hw_of K w) (appl_of K w)) (?s - ring_pos K p w))"
    using begin_offers [OF r(1,2,3,7,8) fill(1), of n] by blast
  have "unat n \<le> ?s - ring_fill K p w" using assms(3) by simp
  then have f: "unat f = c" using b(3) fill unfolding c offered_def by (simp split: split_min)
  have pos: "ring_pos K p w < ?s" using r(9) by simp
  have c': "c \<le> unat n" "ring_pos K p w + c \<le> ?s" "c \<le> ?s" using pos by (simp_all add: c)
  have le: "m * ?fb < 2 ^ 31" if "m \<le> ?s" for m
    using mult_le_mono1 [OF that, of ?fb] r(5) by linarith
  have copy: "pcm_areas_copy K o' buf off f p w = Inr (buf, w\<lparr>kst := k_set_buf K
      (overwrite (k_buf K (kst w)) (ring_pos K p w * ?fb) (frames_of p buf (unat off) c)) (kst w)\<rparr>)"
    unfolding frames_of_def f [symmetric] b(2) [symmetric]
  proof (rule areas_copy_mapped [OF r(2,4)])
    show "unat f * ?fb < 2 ^ 31" "unat o' * ?fb < 2 ^ 31" unfolding f b(2) using le c'(3) pos by simp_all
    have "unat off * ?fb \<le> (unat off + unat n) * ?fb" by (rule mult_le_mono1) simp
    then show "unat off * ?fb < 2 ^ 31" using assms(5) by linarith
    have "(unat off + unat f) * ?fb \<le> (unat off + unat n) * ?fb" by (rule mult_le_mono1) (simp add: f c')
    then show "(unat off + unat f) * ?fb \<le> length buf" using assms(4) by linarith
    show "(unat o' + unat f) * ?fb \<le> length (k_buf K (kst w))"
      unfolding r(6) b(2) f by (rule mult_le_mono1 [OF c'(2)])
  qed
  let ?m = "overwrite (k_buf K (kst w)) (ring_pos K p w * ?fb) (frames_of p buf (unat off) c)"
  let ?appl = "ucast (appl_advance (boundary p) (ucast (appl_of K w)) f) :: u64"
  let ?w = "w\<lparr>kst := k_set_control K ((k_control K (k_set_buf K ?m (kst w)))\<lparr>appl_ptr := ?appl\<rparr>) (k_set_buf K ?m (kst w))\<rparr>"
  have "sint f = int c" using sint_small_u32 [of f] f c'(3) r(10) by simp
  then have round: "transfer_round K buf off n p w = Inr (int c, buf, p, ?w)"
    by (simp add: transfer_round_def b(1) copy commit_mapped [OF r(2)] quiet_simps [OF r(1)])
  have view: "k_buf K (kst ?w) = ?m" "hw_of K ?w = hw_of K w" "appl_of K ?w = ?appl"
    by (simp_all add: quiet_simps [OF r(1)])
  have "unat ?appl = (if unat (boundary p) < unat (appl_of K w) + c then unat (appl_of K w) + c - unat (boundary p)
      else unat (appl_of K w) + c)"
    using unat_appl_advance [OF r(8,11), of f] f c'(3) r(10) by simp
  note adv = queued_advance [OF r(3,7,8) _ c'(2) this]
  have "length (frames_of p buf (unat off) c) \<le> c * ?fb" by (simp add: frames_of_def)
  moreover have "(ring_pos K p w + c) * ?fb \<le> ?s * ?fb" by (rule mult_le_mono1 [OF c'(2)])
  ultimately have len: "length ?m = ?s * ?fb" using r(6) by (simp add: distrib_right)
  have "ring_fill K p w + c \<le> ?s" using assms(3) c'(1) by simp
  from adv [OF this] have "ring_fill K p ?w = ring_fill K p w + c" "unat (appl_of K ?w) \<le> unat (boundary p)"
    "ring_pos K p ?w = (ring_pos K p w + c) mod ?s"
    unfolding view by (simp_all add: mod_add_left_eq)
  moreover from this(2) have "ring_ready K p ?w"
    unfolding ring_ready_def view using r fb len by simp
  ultimately show ?thesis using round view by blast
qed

lemma transfer_loop_step:
  assumes "n \<noteq> 0" and "transfer_round K buf off n p w = Inr (int c, buf, p, w')"
  shows "transfer_loop K buf off n count p w
    = transfer_loop K buf (off + of_nat c) (n - of_nat c) (count + of_nat c) p w'"
  using assms by (subst transfer_loop.simps) simp

lemma transfer_loop_end: "transfer_loop K buf off 0 count p w = Some (Inr (sint count, buf, p, w))"
  by (subst transfer_loop.simps) simp

lemma frames_of_split: "frames_of p buf i (a + b) = frames_of p buf i a @ frames_of p buf (i + a) b"
  by (simp add: frames_of_def distrib_right take_add add.commute)

definition ring_gains :: "'k pcm_kernel \<Rightarrow> pcm \<Rightarrow> u8 list \<Rightarrow> u32 \<Rightarrow> u32 \<Rightarrow> 'k world \<Rightarrow> 'k world \<Rightarrow> bool" where
  "ring_gains K p buf off n w w' \<longleftrightarrow> ring_ready K p w'
     \<and> k_buf K (kst w') = ring_write (k_buf K (kst w)) (ring_pos K p w * frame_bytes p) (frames_of p buf (unat off) (unat n))
     \<and> ring_fill K p w' = ring_fill K p w + unat n
     \<and> ring_pos K p w' = (ring_pos K p w + unat n) mod unat (buffer_size p)"

lemma transfer_bounds:
  assumes "ring_ready K p w" and "ring_fill K p w + unat (n :: u32) \<le> unat (buffer_size p)"
    and "(unat off + unat n) * frame_bytes p \<le> length buf" and "(unat off + unat n) * frame_bytes p < 2 ^ 31"
  shows "0 < frame_bytes p" "0 < unat (buffer_size p)" "length (k_buf K (kst w)) = unat (buffer_size p) * frame_bytes p"
    and "ring_pos K p w < unat (buffer_size p)" and "ring_pos K p w * frame_bytes p < length (k_buf K (kst w))" and "unat n < 2 ^ 31"
    and "\<And>i m. i + m \<le> unat n \<Longrightarrow> length (frames_of p buf (unat off + i) m) = m * frame_bytes p"
    and "sint (0 + of_nat (unat n) :: u32) = int (unat n)"
proof -
  show r: "0 < frame_bytes p" "0 < unat (buffer_size p)" "length (k_buf K (kst w)) = unat (buffer_size p) * frame_bytes p"
    using assms(1) by (auto simp: ring_ready_def ring_ok_def)
  show "ring_pos K p w < unat (buffer_size p)" using r(2) by simp
  then show "ring_pos K p w * frame_bytes p < length (k_buf K (kst w))" using r by simp
  show n: "unat n < 2 ^ 31" using assms(1,2) by (auto simp: ring_ready_def ring_ok_def)
  show "length (frames_of p buf (unat off + i) m) = m * frame_bytes p" if "i + m \<le> unat n" for i m
    using mult_le_mono1 [of "unat off + i + m" "unat off + unat n" "frame_bytes p"] that assms(3)
    by (simp add: frames_of_def distrib_right)
  show "sint (0 + of_nat (unat n) :: u32) = int (unat n)" using n sint_small_u32 [of n] by simp
qed

lemma transfer_straight:
  assumes "ring_ready K p w" and "ring_fill K p w + unat n \<le> unat (buffer_size p)"
    and "(unat off + unat n) * frame_bytes p \<le> length buf" and "(unat off + unat n) * frame_bytes p < 2 ^ 31"
    and "0 < unat n" and "ring_pos K p w + unat n \<le> unat (buffer_size p)"
  shows
  "\<exists>w'. pcm_mmap_transfer_areas K buf off n p w = Some (Inr (int (unat n), buf, p, w')) \<and> ring_gains K p buf off n w w'"
proof -
  let ?s = "unat (buffer_size p)" and ?fb = "frame_bytes p" and ?m = "k_buf K (kst w)"
  note b = transfer_bounds [OF assms(1-4)]
  note r = b(1-3) and pos = b(4) and start = b(5) and n = b(6) and flen = b(7) and total = b(8)
  have c: "unat n = min (unat n) (?s - ring_pos K p w)" using assms(6) by simp
  obtain w' where w': "transfer_round K buf off n p w = Inr (int (unat n), buf, p, w')" "ring_ready K p w'"
    "k_buf K (kst w') = overwrite ?m (ring_pos K p w * ?fb) (frames_of p buf (unat off) (unat n))"
    "ring_fill K p w' = ring_fill K p w + unat n" "ring_pos K p w' = (ring_pos K p w + unat n) mod ?s"
    using transfer_round_ring [OF assms(1) assms(5) assms(2-4) c] by blast
  have "n \<noteq> 0" using assms(5) by auto
  from transfer_loop_step [OF this w'(1), of 0]
  have "pcm_mmap_transfer_areas K buf off n p w = Some (Inr (int (unat n), buf, p, w'))"
    unfolding pcm_mmap_transfer_areas_def using total by (simp add: transfer_loop_end)
  moreover have "ring_write ?m (ring_pos K p w * ?fb) (frames_of p buf (unat off) (unat n))
      = overwrite ?m (ring_pos K p w * ?fb) (frames_of p buf (unat off) (unat n))"
    using mult_le_mono1 [OF assms(6), of ?fb] flen [of 0 "unat n"] r(3)
    by (intro ring_write_straight [OF start]) (simp add: distrib_right)
  ultimately show ?thesis using w' by (auto simp: ring_gains_def)
qed

lemma transfer_wrapped:
  assumes "ring_ready K p w" and "ring_fill K p w + unat n \<le> unat (buffer_size p)"
    and "(unat off + unat n) * frame_bytes p \<le> length buf" and "(unat off + unat n) * frame_bytes p < 2 ^ 31"
    and "0 < unat n" and "unat (buffer_size p) < ring_pos K p w + unat n"
  shows
  "\<exists>w'. pcm_mmap_transfer_areas K buf off n p w = Some (Inr (int (unat n), buf, p, w')) \<and> ring_gains K p buf off n w w'"
proof -
  let ?s = "unat (buffer_size p)" and ?fb = "frame_bytes p" and ?m = "k_buf K (kst w)"
  note b = transfer_bounds [OF assms(1-4)]
  note r = b(1-3) and pos = b(4) and start = b(5) and n = b(6) and flen = b(7) and total = b(8)
  define c where "c = ?s - ring_pos K p w"
  then have c: "c = min (unat n) (?s - ring_pos K p w)" "c \<le> unat n" "c < unat n" "ring_pos K p w + c = ?s"
    using assms(6) pos by simp_all
  obtain w1 where w1: "transfer_round K buf off n p w = Inr (int c, buf, p, w1)" "ring_ready K p w1"
    "k_buf K (kst w1) = overwrite ?m (ring_pos K p w * ?fb) (frames_of p buf (unat off) c)"
    "ring_fill K p w1 = ring_fill K p w + c" "ring_pos K p w1 = (ring_pos K p w + c) mod ?s"
    using transfer_round_ring [OF assms(1) assms(5) assms(2-4) c(1)] by blast
  have p1: "ring_pos K p w1 = 0" using w1(5) c(4) by simp
  let ?n = "n - of_nat c" and ?off = "off + of_nat c"
  have cn: "unat (of_nat c :: u32) = c" using c(2) n by (intro unat_of_nat_small) simp
  have n1: "unat ?n = unat n - c" using c(2) by (subst unat_sub) (simp_all add: word_le_nat_alt cn)
  have "unat off + unat n \<le> (unat off + unat n) * ?fb" using r(1) by simp
  from le_less_trans [OF this assms(4)] have "unat off + c < 2 ^ 32" using c(2) by simp
  then have off1: "unat ?off = unat off + c" using cn unat_add_lem [of off "of_nat c"] by simp
  have same: "unat ?off + unat ?n = unat off + unat n" using off1 n1 c(2) by simp
  have "0 < unat ?n" "ring_fill K p w1 + unat ?n \<le> ?s" "(unat ?off + unat ?n) * ?fb \<le> length buf"
    "(unat ?off + unat ?n) * ?fb < 2 ^ 31" "unat n - c = min (unat ?n) (?s - ring_pos K p w1)"
    unfolding same p1 using n1 c(2,3) w1(4) assms(2-4) by simp_all
  from transfer_round_ring [OF w1(2) this]
  obtain w2 where w2: "transfer_round K buf ?off ?n p w1 = Inr (int (unat n - c), buf, p, w2)" "ring_ready K p w2"
    "k_buf K (kst w2) = overwrite (k_buf K (kst w1)) 0 (frames_of p buf (unat off + c) (unat n - c))"
    "ring_fill K p w2 = ring_fill K p w1 + (unat n - c)" "ring_pos K p w2 = (unat n - c) mod ?s"
    unfolding p1 off1 mult_0 add_0 by blast
  have "n \<noteq> 0" "?n \<noteq> 0" using assms(5) n1 c(3) by auto
  from transfer_loop_step [OF this(1) w1(1), of 0] transfer_loop_step [OF this(2) w2(1)]
  have "pcm_mmap_transfer_areas K buf off n p w = transfer_loop K buf (?off + of_nat (unat n - c))
      (?n - of_nat (unat n - c)) (0 + of_nat c + of_nat (unat n - c)) p w2"
    unfolding pcm_mmap_transfer_areas_def by simp
  also have "(?n - of_nat (unat n - c) :: u32) = 0" using c(2) by (simp add: of_nat_diff)
  also have "(0 + of_nat c + of_nat (unat n - c) :: u32) = 0 + of_nat (unat n)" using c(2) by (simp add: of_nat_diff)
  finally have loop: "pcm_mmap_transfer_areas K buf off n p w = Some (Inr (int (unat n), buf, p, w2))"
    using total by (simp add: transfer_loop_end)
  have split: "frames_of p buf (unat off) (unat n)
      = frames_of p buf (unat off) c @ frames_of p buf (unat off + c) (unat n - c)"
    using frames_of_split [of p buf "unat off" c "unat n - c"] c(2) by simp
  have "ring_pos K p w * ?fb + c * ?fb = ?s * ?fb" using c(4) by (metis distrib_right)
  moreover have "unat n * ?fb \<le> ?s * ?fb" using assms(2) by (intro mult_le_mono1) simp
  moreover have "c * ?fb + (unat n - c) * ?fb = unat n * ?fb" using c(2) by (metis distrib_right le_add_diff_inverse)
  ultimately have "k_buf K (kst w2)
      = ring_write ?m (ring_pos K p w * ?fb) (frames_of p buf (unat off) (unat n))"
    unfolding split w2(3) w1(3) using flen [of 0 c] flen [of c "unat n - c"] c(2) r(3)
    by (intro ring_write_wrapped [OF start, symmetric]) simp_all
  moreover have "ring_pos K p w2 = (ring_pos K p w + unat n) mod ?s"
  proof -
    have "ring_pos K p w + unat n = (unat n - c) + ?s" using c(2,4) by simp
    then show ?thesis using w2(5) by (simp only: mod_add_self2)
  qed
  ultimately show ?thesis using loop w2(2,4) w1(4) c(2) by (auto simp: ring_gains_def)
qed

text \<open>
  C26: on a quiet device \<^verbatim>\<open>pcm_mmap_transfer_areas\<close> implements a write on a ring: frames that fit the
  free part of the buffer are placed byte for byte from the application pointer on, around the end of
  the buffer if need be, nothing else of the buffer changes, all of them are counted, and the pointer
  moves by their number. The loop ends after at most two rounds.
\<close>

theorem mmap_transfer_ring:
  assumes "ring_ready K p w" and "ring_fill K p w + unat n \<le> unat (buffer_size p)"
    and "(unat off + unat n) * frame_bytes p \<le> length buf" and "(unat off + unat n) * frame_bytes p < 2 ^ 31"
  shows "\<exists>w'. pcm_mmap_transfer_areas K buf off n p w = Some (Inr (int (unat n), buf, p, w'))
    \<and> ring_ready K p w'
    \<and> k_buf K (kst w') = ring_write (k_buf K (kst w)) (ring_pos K p w * frame_bytes p) (frames_of p buf (unat off) (unat n))
    \<and> ring_fill K p w' = ring_fill K p w + unat n
    \<and> ring_pos K p w' = (ring_pos K p w + unat n) mod unat (buffer_size p)"
proof -
  note b = transfer_bounds [OF assms]
  consider (none) "n = 0" | (straight) "0 < unat n" "ring_pos K p w + unat n \<le> unat (buffer_size p)"
    | (wrapped) "0 < unat n" "unat (buffer_size p) < ring_pos K p w + unat n"
    by (metis leI neq0_conv unat_eq_zero)
  then have "\<exists>w'. pcm_mmap_transfer_areas K buf off n p w = Some (Inr (int (unat n), buf, p, w')) \<and> ring_gains K p buf off n w w'"
  proof cases
    case none
    have "ring_write (k_buf K (kst w)) (ring_pos K p w * frame_bytes p) (frames_of p buf (unat off) 0) = k_buf K (kst w)"
      using ring_write_straight [OF b(5), of "[]"] b(5) by (simp add: frames_of_def)
    then show ?thesis using none assms(1)
      by (auto simp: pcm_mmap_transfer_areas_def transfer_loop_end ring_gains_def)
  next
    case straight
    then show ?thesis by (rule transfer_straight [OF assms])
  next
    case wrapped
    then show ?thesis by (rule transfer_wrapped [OF assms])
  qed
  then show ?thesis unfolding ring_gains_def .
qed

text \<open>A full stream of eight frames of four bytes: two frames free before its end, and two behind it.\<close>

definition demo_mapped :: pcm where
  "demo_mapped = (demo_stream PCM_MMAP True)\<lparr>mmap_status := Mapped_page, mmap_control := Mapped_page,
     mmap_buffer := Mapped_buf\<rparr>"

definition demo_ring_world :: "u64 \<Rightarrow> u64 \<Rightarrow> demo world" where
  "demo_ring_world hw appl = \<lparr>kst = \<lparr>d_fds = [0, 1, 2, 3], d_script = [],
     d_status = \<lparr>sstate = 3, hw_ptr = hw, tstamp = (0, 0)\<rparr>, d_control = \<lparr>appl_ptr = appl, ctl_avail_min = 0\<rparr>,
     d_buf = replicate 32 0\<rparr>, errno = 0\<rparr>"

lemma demo_quiet: "quiet demo_kernel"
  by (simp add: quiet_def demo_kernel_def)

lemma demo_ring_fields [simp]:
  "hw_ptr (d_status (kst (demo_ring_world hw appl))) = hw"
  "appl_ptr (d_control (kst (demo_ring_world hw appl))) = appl"
  "d_buf (kst (demo_ring_world hw appl)) = replicate 32 0"
  by (simp_all add: demo_ring_world_def)

lemma demo_ring_simps [simp]:
  "hw_of demo_kernel (demo_ring_world hw appl) = hw" "appl_of demo_kernel (demo_ring_world hw appl) = appl"
  "k_buf demo_kernel (kst (demo_ring_world hw appl)) = replicate 32 0" "frame_bytes demo_mapped = 4"
  "buffer_size demo_mapped = 8" "boundary demo_mapped = 64"
  by (simp_all add: demo_kernel_def demo_ring_world_def demo_mapped_def frame_bytes_def demo_config_def
      zero_config_def pcm_format_to_bits_def)

lemma demo_ring_ready: "unat hw < 64 \<Longrightarrow> unat appl \<le> 64 \<Longrightarrow> ring_ready demo_kernel demo_mapped (demo_ring_world hw appl)"
proof -
  assume "unat hw < 64" "unat appl \<le> 64"
  moreover have "mapped demo_mapped" "ring_ok demo_mapped"
    by (simp_all add: mapped_def ring_ok_def) (simp add: demo_mapped_def has_def PCM_MMAP_def PCM_IN_def)
  moreover have "unat (channels (config demo_mapped)) < 2 ^ 27"
    by (simp add: demo_mapped_def demo_config_def zero_config_def)
  ultimately show ?thesis by (simp add: ring_ready_def demo_quiet)
qed

theorem mmap_transfer_ring_witness:
  "\<exists>w'. pcm_mmap_transfer_areas demo_kernel [1,1,1,1,2,2,2,2,3,3,3,3] 0 3 demo_mapped (demo_ring_world 2 6)
      = Some (Inr (3, [1,1,1,1,2,2,2,2,3,3,3,3], demo_mapped, w'))
    \<and> k_buf demo_kernel (kst w') = [3,3,3,3] @ replicate 20 0 @ [1,1,1,1,2,2,2,2]"
proof -
  have "ring_write (replicate 32 0) 24 [1,1,1,1,2,2,2,2,3,3,3,3 :: u8] = [3,3,3,3] @ replicate 20 0 @ [1,1,1,1,2,2,2,2]"
    by code_simp
  then show ?thesis
    using mmap_transfer_ring [OF demo_ring_ready, of 2 6 3 0 "[1,1,1,1,2,2,2,2,3,3,3,3]"]
    by (auto simp: queued_def frames_of_def)
qed

text \<open>
  on a mapped playback stream \<^verbatim>\<open>pcm_mmap_begin\<close> offers the position of the application pointer in
  the buffer and as many frames as are asked for, free and contiguous. The exception is a ring that
  is full with a wrapped pointer, where frames that are still to be played are offered.
\<close>

theorem pcm_mmap_begin_window:
  assumes "quiet K" and "mapped p" and "ring_ok p" and "unat (hw_of K w) < unat (boundary p)"
    and "unat (appl_of K w) \<le> unat (boundary p)"
    and "ring_fill K p w \<le> unat (buffer_size p)"
  shows "\<exists>offset frames. pcm_mmap_begin K n p w = Inr (offset, frames, p, w)
    \<and> unat offset = ring_pos K p w
    \<and> unat frames = min (unat n) (min (offered p (hw_of K w) (appl_of K w)) (unat (buffer_size p) - ring_pos K p w))
    \<and> (offered p (hw_of K w) (appl_of K w) = unat (buffer_size p) - ring_fill K p w
       \<or> ring_fill K p w = unat (buffer_size p) \<and> offered p (hw_of K w) (appl_of K w) = unat (buffer_size p))"
  using begin_offers [OF assms, of n] by (auto simp: offered_def)

theorem pcm_mmap_begin_window_witness:
  "(\<exists>offset frames. pcm_mmap_begin demo_kernel 5 demo_mapped (demo_ring_world 2 6)
      = Inr (offset, frames, demo_mapped, demo_ring_world 2 6) \<and> unat offset = 6 \<and> unat frames = 2)
    \<and> (\<exists>offset frames. pcm_mmap_begin demo_kernel 5 demo_mapped (demo_ring_world 60 4)
      = Inr (offset, frames, demo_mapped, demo_ring_world 60 4) \<and> unat offset = 4 \<and> unat frames = 4)"
proof -
  have "mapped demo_mapped" "ring_ok demo_mapped"
    using demo_ring_ready [of 2 6] by (simp_all add: ring_ready_def)
  note b = pcm_mmap_begin_window [OF demo_quiet this]
  show ?thesis
  proof
    show "\<exists>offset frames. pcm_mmap_begin demo_kernel 5 demo_mapped (demo_ring_world 2 6)
      = Inr (offset, frames, demo_mapped, demo_ring_world 2 6) \<and> unat offset = 6 \<and> unat frames = 2"
      using b [of "demo_ring_world 2 6" 5] by (simp add: queued_def offered_def)
    show "\<exists>offset frames. pcm_mmap_begin demo_kernel 5 demo_mapped (demo_ring_world 60 4)
      = Inr (offset, frames, demo_mapped, demo_ring_world 60 4) \<and> unat offset = 4 \<and> unat frames = 4"
      using b [of "demo_ring_world 60 4" 5] by (simp add: queued_def offered_def)
  qed
qed

section \<open>Further facts\<close>

text \<open>The pointer reaches the boundary itself, which the ABI header excludes.\<close>

lemma appl_at_boundary:
  assumes "unat a + unat n = unat b" and "unat b < 2 ^ 31"
  shows "appl_advance b a n = b"
proof -
  have "unat (appl_advance b a n) = unat b" using appl_advance_nat [of a b n] assms by simp
  then show ?thesis by (rule unsigned_word_eqI)
qed

text \<open>The check of \<^verbatim>\<open>pcm_mmap_write\<close> lets a capture stream through, since \<^verbatim>\<open>PCM_OUT\<close> is 0.\<close>

lemma mmap_write_on_capture:
  "has (flags p) PCM_MMAP \<Longrightarrow> flags p = PCM_IN OR PCM_MMAP \<Longrightarrow>
    pcm_mmap_write K buf cnt p w = pcm_mmap_transfer K buf cnt p w"
  by (simp add: pcm_mmap_write_def has_def PCM_IN_def PCM_MMAP_def PCM_OUT_def)

end
