(* ===== verification/PcmStates.thy ===== *)
theory PcmStates
  imports PcmMmap PcmStream
begin

text \<open>
  The states of a stream over every operation of the file: what no call changes, and that a stream
  that runs is prepared. The calls are a step relation; between two of them the device and the
  process may do anything to the kernel's state.
\<close>

section \<open>What a call keeps\<close>

definition keeps :: "pcm \<Rightarrow> pcm \<Rightarrow> bool" where
  "keeps p q \<longleftrightarrow> stable p q \<and> (pcm_inv p \<longrightarrow> pcm_inv q)"

definition untouched :: "pcm \<Rightarrow> pcm \<Rightarrow> bool" where
  "untouched p q \<longleftrightarrow> stable p q \<and> running q = running p \<and> prepared q = prepared p"

lemma untouched_keeps [intro]: "untouched p q \<Longrightarrow> keeps p q"
  by (simp add: untouched_def keeps_def pcm_inv_def)

lemma untouched_refl [simp]: "untouched p p"
  by (simp add: untouched_def)

lemma untouched_trans: "untouched p q \<Longrightarrow> untouched q r \<Longrightarrow> untouched p r"
  using stable_trans by (auto simp: untouched_def)

lemma keeps_refl [simp]: "keeps p p"
  by (simp add: keeps_def)

lemma keeps_trans: "keeps p q \<Longrightarrow> keeps q r \<Longrightarrow> keeps p r"
  using stable_trans by (auto simp: keeps_def)

lemma keeps_untouched: "keeps p q \<Longrightarrow> untouched q r \<Longrightarrow> keeps p r"
  by (rule keeps_trans) auto

lemma untouched_pcm_fail [simp]:
  "untouched p (pcm_fail K w e msg q) = untouched p q" "keeps p (pcm_fail K w e msg q) = keeps p q"
  by (simp_all add: untouched_def keeps_def pcm_inv_def pcm_fail_def Let_def stable_def)

lemma keeps_stopped [simp]: "keeps p (p\<lparr>prepared := False, running := False\<rparr>)"
  by (simp add: keeps_def pcm_inv_def)

lemma untouched_wait [simp]: "untouched p (q\<lparr>wait_for_avail_min := b\<rparr>) = untouched p q"
  by (simp add: untouched_def)

lemma sync_ptr_untouched: "pcm_sync_ptr K fl p w = (r, p', w') \<Longrightarrow> untouched p p'"
  by (auto simp: pcm_sync_ptr_def untouched_def stable_def split: option.splits prod.splits if_splits)

lemma store_control_untouched: "store_control K c p w = Inr (p', w') \<Longrightarrow> untouched p p'"
  by (auto simp: store_control_def untouched_def stable_def split: page_ptr.splits option.splits)

lemma mmap_avail_untouched:
  assumes "pcm_mmap_avail K p w = Inr (a, p', w')"
  shows "untouched p p'"
proof -
  obtain r p1 w1 where 1: "pcm_sync_ptr K SNDRV_PCM_SYNC_PTR_HWSYNC p w = (r, p1, w1)" by (rule prod_cases3)
  have "p' = p1" using assms by (auto simp: pcm_mmap_avail_def 1 res_simps)
  with sync_ptr_untouched [OF 1] show ?thesis by simp
qed

lemma avail_update_untouched:
  assumes "pcm_avail_update K p w = Inr (a, p', w')"
  shows "untouched p p'"
proof -
  obtain r p1 w1 where 1: "pcm_sync_ptr K 0 p w = (r, p1, w1)" by (rule prod_cases3)
  have "pcm_mmap_avail K p1 w1 = Inr (a, p', w')" using assms by (simp add: pcm_avail_update_def 1)
  from untouched_trans [OF sync_ptr_untouched [OF 1] mmap_avail_untouched [OF this]] show ?thesis .
qed

lemma mmap_begin_untouched:
  assumes "pcm_mmap_begin K n p w = Inr (off, f, p', w')"
  shows "untouched p p'"
  using assms by (auto simp: pcm_mmap_begin_def res_simps Let_def dest: mmap_avail_untouched split: if_splits)

lemma mmap_commit_untouched:
  assumes "pcm_mmap_commit K n p w = Inr (r, p', w')"
  shows "untouched p p'"
proof -
  obtain p1 w1 where 1: "pcm_mmap_appl_forward K n p w = Inr (p1, w1)"
    using assms by (auto simp: pcm_mmap_commit_def res_simps)
  obtain s p2 w2 where 2: "pcm_sync_ptr K 0 p1 w1 = (s, p2, w2)" by (rule prod_cases3)
  have "p' = p2" using assms by (simp add: pcm_mmap_commit_def 1 2)
  moreover have "untouched p p1" using 1 by (auto simp: pcm_mmap_appl_forward_def res_simps dest: store_control_untouched)
  ultimately show ?thesis using untouched_trans sync_ptr_untouched [OF 2] by blast
qed

lemma state_untouched:
  assumes "pcm_state K p w = Inr (r, p', w')"
  shows "untouched p p'"
proof -
  obtain s p1 w1 where 1: "pcm_sync_ptr K 0 p w = (s, p1, w1)" by (rule prod_cases3)
  have "p' = p1" using assms by (auto simp: pcm_state_def 1 res_simps split: if_splits)
  with sync_ptr_untouched [OF 1] show ?thesis by simp
qed

lemma start_keeps:
  assumes "pcm_start K p w = (r, p', w')"
  shows "keeps p p' \<and> (r = 0 \<and> running p' \<or> r = -1 \<and> running p' = running p)"
  using assms by (elim pcm_start_cases) (auto simp: keeps_def pcm_inv_def)

section \<open>The loops\<close>

lemma areas_round_untouched:
  assumes "transfer_round K buf off n p w = Inr (c, buf', p', w')"
  shows "untouched p p'"
proof -
  obtain po f p1 w1 where 1: "pcm_mmap_begin K n p w = Inr (po, f, p1, w1)"
    using assms by (auto simp: transfer_round_def res_simps)
  obtain b w2 where 2: "pcm_areas_copy K po buf off f p1 w1 = Inr (b, w2)"
    using assms by (auto simp: transfer_round_def 1 res_simps)
  obtain c' p2 w3 where 3: "pcm_mmap_commit K f p1 w2 = Inr (c', p2, w3)"
    using assms by (auto simp: transfer_round_def 1 2 res_simps)
  have "untouched p p2"
    by (rule untouched_trans [OF mmap_begin_untouched [OF 1] mmap_commit_untouched [OF 3]])
  then show ?thesis using assms by (auto simp: transfer_round_def 1 2 3 split: if_splits)
qed

lemma transfer_loop_untouched:
  assumes "transfer_loop K buf off n cnt p w = Some (Inr (r, buf', p', w'))"
  shows "untouched p p'"
proof -
  let ?P = "\<lambda>K buf off n cnt p w (y :: _ res). \<forall>r buf' p' w'. y = Inr (r, buf', p', w') \<longrightarrow> untouched p p'"
  have "?P K buf off n cnt p w (Inr (r, buf', p', w'))"
  proof (rule transfer_loop.raw_induct [of ?P, OF _ assms])
    fix loop K buf off n cnt p w y
    assume IH: "\<And>K buf off n cnt p w y. loop K buf off n cnt p w = Some y \<Longrightarrow> ?P K buf off n cnt p w y"
      and eq: "(if n = 0 then Some (Inr (sint cnt, buf, p, w))
        else case transfer_round K buf off n p w of
               Inl f \<Rightarrow> Some (Inl f)
             | Inr (commit, buf', p', w') \<Rightarrow>
                 if commit < 0 then Some (Inr (commit, buf', p', w'))
                 else loop K buf' (off + of_int commit) (n - of_int commit) (cnt + of_int commit) p' w') = Some y"
    show "?P K buf off n cnt p w y"
    proof (cases "transfer_round K buf off n p w")
      case (Inl f)
      then show ?thesis using eq by (auto split: if_splits)
    next
      case (Inr z)
      obtain c b p1 w1 where z: "z = (c, b, p1, w1)" by (rule prod_cases4)
      note u = areas_round_untouched [OF Inr [unfolded z]]
      show ?thesis
      proof (cases "n = 0 \<or> c < 0")
        case True
        then show ?thesis using eq Inr z u by (auto split: if_splits)
      next
        case False
        then have "loop K b (off + of_int c) (n - of_int c) (cnt + of_int c) p1 w1 = Some y"
          using eq Inr z by simp
        from IH [OF this] u show ?thesis by (blast intro: untouched_trans)
      qed
    qed
  qed
  then show ?thesis by blast
qed

lemma pcm_wait_untouched:
  assumes "pcm_wait K t p w = Some (Inr (r, p', w'))"
  shows "untouched p p'"
proof -
  let ?P = "\<lambda>K t p w (y :: _ res). \<forall>r p' w'. y = Inr (r, p', w') \<longrightarrow> untouched p p'"
  have "?P K t p w (Inr (r, p', w'))"
  proof (rule pcm_wait.raw_induct [of ?P, OF _ assms])
    fix loop K t p w y
    assume IH: "\<And>K t p w y. loop K t p w = Some y \<Longrightarrow> ?P K t p w y"
      and eq: "(case k_poll K (fd p) t (kst w) of
        (r, revents, k) \<Rightarrow>
          (case sys (r, k) w of
             (err, w1) \<Rightarrow>
               if err < 0 then Some (Inr (- errno w1, p, w1))
               else if err = 0 then Some (Inr (0, p, w1))
               else if errno w1 \<noteq> - EINTR \<and> revents AND (POLLERR OR POLLNVAL) \<noteq> 0
               then Some (bindE (pcm_state K p w1) (\<lambda>(s, p2, w2). Inr (wait_error s, p2, w2)))
               else if revents AND (POLLIN OR POLLOUT) = 0 then loop K t p w1
               else Some (Inr (1, p, w1)))) = Some y"
    obtain rr rev k where k: "k_poll K (fd p) t (kst w) = (rr, rev, k)" by (rule prod_cases3)
    obtain err w1 where s: "sys (rr, k) w = (err, w1)" by (rule prod.exhaust)
    consider "y = Inr (- errno w1, p, w1)" | "y = Inr (0, p, w1)" | "y = Inr (1, p, w1)"
      | (state) "y = bindE (pcm_state K p w1) (\<lambda>(s, p2, w2). Inr (wait_error s, p2, w2))"
      | (again) "loop K t p w1 = Some y"
      using eq unfolding k s prod.case
      by (cases "err < 0"; cases "err = 0"; cases "errno w1 \<noteq> - EINTR \<and> rev AND (POLLERR OR POLLNVAL) \<noteq> 0";
          cases "rev AND (POLLIN OR POLLOUT) = 0"; simp)
    then show "?P K t p w y"
    proof cases
      case state
      then show ?thesis by (auto simp: res_simps dest: state_untouched)
    next
      case again
      from IH [OF this] show ?thesis .
    qed auto
  qed
  then show ?thesis by blast
qed

definition plan_stream :: "'k transfer_plan \<Rightarrow> pcm" where
  "plan_stream a = (case a of Return r p w \<Rightarrow> p | Wait t p w \<Rightarrow> p | Copy n p w \<Rightarrow> p)"

lemma plan_running_untouched:
  "plan_running cnt avail p w = Inr a \<Longrightarrow> untouched p (plan_stream a)"
  by (auto simp: plan_running_def plan_copy_def plan_stream_def Let_def split: if_splits)

lemma plan_transfer_keeps:
  assumes "plan_transfer K err cnt p w = Inr a"
  shows "keeps p (plan_stream a)"
proof -
  obtain avail p1 w1 where 1: "pcm_avail_update K p w = Inr (avail, p1, w1)"
    using assms by (auto simp: plan_transfer_def res_simps)
  have p1: "keeps p p1" using avail_update_untouched [OF 1] by auto
  obtain s p2 w2 where 2: "pcm_start K p1 w1 = (s, p2, w2)" by (rule prod_cases3)
  have p2: "keeps p p2" using keeps_trans [OF p1] start_keeps [OF 2] by blast
  consider "a = Return err p1 w1" | "a = Return (- errno w2) p2 w2"
    | (started) "plan_running cnt avail (p2\<lparr>wait_for_avail_min := False\<rparr>) w2 = Inr a"
    | (running) "plan_running cnt avail p1 w1 = Inr a"
    using assms unfolding plan_transfer_def 1 2 bindE_simps prod.case Let_def
    by (cases "sint avail < 0"; cases "\<not> running p1 \<and> start_threshold (config p1) \<le> buffer_size p1 - avail";
        cases "s < 0"; simp)
  then show ?thesis
  proof cases
    case started
    from keeps_untouched [OF p2] plan_running_untouched [OF this] show ?thesis
      by (auto simp: untouched_def stable_def)
  next
    case running
    from keeps_untouched [OF p1 plan_running_untouched [OF this]] show ?thesis .
  qed (use p1 p2 in \<open>simp_all add: plan_stream_def\<close>)
qed

lemma wait_failed_keeps:
  assumes "wait_failed K err p w = Inr (p', w')"
  shows "keeps p p'"
proof -
  obtain c where "store_control K c (pcm_fail K w err (''wait error'' @ nl) (p\<lparr>prepared := False, running := False\<rparr>)) w
      = Inr (p', w')"
    using assms by (auto simp: wait_failed_def Let_def res_simps)
  from store_control_untouched [OF this] show ?thesis
    by (rule keeps_untouched [rotated]) simp
qed

text \<open>The two branches of a round that may go on, for any continuation \<open>cont\<close> that keeps the stream.\<close>

lemma wait_branch_keeps:
  assumes "keeps p q"
    and cont: "\<And>e p2 w2. cont e p2 w2 = Some y \<Longrightarrow> \<forall>r b p' w'. y = Inr (r, b, p', w') \<longrightarrow> keeps p2 p'"
    and eq: "(case pcm_wait K t q u of
        None \<Rightarrow> None
      | Some (Inl f) \<Rightarrow> Some (Inl f)
      | Some (Inr (err', p2, w2)) \<Rightarrow>
          if err' < 0
          then Some (bindE (wait_failed K err' p2 w2) (\<lambda>(p3, w3). Inr (err', buf, p3, w3)))
          else cont err' p2 w2) = Some y"
  shows "\<forall>r b p' w'. y = Inr (r, b, p', w') \<longrightarrow> keeps p p'"
proof (cases "pcm_wait K t q u")
  case (Some z)
  show ?thesis
  proof (cases z)
    case (Inr v)
    obtain e p2 w2 where v: "v = (e, p2, w2)" by (rule prod_cases3)
    have p2: "keeps p p2" using keeps_untouched [OF assms(1)] pcm_wait_untouched Some Inr v by blast
    have "(if e < 0 then Some (bindE (wait_failed K e p2 w2) (\<lambda>(p3, w3). Inr (e, buf, p3, w3)))
        else cont e p2 w2) = Some y"
      using eq Some Inr v by simp
    then show ?thesis
      using cont [of e p2 w2] p2
      by (auto simp: res_simps dest!: wait_failed_keeps intro: keeps_trans split: if_splits)
  qed (use eq Some in auto)
qed (use eq in simp)

lemma copy_branch_keeps:
  assumes "keeps p q"
    and cont: "\<And>m b p2 w2. cont m b p2 w2 = Some y \<Longrightarrow> \<forall>r b p' w'. y = Inr (r, b, p', w') \<longrightarrow> keeps p2 p'"
    and eq: "(case pcm_mmap_transfer_areas K buf off n q u of
        None \<Rightarrow> None
      | Some (Inl f) \<Rightarrow> Some (Inl f)
      | Some (Inr (m, b, p2, w2)) \<Rightarrow> if m < 0 then Some (Inr (m, b, p2, w2)) else cont m b p2 w2) = Some y"
  shows "\<forall>r b p' w'. y = Inr (r, b, p', w') \<longrightarrow> keeps p p'"
proof (cases "pcm_mmap_transfer_areas K buf off n q u")
  case (Some z)
  show ?thesis
  proof (cases z)
    case (Inr v)
    obtain m b p2 w2 where v: "v = (m, b, p2, w2)" by (rule prod_cases4)
    have "untouched q p2"
      using Some Inr v unfolding pcm_mmap_transfer_areas_def by (blast intro: transfer_loop_untouched)
    then have p2: "keeps p p2" by (rule keeps_untouched [OF assms(1)])
    have "(if m < 0 then Some (Inr (m, b, p2, w2)) else cont m b p2 w2) = Some y"
      using eq Some Inr v by simp
    then show ?thesis using cont [of m b p2 w2] p2 by (auto intro: keeps_trans split: if_splits)
  qed (use eq Some in auto)
qed (use eq in simp)

lemma mmap_transfer_loop_keeps:
  assumes "mmap_transfer_loop K buf err off cnt p w = Some (Inr (r, buf', p', w'))"
  shows "keeps p p'"
proof -
  let ?P = "\<lambda>K buf err off cnt p w (y :: _ res). \<forall>r buf' p' w'. y = Inr (r, buf', p', w') \<longrightarrow> keeps p p'"
  have "?P K buf err off cnt p w (Inr (r, buf', p', w'))"
  proof (rule mmap_transfer_loop.raw_induct [of ?P, OF _ assms])
    fix loop K buf err off cnt p w y
    assume IH: "\<And>K buf err off cnt p w y. loop K buf err off cnt p w = Some y \<Longrightarrow> ?P K buf err off cnt p w y"
      and eq: "(if cnt = 0 then Some (Inr (0, buf, p, w))
      else case plan_transfer K err cnt p w of
             Inl f \<Rightarrow> Some (Inl f)
           | Inr (Return r p1 w1) \<Rightarrow> Some (Inr (r, buf, p1, w1))
           | Inr (Wait timeout p1 w1) \<Rightarrow>
               (case pcm_wait K timeout p1 w1 of
                  None \<Rightarrow> None
                | Some (Inl f) \<Rightarrow> Some (Inl f)
                | Some (Inr (err', p2, w2)) \<Rightarrow>
                    if err' < 0
                    then Some (bindE (wait_failed K err' p2 w2) (\<lambda>(p3, w3). Inr (err', buf, p3, w3)))
                    else loop K buf err' off cnt p2 w2)
           | Inr (Copy frames p1 w1) \<Rightarrow>
               if frames = 0 then Some (Inr (0, buf, p1, w1))
               else (case pcm_mmap_transfer_areas K buf off frames p1 w1 of
                       None \<Rightarrow> None
                     | Some (Inl f) \<Rightarrow> Some (Inl f)
                     | Some (Inr (n, buf', p2, w2)) \<Rightarrow>
                         if n < 0 then Some (Inr (n, buf', p2, w2))
                         else loop K buf' err (off + of_int n) (cnt - of_int n) p2 w2)) = Some y"
    consider (zero) "cnt = 0" | (fault) f where "cnt \<noteq> 0" "plan_transfer K err cnt p w = Inl f"
      | (plan) a where "cnt \<noteq> 0" "plan_transfer K err cnt p w = Inr a"
      by (cases "plan_transfer K err cnt p w") auto
    then show "?P K buf err off cnt p w y"
    proof cases
      case plan
      note k = plan_transfer_keeps [OF plan(2)]
      show ?thesis
      proof (cases a)
        case (Return r p1 w1)
        then show ?thesis using eq plan k by (auto simp: plan_stream_def)
      next
        case (Wait t p1 w1)
        show ?thesis
          by (rule wait_branch_keeps [where p = p and q = p1 and buf = buf
                and cont = "\<lambda>e p2 w2. loop K buf e off cnt p2 w2" and K = K and t = t and u = w1])
            (use eq plan k Wait IH in \<open>simp_all add: plan_stream_def\<close>)
      next
        case (Copy n p1 w1)
        show ?thesis
        proof (cases "n = 0")
          case False
          show ?thesis
            by (rule copy_branch_keeps [where p = p and q = p1 and buf = buf and off = off and n = n
                  and cont = "\<lambda>m b p2 w2. loop K b err (off + of_int m) (cnt - of_int m) p2 w2"
                  and K = K and u = w1])
              (use eq plan k Copy IH False in \<open>simp_all add: plan_stream_def\<close>)
        qed (use eq plan k Copy in \<open>auto simp: plan_stream_def\<close>)
      qed
    qed (use eq in auto)
  qed
  then show ?thesis by blast
qed

section \<open>Runs of calls\<close>

text \<open>
  A step is one call on an open stream that returns, or anything that the device and the process do
  to the kernel in between. Closing ends the life of the stream and is not a step.
\<close>

inductive pcm_step :: "'k pcm_kernel \<Rightarrow> pcm \<times> 'k world \<Rightarrow> pcm \<times> 'k world \<Rightarrow> bool" for K where
  prepare: "pcm_prepare K p w = (r, p', w') \<Longrightarrow> pcm_step K (p, w) (p', w')"
| start: "pcm_start K p w = (r, p', w') \<Longrightarrow> pcm_step K (p, w) (p', w')"
| stop: "pcm_stop K p w = (r, p', w') \<Longrightarrow> pcm_step K (p, w) (p', w')"
| wr: "pcm_write K buf n p w = Inr (r, p', w') \<Longrightarrow> pcm_step K (p, w) (p', w')"
| rd: "pcm_read K buf n p w = Some (Inr (r, buf', p', w')) \<Longrightarrow> pcm_step K (p, w) (p', w')"
| mmap_begin: "pcm_mmap_begin K m p w = Inr (off, f, p', w') \<Longrightarrow> pcm_step K (p, w) (p', w')"
| mmap_commit: "pcm_mmap_commit K m p w = Inr (r, p', w') \<Longrightarrow> pcm_step K (p, w) (p', w')"
| mmap_avail: "pcm_mmap_avail K p w = Inr (a, p', w') \<Longrightarrow> pcm_step K (p, w) (p', w')"
| avail_update: "pcm_avail_update K p w = Inr (a, p', w') \<Longrightarrow> pcm_step K (p, w) (p', w')"
| state: "pcm_state K p w = Inr (r, p', w') \<Longrightarrow> pcm_step K (p, w) (p', w')"
| set_avail_min: "pcm_set_avail_min v p = (r, p') \<Longrightarrow> pcm_step K (p, w) (p', w)"
| wait: "pcm_wait K t p w = Some (Inr (r, p', w')) \<Longrightarrow> pcm_step K (p, w) (p', w')"
| mmap_write: "pcm_mmap_write K buf n p w = Some (Inr (r, buf', p', w')) \<Longrightarrow> pcm_step K (p, w) (p', w')"
| mmap_read: "pcm_mmap_read K buf n p w = Some (Inr (r, buf', p', w')) \<Longrightarrow> pcm_step K (p, w) (p', w')"
| htimestamp: "pcm_get_htimestamp K p w = Inr (r, a, ts, p', w') \<Longrightarrow> pcm_step K (p, w) (p', w')"
| elsewhere: "pcm_step K (p, w) (p, w')"

inductive pcm_run :: "'k pcm_kernel \<Rightarrow> pcm \<times> 'k world \<Rightarrow> pcm \<times> 'k world \<Rightarrow> bool" for K where
  none: "pcm_run K s s"
| more: "pcm_run K s t \<Longrightarrow> pcm_step K t u \<Longrightarrow> pcm_run K s u"

text \<open>What a run keeps: everything \<open>keeps\<close> names, but for the threshold of \<^verbatim>\<open>pcm_set_avail_min\<close>.\<close>

definition lives :: "pcm \<Rightarrow> pcm \<Rightarrow> bool" where
  "lives p q \<longleftrightarrow> keeps p (q\<lparr>config := (config q)\<lparr>avail_min := avail_min (config p)\<rparr>\<rparr>)"

lemma keeps_lives: "keeps p q \<Longrightarrow> lives p q"
  by (simp add: lives_def keeps_def stable_def pcm_inv_def)

lemma lives_trans:
  assumes "lives p q" and "lives q r"
  shows "lives p r"
proof -
  have "(config r)\<lparr>avail_min := avail_min (config p)\<rparr>
      = ((config r)\<lparr>avail_min := avail_min (config q)\<rparr>)\<lparr>avail_min := avail_min (config p)\<rparr>" by simp
  also have "(config r)\<lparr>avail_min := avail_min (config q)\<rparr> = config q"
    using assms(2) by (simp add: lives_def keeps_def stable_def)
  also have "(config q)\<lparr>avail_min := avail_min (config p)\<rparr> = config p"
    using assms(1) by (simp add: lives_def keeps_def stable_def)
  finally show ?thesis using assms by (simp add: lives_def keeps_def stable_def pcm_inv_def)
qed

lemma mmap_transfer_keeps:
  assumes "pcm_mmap_transfer K buf n p w = Some (Inr (r, buf', p', w'))"
  shows "keeps p p'"
proof (cases "n = 0")
  case False
  then obtain c where "mmap_transfer_loop K buf 0 0 c p w = Some (Inr (r, buf', p', w'))"
    using assms by (auto simp: pcm_mmap_transfer_def split: sum.splits)
  then show ?thesis by (rule mmap_transfer_loop_keeps)
qed (use assms in \<open>simp add: pcm_mmap_transfer_def\<close>)

lemma htimestamp_untouched:
  assumes "pcm_get_htimestamp K p w = Inr (r, a, ts, p', w')"
  shows "untouched p p'"
proof -
  obtain rc p1 w1 where 1: "pcm_sync_ptr K (SNDRV_PCM_SYNC_PTR_APPL OR SNDRV_PCM_SYNC_PTR_HWSYNC) p w = (rc, p1, w1)"
    by (rule prod_cases3)
  have tail: "q' = q" if "pcm_htimestamp_tail K q u = Inr (r, a, ts, q', u')" for q q' u u'
    using that by (auto simp: pcm_htimestamp_tail_def res_simps split: if_splits)
  have "p' = p \<or> p' = p1"
    using assms unfolding pcm_get_htimestamp_def 1 Let_def prod.case
    by (auto simp: res_simps dest: tail split: if_splits)
  with sync_ptr_untouched [OF 1] show ?thesis by auto
qed


lemma pcm_step_lives: "pcm_step K s t \<Longrightarrow> lives (fst s) (fst t)"
proof (induction rule: pcm_step.induct)
  case (prepare p w r p' w')
  then show ?case by (elim pcm_prepare_cases) (auto simp: keeps_def pcm_inv_def intro: keeps_lives)
next
  case (start p w r p' w')
  from start_keeps [OF this] show ?case by (simp add: keeps_lives)
next
  case (stop p w r p' w')
  then show ?case by (elim pcm_stop_cases) (auto simp: keeps_def pcm_inv_def intro: keeps_lives)
next
  case (wr buf n p w r p' w')
  then have "p' = p \<or> (\<exists>m. pcm_write_loop K buf m p w = (r, p', w'))"
    by (auto simp: pcm_write_def res_simps split: if_splits)
  then have "keeps p p'" by (auto simp: keeps_def pcm_inv_def dest: pcm_write_cases)
  then show ?case by (simp add: keeps_lives)
next
  case (rd buf n p w r buf' p' w')
  then have "p' = p \<or> (\<exists>m. pcm_read_loop K m buf p w = Some (r, buf', p', w'))"
    by (auto simp: pcm_read_def split: if_splits sum.splits)
  then have "keeps p p'" by (auto simp: keeps_def dest: pcm_read_cases)
  then show ?case by (simp add: keeps_lives)
next
  case (set_avail_min v p r p' w)
  then show ?case by (auto simp: pcm_set_avail_min_def lives_def keeps_def stable_def pcm_inv_def split: if_splits)
next
  case (mmap_write buf n p w r buf' p' w')
  then have "keeps p p'" by (auto simp: pcm_mmap_write_def dest: mmap_transfer_keeps split: if_splits)
  then show ?case by (simp add: keeps_lives)
next
  case (mmap_read buf n p w r buf' p' w')
  then have "keeps p p'" by (auto simp: pcm_mmap_read_def dest: mmap_transfer_keeps split: if_splits)
  then show ?case by (simp add: keeps_lives)
qed (auto intro!: keeps_lives untouched_keeps dest: mmap_begin_untouched mmap_commit_untouched
    mmap_avail_untouched avail_update_untouched state_untouched pcm_wait_untouched htimestamp_untouched)

lemma pcm_run_lives: "pcm_run K s t \<Longrightarrow> lives (fst s) (fst t)"
proof (induction rule: pcm_run.induct)
  case (more s t u)
  then show ?case using pcm_step_lives lives_trans by blast
qed (simp add: keeps_lives)


text \<open>A stream as \<^verbatim>\<open>pcm_open\<close> leaves it neither runs nor is it prepared.\<close>

definition idle :: "u32 \<Rightarrow> pcm \<Rightarrow> bool" where
  "idle fl p \<longleftrightarrow> \<not> running p \<and> \<not> prepared p \<and> flags p = fl"

lemma idle_simps [simp]:
  "idle fl (pcm_fail K w e msg p) = idle fl p" "idle fl (p\<lparr>fd := d\<rparr>) = idle fl p"
  "idle fl (p\<lparr>underruns := n\<rparr>) = idle fl p" "idle fl (p\<lparr>buffer_size := b\<rparr>) = idle fl p"
  "idle fl (p\<lparr>boundary := b\<rparr>) = idle fl p" "idle fl (p\<lparr>mmap_buffer := m\<rparr>) = idle fl p"
  "idle fl (p\<lparr>noirq_frames_per_msec := b\<rparr>) = idle fl p" "idle fl (p\<lparr>config := c\<rparr>) = idle fl p"
  "idle fl (p\<lparr>mmap_status := s\<rparr>) = idle fl p" "idle fl (p\<lparr>mmap_control := s\<rparr>) = idle fl p"
  "idle fl (p\<lparr>sync_ptr := x\<rparr>) = idle fl p"
  by (simp_all add: idle_def)

lemma idle_sync: "pcm_sync_ptr K f p w = (r, p', w') \<Longrightarrow> idle fl p' = idle fl p"
  by (auto simp: pcm_sync_ptr_def split: option.splits prod.splits)

lemma idle_fail_close: "idle fl (fst (open_fail_close K p w)) = idle fl p"
  by (simp add: open_fail_close_def split_beta)

lemma idle_fail: "idle fl (fst (open_fail K p w)) = idle fl p"
  by (simp add: open_fail_def idle_fail_close Let_def)

lemma idle_fallback: "mmap_fallback K p w = (r, p', w') \<Longrightarrow> idle fl p' = idle fl p"
  by (auto simp: mmap_fallback_def Let_def idle_sync split: prod.splits if_splits)

lemma idle_mmap_status:
  assumes "pcm_hw_mmap_status K p w = (r, p', w')"
  shows "idle fl p' = idle fl p"
  using assms unfolding pcm_hw_mmap_status_def Let_def
  by (auto simp: idle_fallback split: prod.splits if_splits)

lemma idle_finish: "idle fl (fst (open_finish K sp p w)) = idle fl p"
proof -
  obtain rc p2 w2 where 2: "pcm_hw_mmap_status K p (snd (sys (k_sw_params K (fd p) sp (kst w)) w)) = (rc, p2, w2)"
    by (rule prod_cases3)
  show ?thesis
    using idle_mmap_status [OF 2, of fl] 2 by (simp add: open_finish_def idle_fail Let_def split_beta)
qed

lemma idle_map:
  assumes "open_map K c p w = Some pw" and "idle fl p"
  shows "idle fl (fst pw)"
proof -
  have mapped: "idle fl (fst pw)" if "open_mapped K c q u = Some pw" "idle fl q" for q u
  proof -
    obtain sp p1 where t: "open_thresholds c q = (sp, p1)" by (rule prod.exhaust)
    then have "idle fl p1" using that(2) by (auto simp: open_thresholds_def Let_def split: prod.splits)
    then show ?thesis using that(1) by (auto simp: open_mapped_def t idle_finish split: option.splits)
  qed
  obtain r w1 where 1: "sys (k_mmap K (fd p) Region_data (pcm_frames_to_bytes p (buffer_size p)) (kst w)) w = (r, w1)"
    by (rule prod.exhaust)
  show ?thesis
    using assms mapped unfolding open_map_def 1 Let_def prod.case
    by (auto simp: idle_fail_close split: if_splits)
qed

lemma idle_configure:
  assumes "open_configure K fl c p w = Some (pw, c')" and "idle fl p"
  shows "idle fl (fst pw)"
proof -
  obtain r1 w1 where 1: "sys (k_info K (fd p) (kst w)) w = (r1, w1)" by (rule prod.exhaust)
  define p1 where "p1 = (if has fl PCM_NOIRQ then p\<lparr>noirq_frames_per_msec := rate c div 1000\<rparr> else p)"
  have p1: "idle fl p1" using assms(2) by (simp add: p1_def)
  obtain r q k where hw: "k_hw_params K (fd p1) (open_params fl c) (kst w1) = (r, q, k)" by (rule prod_cases3)
  obtain r2 w2 where 2: "sys (r, k) w1 = (r2, w2)" by (rule prod.exhaust)
  show ?thesis
    using assms p1 unfolding open_configure_def 1 prod.case Let_def p1_def [symmetric] hw 2
    by (auto simp: idle_fail_close idle_fail dest: idle_map [where fl = fl and pw = "(a, b)" for a b] split: if_splits)
qed

lemma idle_open:
  assumes "pcm_open K crd device fl conf w = Some (Some p, c', w')"
  shows "idle fl p"
proof -
  obtain ok k0 where 0: "k_calloc K (kst w) = (ok, k0)" by (rule prod.exhaust)
  obtain c where c: "(if ok then conf else None) = Some c"
    using assms by (cases "if ok then conf else None") (auto simp: pcm_open_def 0)
  let ?w = "w\<lparr>kst := k0\<rparr>" and ?fn = "pcm_device_name crd device fl"
  obtain r1 w1 where 1: "sys (k_open K ?fn (kst ?w)) ?w = (r1, w1)" by (rule prod.exhaust)
  have z: "idle fl (zero_pcm\<lparr>config := c, flags := fl, fd := r1\<rparr>)" by (simp add: idle_def zero_pcm_def)
  show ?thesis
    using assms z unfolding pcm_open_def 0 prod.case Let_def c option.case 1
    by (auto dest: idle_configure [where fl = fl and pw = "(a, b)" for a b] split: if_splits)
qed

text \<open>
  C27: from the stream that \<^verbatim>\<open>pcm_open\<close> returns, whatever calls follow in whatever order and whatever
  the device does in between, the stream runs only while it is prepared, and its descriptor, flags,
  buffer size, boundary, configuration (but for the threshold of \<^verbatim>\<open>pcm_set_avail_min\<close>) and mappings stay
  as they were opened.
\<close>

theorem pcm_run_invariant:
  assumes "pcm_open K crd device fl conf w0 = Some (Some p, c', w1)" and "pcm_run K (p, w1) (q, w2)"
  shows "(running q \<longrightarrow> prepared q) \<and> fd q = fd p \<and> flags q = fl \<and> buffer_size q = buffer_size p
    \<and> boundary q = boundary p \<and> (config q)\<lparr>avail_min := avail_min (config p)\<rparr> = config p
    \<and> mmap_status q = mmap_status p \<and> mmap_control q = mmap_control p \<and> mmap_buffer q = mmap_buffer p"
proof -
  have "lives p q" using pcm_run_lives [OF assms(2)] by simp
  with idle_open [OF assms(1)] show ?thesis
    by (simp add: lives_def keeps_def stable_def pcm_inv_def idle_def)
qed

theorem pcm_run_invariant_witness:
  "\<exists>p c w1 q w2. pcm_open demo_kernel 1 0 PCM_IN (Some demo_config) (demo_world []) = Some (Some p, c, w1)
    \<and> pcm_run demo_kernel (p, w1) (q, w2) \<and> running q \<and> prepared q \<and> flags q = PCM_IN"
proof -
  obtain p c w1 where o: "pcm_open demo_kernel 1 0 PCM_IN (Some demo_config) (demo_world []) = Some (Some p, c, w1)"
    using demo_open by blast
  note inv = pcm_run_invariant [OF o]
  have "flags p = PCM_IN" using inv [OF pcm_run.none] by simp
  then have "\<not> has (flags p) PCM_MMAP" by (simp add: has_def PCM_IN_def PCM_MMAP_def)
  then obtain q w2 where s: "pcm_start demo_kernel p w1 = (0, q, w2)" "running q"
    by (cases "prepared p") (auto simp: pcm_start_def pcm_prepare_def)
  then have "pcm_run demo_kernel (p, w1) (q, w2)" by (blast intro: pcm_run.intros pcm_step.start)
  with o s(2) inv [OF this] show ?thesis by blast
qed

end
