(* ===== verification/Mixer.thy ===== *)
theory Mixer
  imports PcmParams Word_Memory "HOL-Library.Signed_Division"
begin

text \<open>
  The mixer of speech/src/mixer.c: the control device of a sound card as a table of elements,
  opened with the names of the enumerated ones, and the calls that read and write an element. The
  control device is a record of functions on its own state \<open>'k\<close>; the blocks that \<^verbatim>\<open>calloc\<close> and
  \<^verbatim>\<open>strdup\<close> hand out are kept in the model's own state, so that a block freed twice is a fault and a
  block never freed stays in the list. Names are strings without their terminator.
\<close>

section \<open>Elements\<close>

definition SNDRV_CTL_ELEM_TYPE_BOOLEAN :: int where "SNDRV_CTL_ELEM_TYPE_BOOLEAN = 1"
definition SNDRV_CTL_ELEM_TYPE_INTEGER :: int where "SNDRV_CTL_ELEM_TYPE_INTEGER = 2"
definition SNDRV_CTL_ELEM_TYPE_ENUMERATED :: int where "SNDRV_CTL_ELEM_TYPE_ENUMERATED = 3"
definition SNDRV_CTL_ELEM_TYPE_BYTES :: int where "SNDRV_CTL_ELEM_TYPE_BYTES = 4"
definition SNDRV_CTL_ELEM_TYPE_IEC958 :: int where "SNDRV_CTL_ELEM_TYPE_IEC958 = 5"
definition SNDRV_CTL_ELEM_TYPE_INTEGER64 :: int where "SNDRV_CTL_ELEM_TYPE_INTEGER64 = 6"

lemmas elem_type_defs = SNDRV_CTL_ELEM_TYPE_BOOLEAN_def SNDRV_CTL_ELEM_TYPE_INTEGER_def
  SNDRV_CTL_ELEM_TYPE_ENUMERATED_def SNDRV_CTL_ELEM_TYPE_BYTES_def SNDRV_CTL_ELEM_TYPE_IEC958_def
  SNDRV_CTL_ELEM_TYPE_INTEGER64_def

definition SNDRV_CTL_ELEM_ACCESS_TLV_READWRITE :: u32 where
  "SNDRV_CTL_ELEM_ACCESS_TLV_READWRITE = push_bit 4 1 OR push_bit 5 1"

text \<open>
  An element's description. The union of its value information starts with the 16 bytes of the
  fields \<^verbatim>\<open>integer.min\<close> and \<^verbatim>\<open>integer.max\<close>; \<^verbatim>\<open>enumerated.items\<close> and \<^verbatim>\<open>enumerated.item\<close> are the halves
  of the first. The name of an item is only read from a description asked for by item.
\<close>

record snd_ctl_elem_info =
  ei_numid :: u32
  ei_name :: string
  ei_type :: int
  ei_access :: u32
  ei_count :: u32
  ei_min :: u64
  ei_max :: u64
  ei_item_name :: string

definition enum_items :: "snd_ctl_elem_info \<Rightarrow> u32" where
  "enum_items ei = ucast (ei_min ei)"

definition set_enum_item :: "u32 \<Rightarrow> snd_ctl_elem_info \<Rightarrow> snd_ctl_elem_info" where
  "set_enum_item i ei = ei\<lparr>ei_min := ucast (enum_items ei) OR push_bit 32 (ucast i)\<rparr>"

definition zero_info :: snd_ctl_elem_info where
  "zero_info = \<lparr>ei_numid = 0, ei_name = [], ei_type = 0, ei_access = 0, ei_count = 0, ei_min = 0,
     ei_max = 0, ei_item_name = []\<rparr>"

text \<open>A value: the element and the 1024 bytes of the union.\<close>

record snd_ctl_elem_value =
  ev_numid :: u32
  ev_value :: "u8 list"

definition zero_value :: "u32 \<Rightarrow> snd_ctl_elem_value" where
  "zero_value n = \<lparr>ev_numid = n, ev_value = replicate 1024 0\<rparr>"

definition ld64 :: "u8 list \<Rightarrow> nat \<Rightarrow> u64 res" where
  "ld64 m off = bindE (ld32 m off) (\<lambda>lo. bindE (ld32 m (off + 4)) (\<lambda>hi.
     Inr (ucast lo OR push_bit 32 (ucast hi))))"

definition st64 :: "u8 list \<Rightarrow> nat \<Rightarrow> u64 \<Rightarrow> u8 list res" where
  "st64 m off v = bindE (st32 m off (ucast v)) (\<lambda>m1. st32 m1 (off + 4) (ucast (drop_bit 32 v)))"

section \<open>The control device and the heap\<close>

record 'k mixer_kernel =
  x_open :: "string \<Rightarrow> 'k \<Rightarrow> sysret \<times> 'k"
  x_close :: "int \<Rightarrow> 'k \<Rightarrow> sysret \<times> 'k"
  x_calloc :: "'k \<Rightarrow> bool \<times> 'k"
  x_elem_list :: "int \<Rightarrow> u32 \<Rightarrow> 'k \<Rightarrow> sysret \<times> u32 \<times> u32 list \<times> 'k"
  x_card_info :: "int \<Rightarrow> 'k \<Rightarrow> sysret \<times> string \<times> 'k"
  x_elem_info :: "int \<Rightarrow> snd_ctl_elem_info \<Rightarrow> 'k \<Rightarrow> sysret \<times> snd_ctl_elem_info \<times> 'k"
  x_elem_read :: "int \<Rightarrow> snd_ctl_elem_value \<Rightarrow> 'k \<Rightarrow> sysret \<times> snd_ctl_elem_value \<times> 'k"
  x_elem_write :: "int \<Rightarrow> snd_ctl_elem_value \<Rightarrow> 'k \<Rightarrow> sysret \<times> 'k"
  x_tlv_read :: "int \<Rightarrow> u32 \<Rightarrow> u32 \<Rightarrow> 'k \<Rightarrow> sysret \<times> u8 list \<times> 'k"
  x_tlv_write :: "int \<Rightarrow> u32 \<Rightarrow> u8 list \<Rightarrow> 'k \<Rightarrow> sysret \<times> 'k"

record 'k mstate =
  kern :: 'k
  blocks :: "nat list"

definition call :: "sysret \<times> 'k \<Rightarrow> 'k mstate \<Rightarrow> int \<times> 'k mstate" where
  "call rk s = (ret_of (fst rk), s\<lparr>kern := snd rk\<rparr>)"

definition heap_alloc :: "'k mixer_kernel \<Rightarrow> 'k mstate \<Rightarrow> nat option \<times> 'k mstate" where
  "heap_alloc K s =
     (let (ok, k) = x_calloc K (kern s); b = Suc (fold max (blocks s) 0)
      in if ok then (Some b, s\<lparr>kern := k, blocks := b # blocks s\<rparr>) else (None, s\<lparr>kern := k\<rparr>))"

definition heap_free :: "nat \<Rightarrow> 'k mstate \<Rightarrow> 'k mstate res" where
  "heap_free b s =
     (if b \<in> set (blocks s) then Inr (s\<lparr>blocks := remove1 b (blocks s)\<rparr>) else Inl DoubleFree)"

definition heap_free_opt :: "nat option \<Rightarrow> 'k mstate \<Rightarrow> 'k mstate res" where
  "heap_free_opt bo s = (case bo of None \<Rightarrow> Inr s | Some b \<Rightarrow> heap_free b s)"

section \<open>The mixer\<close>

text \<open>
  Pointers into the two arrays of a mixer are indices; \<open>ename\<close> is the block of the array of names
  and its entries, each with the block of its string.
\<close>

record mixer_ctl =
  c_info :: "nat option"
  c_ename :: "(nat \<times> (nat \<times> string) option list) option"

record mixer =
  m_block :: nat
  m_fd :: int
  m_card_name :: string
  m_infos_block :: "nat option"
  m_infos :: "snd_ctl_elem_info list"
  m_ctls_block :: "nat option"
  m_ctls :: "mixer_ctl list"
  m_count :: u32

definition zero_mixer :: "nat \<Rightarrow> mixer" where
  "zero_mixer b = \<lparr>m_block = b, m_fd = 0, m_card_name = [], m_infos_block = None, m_infos = [],
     m_ctls_block = None, m_ctls = [], m_count = 0\<rparr>"

text \<open>\<^verbatim>\<open>ctl->info\<close> of the control with index \<open>i\<close>.\<close>

definition ctl_info :: "mixer \<Rightarrow> nat \<Rightarrow> snd_ctl_elem_info res" where
  "ctl_info m i = bindE (ld (m_ctls m) i) (\<lambda>c.
     case c_info c of None \<Rightarrow> Inl NullDeref | Some j \<Rightarrow> ld (m_infos m) j)"

section \<open>Closing\<close>

definition free_names :: "(nat \<times> string) option list \<Rightarrow> nat \<Rightarrow> 'k mstate \<Rightarrow> 'k mstate res" where
  "free_names names items =
     foldE (\<lambda>j s. bindE (ld names j) (\<lambda>e. heap_free_opt (map_option fst e) s)) [0..<items]"

definition free_ename :: "mixer \<Rightarrow> nat \<Rightarrow> 'k mstate \<Rightarrow> 'k mstate res" where
  "free_ename m n s = bindE (ld (m_ctls m) n) (\<lambda>c.
     case c_ename c of
       None \<Rightarrow> Inr s
     | Some (b, names) \<Rightarrow>
         bindE (ctl_info m n) (\<lambda>ei.
         bindE (free_names names (unat (enum_items ei)) s) (heap_free b)))"

definition mixer_close :: "'k mixer_kernel \<Rightarrow> mixer option \<Rightarrow> 'k mstate \<Rightarrow> 'k mstate res" where
  "mixer_close K mo s =
     (case mo of
        None \<Rightarrow> Inr s
      | Some m \<Rightarrow>
          (let s1 = (if 0 \<le> m_fd m then snd (call (x_close K (m_fd m) (kern s)) s) else s)
           in bindE (case m_ctls_block m of
                       None \<Rightarrow> Inr s1
                     | Some b \<Rightarrow> bindE (foldE (free_ename m) [0..<unat (m_count m)] s1) (heap_free b)) (\<lambda>s2.
              bindE (heap_free_opt (m_infos_block m) s2) (heap_free (m_block m)))))"

section \<open>Opening\<close>

definition put_info :: "nat \<Rightarrow> snd_ctl_elem_info \<Rightarrow> mixer \<Rightarrow> mixer" where
  "put_info n ei m = m\<lparr>m_infos := (m_infos m)[n := ei]\<rparr>"

definition put_ctl :: "nat \<Rightarrow> mixer_ctl \<Rightarrow> mixer \<Rightarrow> mixer" where
  "put_ctl n c m = m\<lparr>m_ctls := (m_ctls m)[n := c]\<rparr>"

text \<open>The names of the items: \<open>False\<close> is a jump to \<^verbatim>\<open>fail\<close>, with the names that were stored so far.\<close>

fun enum_loop ::
    "'k mixer_kernel \<Rightarrow> int \<Rightarrow> u32 \<Rightarrow> nat list \<Rightarrow> (nat \<times> string) option list \<Rightarrow> 'k mstate
      \<Rightarrow> bool \<times> (nat \<times> string) option list \<times> 'k mstate" where
  "enum_loop K d numid [] names s = (True, names, s)"
| "enum_loop K d numid (j # js) names s =
     (let (r, tmp, k) = x_elem_info K d (set_enum_item (of_nat j) (zero_info\<lparr>ei_numid := numid\<rparr>)) (kern s);
          (ret, s1) = call (r, k) s
      in if ret < 0 then (False, names, s1)
         else let (b, s2) = heap_alloc K s1
              in case b of
                   None \<Rightarrow> (False, names, s2)
                 | Some a \<Rightarrow> enum_loop K d numid js (names[j := Some (a, ei_item_name tmp)]) s2)"

text \<open>One element: its description, its control, and the names if it is enumerated.\<close>

definition open_elem ::
    "'k mixer_kernel \<Rightarrow> int \<Rightarrow> u32 \<Rightarrow> nat \<Rightarrow> mixer \<Rightarrow> 'k mstate \<Rightarrow> bool \<times> mixer \<times> 'k mstate" where
  "open_elem K d numid n m s =
     (let (r, ei, k) = x_elem_info K d ((m_infos m ! n)\<lparr>ei_numid := numid\<rparr>) (kern s);
          (ret, s1) = call (r, k) s;
          m1 = put_info n ei m
      in if ret < 0 then (False, m1, s1)
         else let m2 = put_ctl n ((m_ctls m1 ! n)\<lparr>c_info := Some n\<rparr>) m1
              in if ei_type ei \<noteq> SNDRV_CTL_ELEM_TYPE_ENUMERATED then (True, m2, s1)
                 else let (b, s2) = heap_alloc K s1
                      in case b of
                           None \<Rightarrow> (False, m2, s2)
                         | Some a \<Rightarrow>
                             let (ok, names, s3) =
                               enum_loop K d (ei_numid ei) [0..<unat (enum_items ei)]
                                 (replicate (unat (enum_items ei)) None) s2
                             in (ok, put_ctl n ((m_ctls m2 ! n)\<lparr>c_ename := Some (a, names)\<rparr>) m2, s3))"

fun ctl_loop ::
    "'k mixer_kernel \<Rightarrow> int \<Rightarrow> u32 list \<Rightarrow> nat list \<Rightarrow> mixer \<Rightarrow> 'k mstate \<Rightarrow> bool \<times> mixer \<times> 'k mstate" where
  "ctl_loop K d ids [] m s = (True, m, s)"
| "ctl_loop K d ids (n # ns) m s =
     (let (ok, m1, s1) = open_elem K d (ids ! n) n m s
      in if ok then ctl_loop K d ids ns m1 s1 else (False, m1, s1))"

text \<open>The label \<^verbatim>\<open>fail\<close>.\<close>

definition mixer_open_fail ::
    "'k mixer_kernel \<Rightarrow> nat option \<Rightarrow> mixer option \<Rightarrow> int \<Rightarrow> 'k mstate \<Rightarrow> (mixer option \<times> 'k mstate) res" where
  "mixer_open_fail K eid mo d s =
     bindE (heap_free_opt eid s) (\<lambda>s1.
       case mo of
         Some m \<Rightarrow> bindE (mixer_close K (Some m) s1) (\<lambda>s2. Inr (None, s2))
       | None \<Rightarrow> Inr (None, if 0 \<le> d then snd (call (x_close K d (kern s1)) s1) else s1))"

text \<open>From the second \<^verbatim>\<open>ELEM_LIST\<close> on, with the block of the ids.\<close>

definition mixer_open_elems ::
    "'k mixer_kernel \<Rightarrow> int \<Rightarrow> nat \<Rightarrow> mixer \<Rightarrow> 'k mstate \<Rightarrow> (mixer option \<times> 'k mstate) res" where
  "mixer_open_elems K d eid m s =
     (let (r, cnt, ids, k) = x_elem_list K d (m_count m) (kern s);
          (ret, s1) = call (r, k) s
      in if ret < 0 then mixer_open_fail K (Some eid) (Some m) d s1
         else let n = unat (m_count m);
                  (ok, m1, s2) = ctl_loop K d (take n (ids @ replicate n 0)) [0..<n] m s1
              in if ok then bindE (heap_free eid s2) (\<lambda>s3. Inr (Some m1, s3))
                 else mixer_open_fail K (Some eid) (Some m1) d s2)"

text \<open>From the allocation of the two arrays on; \<^verbatim>\<open>fd\<close> enters the mixer only after the ids are allocated.\<close>

definition mixer_open_arrays ::
    "'k mixer_kernel \<Rightarrow> int \<Rightarrow> u32 \<Rightarrow> mixer \<Rightarrow> 'k mstate \<Rightarrow> (mixer option \<times> 'k mstate) res" where
  "mixer_open_arrays K d n m s =
     (let (b1, s1) = heap_alloc K s; (b2, s2) = heap_alloc K s1;
          m1 = m\<lparr>m_ctls_block := b1, m_infos_block := b2,
                 m_ctls := replicate (unat n) \<lparr>c_info = None, c_ename = None\<rparr>,
                 m_infos := replicate (unat n) zero_info\<rparr>
      in if b1 = None \<or> b2 = None then mixer_open_fail K None (Some m1) d s2
         else let (r, nm, k) = x_card_info K d (kern s2); (ret, s3) = call (r, k) s2;
                  m2 = m1\<lparr>m_card_name := nm\<rparr>
              in if ret < 0 then mixer_open_fail K None (Some m2) d s3
                 else let (b3, s4) = heap_alloc K s3
                      in case b3 of
                           None \<Rightarrow> mixer_open_fail K None (Some m2) d s4
                         | Some eid \<Rightarrow> mixer_open_elems K d eid (m2\<lparr>m_count := n, m_fd := d\<rparr>) s4)"

definition mixer_open :: "'k mixer_kernel \<Rightarrow> u32 \<Rightarrow> 'k mstate \<Rightarrow> (mixer option \<times> 'k mstate) res" where
  "mixer_open K crd s =
     (let (d, s1) = call (x_open K (''/dev/snd/controlC'' @ fmt_u crd) (kern s)) s
      in if d < 0 then Inr (None, s1)
         else let (r, n, _, k) = x_elem_list K d 0 (kern s1); (ret, s2) = call (r, k) s1
              in if ret < 0 then mixer_open_fail K None None d s2
                 else let (b, s3) = heap_alloc K s2
                      in case b of
                           None \<Rightarrow> mixer_open_fail K None None d s3
                         | Some a \<Rightarrow> mixer_open_arrays K d n (zero_mixer a) s3)"

section \<open>Looking up\<close>

definition mixer_get_name :: "mixer \<Rightarrow> string" where
  "mixer_get_name m = m_card_name m"

definition mixer_get_num_ctls :: "mixer option \<Rightarrow> u32" where
  "mixer_get_num_ctls mo = (case mo of None \<Rightarrow> 0 | Some m \<Rightarrow> m_count m)"

definition mixer_get_ctl :: "mixer option \<Rightarrow> u32 \<Rightarrow> nat option" where
  "mixer_get_ctl mo i = (case mo of None \<Rightarrow> None | Some m \<Rightarrow> if i < m_count m then Some (unat i) else None)"

fun name_loop :: "snd_ctl_elem_info list \<Rightarrow> string \<Rightarrow> nat list \<Rightarrow> nat option res" where
  "name_loop infos nm [] = Inr None"
| "name_loop infos nm (n # ns) =
     bindE (ld infos n) (\<lambda>ei. if nm = ei_name ei then Inr (Some n) else name_loop infos nm ns)"

definition mixer_get_ctl_by_name :: "mixer option \<Rightarrow> string \<Rightarrow> nat option res" where
  "mixer_get_ctl_by_name mo nm =
     (case mo of None \<Rightarrow> Inr None | Some m \<Rightarrow> name_loop (m_infos m) nm [0..<unat (m_count m)])"

definition mixer_ctl_update :: "'k mixer_kernel \<Rightarrow> nat \<Rightarrow> mixer \<Rightarrow> 'k mstate \<Rightarrow> (mixer \<times> 'k mstate) res" where
  "mixer_ctl_update K i m s =
     bindE (ld (m_ctls m) i) (\<lambda>c.
       case c_info c of
         None \<Rightarrow> Inl NullDeref
       | Some j \<Rightarrow> bindE (ld (m_infos m) j) (\<lambda>ei.
           let (r, ei', k) = x_elem_info K (m_fd m) ei (kern s)
           in Inr (put_info j ei' m, snd (call (r, k) s))))"

text \<open>A control is \<open>None\<close> (the null pointer) or an index; \<open>with_info\<close> is a call on it.\<close>

definition with_info :: "mixer \<Rightarrow> nat option \<Rightarrow> 'a \<Rightarrow> (snd_ctl_elem_info \<Rightarrow> 'a) \<Rightarrow> 'a res" where
  "with_info m co z f = (case co of None \<Rightarrow> Inr z | Some i \<Rightarrow> bindE (ctl_info m i) (\<lambda>ei. Inr (f ei)))"

definition mixer_ctl_get_name :: "mixer \<Rightarrow> nat option \<Rightarrow> string option res" where
  "mixer_ctl_get_name m co = with_info m co None (\<lambda>ei. Some (ei_name ei))"

datatype mixer_ctl_type =
    MIXER_CTL_TYPE_BOOL | MIXER_CTL_TYPE_INT | MIXER_CTL_TYPE_ENUM | MIXER_CTL_TYPE_BYTE
  | MIXER_CTL_TYPE_IEC958 | MIXER_CTL_TYPE_INT64 | MIXER_CTL_TYPE_UNKNOWN

definition mixer_ctl_get_type :: "mixer \<Rightarrow> nat option \<Rightarrow> mixer_ctl_type res" where
  "mixer_ctl_get_type m co = with_info m co MIXER_CTL_TYPE_UNKNOWN (\<lambda>ei.
     if ei_type ei = SNDRV_CTL_ELEM_TYPE_BOOLEAN then MIXER_CTL_TYPE_BOOL
     else if ei_type ei = SNDRV_CTL_ELEM_TYPE_INTEGER then MIXER_CTL_TYPE_INT
     else if ei_type ei = SNDRV_CTL_ELEM_TYPE_ENUMERATED then MIXER_CTL_TYPE_ENUM
     else if ei_type ei = SNDRV_CTL_ELEM_TYPE_BYTES then MIXER_CTL_TYPE_BYTE
     else if ei_type ei = SNDRV_CTL_ELEM_TYPE_IEC958 then MIXER_CTL_TYPE_IEC958
     else if ei_type ei = SNDRV_CTL_ELEM_TYPE_INTEGER64 then MIXER_CTL_TYPE_INT64
     else MIXER_CTL_TYPE_UNKNOWN)"

definition mixer_ctl_get_type_string :: "mixer \<Rightarrow> nat option \<Rightarrow> string res" where
  "mixer_ctl_get_type_string m co = with_info m co '''' (\<lambda>ei.
     if ei_type ei = SNDRV_CTL_ELEM_TYPE_BOOLEAN then ''BOOL''
     else if ei_type ei = SNDRV_CTL_ELEM_TYPE_INTEGER then ''INT''
     else if ei_type ei = SNDRV_CTL_ELEM_TYPE_ENUMERATED then ''ENUM''
     else if ei_type ei = SNDRV_CTL_ELEM_TYPE_BYTES then ''BYTE''
     else if ei_type ei = SNDRV_CTL_ELEM_TYPE_IEC958 then ''IEC958''
     else if ei_type ei = SNDRV_CTL_ELEM_TYPE_INTEGER64 then ''INT64''
     else ''Unknown'')"

definition mixer_ctl_get_num_values :: "mixer \<Rightarrow> nat option \<Rightarrow> u32 res" where
  "mixer_ctl_get_num_values m co = with_info m co 0 ei_count"

definition mixer_ctl_get_num_enums :: "mixer \<Rightarrow> nat option \<Rightarrow> u32 res" where
  "mixer_ctl_get_num_enums m co = with_info m co 0 enum_items"

text \<open>A \<^verbatim>\<open>long\<close> of an element as an \<^verbatim>\<open>int\<close>.\<close>

definition to_int :: "int \<Rightarrow> int" where
  "to_int i = sint (of_int i :: u32)"

definition mixer_ctl_get_range_min :: "mixer \<Rightarrow> nat option \<Rightarrow> int res" where
  "mixer_ctl_get_range_min m co = with_info m co (- EINVAL) (\<lambda>ei.
     if ei_type ei \<noteq> SNDRV_CTL_ELEM_TYPE_INTEGER then - EINVAL else to_int (sint (ei_min ei)))"

definition mixer_ctl_get_range_max :: "mixer \<Rightarrow> nat option \<Rightarrow> int res" where
  "mixer_ctl_get_range_max m co = with_info m co (- EINVAL) (\<lambda>ei.
     if ei_type ei \<noteq> SNDRV_CTL_ELEM_TYPE_INTEGER then - EINVAL else to_int (sint (ei_max ei)))"

definition mixer_ctl_get_enum_string :: "mixer \<Rightarrow> nat option \<Rightarrow> u32 \<Rightarrow> string option res" where
  "mixer_ctl_get_enum_string m co k =
     (case co of
        None \<Rightarrow> Inr None
      | Some i \<Rightarrow> bindE (ctl_info m i) (\<lambda>ei.
          if ei_type ei \<noteq> SNDRV_CTL_ELEM_TYPE_ENUMERATED \<or> enum_items ei \<le> k then Inr None
          else bindE (ld (m_ctls m) i) (\<lambda>c.
            case c_ename c of
              None \<Rightarrow> Inl NullDeref
            | Some (b, names) \<Rightarrow> bindE (ld names (unat k)) (\<lambda>e. Inr (map_option snd e)))))"

section \<open>Values\<close>

text \<open>Arithmetic on \<^verbatim>\<open>int\<close> and \<^verbatim>\<open>long\<close>: what does not fit is a fault.\<close>

definition s32 :: "int \<Rightarrow> int res" where
  "s32 i = (if - (2 ^ 31) \<le> i \<and> i < 2 ^ 31 then Inr i else Inl SignedOverflow)"

definition s64 :: "int \<Rightarrow> int res" where
  "s64 i = (if - (2 ^ 63) \<le> i \<and> i < 2 ^ 63 then Inr i else Inl SignedOverflow)"

definition value_range :: "snd_ctl_elem_info \<Rightarrow> int res" where
  "value_range ei = bindE (s64 (sint (ei_max ei) - sint (ei_min ei))) (\<lambda>d. Inr (to_int d))"

definition percent_to_int :: "snd_ctl_elem_info \<Rightarrow> int \<Rightarrow> int res" where
  "percent_to_int ei percent =
     (let pc = (if percent > 100 then 100 else if percent < 0 then 0 else percent)
      in bindE (value_range ei) (\<lambda>range.
         bindE (s32 (range * pc)) (\<lambda>x.
         bindE (s64 (sint (ei_min ei) + x sdiv 100)) (\<lambda>v. Inr (to_int v)))))"

definition int_to_percent :: "snd_ctl_elem_info \<Rightarrow> int \<Rightarrow> int res" where
  "int_to_percent ei v =
     bindE (value_range ei) (\<lambda>range.
       if range = 0 then Inr 0
       else bindE (s64 (v - sint (ei_min ei))) (\<lambda>d.
            bindE (s64 (d sdiv range)) (\<lambda>q.
            bindE (s64 (q * 100)) (\<lambda>x. Inr (to_int x)))))"

text \<open>The element of the union that a type selects; \<open>None\<close> for the types without one.\<close>

definition within :: "nat \<Rightarrow> u32 \<Rightarrow> 'a res \<Rightarrow> 'a res" where
  "within n i r = (if unat i < n then r else Inl OutOfBounds)"

definition value_at :: "int \<Rightarrow> u32 \<Rightarrow> u8 list \<Rightarrow> int option res" where
  "value_at ty i v =
     (if ty = SNDRV_CTL_ELEM_TYPE_BOOLEAN
      then within 128 i (bindE (ld64 v (8 * unat i)) (\<lambda>x. Inr (Some (of_bool (x \<noteq> 0)))))
      else if ty = SNDRV_CTL_ELEM_TYPE_INTEGER
      then within 128 i (bindE (ld64 v (8 * unat i)) (\<lambda>x. Inr (Some (to_int (sint x)))))
      else if ty = SNDRV_CTL_ELEM_TYPE_ENUMERATED
      then within 128 i (bindE (ld32 v (4 * unat i)) (\<lambda>x. Inr (Some (sint x))))
      else if ty = SNDRV_CTL_ELEM_TYPE_BYTES
      then within 512 i (bindE (ld v (unat i)) (\<lambda>x. Inr (Some (uint x))))
      else Inr None)"

definition value_put :: "int \<Rightarrow> u32 \<Rightarrow> int \<Rightarrow> u8 list \<Rightarrow> u8 list option res" where
  "value_put ty i x v =
     (if ty = SNDRV_CTL_ELEM_TYPE_BOOLEAN
      then within 128 i (bindE (st64 v (8 * unat i) (of_bool (x \<noteq> 0))) (\<lambda>v'. Inr (Some v')))
      else if ty = SNDRV_CTL_ELEM_TYPE_INTEGER
      then within 128 i (bindE (st64 v (8 * unat i) (of_int x)) (\<lambda>v'. Inr (Some v')))
      else if ty = SNDRV_CTL_ELEM_TYPE_ENUMERATED
      then within 128 i (bindE (st32 v (4 * unat i) (of_int x)) (\<lambda>v'. Inr (Some v')))
      else if ty = SNDRV_CTL_ELEM_TYPE_BYTES
      then within 512 i (bindE (st v (unat i) (of_int x)) (\<lambda>v'. Inr (Some v')))
      else Inr None)"

definition elem_read ::
    "'k mixer_kernel \<Rightarrow> mixer \<Rightarrow> snd_ctl_elem_info \<Rightarrow> 'k mstate \<Rightarrow> int \<times> snd_ctl_elem_value \<times> 'k mstate" where
  "elem_read K m ei s =
     (let (r, ev, k) = x_elem_read K (m_fd m) (zero_value (ei_numid ei)) (kern s); (ret, s1) = call (r, k) s
      in (ret, ev, s1))"

definition mixer_ctl_get_value ::
    "'k mixer_kernel \<Rightarrow> mixer \<Rightarrow> nat option \<Rightarrow> u32 \<Rightarrow> 'k mstate \<Rightarrow> (int \<times> 'k mstate) res" where
  "mixer_ctl_get_value K m co i s =
     (case co of
        None \<Rightarrow> Inr (- EINVAL, s)
      | Some c \<Rightarrow> bindE (ctl_info m c) (\<lambda>ei.
          if ei_count ei \<le> i then Inr (- EINVAL, s)
          else let (ret, ev, s1) = elem_read K m ei s
               in if ret < 0 then Inr (ret, s1)
                  else bindE (value_at (ei_type ei) i (ev_value ev)) (\<lambda>x.
                         Inr (case x of None \<Rightarrow> - EINVAL | Some y \<Rightarrow> y, s1))))"

definition mixer_ctl_set_value ::
    "'k mixer_kernel \<Rightarrow> mixer \<Rightarrow> nat option \<Rightarrow> u32 \<Rightarrow> int \<Rightarrow> 'k mstate \<Rightarrow> (int \<times> 'k mstate) res" where
  "mixer_ctl_set_value K m co i x s =
     (case co of
        None \<Rightarrow> Inr (- EINVAL, s)
      | Some c \<Rightarrow> bindE (ctl_info m c) (\<lambda>ei.
          if ei_count ei \<le> i then Inr (- EINVAL, s)
          else let (ret, ev, s1) = elem_read K m ei s
               in if ret < 0 then Inr (ret, s1)
                  else bindE (value_put (ei_type ei) i x (ev_value ev)) (\<lambda>vo.
                         case vo of
                           None \<Rightarrow> Inr (- EINVAL, s1)
                         | Some v \<Rightarrow> Inr (call (x_elem_write K (m_fd m) (ev\<lparr>ev_value := v\<rparr>) (kern s1)) s1))))"

text \<open>The guard that the two percent calls share.\<close>

definition integer_info :: "mixer \<Rightarrow> nat option \<Rightarrow> snd_ctl_elem_info option res" where
  "integer_info m co = with_info m co None (\<lambda>ei.
     if ei_type ei \<noteq> SNDRV_CTL_ELEM_TYPE_INTEGER then None else Some ei)"

definition mixer_ctl_get_percent ::
    "'k mixer_kernel \<Rightarrow> mixer \<Rightarrow> nat option \<Rightarrow> u32 \<Rightarrow> 'k mstate \<Rightarrow> (int \<times> 'k mstate) res" where
  "mixer_ctl_get_percent K m co i s =
     bindE (integer_info m co) (\<lambda>eo.
       case eo of
         None \<Rightarrow> Inr (- EINVAL, s)
       | Some ei \<Rightarrow> bindE (mixer_ctl_get_value K m co i s) (\<lambda>(v, s1).
           bindE (int_to_percent ei v) (\<lambda>pc. Inr (pc, s1))))"

definition mixer_ctl_set_percent ::
    "'k mixer_kernel \<Rightarrow> mixer \<Rightarrow> nat option \<Rightarrow> u32 \<Rightarrow> int \<Rightarrow> 'k mstate \<Rightarrow> (int \<times> 'k mstate) res" where
  "mixer_ctl_set_percent K m co i percent s =
     bindE (integer_info m co) (\<lambda>eo.
       case eo of
         None \<Rightarrow> Inr (- EINVAL, s)
       | Some ei \<Rightarrow> bindE (percent_to_int ei percent) (\<lambda>v. mixer_ctl_set_value K m co i v s))"

section \<open>Arrays\<close>

text \<open>Where the values of a type lie in the union and how large they are.\<close>

definition has_tlv :: "snd_ctl_elem_info \<Rightarrow> bool" where
  "has_tlv ei \<longleftrightarrow> ei_access ei AND SNDRV_CTL_ELEM_ACCESS_TLV_READWRITE \<noteq> 0"

definition array_refused :: "nat option \<Rightarrow> u64 \<Rightarrow> snd_ctl_elem_info \<Rightarrow> u8 list option \<Rightarrow> bool" where
  "array_refused co cnt ei arr \<longleftrightarrow> ucast (ei_count ei) < cnt \<or> cnt = 0 \<or> arr = None"

text \<open>\<^verbatim>\<open>memcpy (array, source, n)\<close> into the caller's block.\<close>

definition copy_out :: "u8 list \<Rightarrow> nat \<Rightarrow> u8 list \<Rightarrow> u8 list res" where
  "copy_out src n arr = bindE (slice src 0 n) (blit arr 0)"

definition tlv_get ::
    "'k mixer_kernel \<Rightarrow> mixer \<Rightarrow> snd_ctl_elem_info \<Rightarrow> u8 list \<Rightarrow> u64 \<Rightarrow> 'k mstate \<Rightarrow> (int \<times> u8 list \<times> 'k mstate) res" where
  "tlv_get K m ei arr cnt s =
     (if cnt > -1 - 8 then Inr (- EINVAL, arr, s)
      else let (b, s1) = heap_alloc K s
           in case b of
                None \<Rightarrow> Inr (- ENOMEM, arr, s1)
              | Some a \<Rightarrow>
                  let (r, d, k) = x_tlv_read K (m_fd m) (ei_numid ei) (ucast cnt) (kern s1);
                      (ret, s2) = call (r, k) s1;
                      tlv = overwrite (replicate (unat cnt) 0) 0 (take (unat cnt) d)
                  in bindE (copy_out tlv (unat cnt) arr) (\<lambda>arr'.
                     bindE (heap_free a s2) (\<lambda>s3. Inr (ret, arr', s3))))"

definition mixer_ctl_get_array ::
    "'k mixer_kernel \<Rightarrow> mixer \<Rightarrow> nat option \<Rightarrow> u8 list option \<Rightarrow> u64 \<Rightarrow> 'k mstate
      \<Rightarrow> (int \<times> u8 list option \<times> 'k mstate) res" where
  "mixer_ctl_get_array K m co arr cnt s =
     (case co of
        None \<Rightarrow> Inr (- EINVAL, arr, s)
      | Some c \<Rightarrow> bindE (ctl_info m c) (\<lambda>ei.
          case (if array_refused co cnt ei arr then None else arr) of
            None \<Rightarrow> Inr (- EINVAL, arr, s)
          | Some a \<Rightarrow>
              (let (ret, ev, s1) = elem_read K m ei s;
                   read = (\<lambda>size. if ret < 0 then Inr (ret, arr, s1)
                     else bindE (copy_out (ev_value ev) (size * unat cnt) a) (\<lambda>a'. Inr (0, Some a', s1)))
               in if ei_type ei = SNDRV_CTL_ELEM_TYPE_BOOLEAN \<or> ei_type ei = SNDRV_CTL_ELEM_TYPE_INTEGER
                  then read 8
                  else if ei_type ei = SNDRV_CTL_ELEM_TYPE_BYTES
                  then if has_tlv ei
                       then bindE (tlv_get K m ei a cnt s) (\<lambda>(r, a', s'). Inr (r, Some a', s'))
                       else read 1
                  else if ei_type ei = SNDRV_CTL_ELEM_TYPE_IEC958
                  then bindE (copy_out (ev_value (zero_value (ei_numid ei))) (176 * unat cnt) a) (\<lambda>a'.
                         Inr (0, Some a', s))
                  else Inr (- EINVAL, arr, s))))"

definition tlv_set ::
    "'k mixer_kernel \<Rightarrow> mixer \<Rightarrow> snd_ctl_elem_info \<Rightarrow> u8 list \<Rightarrow> u64 \<Rightarrow> 'k mstate \<Rightarrow> (int \<times> 'k mstate) res" where
  "tlv_set K m ei arr cnt s =
     (if cnt > -1 - 8 then Inr (- EINVAL, s)
      else let (b, s1) = heap_alloc K s
           in case b of
                None \<Rightarrow> Inr (- ENOMEM, s1)
              | Some a \<Rightarrow>
                  bindE (copy_out arr (unat cnt) (replicate (unat cnt) 0)) (\<lambda>tlv.
                    let (ret, s2) = call (x_tlv_write K (m_fd m) (ei_numid ei) tlv (kern s1)) s1
                    in bindE (heap_free a s2) (\<lambda>s3. Inr (ret, s3))))"

definition mixer_ctl_set_array ::
    "'k mixer_kernel \<Rightarrow> mixer \<Rightarrow> nat option \<Rightarrow> u8 list option \<Rightarrow> u64 \<Rightarrow> 'k mstate \<Rightarrow> (int \<times> 'k mstate) res" where
  "mixer_ctl_set_array K m co arr cnt s =
     (case co of
        None \<Rightarrow> Inr (- EINVAL, s)
      | Some c \<Rightarrow> bindE (ctl_info m c) (\<lambda>ei.
          case (if array_refused co cnt ei arr then None else arr) of
            None \<Rightarrow> Inr (- EINVAL, s)
          | Some a \<Rightarrow>
              (let write = (\<lambda>size. bindE (copy_out a (size * unat cnt) (ev_value (zero_value (ei_numid ei)))) (\<lambda>v.
                     Inr (call (x_elem_write K (m_fd m) \<lparr>ev_numid = ei_numid ei, ev_value = v\<rparr> (kern s)) s)))
               in if ei_type ei = SNDRV_CTL_ELEM_TYPE_BOOLEAN \<or> ei_type ei = SNDRV_CTL_ELEM_TYPE_INTEGER
                  then write 8
                  else if ei_type ei = SNDRV_CTL_ELEM_TYPE_BYTES
                  then if has_tlv ei then tlv_set K m ei a cnt s else write 1
                  else if ei_type ei = SNDRV_CTL_ELEM_TYPE_IEC958 then write 176
                  else Inr (- EINVAL, s))))"

section \<open>Enumerations by name\<close>

fun enum_find :: "(nat \<times> string) option list \<Rightarrow> string \<Rightarrow> nat list \<Rightarrow> nat option res" where
  "enum_find names str [] = Inr None"
| "enum_find names str (j # js) =
     bindE (ld names j) (\<lambda>e.
       case e of
         None \<Rightarrow> Inl NullDeref
       | Some (b, nm) \<Rightarrow> if str = nm then Inr (Some j) else enum_find names str js)"

definition mixer_ctl_set_enum_by_string ::
    "'k mixer_kernel \<Rightarrow> mixer \<Rightarrow> nat option \<Rightarrow> string \<Rightarrow> 'k mstate \<Rightarrow> (int \<times> 'k mstate) res" where
  "mixer_ctl_set_enum_by_string K m co str s =
     (case co of
        None \<Rightarrow> Inr (- EINVAL, s)
      | Some i \<Rightarrow> bindE (ctl_info m i) (\<lambda>ei.
          if ei_type ei \<noteq> SNDRV_CTL_ELEM_TYPE_ENUMERATED then Inr (- EINVAL, s)
          else bindE (ld (m_ctls m) i) (\<lambda>c.
            let n = unat (enum_items ei)
            in bindE (case c_ename c of
                        None \<Rightarrow> if n = 0 then Inr None else Inl NullDeref
                      | Some (b, names) \<Rightarrow> enum_find names str [0..<n]) (\<lambda>jo.
               case jo of
                 None \<Rightarrow> Inr (- EINVAL, s)
               | Some j \<Rightarrow>
                   bindE (st32 (ev_value (zero_value (ei_numid ei))) 0 (of_nat j)) (\<lambda>v.
                     let (ret, s1) = call (x_elem_write K (m_fd m) \<lparr>ev_numid = ei_numid ei, ev_value = v\<rparr> (kern s)) s
                     in Inr (if ret < 0 then ret else 0, s1))))))"

end
