(* ===== verification/MixerHeap.thy ===== *)
theory MixerHeap
  imports Mixer "HOL-Library.Multiset"
begin

text \<open>
  The blocks and the descriptor of a mixer: what \<^verbatim>\<open>mixer_open\<close> allocates on every path is freed
  again, by its own failure path or by \<^verbatim>\<open>mixer_close\<close>, and nothing is freed twice.
\<close>

section \<open>Allocation as a multiset\<close>

abbreviation held :: "'k mstate \<Rightarrow> nat multiset" where
  "held s \<equiv> mset (blocks s)"

definition opt_mset :: "nat option \<Rightarrow> nat multiset" where
  "opt_mset b = (case b of None \<Rightarrow> {#} | Some a \<Rightarrow> {#a#})"

lemma opt_mset_simps [simp]: "opt_mset None = {#}" "opt_mset (Some a) = {#a#}"
  by (simp_all add: opt_mset_def)

lemma held_call [simp]: "blocks (snd (call rk s)) = blocks s"
  by (simp add: call_def)

lemma call_blocks: "call rk s = (r, s') \<Longrightarrow> blocks s' = blocks s"
  by (metis held_call snd_conv)

lemma heap_alloc_held: "heap_alloc K s = (b, s') \<Longrightarrow> held s' = opt_mset b + held s"
  by (auto simp: heap_alloc_def Let_def split: prod.splits if_splits)

lemma heap_free_held:
  assumes "held s = add_mset b r"
  shows "\<exists>s'. heap_free b s = Inr s' \<and> held s' = r"
proof -
  have "b \<in> set (blocks s)" using assms by (metis set_mset_mset union_single_eq_member)
  then show ?thesis using assms by (simp add: heap_free_def)
qed

lemma heap_free_opt_held:
  assumes "held s = opt_mset b + r"
  shows "\<exists>s'. heap_free_opt b s = Inr s' \<and> held s' = r"
  using assms heap_free_held by (cases b) (auto simp: heap_free_opt_def)

section \<open>What a mixer owns\<close>

definition names_mset :: "(nat \<times> string) option list \<Rightarrow> nat multiset" where
  "names_mset names = sum_list (map (\<lambda>e. opt_mset (map_option fst e)) names)"

definition ctl_mset :: "mixer_ctl \<Rightarrow> nat multiset" where
  "ctl_mset c = (case c_ename c of None \<Rightarrow> {#} | Some (b, names) \<Rightarrow> add_mset b (names_mset names))"

definition owned :: "mixer \<Rightarrow> nat multiset" where
  "owned m = add_mset (m_block m) (opt_mset (m_infos_block m) + opt_mset (m_ctls_block m)
     + sum_list (map ctl_mset (m_ctls m)))"

lemma sum_list_empties [simp]: "sum_list (replicate n {#}) = ({#} :: nat multiset)"
  by (induction n) simp_all

lemma names_mset_simps [simp]:
  "names_mset [] = {#}" "names_mset (e # es) = opt_mset (map_option fst e) + names_mset es"
  "names_mset (es @ fs) = names_mset es + names_mset fs" "names_mset (replicate n None) = {#}"
  by (simp_all add: names_mset_def)

lemma names_mset_update:
  assumes "i < length names" and "names ! i = None"
  shows "names_mset (names[i := Some (a, str)]) = add_mset a (names_mset names)"
  using sum_list_list_update [of i "map (\<lambda>e. opt_mset (map_option fst e)) names" "{#a#}"] assms
  by (simp add: names_mset_def map_update)

section \<open>Freeing\<close>

lemma free_names_held:
  assumes "n = length names" and "held s = names_mset names + r"
  shows "\<exists>s'. free_names names n s = Inr s' \<and> held s' = r"
proof -
  have "\<exists>s'. foldE (\<lambda>j s. bindE (ld names j) (\<lambda>e. heap_free_opt (map_option fst e) s)) [0..<k] s = Inr s'
      \<and> held s' = names_mset (drop k names) + r" if "k \<le> length names" for k
    using that
  proof (induction k)
    case 0
    then show ?case using assms(2) by simp
  next
    case (Suc k)
    then obtain s1 where s1: "foldE (\<lambda>j s. bindE (ld names j) (\<lambda>e. heap_free_opt (map_option fst e) s)) [0..<k] s = Inr s1"
      "held s1 = names_mset (drop k names) + r" by auto
    have "drop k names = names ! k # drop (Suc k) names" using Suc.prems by (simp add: Cons_nth_drop_Suc)
    then have "held s1 = opt_mset (map_option fst (names ! k)) + (names_mset (drop (Suc k) names) + r)"
      using s1(2) by (simp add: ac_simps)
    from heap_free_opt_held [OF this] s1(1) Suc.prems show ?case by (auto simp: foldE_append ld_ok)
  qed
  from this [of "length names"] show ?thesis using assms(1) by (simp add: free_names_def)
qed

text \<open>
  A mixer that can be closed: the names of a control are as many as its description has items, and
  names exist only within the count and with the array of controls.
\<close>

definition ctl_ok :: "mixer \<Rightarrow> nat \<Rightarrow> mixer_ctl \<Rightarrow> bool" where
  "ctl_ok m n c \<longleftrightarrow> (\<forall>b names. c_ename c = Some (b, names) \<longrightarrow>
     n < unat (m_count m) \<and> m_ctls_block m \<noteq> None \<and> c_info c = Some n \<and> n < length (m_infos m)
     \<and> length names = unat (enum_items (m_infos m ! n)))"

definition closeable :: "mixer \<Rightarrow> bool" where
  "closeable m \<longleftrightarrow> unat (m_count m) \<le> length (m_ctls m)
     \<and> (\<forall>n < length (m_ctls m). ctl_ok m n (m_ctls m ! n))"

lemma put_fields [simp]:
  "m_count (put_ctl n c m) = m_count m" "m_fd (put_ctl n c m) = m_fd m" "m_infos (put_ctl n c m) = m_infos m"
  "m_ctls_block (put_ctl n c m) = m_ctls_block m" "m_ctls (put_ctl n c m) = (m_ctls m)[n := c]"
  "m_count (put_info n ei m) = m_count m" "m_fd (put_info n ei m) = m_fd m" "m_ctls (put_info n ei m) = m_ctls m"
  "m_ctls_block (put_info n ei m) = m_ctls_block m" "m_infos (put_info n ei m) = (m_infos m)[n := ei]"
  by (simp_all add: put_ctl_def put_info_def)

lemma ctl_ok_None [simp]: "c_ename c = None \<Longrightarrow> ctl_ok m n c"
  by (simp add: ctl_ok_def)

lemma ctl_ok_put_ctl [simp]: "ctl_ok (put_ctl k c' m) n c = ctl_ok m n c"
  by (simp add: ctl_ok_def put_ctl_def)

lemma ctl_ok_put_info [simp]: "k \<noteq> n \<Longrightarrow> ctl_ok (put_info k ei m) n c = ctl_ok m n c"
  by (simp add: ctl_ok_def put_info_def)

lemma closeable_ctl: "closeable m \<Longrightarrow> n < length (m_ctls m) \<Longrightarrow> ctl_ok m n (m_ctls m ! n)"
  by (simp add: closeable_def)

lemma closeable_put_ctl:
  assumes "closeable m" and "ctl_ok m n c"
  shows "closeable (put_ctl n c m)"
  using assms by (cases "n < length (m_ctls m)") (auto simp: closeable_def nth_list_update)

lemma closeable_put_info:
  assumes "closeable m" and "n < length (m_ctls m) \<longrightarrow> c_ename (m_ctls m ! n) = None"
  shows "closeable (put_info n ei m)"
proof -
  have "ctl_ok (put_info n ei m) i (m_ctls m ! i)" if "i < length (m_ctls m)" for i
    using assms closeable_ctl that by (cases "i = n") auto
  then show ?thesis using assms(1) by (simp add: closeable_def)
qed

lemma free_ename_held:
  assumes "closeable m" and "n < length (m_ctls m)" and "held s = ctl_mset (m_ctls m ! n) + r"
  shows "\<exists>s'. free_ename m n s = Inr s' \<and> held s' = r"
proof (cases "c_ename (m_ctls m ! n)")
  case None
  then show ?thesis using assms(2,3) by (simp add: free_ename_def ld_ok ctl_mset_def)
next
  case (Some bn)
  obtain b names where bn: "bn = (b, names)" by (rule prod.exhaust)
  have j: "c_info (m_ctls m ! n) = Some n" "n < length (m_infos m)"
    "length names = unat (enum_items (m_infos m ! n))"
    using closeable_ctl [OF assms(1,2)] Some bn by (simp_all add: ctl_ok_def)
  have "held s = names_mset names + add_mset b r" using assms(3) Some bn by (simp add: ctl_mset_def)
  from free_names_held [OF j(3) [symmetric] this] obtain s1 where
    s1: "free_names names (unat (enum_items (m_infos m ! n))) s = Inr s1" "held s1 = add_mset b r" by blast
  from heap_free_held [OF this(2)] show ?thesis
    using s1(1) j assms(2) Some bn by (simp add: free_ename_def ld_ok ctl_info_def)
qed

lemma free_enames_held:
  assumes "closeable m" and "held s = sum_list (map ctl_mset (m_ctls m)) + r"
  shows "\<exists>s'. foldE (free_ename m) [0..<unat (m_count m)] s = Inr s' \<and> held s' = r"
proof -
  have "\<exists>s'. foldE (free_ename m) [0..<k] s = Inr s'
      \<and> held s' = sum_list (map ctl_mset (drop k (m_ctls m))) + r" if "k \<le> length (m_ctls m)" for k
    using that
  proof (induction k)
    case 0
    then show ?case using assms(2) by simp
  next
    case (Suc k)
    then obtain s1 where s1: "foldE (free_ename m) [0..<k] s = Inr s1"
      "held s1 = sum_list (map ctl_mset (drop k (m_ctls m))) + r" by auto
    have "drop k (m_ctls m) = m_ctls m ! k # drop (Suc k) (m_ctls m)"
      using Suc.prems by (simp add: Cons_nth_drop_Suc)
    then have "held s1 = ctl_mset (m_ctls m ! k) + (sum_list (map ctl_mset (drop (Suc k) (m_ctls m))) + r)"
      using s1(2) by (simp add: ac_simps)
    from free_ename_held [OF assms(1) _ this] s1(1) Suc.prems show ?case by (auto simp: foldE_append)
  qed
  moreover have "sum_list (map ctl_mset (drop (unat (m_count m)) (m_ctls m))) = {#}"
  proof -
    have "ctl_mset c = {#}" if c: "c \<in> set (drop (unat (m_count m)) (m_ctls m))" for c
    proof -
      obtain i where "c = m_ctls m ! (unat (m_count m) + i)" "unat (m_count m) + i < length (m_ctls m)"
        using c by (auto simp: in_set_conv_nth)
      then have "c_ename c = None" using closeable_ctl [OF assms(1)] by (cases "c_ename c") (auto simp: ctl_ok_def)
      then show ?thesis by (simp add: ctl_mset_def)
    qed
    then have "map ctl_mset (drop (unat (m_count m)) (m_ctls m)) = map (\<lambda>_. {#}) (drop (unat (m_count m)) (m_ctls m))"
      by (intro map_cong refl)
    then show ?thesis by (simp add: map_replicate_const)
  qed
  moreover have "unat (m_count m) \<le> length (m_ctls m)" using assms(1) by (simp add: closeable_def)
  ultimately show ?thesis by (metis add_0)
qed

lemma mixer_close_held:
  assumes "closeable m" and "held s = owned m + r"
  shows "\<exists>s'. mixer_close K (Some m) s = Inr s' \<and> held s' = r"
proof -
  define s1 where "s1 = (if 0 \<le> m_fd m then snd (call (x_close K (m_fd m) (kern s)) s) else s)"
  have h1: "held s1 = sum_list (map ctl_mset (m_ctls m))
      + (opt_mset (m_ctls_block m) + (opt_mset (m_infos_block m) + add_mset (m_block m) r))"
    using assms(2) by (simp add: s1_def owned_def ac_simps)
  have "\<exists>s2. (case m_ctls_block m of None \<Rightarrow> Inr s1
      | Some b \<Rightarrow> bindE (foldE (free_ename m) [0..<unat (m_count m)] s1) (heap_free b)) = Inr s2
    \<and> held s2 = opt_mset (m_infos_block m) + add_mset (m_block m) r"
  proof (cases "m_ctls_block m")
    case None
    have "map ctl_mset (m_ctls m) = replicate (length (m_ctls m)) {#}"
    proof (rule nth_equalityI)
      fix i assume "i < length (map ctl_mset (m_ctls m))"
      then have "c_ename (m_ctls m ! i) = None"
        using closeable_ctl [OF assms(1), of i] None by (cases "c_ename (m_ctls m ! i)") (auto simp: ctl_ok_def)
      then show "map ctl_mset (m_ctls m) ! i = replicate (length (m_ctls m)) {#} ! i"
        using \<open>i < _\<close> by (simp add: ctl_mset_def)
    qed simp
    then show ?thesis using None h1 by simp
  next
    case (Some b)
    from free_enames_held [OF assms(1) h1] obtain s2 where
      s2: "foldE (free_ename m) [0..<unat (m_count m)] s1 = Inr s2"
      "held s2 = add_mset b (opt_mset (m_infos_block m) + add_mset (m_block m) r)" using Some by auto
    from heap_free_held [OF this(2)] s2(1) Some show ?thesis by simp
  qed
  then obtain s2 where s2: "(case m_ctls_block m of None \<Rightarrow> Inr s1
      | Some b \<Rightarrow> bindE (foldE (free_ename m) [0..<unat (m_count m)] s1) (heap_free b)) = Inr s2"
    "held s2 = opt_mset (m_infos_block m) + add_mset (m_block m) r" by blast
  obtain s3 where s3: "heap_free_opt (m_infos_block m) s2 = Inr s3" "held s3 = add_mset (m_block m) r"
    using heap_free_opt_held [OF s2(2)] by blast
  from heap_free_held [OF s3(2)] show ?thesis
    using s2(1) s3(1) by (simp add: mixer_close_def s1_def [symmetric])
qed

section \<open>Opening\<close>

lemma enum_loop_held:
  assumes "enum_loop K d numid js names s = (ok, names', s')"
    and "\<forall>j \<in> set js. j < length names \<and> names ! j = None" and "distinct js"
  shows "length names' = length names \<and> held s' + names_mset names = names_mset names' + held s"
  using assms
proof (induction js arbitrary: names s)
  case (Cons j js)
  obtain r tmp k where 1: "x_elem_info K d (set_enum_item (of_nat j) (zero_info\<lparr>ei_numid := numid\<rparr>)) (kern s) = (r, tmp, k)"
    by (rule prod_cases3)
  obtain ret s1 where 2: "call (r, k) s = (ret, s1)" by (rule prod.exhaust)
  obtain b s2 where 3: "heap_alloc K s1 = (b, s2)" by (rule prod.exhaust)
  have h1: "held s1 = held s" using call_blocks [OF 2] by simp
  note h2 = heap_alloc_held [OF 3]
  have eq: "(if ret < 0 then (False, names, s1)
      else case b of None \<Rightarrow> (False, names, s2)
           | Some a \<Rightarrow> enum_loop K d numid js (names[j := Some (a, ei_item_name tmp)]) s2) = (ok, names', s')"
    using Cons.prems(1) by (simp add: 1 2 3 split: if_splits)
  consider (ioctl) "ret < 0" | (none) "\<not> ret < 0" "b = None" | (some) a where "\<not> ret < 0" "b = Some a" by (cases b) auto
  then show ?case
  proof cases
    case (some a)
    let ?names = "names[j := Some (a, ei_item_name tmp)]"
    have "enum_loop K d numid js ?names s2 = (ok, names', s')" using eq some by simp
    moreover have "\<forall>i \<in> set js. i < length ?names \<and> ?names ! i = None"
      using Cons.prems(2,3) by (auto simp: nth_list_update)
    ultimately have "length names' = length ?names \<and> held s' + names_mset ?names = names_mset names' + held s2"
      using Cons.prems(3) by (intro Cons.IH) simp_all
    then show ?thesis using names_mset_update [of j names a] Cons.prems(2) h1 h2 some by simp
  qed (use eq h1 h2 in auto)
qed simp

lemma owned_put_ctl:
  assumes "n < length (m_ctls m)"
  shows "owned (put_ctl n c m) + ctl_mset (m_ctls m ! n) = owned m + ctl_mset c"
  using sum_list_list_update [of n "map ctl_mset (m_ctls m)" "ctl_mset c"] assms
  by (simp add: owned_def put_ctl_def map_update ac_simps)

lemma owned_put_info [simp]: "owned (put_info n ei m) = owned m"
  by (simp add: owned_def put_info_def)

text \<open>What the loop over the elements keeps, with the elements from \<open>n\<close> on still without names.\<close>

definition filling :: "nat \<Rightarrow> mixer \<Rightarrow> bool" where
  "filling n m \<longleftrightarrow> closeable m \<and> m_ctls_block m \<noteq> None \<and> length (m_ctls m) = unat (m_count m)
     \<and> length (m_infos m) = unat (m_count m)
     \<and> (\<forall>i. n \<le> i \<and> i < unat (m_count m) \<longrightarrow> c_ename (m_ctls m ! i) = None)"

lemma filling_put_info:
  assumes "filling n m"
  shows "filling n (put_info n ei m)"
proof -
  have "n < length (m_ctls m) \<longrightarrow> c_ename (m_ctls m ! n) = None" using assms by (simp add: filling_def)
  with assms closeable_put_info show ?thesis by (auto simp: filling_def)
qed

lemma filling_put_ctl:
  assumes "filling n m" and "ctl_ok m n c"
  shows "filling (Suc n) (put_ctl n c m)"
  using assms closeable_put_ctl [of m n c] by (auto simp: filling_def)

lemma filling_Suc: "filling n m \<Longrightarrow> filling (Suc n) m"
  by (simp add: filling_def)

lemma open_elem_held:
  assumes "open_elem K d numid n m s = (ok, m', s')" and "filling n m" and "n < unat (m_count m)"
  shows "filling (Suc n) m' \<and> held s' + owned m = owned m' + held s \<and> m_count m' = m_count m \<and> m_fd m' = m_fd m"
proof -
  obtain r ei k where 1: "x_elem_info K d ((m_infos m ! n)\<lparr>ei_numid := numid\<rparr>) (kern s) = (r, ei, k)"
    by (rule prod_cases3)
  obtain ret s1 where 2: "call (r, k) s = (ret, s1)" by (rule prod.exhaust)
  obtain b s2 where 3: "heap_alloc K s1 = (b, s2)" by (rule prod.exhaust)
  define m1 where "m1 = put_info n ei m"
  define c2 where "c2 = (m_ctls m ! n)\<lparr>c_info := Some n\<rparr>"
  define m2 where "m2 = put_ctl n c2 m1"
  obtain ok' names s3 where 4: "enum_loop K d (ei_numid ei) [0..<unat (enum_items ei)]
      (replicate (unat (enum_items ei)) None) s2 = (ok', names, s3)" by (rule prod_cases3)
  define m3 where "m3 a = put_ctl n (c2\<lparr>c_ename := Some (a, names)\<rparr>) m1" for a
  have h: "held s1 = held s" "held s2 = opt_mset b + held s"
    using call_blocks [OF 2] heap_alloc_held [OF 3] by simp_all
  have names: "length names = unat (enum_items ei)" "held s3 = names_mset names + held s2"
    using enum_loop_held [OF 4] by simp_all
  have len: "n < length (m_ctls m)" "n < length (m_infos m)" "c_ename (m_ctls m ! n) = None"
    using assms(2,3) by (simp_all add: filling_def)
  have m1: "filling n m1" "owned m1 = owned m"
    using filling_put_info [OF assms(2)] by (simp_all add: m1_def)
  have m2: "filling (Suc n) m2" "owned m2 = owned m"
    using filling_put_ctl [OF m1(1), of c2] owned_put_ctl [of n m1 c2] len m1(2)
    by (simp_all add: m2_def c2_def ctl_mset_def m1_def)
  have ok3: "ctl_ok m1 n (c2\<lparr>c_ename := Some (a, names)\<rparr>)" for a
    using assms(2,3) names(1) len by (simp add: ctl_ok_def c2_def m1_def filling_def)
  have m3: "filling (Suc n) (m3 a)" "owned (m3 a) = add_mset a (names_mset names) + owned m" for a
    using filling_put_ctl [OF m1(1) ok3] owned_put_ctl [of n m1 "c2\<lparr>c_ename := Some (a, names)\<rparr>"] len m1(2)
    by (simp_all add: m3_def ctl_mset_def m1_def)
  have eq: "put_ctl n ((m_ctls m2 ! n)\<lparr>c_ename := Some (a, names)\<rparr>) m2 = m3 a" for a
    using len by (simp add: m2_def m3_def m1_def) (simp add: put_ctl_def put_info_def)
  have c2: "(m_ctls m1 ! n)\<lparr>c_info := Some n\<rparr> = c2" by (simp add: m1_def c2_def)
  have "m' = m1 \<and> s' = s1 \<or> m' = m2 \<and> s' = s1 \<or> m' = m2 \<and> s' = s2 \<and> b = None \<or> (\<exists>a. b = Some a \<and> m' = m3 a \<and> s' = s3)"
    using assms(1) unfolding open_elem_def 1 prod.case Let_def 2 m1_def [symmetric] c2 m2_def [symmetric] 3 4 eq
    by (cases "ret < 0"; cases "ei_type ei \<noteq> SNDRV_CTL_ELEM_TYPE_ENUMERATED"; cases b; simp)
  moreover have "m_count m1 = m_count m" "m_fd m1 = m_fd m" "m_count m2 = m_count m" "m_fd m2 = m_fd m"
    "m_count (m3 a) = m_count m" "m_fd (m3 a) = m_fd m" for a by (simp_all add: m1_def m2_def m3_def)
  ultimately show ?thesis using m1 m2 m3 h names filling_Suc by auto
qed

lemma ctl_loop_held:
  assumes "ctl_loop K d ids [i..<j] m s = (ok, m', s')" and "filling i m" and "j \<le> unat (m_count m)"
  shows "closeable m' \<and> held s' + owned m = owned m' + held s \<and> m_fd m' = m_fd m"
  using assms
proof (induction "j - i" arbitrary: i m s)
  case 0
  then show ?case by (auto simp: filling_def)
next
  case (Suc x)
  then have ij: "i < j" and x: "x = j - Suc i" by simp_all
  obtain ok1 m1 s1 where 1: "open_elem K d (ids ! i) i m s = (ok1, m1, s1)" by (rule prod_cases3)
  have e: "filling (Suc i) m1" "held s1 + owned m = owned m1 + held s" "m_count m1 = m_count m" "m_fd m1 = m_fd m"
    using open_elem_held [OF 1 Suc.prems(2)] Suc.prems(3) ij by simp_all
  show ?case
  proof (cases ok1)
    case False
    then show ?thesis using Suc.prems(1) e ij by (auto simp: upt_conv_Cons 1 filling_def)
  next
    case True
    then have "ctl_loop K d ids [Suc i..<j] m1 s1 = (ok, m', s')"
      using Suc.prems(1) ij by (simp add: upt_conv_Cons 1)
    from Suc.hyps(1) [OF x this e(1)] Suc.prems(3) e(3)
    have IH: "closeable m' \<and> held s' + owned m1 = owned m' + held s1 \<and> m_fd m' = m_fd m1" by simp
    have "(held s' + owned m) + owned m1 = (held s' + owned m1) + owned m" by (simp only: ac_simps)
    also have "\<dots> = owned m' + (held s1 + owned m)" using IH by (simp only: ac_simps)
    also have "\<dots> = (owned m' + held s) + owned m1" unfolding e(2) by (simp only: ac_simps)
    finally show ?thesis using IH e(4) by simp
  qed
qed

lemma open_fail_held:
  assumes "case mo of None \<Rightarrow> held s = opt_mset eid + r | Some m \<Rightarrow> closeable m \<and> held s = opt_mset eid + (owned m + r)"
  shows "\<exists>s'. mixer_open_fail K eid mo d s = Inr (None, s') \<and> held s' = r"
proof (cases mo)
  case None
  with assms heap_free_opt_held [of s eid r] obtain s1 where "heap_free_opt eid s = Inr s1" "held s1 = r" by auto
  then show ?thesis using None by (simp add: mixer_open_fail_def)
next
  case (Some m)
  with assms heap_free_opt_held [of s eid "owned m + r"] obtain s1 where
    s1: "heap_free_opt eid s = Inr s1" "held s1 = owned m + r" and m: "closeable m" by auto
  from mixer_close_held [OF m s1(2), of K] obtain s2 where "mixer_close K (Some m) s1 = Inr s2" "held s2 = r" by blast
  then show ?thesis using s1(1) Some by (simp add: mixer_open_fail_def)
qed

definition opened :: "'k mixer_kernel \<Rightarrow> nat multiset \<Rightarrow> int option \<Rightarrow> (mixer option \<times> 'k mstate) res \<Rightarrow> bool" where
  "opened K r d res \<longleftrightarrow> (\<exists>mo s'. res = Inr (mo, s') \<and> (case mo of
       None \<Rightarrow> held s' = r
     | Some m \<Rightarrow> closeable m \<and> d = Some (m_fd m) \<and> held s' = owned m + r))"

lemma opened_fail:
  "(case mo of None \<Rightarrow> held s = opt_mset eid + r | Some m \<Rightarrow> closeable m \<and> held s = opt_mset eid + (owned m + r))
    \<Longrightarrow> opened K r d (mixer_open_fail K eid mo e s)"
  using open_fail_held [where mo = mo and s = s and eid = eid and r = r and K = K and d = e] by (auto simp: opened_def)

lemma open_elems_held:
  assumes "filling 0 m" and "held s = add_mset eid (owned m + r)"
  shows "opened K r (Some (m_fd m)) (mixer_open_elems K d eid m s)"
proof -
  obtain r' cnt ids k where 1: "x_elem_list K d (m_count m) (kern s) = (r', cnt, ids, k)" by (rule prod_cases4)
  obtain ret s1 where 2: "call (r', k) s = (ret, s1)" by (rule prod.exhaust)
  let ?n = "unat (m_count m)"
  obtain ok m1 s2 where 3: "ctl_loop K d (take ?n (ids @ replicate ?n 0)) [0..<?n] m s1 = (ok, m1, s2)"
    by (rule prod_cases3)
  have h1: "held s1 = add_mset eid (owned m + r)" using call_blocks [OF 2] assms(2) by simp
  have e: "closeable m1" "held s2 + owned m = owned m1 + held s1" "m_fd m1 = m_fd m"
    using ctl_loop_held [OF 3 assms(1)] by simp_all
  have h2: "held s2 = add_mset eid (owned m1 + r)" using e(2) h1 by (simp add: ac_simps)
  have m: "closeable m" using assms(1) by (simp add: filling_def)
  have fail: "opened K r (Some (m_fd m)) (mixer_open_fail K (Some eid) (Some m) d s1)"
    "opened K r (Some (m_fd m)) (mixer_open_fail K (Some eid) (Some m1) d s2)"
    using h1 h2 m e(1) by (simp_all add: opened_fail)
  obtain s3 where s3: "heap_free eid s2 = Inr s3" "held s3 = owned m1 + r" using heap_free_held [OF h2] by blast
  have good: "opened K r (Some (m_fd m)) (Inr (Some m1, s3))" using s3(2) e by (simp add: opened_def)
  show ?thesis
    unfolding mixer_open_elems_def 1 prod.case Let_def 2 3 using fail good s3(1) by simp
qed

lemma open_arrays_held:
  assumes "held s = add_mset (m_block m) r" and "m_count m = 0" and "m_ctls_block m = None" and "m_infos_block m = None"
  shows "opened K r (Some d) (mixer_open_arrays K d n m s)"
proof -
  obtain b1 s1 where 1: "heap_alloc K s = (b1, s1)" by (rule prod.exhaust)
  obtain b2 s2 where 2: "heap_alloc K s1 = (b2, s2)" by (rule prod.exhaust)
  define m1 where "m1 = m\<lparr>m_ctls_block := b1, m_infos_block := b2,
    m_ctls := replicate (unat n) \<lparr>c_info = None, c_ename = None\<rparr>, m_infos := replicate (unat n) zero_info\<rparr>"
  obtain r' nm k where 3: "x_card_info K d (kern s2) = (r', nm, k)" by (rule prod_cases3)
  obtain ret s3 where 4: "call (r', k) s2 = (ret, s3)" by (rule prod.exhaust)
  obtain b3 s4 where 5: "heap_alloc K s3 = (b3, s4)" by (rule prod.exhaust)
  define m2 where "m2 = m1\<lparr>m_card_name := nm\<rparr>"
  have none: "ctl_mset \<lparr>c_info = None, c_ename = None\<rparr> = {#}" by (simp add: ctl_mset_def)
  have own: "owned m1 = add_mset (m_block m) (opt_mset b2 + opt_mset b1)" "owned m2 = owned m1"
    "owned (m2\<lparr>m_count := n, m_fd := d\<rparr>) = owned m1"
    by (simp_all add: owned_def m1_def m2_def none)
  have cl: "closeable m1" "closeable m2" using assms(2) by (simp_all add: closeable_def m1_def m2_def)
  have fill: "filling 0 (m2\<lparr>m_count := n, m_fd := d\<rparr>)" if "b1 \<noteq> None"
    using that by (simp add: filling_def closeable_def m1_def m2_def)
  have h2: "held s2 = owned m1 + r"
    using heap_alloc_held [OF 1] heap_alloc_held [OF 2] assms(1) own by (simp add: ac_simps)
  have h3: "held s3 = owned m1 + r" using call_blocks [OF 4] h2 by simp
  have h4: "held s4 = opt_mset b3 + (owned m1 + r)" using heap_alloc_held [OF 5] h3 by simp
  have fail: "opened K r (Some d) (mixer_open_fail K None (Some m1) d s2)"
    "opened K r (Some d) (mixer_open_fail K None (Some m2) d s3)"
    "b3 = None \<Longrightarrow> opened K r (Some d) (mixer_open_fail K None (Some m2) d s4)"
    using h2 h3 h4 cl own by (simp_all add: opened_fail)
  have elems: "opened K r (Some d) (mixer_open_elems K d eid (m2\<lparr>m_count := n, m_fd := d\<rparr>) s4)"
    if "b1 \<noteq> None" "b3 = Some eid" for eid
    using open_elems_held [OF fill [OF that(1)], of s4 eid r K d] h4 that own by simp
  show ?thesis
    unfolding mixer_open_arrays_def 1 2 prod.case Let_def m1_def [symmetric] 3 4 m2_def [symmetric] 5
    using fail elems by (auto split: option.splits)
qed

lemma mixer_open_held: "\<exists>d. opened K (held s) d (mixer_open K crd s)"
proof -
  obtain d s1 where 1: "call (x_open K (''/dev/snd/controlC'' @ fmt_u crd) (kern s)) s = (d, s1)" by (rule prod.exhaust)
  obtain r n ids k where 2: "x_elem_list K d 0 (kern s1) = (r, n, ids, k)" by (rule prod_cases4)
  obtain ret s2 where 3: "call (r, k) s1 = (ret, s2)" by (rule prod.exhaust)
  obtain b s3 where 4: "heap_alloc K s2 = (b, s3)" by (rule prod.exhaust)
  have h: "held s1 = held s" "held s2 = held s" "held s3 = opt_mset b + held s"
    using call_blocks [OF 1] call_blocks [OF 3] heap_alloc_held [OF 4] by simp_all
  have "opened K (held s) (Some d) (Inr (None, s1))" using h by (simp add: opened_def)
  moreover have "opened K (held s) (Some d) (mixer_open_fail K None None d s2)"
    "b = None \<Longrightarrow> opened K (held s) (Some d) (mixer_open_fail K None None d s3)"
    using h by (simp_all add: opened_fail)
  moreover have "opened K (held s) (Some d) (mixer_open_arrays K d n (zero_mixer a) s3)" if "b = Some a" for a
    using open_arrays_held [of s3 "zero_mixer a" "held s" K d n] h that by (simp add: zero_mixer_def)
  ultimately have "opened K (held s) (Some d) (mixer_open K crd s)"
    unfolding mixer_open_def 1 2 3 4 prod.case Let_def by (auto split: option.splits)
  then show ?thesis ..
qed

text \<open>
  C30: whatever call of \<^verbatim>\<open>mixer_open\<close> fails, no block stays allocated and none is freed twice; when it
  succeeds it has allocated exactly the blocks of the mixer, and \<^verbatim>\<open>mixer_close\<close> frees all of them.
\<close>

theorem mixer_open_close_blocks:
  "\<exists>mo s'. mixer_open K crd s = Inr (mo, s')
    \<and> (case mo of
         None \<Rightarrow> held s' = held s
       | Some m \<Rightarrow> held s' = owned m + held s
           \<and> (\<exists>s''. mixer_close K (Some m) s' = Inr s'' \<and> held s'' = held s))"
proof -
  obtain d where "opened K (held s) d (mixer_open K crd s)" using mixer_open_held by blast
  then obtain mo s' where o: "mixer_open K crd s = Inr (mo, s')"
    "case mo of None \<Rightarrow> held s' = held s | Some m \<Rightarrow> closeable m \<and> d = Some (m_fd m) \<and> held s' = owned m + held s"
    by (auto simp: opened_def)
  then show ?thesis using mixer_close_held [of _ s' "held s" K] by (cases mo) auto
qed

text \<open>
  when the card information cannot be read, \<^verbatim>\<open>mixer_open\<close> closes descriptor 0 and leaves the
  device open: \<^verbatim>\<open>mixer_close\<close> finds the 0 of \<^verbatim>\<open>calloc\<close> in a mixer whose \<^verbatim>\<open>fd\<close> is not set yet. The only
  calls made on the control device are the ones that the hypotheses name.
\<close>

theorem mixer_open_closes_zero:
  assumes "x_open K (''/dev/snd/controlC'' @ fmt_u crd) (kern s) = (SysOk d, k1)"
    and "x_elem_list K (int d) 0 k1 = (SysOk a, n, ids, k2)"
    and "x_calloc K k2 = (True, k3)" and "x_calloc K k3 = (True, k4)" and "x_calloc K k4 = (True, k5)"
    and "x_card_info K (int d) k5 = (SysErr e, nm, k6)"
  shows "\<exists>s'. mixer_open K crd s = Inr (None, s') \<and> kern s' = snd (x_close K 0 k6)"
proof -
  have kern_free: "kern s' = kern u" if "heap_free b u = Inr s'" for b u s'
    using that by (auto simp: heap_free_def split: if_splits)
  obtain s' where s': "mixer_open K crd s = Inr (None, s')"
    using mixer_open_held [of K s crd] assms
    by (auto simp: opened_def mixer_open_def mixer_open_arrays_def call_def heap_alloc_def Let_def
        mixer_open_fail_def zero_mixer_def res_simps heap_free_opt_def)
  then have "kern s' = snd (x_close K 0 k6)"
    using assms
    by (auto simp: mixer_open_def mixer_open_arrays_def call_def heap_alloc_def Let_def mixer_open_fail_def
        mixer_close_def zero_mixer_def heap_free_opt_def res_simps dest!: kern_free)
  with s' show ?thesis by blast
qed

section \<open>A device for the witnesses\<close>

text \<open>One integer element with two values from 0 to 100; what is written is read back.\<close>

record desk =
  o_fds :: "int list"
  o_vals :: "u32 \<Rightarrow> u8 list"

definition volume_info :: snd_ctl_elem_info where
  "volume_info = zero_info\<lparr>ei_name := ''Volume'', ei_type := SNDRV_CTL_ELEM_TYPE_INTEGER, ei_count := 2, ei_max := 100\<rparr>"

definition desk_kernel :: "sysret \<Rightarrow> desk mixer_kernel" where
  "desk_kernel rc =
     \<lparr>x_open = \<lambda>fn k. (SysOk 3, k\<lparr>o_fds := 3 # o_fds k\<rparr>),
      x_close = \<lambda>d k. (SysOk 0, k\<lparr>o_fds := removeAll d (o_fds k)\<rparr>),
      x_calloc = \<lambda>k. (True, k),
      x_elem_list = \<lambda>d sp k. (SysOk 0, 1, [1], k),
      x_card_info = \<lambda>d k. (rc, ''Card'', k),
      x_elem_info = \<lambda>d q k. (SysOk 0, volume_info\<lparr>ei_numid := ei_numid q\<rparr>, k),
      x_elem_read = \<lambda>d ev k. (SysOk 0, ev\<lparr>ev_value := take 1024 (o_vals k (ev_numid ev) @ replicate 1024 0)\<rparr>, k),
      x_elem_write = \<lambda>d ev k. (SysOk 0, k\<lparr>o_vals := (o_vals k)(ev_numid ev := ev_value ev)\<rparr>),
      x_tlv_read = \<lambda>d n l k. (SysOk 0, [], k),
      x_tlv_write = \<lambda>d n t k. (SysOk 0, k)\<rparr>"

definition desk_state :: "desk mstate" where
  "desk_state = \<lparr>kern = \<lparr>o_fds = [0, 1, 2], o_vals = \<lambda>_. replicate 1024 0\<rparr>, blocks = []\<rparr>"

theorem mixer_open_closes_zero_witness:
  "\<exists>s'. mixer_open (desk_kernel (SysErr EIO)) 0 desk_state = Inr (None, s') \<and> o_fds (kern s') = [3, 1, 2]"
proof -
  let ?k = "(kern desk_state)\<lparr>o_fds := [3, 0, 1, 2]\<rparr>"
  have "\<exists>s'. mixer_open (desk_kernel (SysErr EIO)) 0 desk_state = Inr (None, s')
    \<and> kern s' = snd (x_close (desk_kernel (SysErr EIO)) 0 ?k)"
    by (rule mixer_open_closes_zero [where d = 3]) (simp_all add: desk_kernel_def desk_state_def)
  then show ?thesis by (auto simp: desk_kernel_def)
qed

end
