(* ===== verification/MixerValues.thy ===== *)
theory MixerValues
  imports MixerHeap
begin

text \<open>
  The values of an element: percentages, what is read back after a write, and the lookups by name.
\<close>

section \<open>Percentages\<close>

lemma to_int_small: "- (2 ^ 31) \<le> i \<Longrightarrow> i < 2 ^ 31 \<Longrightarrow> to_int i = i"
  by (simp add: to_int_def sint_of_int_u32)

lemma s32_ok: "- (2 ^ 31) \<le> i \<Longrightarrow> i < 2 ^ 31 \<Longrightarrow> s32 i = Inr i"
  by (simp add: s32_def)

lemma s64_ok: "- (2 ^ 31) \<le> i \<Longrightarrow> i < 2 ^ 33 \<Longrightarrow> s64 i = Inr i"
  by (simp add: s64_def)

text \<open>The limits of an element that fit an \<^verbatim>\<open>int\<close>, and their distance.\<close>

definition limits :: "snd_ctl_elem_info \<Rightarrow> int \<Rightarrow> int \<Rightarrow> bool" where
  "limits ei lo hi \<longleftrightarrow> sint (ei_min ei) = lo \<and> sint (ei_max ei) = hi \<and> - (2 ^ 31) \<le> lo \<and> lo \<le> hi
     \<and> hi < 2 ^ 31 \<and> hi - lo < 2 ^ 31"

lemma value_range_limits: "limits ei lo hi \<Longrightarrow> value_range ei = Inr (hi - lo)"
  by (simp add: limits_def value_range_def s64_ok to_int_small)

definition clamp :: "int \<Rightarrow> int" where
  "clamp p = max 0 (min 100 p)"

lemma sdiv_nonneg: "0 \<le> a \<Longrightarrow> 0 < b \<Longrightarrow> a sdiv b = a div (b :: int)"
  by (cases "a = 0") (simp_all add: signed_divide_int_def)

text \<open>
  \<^verbatim>\<open>percent_to_int\<close> maps 0 to the minimum and 100 to the maximum, clips the percentage, and stays
  between the limits, as long as a hundred times the range fits an \<^verbatim>\<open>int\<close>; above that the product
  overflows for every percentage of 100 or more.
\<close>

theorem percent_to_int_exact:
  assumes "limits ei lo hi"
  shows "((hi - lo) * 100 < 2 ^ 31 \<longrightarrow> percent_to_int ei p = Inr (lo + (hi - lo) * clamp p div 100)
      \<and> lo \<le> lo + (hi - lo) * clamp p div 100 \<and> lo + (hi - lo) * clamp p div 100 \<le> hi)
    \<and> (2 ^ 31 \<le> (hi - lo) * 100 \<and> 100 \<le> p \<longrightarrow> percent_to_int ei p = Inl SignedOverflow)"
proof (intro conjI impI)
  have pc: "(if p > 100 then 100 else if p < 0 then 0 else p) = clamp p" by (simp add: clamp_def)
  have l: "- (2 ^ 31) \<le> lo" "lo \<le> hi" "hi < 2 ^ 31" "sint (ei_min ei) = lo"
    using assms by (simp_all add: limits_def)
  have c: "0 \<le> clamp p" "clamp p \<le> 100" by (simp_all add: clamp_def)
  have le: "(hi - lo) * clamp p \<le> (hi - lo) * 100" "0 \<le> (hi - lo) * clamp p"
    using mult_left_mono [OF c(2), of "hi - lo"] c l(2) by simp_all
  show lo: "lo \<le> lo + (hi - lo) * clamp p div 100" using le(2) by (simp add: pos_imp_zdiv_nonneg_iff)
  have "(hi - lo) * clamp p div 100 \<le> (hi - lo) * 100 div 100" using le(1) by (intro zdiv_mono1) simp_all
  then show hi: "lo + (hi - lo) * clamp p div 100 \<le> hi" by simp
  show "percent_to_int ei p = Inr (lo + (hi - lo) * clamp p div 100)" if "(hi - lo) * 100 < 2 ^ 31"
  proof -
    have "s32 ((hi - lo) * clamp p) = Inr ((hi - lo) * clamp p)" using le that by (intro s32_ok) simp_all
    moreover have "s64 (lo + (hi - lo) * clamp p div 100) = Inr (lo + (hi - lo) * clamp p div 100)"
      using lo hi l by (intro s64_ok) simp_all
    ultimately show ?thesis
      using lo hi l le(2) by (simp add: percent_to_int_def pc value_range_limits [OF assms] sdiv_nonneg to_int_small)
  qed
  show "percent_to_int ei p = Inl SignedOverflow" if "2 ^ 31 \<le> (hi - lo) * 100 \<and> 100 \<le> p"
    using that by (simp add: percent_to_int_def pc value_range_limits [OF assms] clamp_def s32_def)
qed

lemma volume_limits: "limits volume_info 0 100"
  by (simp add: limits_def volume_info_def zero_info_def)

theorem percent_to_int_exact_witness:
  "percent_to_int volume_info 50 = Inr 50 \<and> percent_to_int (volume_info\<lparr>ei_max := 30000000\<rparr>) 100 = Inl SignedOverflow"
proof -
  have "limits (volume_info\<lparr>ei_max := 30000000\<rparr>) 0 30000000"
    by (simp add: limits_def volume_info_def zero_info_def)
  from percent_to_int_exact [OF this, of 100] percent_to_int_exact [OF volume_limits, of 50]
  show ?thesis by (simp add: clamp_def)
qed

text \<open>
  \<^verbatim>\<open>int_to_percent\<close> divides before it multiplies: every value below the maximum is 0 percent.
\<close>

theorem int_to_percent_truncates:
  assumes "limits ei lo hi" and "lo \<le> v" and "v \<le> hi" and "lo < hi"
  shows "int_to_percent ei v = Inr (if v = hi then 100 else 0)"
proof -
  have l: "- (2 ^ 31) \<le> lo" "lo \<le> hi" "hi < 2 ^ 31" "hi - lo < 2 ^ 31" "sint (ei_min ei) = lo"
    using assms(1) by (simp_all add: limits_def)
  have "(v - lo) sdiv (hi - lo) = (if v = hi then 1 else 0)"
    using assms(2-4) by (auto simp: sdiv_nonneg)
  moreover have "s64 (v - lo) = Inr (v - lo)" using assms(2,3) l by (intro s64_ok) simp_all
  ultimately show ?thesis
    using assms(4) l by (auto simp: int_to_percent_def value_range_limits [OF assms(1)] s64_def to_int_def)
qed

theorem int_to_percent_truncates_witness:
  "int_to_percent volume_info 99 = Inr 0 \<and> int_to_percent volume_info 100 = Inr 100"
  using int_to_percent_truncates [OF volume_limits, of 99] int_to_percent_truncates [OF volume_limits, of 100] by simp

section \<open>Reading back\<close>

lemma ld32_st32_same:
  assumes "i + 4 \<le> length m"
  shows "\<exists>m'. st32 m i w = Inr m' \<and> length m' = length m \<and> ld32 m' i = Inr w
    \<and> (\<forall>j n. j + n \<le> i \<or> i + 4 \<le> j \<longrightarrow> slice m' j n = slice m j n)"
proof -
  have "st32 m i w = Inr (overwrite m i (bytes_le32 w))" using assms by (simp add: st32_def blit_ok)
  moreover have "ld32 (overwrite m i (bytes_le32 w)) i = Inr w"
    using slice_overwrite_same [of i "bytes_le32 w" m] assms by (simp add: ld32_def)
  ultimately show ?thesis using assms slice_overwrite_other [of i "bytes_le32 w" m] by auto
qed

lemma ld32_slice: "slice m j 4 = slice m' j 4 \<Longrightarrow> ld32 m j = ld32 m' j"
  by (simp add: ld32_def)

lemma halves64: "ucast (ucast v :: u32) OR push_bit 32 (ucast (ucast (drop_bit 32 v) :: u32)) = (v :: u64)"
  by (rule bit_word_eqI) (auto simp: bit_simps)

lemma ld64_st64_same:
  assumes "i + 8 \<le> length m"
  shows "\<exists>m'. st64 m i v = Inr m' \<and> length m' = length m \<and> ld64 m' i = Inr v
    \<and> (\<forall>j. j + 8 \<le> i \<or> i + 8 \<le> j \<longrightarrow> ld64 m' j = ld64 m j)"
proof -
  obtain m1 where m1: "st32 m i (ucast v) = Inr m1" "length m1 = length m" "ld32 m1 i = Inr (ucast v)"
    "\<forall>j n. j + n \<le> i \<or> i + 4 \<le> j \<longrightarrow> slice m1 j n = slice m j n"
    using ld32_st32_same [of i m "ucast v"] assms by auto
  obtain m2 where m2: "st32 m1 (i + 4) (ucast (drop_bit 32 v)) = Inr m2" "length m2 = length m1"
    "ld32 m2 (i + 4) = Inr (ucast (drop_bit 32 v))"
    "\<forall>j n. j + n \<le> i + 4 \<or> i + 4 + 4 \<le> j \<longrightarrow> slice m2 j n = slice m1 j n"
    using ld32_st32_same [of "i + 4" m1 "ucast (drop_bit 32 v)"] assms m1(2) by auto
  have "ld32 m2 i = Inr (ucast v)" using m1(3) m2(4) by (simp add: ld32_def)
  then have "ld64 m2 i = Inr v" using m2(3) halves64 [of v] by (simp add: ld64_def)
  moreover have "st64 m i v = Inr m2" by (simp add: st64_def m1(1) m2(1))
  moreover have "ld64 m2 j = ld64 m j" if "j + 8 \<le> i \<or> i + 8 \<le> j" for j
  proof -
    have "slice m2 j 4 = slice m1 j 4" "slice m2 (j + 4) 4 = slice m1 (j + 4) 4"
      using that by (auto intro!: m2(4) [rule_format])
    moreover have "slice m1 j 4 = slice m j 4" "slice m1 (j + 4) 4 = slice m (j + 4) 4"
      using that by (auto intro!: m1(4) [rule_format])
    ultimately show ?thesis by (simp add: ld64_def ld32_def)
  qed
  ultimately show ?thesis using m1(2) m2(2) by auto
qed

text \<open>What a value becomes in an element of a type, and the types that hold values.\<close>

definition stored :: "int \<Rightarrow> int \<Rightarrow> int" where
  "stored ty x = (if ty = SNDRV_CTL_ELEM_TYPE_BOOLEAN then of_bool (x \<noteq> 0)
     else if ty = SNDRV_CTL_ELEM_TYPE_BYTES then x mod 256 else x)"

definition slots :: "int \<Rightarrow> nat" where
  "slots ty = (if ty = SNDRV_CTL_ELEM_TYPE_BYTES then 512
     else if ty \<in> {SNDRV_CTL_ELEM_TYPE_BOOLEAN, SNDRV_CTL_ELEM_TYPE_INTEGER, SNDRV_CTL_ELEM_TYPE_ENUMERATED}
     then 128 else 0)"

lemma sint_of_int_u64: "- (2 ^ 31) \<le> i \<Longrightarrow> i < 2 ^ 31 \<Longrightarrow> sint (of_int i :: u64) = i"
  by (simp add: signed_of_int signed_take_bit_int_eq_self)

lemma value_put_at:
  assumes "unat i < slots ty" and "length v = 1024" and "- (2 ^ 31) \<le> x" and "x < 2 ^ 31"
  shows "\<exists>v'. value_put ty i x v = Inr (Some v') \<and> length v' = 1024
    \<and> value_at ty i v' = Inr (Some (stored ty x)) \<and> (\<forall>j. j \<noteq> i \<longrightarrow> value_at ty j v' = value_at ty j v)"
proof -
  have ne: "unat j < unat i \<or> unat i < unat j" if "j \<noteq> i" for j
    using that by (metis linorder_neqE_nat unsigned_word_eqI)
  then have apart: "c * unat j + c \<le> c * unat i \<or> c * unat i + c \<le> c * unat j" if "j \<noteq> i" for j c
    using that mult_le_mono2 [of "Suc (unat j)" "unat i" c] mult_le_mono2 [of "Suc (unat i)" "unat j" c]
    by (metis Suc_leI add.commute mult_Suc_right)
  have x: "to_int (sint (of_int x :: u64)) = x" "sint (of_int x :: u32) = x"
    using assms(3,4) by (simp_all add: sint_of_int_u64 to_int_small sint_of_int_u32)
  consider (bool) "ty = SNDRV_CTL_ELEM_TYPE_BOOLEAN" | (int) "ty = SNDRV_CTL_ELEM_TYPE_INTEGER"
    | (enum) "ty = SNDRV_CTL_ELEM_TYPE_ENUMERATED" | (bytes) "ty = SNDRV_CTL_ELEM_TYPE_BYTES"
    using assms(1) by (auto simp: slots_def split: if_splits)
  then show ?thesis
  proof cases
    case bool
    then have i: "unat i < 128" using assms(1) by (simp add: slots_def elem_type_defs)
    then obtain v' where "st64 v (8 * unat i) (of_bool (x \<noteq> 0)) = Inr v'" "length v' = 1024"
      "ld64 v' (8 * unat i) = Inr (of_bool (x \<noteq> 0))"
      "\<forall>j. j + 8 \<le> 8 * unat i \<or> 8 * unat i + 8 \<le> j \<longrightarrow> ld64 v' j = ld64 v j"
      using ld64_st64_same [of "8 * unat i" v "of_bool (x \<noteq> 0)"] assms(2) by auto
    moreover from this(4) apart [of _ 8] have "ld64 v' (8 * unat j) = ld64 v (8 * unat j)" if "j \<noteq> i" for j
      using that by blast
    ultimately show ?thesis using bool i
      by (simp add: value_put_def value_at_def within_def stored_def elem_type_defs)
  next
    case int
    then have i: "unat i < 128" using assms(1) by (simp add: slots_def elem_type_defs)
    then obtain v' where "st64 v (8 * unat i) (of_int x) = Inr v'" "length v' = 1024"
      "ld64 v' (8 * unat i) = Inr (of_int x)"
      "\<forall>j. j + 8 \<le> 8 * unat i \<or> 8 * unat i + 8 \<le> j \<longrightarrow> ld64 v' j = ld64 v j"
      using ld64_st64_same [of "8 * unat i" v "of_int x"] assms(2) by auto
    moreover from this(4) apart [of _ 8] have "ld64 v' (8 * unat j) = ld64 v (8 * unat j)" if "j \<noteq> i" for j
      using that by blast
    ultimately show ?thesis using int i x
      by (simp add: value_put_def value_at_def within_def stored_def elem_type_defs)
  next
    case enum
    then have i: "unat i < 128" using assms(1) by (simp add: slots_def elem_type_defs)
    then obtain v' where "st32 v (4 * unat i) (of_int x) = Inr v'" "length v' = 1024"
      "ld32 v' (4 * unat i) = Inr (of_int x)"
      "\<forall>j n. j + n \<le> 4 * unat i \<or> 4 * unat i + 4 \<le> j \<longrightarrow> slice v' j n = slice v j n"
      using ld32_st32_same [of "4 * unat i" v "of_int x"] assms(2) by auto
    moreover from this(4) apart [of _ 4] have "slice v' (4 * unat j) 4 = slice v (4 * unat j) 4" if "j \<noteq> i" for j
      using that by blast
    ultimately show ?thesis using enum i x
      by (simp add: value_put_def value_at_def within_def stored_def elem_type_defs ld32_def)
  next
    case bytes
    then have i: "unat i < 512" using assms(1) by (simp add: slots_def elem_type_defs)
    then have "unat i < length v" using assms(2) by simp
    moreover have "uint (of_int x :: u8) = x mod 256" by (simp add: unsigned_of_int take_bit_eq_mod)
    moreover have "v[unat i := of_int x] ! unat j = v ! unat j" if "j \<noteq> i" for j
      using ne [OF that] by auto
    ultimately show ?thesis using bytes i assms(2)
      by (simp add: value_put_def value_at_def within_def stored_def elem_type_defs st_ok ld_def)
  qed
qed

text \<open>A control device that gives back the values it was given last, in the union's 1024 bytes.\<close>

definition keeps_values :: "'k mixer_kernel \<Rightarrow> int \<Rightarrow> bool" where
  "keeps_values K d \<longleftrightarrow>
     (\<forall>ev k n k'. length (ev_value ev) = 1024 \<and> x_elem_write K d ev k = (SysOk n, k') \<longrightarrow>
        (\<exists>k''. x_elem_read K d (zero_value (ev_numid ev)) k' = (SysOk 0, ev, k'')))
   \<and> (\<forall>q n ev k k'. x_elem_read K d (zero_value q) k = (SysOk n, ev, k') \<longrightarrow>
        ev_numid ev = q \<and> length (ev_value ev) = 1024)"

lemma value_roundtrip:
  assumes "ctl_info m c = Inr ei" and "keeps_values K (m_fd m)" and "i < ei_count ei"
    and "unat i < slots (ei_type ei)" and "- (2 ^ 31) \<le> x" and "x < 2 ^ 31"
    and "mixer_ctl_set_value K m (Some c) i x s = Inr (r, s1)" and "0 \<le> r"
  shows "(\<exists>s2. mixer_ctl_get_value K m (Some c) i s1 = Inr (stored (ei_type ei) x, s2))
    \<and> (\<forall>j. j \<noteq> i \<longrightarrow> map_sum id fst (mixer_ctl_get_value K m (Some c) j s1)
        = map_sum id fst (mixer_ctl_get_value K m (Some c) j s))"
proof -
  obtain rr ev k where 1: "x_elem_read K (m_fd m) (zero_value (ei_numid ei)) (kern s) = (rr, ev, k)"
    by (rule prod_cases3)
  obtain ret s' where 2: "call (rr, k) s = (ret, s')" by (rule prod.exhaust)
  have er: "elem_read K m ei s = (ret, ev, s')" by (simp add: elem_read_def 1 2)
  have ret: "\<not> ret < 0"
    using assms(7,8) unfolding mixer_ctl_set_value_def option.case assms(1) bindE_simps er prod.case Let_def
    using assms(3) by (auto split: if_splits)
  then obtain n where n: "rr = SysOk n" using 2 by (cases rr) (auto simp: call_def)
  have ev: "ev_numid ev = ei_numid ei" "length (ev_value ev) = 1024"
    using assms(2) 1 n unfolding keeps_values_def by blast+
  obtain v' where v': "value_put (ei_type ei) i x (ev_value ev) = Inr (Some v')" "length v' = 1024"
    "value_at (ei_type ei) i v' = Inr (Some (stored (ei_type ei) x))"
    "\<And>j. j \<noteq> i \<Longrightarrow> value_at (ei_type ei) j v' = value_at (ei_type ei) j (ev_value ev)"
    using value_put_at [OF assms(4) ev(2) assms(5,6)] by blast
  obtain wr k1 where w: "x_elem_write K (m_fd m) (ev\<lparr>ev_value := v'\<rparr>) (kern s') = (wr, k1)" by (rule prod.exhaust)
  have s1: "call (wr, k1) s' = (r, s1)"
    using assms(7) ret by (simp add: mixer_ctl_set_value_def assms(1) not_le [THEN iffD2, OF assms(3)] er v'(1) w)
  obtain a where a: "wr = SysOk a" using s1 assms(8) by (cases wr) (auto simp: call_def)
  have "kern s1 = k1" using s1 by (auto simp: call_def)
  moreover have "length (ev_value (ev\<lparr>ev_value := v'\<rparr>)) = 1024" "ev_numid (ev\<lparr>ev_value := v'\<rparr>) = ei_numid ei"
    using v'(2) ev(1) by simp_all
  ultimately obtain k2 where rd: "x_elem_read K (m_fd m) (zero_value (ei_numid ei)) (kern s1) = (SysOk 0, ev\<lparr>ev_value := v'\<rparr>, k2)"
    using assms(2) w a unfolding keeps_values_def by metis
  then obtain s2 where er1: "elem_read K m ei s1 = (0, ev\<lparr>ev_value := v'\<rparr>, s2)"
    by (simp add: elem_read_def call_def)
  have "mixer_ctl_get_value K m (Some c) i s1 = Inr (stored (ei_type ei) x, s2)"
    using v'(3) by (simp add: mixer_ctl_get_value_def assms(1) er1 not_le [THEN iffD2, OF assms(3)])
  moreover have "map_sum id fst (mixer_ctl_get_value K m (Some c) j s1)
      = map_sum id fst (mixer_ctl_get_value K m (Some c) j s)" if "j \<noteq> i" for j
    using ret v'(4) [OF that]
    by (cases "value_at (ei_type ei) j (ev_value ev)") (simp_all add: mixer_ctl_get_value_def assms(1) er er1)
  ultimately show ?thesis by blast
qed

text \<open>
  a value written with \<^verbatim>\<open>mixer_ctl_set_value\<close> is read back by \<^verbatim>\<open>mixer_ctl_get_value\<close> as its type
  stores it (a truth value, a byte, an \<^verbatim>\<open>int\<close>), and the other values of the element read as before.
\<close>

theorem mixer_value_roundtrip:
  assumes "ctl_info m c = Inr ei" and "keeps_values K (m_fd m)" and "i < ei_count ei"
    and "unat i < slots (ei_type ei)" and "- (2 ^ 31) \<le> x" and "x < 2 ^ 31"
    and "mixer_ctl_set_value K m (Some c) i x s = Inr (r, s1)" and "0 \<le> r"
  shows "(\<exists>s2. mixer_ctl_get_value K m (Some c) i s1 = Inr (stored (ei_type ei) x, s2))
    \<and> (\<forall>j. j \<noteq> i \<longrightarrow> map_sum id fst (mixer_ctl_get_value K m (Some c) j s1)
        = map_sum id fst (mixer_ctl_get_value K m (Some c) j s))"
  by (rule value_roundtrip [OF assms])

lemma desk_keeps: "keeps_values (desk_kernel rc) d"
  by (auto simp: keeps_values_def desk_kernel_def zero_value_def min_def)

definition desk_mixer :: mixer where
  "desk_mixer = (zero_mixer 1)\<lparr>m_fd := 3, m_infos := [volume_info\<lparr>ei_numid := 1\<rparr>],
     m_ctls := [\<lparr>c_info = Some 0, c_ename = None\<rparr>], m_count := 1\<rparr>"

lemma desk_write: "x_elem_write (desk_kernel rc) d ev k = (SysOk 0, k\<lparr>o_vals := (o_vals k)(ev_numid ev := ev_value ev)\<rparr>)"
  by (simp add: desk_kernel_def)

lemma desk_info: "ctl_info desk_mixer 0 = Inr (volume_info\<lparr>ei_numid := 1\<rparr>)"
  by (simp add: ctl_info_def desk_mixer_def ld_def)

lemma desk_set: "\<exists>s1. mixer_ctl_set_value (desk_kernel rc) desk_mixer (Some 0) 1 42 desk_state = Inr (0, s1)"
proof -
  have "\<exists>v. st64 (replicate 1024 0) 8 42 = Inr v" using ld64_st64_same [of 8 "replicate 1024 0" 42] by auto
  moreover have "\<not> 2 \<le> (1 :: u32)" by (simp add: word_le_nat_alt)
  ultimately show ?thesis
    by (auto simp: mixer_ctl_set_value_def desk_info elem_read_def desk_kernel_def desk_state_def call_def
        zero_value_def value_put_def volume_info_def within_def elem_type_defs)
qed

theorem mixer_value_roundtrip_witness:
  "\<exists>s1 s2. mixer_ctl_set_value (desk_kernel (SysOk 0)) desk_mixer (Some 0) 1 42 desk_state = Inr (0, s1)
    \<and> mixer_ctl_get_value (desk_kernel (SysOk 0)) desk_mixer (Some 0) 1 s1 = Inr (42, s2)"
proof -
  obtain s1 where s1: "mixer_ctl_set_value (desk_kernel (SysOk 0)) desk_mixer (Some 0) 1 42 desk_state = Inr (0, s1)"
    using desk_set by blast
  have "1 < ei_count (volume_info\<lparr>ei_numid := 1\<rparr>)" "unat (1 :: u32) < slots (ei_type (volume_info\<lparr>ei_numid := 1\<rparr>))"
    "stored (ei_type (volume_info\<lparr>ei_numid := 1\<rparr>)) 42 = 42"
    by (simp_all add: volume_info_def slots_def stored_def elem_type_defs)
  with mixer_value_roundtrip [OF desk_info desk_keeps this(1,2) _ _ s1] s1 show ?thesis by auto
qed

section \<open>By name\<close>

lemma name_loop_find:
  "\<forall>n \<in> set ns. n < length infos \<Longrightarrow>
    name_loop infos nm ns = Inr (find (\<lambda>n. ei_name (infos ! n) = nm) ns)"
  by (induction ns) (auto simp: ld_ok)

lemma find_upt_Some:
  "find P [0..<n] = Some j \<longleftrightarrow> j < n \<and> P j \<and> (\<forall>i < j. \<not> P i)"
  by (auto simp: find_Some_iff)

lemma enum_find_find:
  assumes "\<forall>j \<in> set js. j < length names \<and> (\<exists>b. names ! j = Some (b, item j))"
  shows "enum_find names str js = Inr (find (\<lambda>j. item j = str) js)"
  using assms by (induction js) (auto simp: ld_ok)

text \<open>
  \<^verbatim>\<open>mixer_get_ctl_by_name\<close> answers the first element of that name, and none exactly when there is
  none.
\<close>

theorem mixer_get_ctl_by_name_first:
  assumes "unat (m_count m) \<le> length (m_infos m)"
  shows "\<exists>no. mixer_get_ctl_by_name (Some m) nm = Inr no
    \<and> (\<forall>n. no = Some n \<longleftrightarrow> n < unat (m_count m) \<and> ei_name (m_infos m ! n) = nm
         \<and> (\<forall>k < n. ei_name (m_infos m ! k) \<noteq> nm))"
  using assms by (auto simp: mixer_get_ctl_by_name_def name_loop_find find_upt_Some)

theorem mixer_get_ctl_by_name_first_witness:
  "\<exists>no. mixer_get_ctl_by_name (Some (zero_mixer 1\<lparr>m_count := 2, m_infos := [volume_info, volume_info]\<rparr>)) ''Volume'' = Inr no
    \<and> no = Some 0"
  using mixer_get_ctl_by_name_first [of "zero_mixer 1\<lparr>m_count := 2, m_infos := [volume_info, volume_info]\<rparr>" "''Volume''"]
  by (auto simp: volume_info_def)

text \<open>
  on an enumerated element \<^verbatim>\<open>mixer_ctl_set_enum_by_string\<close> writes one value, the number of the
  first item of that name, to the element, and refuses a name that no item has without a write.
\<close>

theorem set_enum_by_string_first:
  assumes "ctl_info m c = Inr ei" and "ei_type ei = SNDRV_CTL_ELEM_TYPE_ENUMERATED"
    and "c < length (m_ctls m)" and "c_ename (m_ctls m ! c) = Some (b, names)"
    and "length names = unat (enum_items ei)" and "\<forall>j < length names. \<exists>a. names ! j = Some (a, item j)"
  shows "case find (\<lambda>j. item j = str) [0..<unat (enum_items ei)] of
      None \<Rightarrow> mixer_ctl_set_enum_by_string K m (Some c) str s = Inr (- EINVAL, s)
    | Some j \<Rightarrow> \<exists>v. st32 (replicate 1024 0) 0 (of_nat j) = Inr v
        \<and> mixer_ctl_set_enum_by_string K m (Some c) str s =
            (let (ret, s1) = call (x_elem_write K (m_fd m) \<lparr>ev_numid = ei_numid ei, ev_value = v\<rparr> (kern s)) s
             in Inr (if ret < 0 then ret else 0, s1))"
proof -
  have "enum_find names str [0..<unat (enum_items ei)] = Inr (find (\<lambda>j. item j = str) [0..<unat (enum_items ei)])"
    using assms(5,6) by (intro enum_find_find) simp
  moreover have "\<exists>v. st32 (replicate 1024 0) 0 (of_nat j) = Inr v" for j
    using ld32_st32_same [of 0 "replicate 1024 0" "of_nat j"] by auto
  then obtain v where v: "st32 (replicate 1024 0) 0 (of_nat j) = Inr (v j)" for j by metis
  ultimately show ?thesis
    using assms(1-4)
    by (auto simp: mixer_ctl_set_enum_by_string_def ld_ok zero_value_def Let_def v split: option.splits)
qed

theorem set_enum_by_string_first_witness:
  "\<exists>v. mixer_ctl_set_enum_by_string (desk_kernel (SysOk 0))
      ((zero_mixer 1)\<lparr>m_infos := [zero_info\<lparr>ei_type := SNDRV_CTL_ELEM_TYPE_ENUMERATED, ei_min := 2\<rparr>],
        m_ctls := [\<lparr>c_info = Some 0, c_ename = Some (2, [Some (3, ''off''), Some (4, ''on'')])\<rparr>]\<rparr>)
      (Some 0) ''on'' desk_state
    = Inr (0, desk_state\<lparr>kern := (kern desk_state)\<lparr>o_vals := (o_vals (kern desk_state))(0 := v)\<rparr>\<rparr>)
    \<and> st32 (replicate 1024 0) 0 1 = Inr v"
proof -
  let ?ei = "zero_info\<lparr>ei_type := SNDRV_CTL_ELEM_TYPE_ENUMERATED, ei_min := 2\<rparr>"
  let ?m = "(zero_mixer 1)\<lparr>m_infos := [?ei],
    m_ctls := [\<lparr>c_info = Some 0, c_ename = Some (2, [Some (3, ''off''), Some (4, ''on'')])\<rparr>]\<rparr>"
  have items: "unat (enum_items ?ei) = 2" by (simp add: enum_items_def)
  have upt: "[0..<2] = [0, 1 :: nat]" by (simp add: upt_rec)
  have "find (\<lambda>j. (\<lambda>k. if k = 0 then ''off'' else ''on'') j = ''on'') [0..<unat (enum_items ?ei)] = Some (1 :: nat)"
    unfolding items upt by simp
  moreover have "ctl_info ?m 0 = Inr ?ei" by (simp add: ctl_info_def ld_def)
  moreover have "\<forall>j < length [Some (3 :: nat, ''off''), Some (4, ''on'')].
      \<exists>a. [Some (3 :: nat, ''off''), Some (4, ''on'')] ! j = Some (a, if j = 0 then ''off'' else ''on'')"
    by (auto simp: less_Suc_eq)
  ultimately show ?thesis
    using set_enum_by_string_first [where m = ?m and c = 0 and ei = ?ei and b = 2
        and names = "[Some (3, ''off''), Some (4, ''on'')]" and item = "\<lambda>k. if k = 0 then ''off'' else ''on''"
        and str = "''on''" and K = "desk_kernel (SysOk 0)" and s = desk_state] items
    by (auto simp: desk_write call_def numeral_2_eq_2) (simp add: zero_info_def)
qed

end
