(* ===== verification/Threadpool.thy ===== *)
theory Threadpool
  imports Queue_Contract
begin

text \<open>
  The thread pool of demo/SpeechPersistentDemo/threadpool.c (libutils/handlerthread.c is the same
  file): the ring of tasks, the worker threads, the callers of \<^verbatim>\<open>threadpool_add_task\<close>, the
  administrator that grows and shrinks the pool, and \<^verbatim>\<open>threadpool_destroy\<close>, as an interleaving of
  steps. A step is a critical section of the code, or one access to a field that the code reads or
  writes without the lock.
  \<^item> A thread identifier is a number from 1 on; 0 is what \<^verbatim>\<open>memset\<close> leaves in the array of threads.
    Worker number \<open>t\<close> of the list \<open>workers\<close> has the identifier \<open>t + 1\<close>.
  \<^item> \<open>P_Sleepy\<close> and \<open>W_Sleepy\<close> are the points between the test of a wait loop and the call of
    \<^verbatim>\<open>pthread_cond_wait\<close>: the lock is held there, and \<^verbatim>\<open>threadpool_destroy\<close>, which takes no lock, can run.
  \<^item> \<open>exec\<close> gives \<open>Inl\<close> a fault, \<open>Inr None\<close> when the thread is blocked, \<open>Inr (Some s')\<close> after a step.
  \<^item> \<open>added\<close>, \<open>taken\<close> and \<open>finished\<close> record the tasks for the theorems; no step reads them.
\<close>

section \<open>The pool\<close>

definition MIN_WAIT_TASK_NUM :: int where "MIN_WAIT_TASK_NUM = 10"
definition DEFAULT_THREAD_NUM :: nat where "DEFAULT_THREAD_NUM = 10"

record threadpool_task_t =
  task_function :: u64
  task_arg :: u64

record threadpool_t =
  threads :: "nat list"
  task_queue :: "threadpool_task_t list"
  min_thr_num :: int
  max_thr_num :: int
  live_thr_num :: int
  busy_thr_num :: int
  wait_exit_thr_num :: int
  queue_front :: int
  queue_rear :: int
  queue_size :: int
  queue_max_size :: int
  shutdown :: bool

text \<open>Where each kind of thread stands.\<close>

datatype worker =
    W_Lock | W_Sleepy | W_Wait | W_Woken
  | W_Taken threadpool_task_t | W_Run threadpool_task_t | W_Finish threadpool_task_t | W_Gone

datatype producer =
    P_Idle "int option" | P_Lock threadpool_task_t | P_Sleepy threadpool_task_t
  | P_Wait threadpool_task_t | P_Signal

datatype admin =
    A_Loop | A_Sleep | A_Count int int | A_Grow int int int | A_Shrink int int | A_Signal nat | A_Gone

datatype destroyer = D_None | D_Admin | D_Broadcast int | D_Join int | D_Free | D_Return

datatype agent = Worker nat | Producer nat

record sys =
  pool :: threadpool_t
  freed :: bool
  lock_owner :: "agent option"
  workers :: "worker list"
  producers :: "producer list"
  admin_pc :: admin
  destroyer_pc :: destroyer
  added :: "threadpool_task_t list"
  taken :: "threadpool_task_t list"
  finished :: "threadpool_task_t list"

section \<open>The ring of tasks\<close>

definition advance :: "threadpool_t \<Rightarrow> int \<Rightarrow> int res" where
  "advance p i = (if queue_max_size p = 0 then Inl DivByZero else Inr ((i + 1) mod queue_max_size p))"

definition ring_take :: "threadpool_t \<Rightarrow> (threadpool_task_t \<times> threadpool_t) res" where
  "ring_take p =
     bindE (ld (task_queue p) (nat (queue_front p))) (\<lambda>task.
     bindE (advance p (queue_front p)) (\<lambda>f.
       Inr (task, p\<lparr>queue_front := f, queue_size := queue_size p - 1\<rparr>)))"

definition ring_put :: "threadpool_task_t \<Rightarrow> threadpool_t \<Rightarrow> threadpool_t res" where
  "ring_put task p =
     (let r = nat (queue_rear p)
      in bindE (ld (task_queue p) r) (\<lambda>slot.
         bindE (if task_arg slot \<noteq> 0 then st (task_queue p) r (slot\<lparr>task_arg := 0\<rparr>) else Inr (task_queue p)) (\<lambda>q.
         bindE (st q r task) (\<lambda>q'.
         bindE (advance p (queue_rear p)) (\<lambda>r'.
           Inr (p\<lparr>task_queue := q', queue_rear := r', queue_size := queue_size p + 1\<rparr>))))))"

section \<open>Waking threads\<close>

fun wake_worker :: "worker \<Rightarrow> worker" where
  "wake_worker W_Wait = W_Woken"
| "wake_worker w = w"

fun wake_producer :: "producer \<Rightarrow> producer" where
  "wake_producer (P_Wait task) = P_Lock task"
| "wake_producer p = p"

text \<open>
  \<^verbatim>\<open>pthread_cond_signal\<close> on \<^verbatim>\<open>queue_not_empty\<close> wakes one waiting worker of the scheduler's choice, and
  nobody when none waits.
\<close>

definition signal :: "nat option \<Rightarrow> worker list \<Rightarrow> worker list option" where
  "signal choice ws =
     (case choice of
        None \<Rightarrow> if W_Wait \<in> set ws then None else Some ws
      | Some t \<Rightarrow> if t < length ws \<and> ws ! t = W_Wait then Some (ws[t := W_Woken]) else None)"

section \<open>Workers\<close>

definition set_worker :: "nat \<Rightarrow> worker \<Rightarrow> sys \<Rightarrow> sys" where
  "set_worker t w s = s\<lparr>workers := (workers s)[t := w]\<rparr>"

text \<open>From the test of the wait loop to the release of the lock.\<close>

definition worker_test :: "nat \<Rightarrow> sys \<Rightarrow> sys option res" where
  "worker_test t s =
     (let p = pool s
      in if queue_size p = 0 \<and> \<not> shutdown p
         then Inr (Some (set_worker t W_Sleepy (s\<lparr>lock_owner := Some (Worker t)\<rparr>)))
         else if shutdown p then Inr (Some (set_worker t W_Gone s))
         else bindE (ring_take p) (\<lambda>(task, p1).
                Inr (Some (set_worker t (W_Taken task)
                  (s\<lparr>pool := p1, producers := map wake_producer (producers s), taken := taken s @ [task]\<rparr>)))))"

text \<open>After \<^verbatim>\<open>pthread_cond_wait\<close>.\<close>

definition worker_woken :: "nat \<Rightarrow> sys \<Rightarrow> sys option res" where
  "worker_woken t s =
     (let p = pool s
      in if 0 < wait_exit_thr_num p
         then let p1 = p\<lparr>wait_exit_thr_num := wait_exit_thr_num p - 1\<rparr>
              in if min_thr_num p < live_thr_num p
                 then Inr (Some (set_worker t W_Gone (s\<lparr>pool := p1\<lparr>live_thr_num := live_thr_num p - 1\<rparr>\<rparr>)))
                 else worker_test t (s\<lparr>pool := p1\<rparr>)
         else worker_test t s)"

definition guarded :: "sys \<Rightarrow> sys option res \<Rightarrow> sys option res" where
  "guarded s r = (if freed s then Inl UseAfterFree else r)"

definition locking :: "sys \<Rightarrow> sys option res \<Rightarrow> sys option res" where
  "locking s r = guarded s (if lock_owner s = None then r else Inr None)"

definition threadpool_thread :: "nat \<Rightarrow> sys \<Rightarrow> sys option res" where
  "threadpool_thread t s =
     (if length (workers s) \<le> t then Inr None
      else case workers s ! t of
             W_Lock \<Rightarrow> locking s (worker_test t s)
           | W_Sleepy \<Rightarrow> guarded s (Inr (Some (set_worker t W_Wait (s\<lparr>lock_owner := None\<rparr>))))
           | W_Wait \<Rightarrow> Inr None
           | W_Woken \<Rightarrow> locking s (worker_woken t s)
           | W_Taken task \<Rightarrow> guarded s (Inr (Some (set_worker t (W_Run task)
               (s\<lparr>pool := (pool s)\<lparr>busy_thr_num := busy_thr_num (pool s) + 1\<rparr>\<rparr>))))
           | W_Run task \<Rightarrow> Inr (Some (set_worker t (W_Finish task) s))
           | W_Finish task \<Rightarrow> guarded s (Inr (Some (set_worker t W_Lock
               (s\<lparr>pool := (pool s)\<lparr>busy_thr_num := busy_thr_num (pool s) - 1\<rparr>, finished := finished s @ [task]\<rparr>))))
           | W_Gone \<Rightarrow> Inr None)"

section \<open>Callers\<close>

definition set_producer :: "nat \<Rightarrow> producer \<Rightarrow> sys \<Rightarrow> sys" where
  "set_producer i q s = s\<lparr>producers := (producers s)[i := q]\<rparr>"

definition threadpool_add_task :: "nat \<Rightarrow> nat option \<Rightarrow> sys \<Rightarrow> sys option res" where
  "threadpool_add_task i choice s =
     (if length (producers s) \<le> i then Inr None
      else case producers s ! i of
             P_Idle r \<Rightarrow> Inr None
           | P_Lock task \<Rightarrow> locking s
               (let p = pool s
                in if queue_size p = queue_max_size p \<and> \<not> shutdown p
                   then Inr (Some (set_producer i (P_Sleepy task) (s\<lparr>lock_owner := Some (Producer i)\<rparr>)))
                   else if shutdown p then Inr (Some (set_producer i (P_Idle (Some (-1))) s))
                   else bindE (ring_put task p) (\<lambda>p1.
                          Inr (Some (set_producer i P_Signal (s\<lparr>pool := p1, added := added s @ [task]\<rparr>)))))
           | P_Sleepy task \<Rightarrow> guarded s (Inr (Some (set_producer i (P_Wait task) (s\<lparr>lock_owner := None\<rparr>))))
           | P_Wait task \<Rightarrow> Inr None
           | P_Signal \<Rightarrow> guarded s (case signal choice (workers s) of
                 None \<Rightarrow> Inr None
               | Some ws \<Rightarrow> Inr (Some (set_producer i (P_Idle (Some 0)) (s\<lparr>workers := ws\<rparr>)))))"

section \<open>The administrator\<close>

text \<open>
  \<^verbatim>\<open>pthread_kill (tid, 0)\<close> succeeds for a running thread; for one that has ended it may answer either
  way, and \<open>absent\<close> is the set for which it answers \<^verbatim>\<open>ESRCH\<close>.
\<close>

definition is_thread_alive :: "sys \<Rightarrow> nat list \<Rightarrow> nat \<Rightarrow> bool" where
  "is_thread_alive s absent tid \<longleftrightarrow> \<not> (tid \<in> set absent \<and> 0 < tid \<and> tid \<le> length (workers s)
     \<and> workers s ! (tid - 1) = W_Gone)"

text \<open>\<^verbatim>\<open>pthread_create\<close> into slot \<open>i\<close>: the code does not look at its result.\<close>

definition spawn :: "nat \<Rightarrow> bool \<Rightarrow> sys \<Rightarrow> sys res" where
  "spawn i ok s =
     (if ok then bindE (st (threads (pool s)) i (Suc (length (workers s)))) (\<lambda>ts.
              Inr (s\<lparr>pool := (pool s)\<lparr>threads := ts\<rparr>, workers := workers s @ [W_Lock]\<rparr>))
      else if i < length (threads (pool s)) then Inr s else Inl OutOfBounds)"

text \<open>The loop over the slots; in the slots \<open>refused\<close> no thread can be created.\<close>

fun grow_loop :: "nat list \<Rightarrow> nat list \<Rightarrow> nat list \<Rightarrow> nat \<Rightarrow> sys \<Rightarrow> sys res" where
  "grow_loop absent refused [] add s = Inr s"
| "grow_loop absent refused (i # is) add s =
     (if add < DEFAULT_THREAD_NUM \<and> live_thr_num (pool s) < max_thr_num (pool s)
      then bindE (ld (threads (pool s)) i) (\<lambda>tid.
             if tid = 0 \<or> \<not> is_thread_alive s absent tid
             then bindE (spawn i (i \<notin> set refused) s) (\<lambda>s1.
                    grow_loop absent refused is (Suc add)
                      (s1\<lparr>pool := (pool s1)\<lparr>live_thr_num := live_thr_num (pool s1) + 1\<rparr>\<rparr>))
             else grow_loop absent refused is add s)
      else Inr s)"

definition set_admin :: "admin \<Rightarrow> sys \<Rightarrow> sys" where
  "set_admin a s = s\<lparr>admin_pc := a\<rparr>"

definition admin_thread :: "nat option \<Rightarrow> nat list \<Rightarrow> nat list \<Rightarrow> sys \<Rightarrow> sys option res" where
  "admin_thread choice absent refused s =
     (let p = pool s
      in case admin_pc s of
           A_Loop \<Rightarrow> guarded s (Inr (Some (set_admin (if shutdown p then A_Gone else A_Sleep) s)))
         | A_Sleep \<Rightarrow> locking s (Inr (Some (set_admin (A_Count (queue_size p) (live_thr_num p)) s)))
         | A_Count qs live \<Rightarrow> guarded s (Inr (Some (set_admin (A_Grow qs live (busy_thr_num p)) s)))
         | A_Grow qs live busy \<Rightarrow>
             if MIN_WAIT_TASK_NUM \<le> qs \<and> live \<le> max_thr_num p
             then locking s (bindE (grow_loop absent refused [0..<nat (max_thr_num p)] 0 s) (\<lambda>s1.
                    Inr (Some (set_admin (A_Shrink live busy) s1))))
             else guarded s (Inr (Some (set_admin (A_Shrink live busy) s)))
         | A_Shrink live busy \<Rightarrow>
             if busy * 2 < live \<and> min_thr_num p < live
             then locking s (Inr (Some (set_admin (A_Signal DEFAULT_THREAD_NUM)
                    (s\<lparr>pool := p\<lparr>wait_exit_thr_num := int DEFAULT_THREAD_NUM\<rparr>\<rparr>))))
             else guarded s (Inr (Some (set_admin A_Loop s)))
         | A_Signal n \<Rightarrow>
             (case n of
                0 \<Rightarrow> Inr (Some (set_admin A_Loop s))
              | Suc n' \<Rightarrow> guarded s (case signal choice (workers s) of
                    None \<Rightarrow> Inr None
                  | Some ws \<Rightarrow> Inr (Some (set_admin (A_Signal n') (s\<lparr>workers := ws\<rparr>)))))
         | A_Gone \<Rightarrow> Inr None)"

section \<open>Freeing and destroying\<close>

datatype pointer = Null | Block | Garbage

fun free_pointer :: "pointer \<Rightarrow> unit res" where
  "free_pointer Null = Inr ()"
| "free_pointer Block = Inr ()"
| "free_pointer Garbage = Inl BadFree"

text \<open>
  The two arrays, and whether the locks are initialised; \<^verbatim>\<open>None\<close> is the null pointer.
\<close>

definition threadpool_free :: "(pointer \<times> pointer \<times> bool) option \<Rightarrow> int res" where
  "threadpool_free mem =
     (case mem of
        None \<Rightarrow> Inr (-1)
      | Some (queue, slots, locks) \<Rightarrow>
          bindE (free_pointer queue) (\<lambda>_.
          bindE (if slots = Null then Inr ()
                 else bindE (free_pointer slots) (\<lambda>_. if locks then Inr () else Inl BadLock)) (\<lambda>_.
          Inr 0)))"

text \<open>\<^verbatim>\<open>pthread_join\<close> of a slot: without a thread in it the call is undefined.\<close>

definition join_slot :: "nat \<Rightarrow> sys \<Rightarrow> bool res" where
  "join_slot i s = bindE (ld (threads (pool s)) i) (\<lambda>tid.
     if tid = 0 \<or> length (workers s) < tid then Inl NullDeref else Inr (workers s ! (tid - 1) = W_Gone))"

definition set_destroyer :: "destroyer \<Rightarrow> sys \<Rightarrow> sys" where
  "set_destroyer d s = s\<lparr>destroyer_pc := d\<rparr>"

definition threadpool_destroy :: "sys \<Rightarrow> sys option res" where
  "threadpool_destroy s =
     (case destroyer_pc s of
        D_None \<Rightarrow> Inr (Some (set_destroyer D_Admin (s\<lparr>pool := (pool s)\<lparr>shutdown := True\<rparr>\<rparr>)))
      | D_Admin \<Rightarrow> Inr (if admin_pc s = A_Gone then Some (set_destroyer (D_Broadcast 0) s) else None)
      | D_Broadcast i \<Rightarrow> Inr (Some (
          if i < live_thr_num (pool s)
          then set_destroyer (D_Broadcast (i + 1)) (s\<lparr>workers := map wake_worker (workers s)\<rparr>)
          else set_destroyer (D_Join 0) s))
      | D_Join i \<Rightarrow>
          if i < live_thr_num (pool s)
          then bindE (join_slot (nat i) s) (\<lambda>gone. Inr (if gone then Some (set_destroyer (D_Join (i + 1)) s) else None))
          else Inr (Some (set_destroyer D_Free s))
      | D_Free \<Rightarrow> locking s (bindE (threadpool_free (Some (Block, Block, True))) (\<lambda>_.
          Inr (Some (set_destroyer D_Return (s\<lparr>freed := True\<rparr>)))))
      | D_Return \<Rightarrow> Inr None)"

section \<open>Creating\<close>

text \<open>
  What the environment decides: which allocations and initialisations succeed, what \<^verbatim>\<open>malloc\<close> leaves
  in the pointer to the queue and in its slots, in which slots no thread can be created, and how
  many callers there will be.
\<close>

record creation =
  got_pool :: bool
  got_threads :: bool
  got_queue :: bool
  got_locks :: bool
  junk_pointer :: pointer
  junk_tasks :: "threadpool_task_t list"
  refused_slots :: "nat list"
  callers :: nat

definition fresh_pool :: "creation \<Rightarrow> int \<Rightarrow> int \<Rightarrow> int \<Rightarrow> sys" where
  "fresh_pool E mn mx qm =
     \<lparr>pool = \<lparr>threads = replicate (nat mx) 0, task_queue = take (nat qm) (junk_tasks E @ replicate (nat qm) \<lparr>task_function = 0, task_arg = 0\<rparr>),
        min_thr_num = mn, max_thr_num = mx, live_thr_num = mn, busy_thr_num = 0, wait_exit_thr_num = 0,
        queue_front = 0, queue_rear = 0, queue_size = 0, queue_max_size = qm, shutdown = False\<rparr>,
      freed = False, lock_owner = None, workers = [], producers = replicate (callers E) (P_Idle None),
      admin_pc = A_Loop, destroyer_pc = D_None, added = [], taken = [], finished = []\<rparr>"

text \<open>
  The workers only start to step after the last one is created: the creator touches nothing that
  they use. An array of a negative size cannot be allocated.
\<close>

definition threadpool_create :: "creation \<Rightarrow> int \<Rightarrow> int \<Rightarrow> int \<Rightarrow> sys option res" where
  "threadpool_create E mn mx qm =
     (if \<not> got_pool E then bindE (threadpool_free None) (\<lambda>_. Inr None)
      else if \<not> (got_threads E \<and> 0 \<le> mx)
      then bindE (threadpool_free (Some (junk_pointer E, Null, False))) (\<lambda>_. Inr None)
      else if \<not> (got_queue E \<and> 0 \<le> qm)
      then bindE (threadpool_free (Some (Null, Block, False))) (\<lambda>_. Inr None)
      else if \<not> got_locks E
      then bindE (threadpool_free (Some (Block, Block, False))) (\<lambda>_. Inr None)
      else bindE (foldE (\<lambda>i s. spawn i (i \<notin> set (refused_slots E)) s) [0..<nat mn] (fresh_pool E mn mx qm)) (\<lambda>s.
             Inr (Some s)))"

section \<open>Runs\<close>

datatype event =
    Work nat | Spurious nat
  | Call nat threadpool_task_t | Produce nat "nat option" | Spurious_producer nat
  | Admin "nat option" "nat list" "nat list" | Destroy

definition exec :: "event \<Rightarrow> sys \<Rightarrow> sys option res" where
  "exec e s =
     (case e of
        Work t \<Rightarrow> threadpool_thread t s
      | Spurious t \<Rightarrow> Inr (if t < length (workers s) \<and> workers s ! t = W_Wait
          then Some (set_worker t W_Woken s) else None)
      | Call i task \<Rightarrow> Inr (if i < length (producers s) \<and> (case producers s ! i of P_Idle r \<Rightarrow> True | _ \<Rightarrow> False)
          then Some (set_producer i (P_Lock task) s) else None)
      | Produce i choice \<Rightarrow> threadpool_add_task i choice s
      | Spurious_producer i \<Rightarrow> Inr (if i < length (producers s)
          then case producers s ! i of P_Wait task \<Rightarrow> Some (set_producer i (P_Lock task) s) | _ \<Rightarrow> None
          else None)
      | Admin choice absent refused \<Rightarrow> admin_thread choice absent refused s
      | Destroy \<Rightarrow> threadpool_destroy s)"

inductive reachable :: "sys \<Rightarrow> sys \<Rightarrow> bool" for s0 where
  start: "reachable s0 s0"
| step: "reachable s0 s \<Longrightarrow> exec e s = Inr (Some s') \<Longrightarrow> reachable s0 s'"

fun pool_run :: "event list \<Rightarrow> sys \<Rightarrow> sys option res" where
  "pool_run [] s = Inr (Some s)"
| "pool_run (e # es) s = bindE (exec e s) (\<lambda>so. case so of None \<Rightarrow> Inr None | Some s1 \<Rightarrow> pool_run es s1)"

lemma pool_run_reachable: "pool_run es s = Inr (Some s') \<Longrightarrow> reachable s0 s \<Longrightarrow> reachable s0 s'"
proof (induction es arbitrary: s)
  case (Cons e es)
  then obtain s1 where "exec e s = Inr (Some s1)" "pool_run es s1 = Inr (Some s')"
    by (auto simp: res_simps split: option.splits)
  with Cons show ?case by (blast intro: reachable.step)
qed simp

end
