(* ===== verification/PoolQueue.thy ===== *)
theory PoolQueue
  imports Threadpool "HOL-Library.Multiset"
begin

text \<open>
  The ring of tasks keeps the contract of a bounded queue, and the steps of the pool keep its log:
  the tasks taken so far, followed by the ones in the ring, are the tasks added so far. Every step
  that returns is one of a few updates, which the \<open>_cases\<close> lemmas list for the invariants.
\<close>

section \<open>The ring\<close>

definition ring_ok :: "threadpool_t \<Rightarrow> bool" where
  "ring_ok p \<longleftrightarrow> 0 \<le> queue_size p \<and> queue_size p \<le> queue_max_size p \<and> 0 \<le> queue_front p
     \<and> length (task_queue p) = nat (queue_max_size p)
     \<and> (0 < queue_max_size p \<longrightarrow> queue_front p < queue_max_size p
          \<and> queue_rear p = (queue_front p + queue_size p) mod queue_max_size p)"

definition queued :: "threadpool_t \<Rightarrow> threadpool_task_t list" where
  "queued p = map (\<lambda>k. task_queue p ! nat ((queue_front p + int k) mod queue_max_size p)) [0..<nat (queue_size p)]"

lemma queued_updates [simp]:
  "queued (p\<lparr>busy_thr_num := x\<rparr>) = queued p" "queued (p\<lparr>wait_exit_thr_num := x\<rparr>) = queued p"
  "queued (p\<lparr>live_thr_num := x\<rparr>) = queued p" "queued (p\<lparr>threads := ts\<rparr>) = queued p"
  "queued (p\<lparr>shutdown := b\<rparr>) = queued p"
  by (simp_all add: queued_def)

lemma ring_ok_updates [simp]:
  "ring_ok (p\<lparr>busy_thr_num := x\<rparr>) = ring_ok p" "ring_ok (p\<lparr>wait_exit_thr_num := x\<rparr>) = ring_ok p"
  "ring_ok (p\<lparr>live_thr_num := x\<rparr>) = ring_ok p" "ring_ok (p\<lparr>threads := ts\<rparr>) = ring_ok p"
  "ring_ok (p\<lparr>shutdown := b\<rparr>) = ring_ok p"
  by (simp_all add: ring_ok_def)

lemma length_queued [simp]: "length (queued p) = nat (queue_size p)"
  by (simp add: queued_def)

lemma upt_hd: "0 < n \<Longrightarrow> [0..<n] = 0 # map Suc [0..<n - 1]"
  by (cases n) (simp_all add: map_Suc_upt upt_conv_Cons del: upt_Suc)

text \<open>A ring with tasks gives the oldest one.\<close>

lemma ring_take_ok:
  assumes "ring_ok p" and "0 < queue_size p"
  shows "\<exists>f. ring_take p = Inr (hd (queued p), p\<lparr>queue_front := f, queue_size := queue_size p - 1\<rparr>)
    \<and> ring_ok (p\<lparr>queue_front := f, queue_size := queue_size p - 1\<rparr>)
    \<and> queued (p\<lparr>queue_front := f, queue_size := queue_size p - 1\<rparr>) = tl (queued p)"
proof -
  let ?m = "queue_max_size p"
  let ?f = "(queue_front p + 1) mod ?m"
  have m: "0 < ?m" "queue_front p < ?m" "0 \<le> queue_front p" "length (task_queue p) = nat ?m"
    using assms by (simp_all add: ring_ok_def)
  have q: "queued p = task_queue p ! nat (queue_front p)
      # map (\<lambda>k. task_queue p ! nat ((?f + int k) mod ?m)) [0..<nat (queue_size p - 1)]"
    using assms(2) m by (simp add: queued_def upt_hd nat_diff_distrib' mod_simps ac_simps)
  have r: "(?f + (queue_size p - 1)) mod ?m = (queue_front p + queue_size p) mod ?m"
    by (simp add: mod_add_left_eq)
  have "ring_take p = Inr (hd (queued p), p\<lparr>queue_front := ?f, queue_size := queue_size p - 1\<rparr>)"
    using m by (simp add: ring_take_def ld_def advance_def q)
  moreover have "ring_ok (p\<lparr>queue_front := ?f, queue_size := queue_size p - 1\<rparr>)"
    using assms m r by (simp add: ring_ok_def)
  moreover have "queued (p\<lparr>queue_front := ?f, queue_size := queue_size p - 1\<rparr>) = tl (queued p)"
    unfolding q by (simp add: queued_def)
  ultimately show ?thesis by blast
qed

text \<open>A ring with room takes one more behind the others.\<close>

lemma ring_put_ok:
  assumes "ring_ok p" and "queue_size p < queue_max_size p"
  shows "\<exists>q r. ring_put task p = Inr (p\<lparr>task_queue := q, queue_rear := r, queue_size := queue_size p + 1\<rparr>)
    \<and> ring_ok (p\<lparr>task_queue := q, queue_rear := r, queue_size := queue_size p + 1\<rparr>)
    \<and> queued (p\<lparr>task_queue := q, queue_rear := r, queue_size := queue_size p + 1\<rparr>) = queued p @ [task]"
proof -
  let ?m = "queue_max_size p" and ?f = "queue_front p" and ?n = "queue_size p"
  let ?q = "(task_queue p)[nat (queue_rear p) := task]" and ?r = "(queue_rear p + 1) mod ?m"
  have m: "0 < ?m" "?f < ?m" "0 \<le> ?f" "0 \<le> ?n" "length (task_queue p) = nat ?m"
    "queue_rear p = (?f + ?n) mod ?m"
    using assms by (simp_all add: ring_ok_def)
  have r: "0 \<le> queue_rear p" "queue_rear p < ?m" using m(1,6) by simp_all
  have "ring_put task p = Inr (p\<lparr>task_queue := ?q, queue_rear := ?r, queue_size := ?n + 1\<rparr>)"
    using m r by (simp add: ring_put_def ld_def st_def advance_def Let_def)
  moreover have "ring_ok (p\<lparr>task_queue := ?q, queue_rear := ?r, queue_size := ?n + 1\<rparr>)"
    using assms m by (simp add: ring_ok_def mod_simps ac_simps)
  moreover have "queued (p\<lparr>task_queue := ?q, queue_rear := ?r, queue_size := ?n + 1\<rparr>) = queued p @ [task]"
  proof -
    have other: "nat ((?f + int k) mod ?m) \<noteq> nat (queue_rear p)" if "k < nat ?n" for k
    proof
      assume "nat ((?f + int k) mod ?m) = nat (queue_rear p)"
      then have "(?f + int k) mod ?m = (?f + ?n) mod ?m" using m(1,6) r by (simp add: eq_nat_nat_iff)
      then have "?m dvd ?n - int k" by (simp add: mod_eq_dvd_iff dvd_diff_commute)
      moreover have "0 < ?n - int k" "?n - int k < ?m" using that assms(2) by simp_all
      ultimately show False using zdvd_not_zless by blast
    qed
    have eq: "?q ! nat ((?f + int k) mod ?m) = task_queue p ! nat ((?f + int k) mod ?m)" if "k < nat ?n" for k
      using other [OF that] by (metis nth_list_update_neq)
    have "?q ! nat ((?f + ?n) mod ?m) = task" using m(1,5) r by (simp add: m(6) [symmetric])
    moreover have "nat (?n + 1) = Suc (nat ?n)" using m(4) by simp
    ultimately show ?thesis using m(4) by (simp add: queued_def eq)
  qed
  ultimately show ?thesis by blast
qed

section \<open>The contract\<close>

fun ring_enq :: "threadpool_task_t list \<Rightarrow> threadpool_t \<Rightarrow> threadpool_t option" where
  "ring_enq [] p = Some p"
| "ring_enq (x # xs) p = (case ring_put x p of Inl e \<Rightarrow> None | Inr p' \<Rightarrow> ring_enq xs p')"

fun ring_deq :: "nat \<Rightarrow> threadpool_t \<Rightarrow> (threadpool_task_t list \<times> threadpool_t) option" where
  "ring_deq 0 p = Some ([], p)"
| "ring_deq (Suc n) p =
     (case ring_take p of
        Inl e \<Rightarrow> None
      | Inr (x, p') \<Rightarrow> (case ring_deq n p' of None \<Rightarrow> None | Some (xs, p'') \<Rightarrow> Some (x # xs, p'')))"

definition ring_capacity :: "threadpool_t \<Rightarrow> nat" where
  "ring_capacity p = nat (queue_max_size p)"

lemma ring_enq_ok:
  assumes "ring_ok p" and "length (queued p) + length xs \<le> ring_capacity p"
  shows "\<exists>p'. ring_enq xs p = Some p' \<and> ring_ok p' \<and> queued p' = queued p @ xs \<and> ring_capacity p' = ring_capacity p"
  using assms
proof (induction xs arbitrary: p)
  case (Cons x xs)
  then have "queue_size p < queue_max_size p" by (simp add: ring_capacity_def ring_ok_def)
  from ring_put_ok [OF Cons.prems(1) this, of x] obtain p1 where
    p1: "ring_put x p = Inr p1" "ring_ok p1" "queued p1 = queued p @ [x]" "ring_capacity p1 = ring_capacity p"
    by (auto simp: ring_capacity_def)
  from p1(3) have "length (queued p1) = Suc (length (queued p))" by simp
  with Cons.IH [OF p1(2)] Cons.prems(2) p1 show ?case by (auto simp del: length_queued)
qed simp

lemma ring_deq_ok:
  assumes "ring_ok p" and "n \<le> length (queued p)"
  shows "\<exists>p'. ring_deq n p = Some (take n (queued p), p') \<and> ring_ok p' \<and> queued p' = drop n (queued p)
    \<and> ring_capacity p' = ring_capacity p"
  using assms
proof (induction n arbitrary: p)
  case (Suc n)
  then have "0 < queue_size p" by simp
  from ring_take_ok [OF Suc.prems(1) this] obtain p1 where
    p1: "ring_take p = Inr (hd (queued p), p1)" "ring_ok p1" "queued p1 = tl (queued p)" "ring_capacity p1 = ring_capacity p"
    by (auto simp: ring_capacity_def)
  have ne: "queued p \<noteq> []" using Suc.prems(2) by (metis length_0_conv not_less_eq_eq zero_le)
  have "n \<le> length (queued p1)" using Suc.prems(2) unfolding p1(3) by (simp del: length_queued)
  from Suc.IH [OF p1(2) this] p1 ne show ?case by (auto simp: drop_Suc take_Suc)
qed simp

interpretation task_ring: bounded_queue ring_ok queued ring_capacity ring_enq ring_deq
proof unfold_locales
  show "length (queued p) \<le> ring_capacity p" if "ring_ok p" for p
    using that by (simp add: ring_ok_def ring_capacity_def nat_mono)
qed (fact ring_enq_ok ring_deq_ok)+

end
