(* ===== verification/PoolRuns.thy ===== *)
theory PoolRuns
  imports PoolQueue
begin

text \<open>
  What holds in every state a pool can reach, by induction over its runs: the log of the ring, the
  task that each worker holds, the bounds on the number of threads, the holder of the lock.
\<close>

section \<open>The steps by cases\<close>

lemma worker_test_cases:
  assumes "worker_test t s = Inr (Some s')"
  obtains (sleepy) "queue_size (pool s) = 0" "\<not> shutdown (pool s)"
      "s' = set_worker t W_Sleepy (s\<lparr>lock_owner := Some (Worker t)\<rparr>)"
  | (leave) "shutdown (pool s)" "s' = set_worker t W_Gone s"
  | (take) task p1 where "queue_size (pool s) \<noteq> 0" "\<not> shutdown (pool s)" "ring_take (pool s) = Inr (task, p1)"
      "s' = set_worker t (W_Taken task)
         (s\<lparr>pool := p1, producers := map wake_producer (producers s), taken := taken s @ [task]\<rparr>)"
  using assms by (auto simp: worker_test_def Let_def res_simps split: if_splits prod.splits)

definition spend :: "sys \<Rightarrow> sys" where
  "spend s = s\<lparr>pool := (pool s)\<lparr>wait_exit_thr_num := wait_exit_thr_num (pool s) - 1\<rparr>\<rparr>"

lemma thread_cases:
  assumes "threadpool_thread t s = Inr (Some s')"
  obtains (test) "t < length (workers s)" "workers s ! t \<in> {W_Lock, W_Woken}" "lock_owner s = None" "\<not> freed s"
      "worker_test t s = Inr (Some s')"
  | (spent) "t < length (workers s)" "workers s ! t = W_Woken" "lock_owner s = None" "\<not> freed s"
      "0 < wait_exit_thr_num (pool s)" "live_thr_num (pool s) \<le> min_thr_num (pool s)"
      "worker_test t (spend s) = Inr (Some s')"
  | (leave) "t < length (workers s)" "workers s ! t = W_Woken" "lock_owner s = None" "\<not> freed s"
      "0 < wait_exit_thr_num (pool s)" "min_thr_num (pool s) < live_thr_num (pool s)"
      "s' = set_worker t W_Gone (s\<lparr>pool := (pool s)\<lparr>wait_exit_thr_num := wait_exit_thr_num (pool s) - 1,
          live_thr_num := live_thr_num (pool s) - 1\<rparr>\<rparr>)"
  | (sleep) "t < length (workers s)" "workers s ! t = W_Sleepy" "\<not> freed s"
      "s' = set_worker t W_Wait (s\<lparr>lock_owner := None\<rparr>)"
  | (begin_task) task where "t < length (workers s)" "workers s ! t = W_Taken task" "\<not> freed s"
      "s' = set_worker t (W_Run task) (s\<lparr>pool := (pool s)\<lparr>busy_thr_num := busy_thr_num (pool s) + 1\<rparr>\<rparr>)"
  | (run) task where "t < length (workers s)" "workers s ! t = W_Run task" "s' = set_worker t (W_Finish task) s"
  | (finish) task where "t < length (workers s)" "workers s ! t = W_Finish task" "\<not> freed s"
      "s' = set_worker t W_Lock (s\<lparr>pool := (pool s)\<lparr>busy_thr_num := busy_thr_num (pool s) - 1\<rparr>,
          finished := finished s @ [task]\<rparr>)"
proof -
  have t: "t < length (workers s)" using assms by (simp add: threadpool_thread_def split: if_splits)
  show thesis
  proof (cases "workers s ! t")
    case W_Lock
    with assms t have "\<not> freed s" "lock_owner s = None" "worker_test t s = Inr (Some s')"
      by (simp_all add: threadpool_thread_def locking_def guarded_def split: if_splits)
    with t W_Lock show thesis by (intro test) simp_all
  next
    case W_Sleepy
    with assms t have "\<not> freed s" "s' = set_worker t W_Wait (s\<lparr>lock_owner := None\<rparr>)"
      by (simp_all add: threadpool_thread_def guarded_def split: if_splits)
    with t W_Sleepy show thesis by (intro sleep)
  next
    case W_Wait
    with assms t show thesis by (simp add: threadpool_thread_def)
  next
    case W_Woken
    with assms t have f: "\<not> freed s" "lock_owner s = None" "worker_woken t s = Inr (Some s')"
      by (simp_all add: threadpool_thread_def locking_def guarded_def split: if_splits)
    consider "\<not> 0 < wait_exit_thr_num (pool s)"
      | "0 < wait_exit_thr_num (pool s)" "\<not> min_thr_num (pool s) < live_thr_num (pool s)"
      | "0 < wait_exit_thr_num (pool s)" "min_thr_num (pool s) < live_thr_num (pool s)" by blast
    then show thesis
    proof cases
      case 1
      with f have "worker_test t s = Inr (Some s')" by (simp add: worker_woken_def)
      with t f W_Woken show thesis by (intro test) simp_all
    next
      case 2
      with f have "worker_test t (spend s) = Inr (Some s')" by (simp add: worker_woken_def Let_def spend_def)
      with t f W_Woken 2 show thesis by (intro spent) simp_all
    next
      case 3
      with t f W_Woken show thesis by (intro leave) (auto simp: worker_woken_def Let_def)
    qed
  next
    case (W_Taken task)
    with assms t show thesis
      by (intro begin_task) (auto simp: threadpool_thread_def guarded_def split: if_splits)
  next
    case (W_Run task)
    with assms t show thesis by (intro run) (auto simp: threadpool_thread_def)
  next
    case (W_Finish task)
    with assms t show thesis
      by (intro finish) (auto simp: threadpool_thread_def guarded_def split: if_splits)
  next
    case W_Gone
    with assms t show thesis by (simp add: threadpool_thread_def)
  qed
qed

lemma add_task_cases:
  assumes "threadpool_add_task i choice s = Inr (Some s')"
  obtains (sleepy) task where "i < length (producers s)" "producers s ! i = P_Lock task" "lock_owner s = None" "\<not> freed s"
      "queue_size (pool s) = queue_max_size (pool s)" "\<not> shutdown (pool s)"
      "s' = set_producer i (P_Sleepy task) (s\<lparr>lock_owner := Some (Producer i)\<rparr>)"
  | (refuse) task where "i < length (producers s)" "producers s ! i = P_Lock task" "lock_owner s = None" "\<not> freed s"
      "shutdown (pool s)" "s' = set_producer i (P_Idle (Some (-1))) s"
  | (put) task p1 where "i < length (producers s)" "producers s ! i = P_Lock task" "lock_owner s = None" "\<not> freed s"
      "queue_size (pool s) \<noteq> queue_max_size (pool s)" "\<not> shutdown (pool s)" "ring_put task (pool s) = Inr p1"
      "s' = set_producer i P_Signal (s\<lparr>pool := p1, added := added s @ [task]\<rparr>)"
  | (sleep) task where "i < length (producers s)" "producers s ! i = P_Sleepy task" "\<not> freed s"
      "s' = set_producer i (P_Wait task) (s\<lparr>lock_owner := None\<rparr>)"
  | (notify) ws where "i < length (producers s)" "producers s ! i = P_Signal" "\<not> freed s"
      "signal choice (workers s) = Some ws" "s' = set_producer i (P_Idle (Some 0)) (s\<lparr>workers := ws\<rparr>)"
proof -
  have i: "i < length (producers s)" using assms by (simp add: threadpool_add_task_def split: if_splits)
  show thesis
  proof (cases "producers s ! i")
    case (P_Lock task)
    with assms i have f: "\<not> freed s" "lock_owner s = None"
      by (simp_all add: threadpool_add_task_def locking_def guarded_def split: if_splits)
    note s' = assms [unfolded threadpool_add_task_def P_Lock, simplified locking_def guarded_def f Let_def, simplified]
    consider "shutdown (pool s)" | "\<not> shutdown (pool s)" "queue_size (pool s) = queue_max_size (pool s)"
      | "\<not> shutdown (pool s)" "queue_size (pool s) \<noteq> queue_max_size (pool s)" by blast
    then show thesis
    proof cases
      case 1
      with s' i P_Lock f show thesis by (intro refuse) auto
    next
      case 2
      with s' i P_Lock f show thesis by (intro sleepy) auto
    next
      case 3
      with s' i obtain p1 where "ring_put task (pool s) = Inr p1"
        "s' = set_producer i P_Signal (s\<lparr>pool := p1, added := added s @ [task]\<rparr>)" by (auto simp: res_simps)
      with i P_Lock f 3 show thesis by (intro put)
    qed
  next
    case (P_Sleepy task)
    with assms i show thesis
      by (intro sleep) (auto simp: threadpool_add_task_def guarded_def split: if_splits)
  next
    case P_Signal
    with assms i obtain ws where "\<not> freed s" "signal choice (workers s) = Some ws"
      "s' = set_producer i (P_Idle (Some 0)) (s\<lparr>workers := ws\<rparr>)"
      by (auto simp: threadpool_add_task_def guarded_def split: if_splits option.splits)
    with i P_Signal show thesis by (intro notify)
  qed (use assms i in \<open>simp_all add: threadpool_add_task_def\<close>)
qed

text \<open>The administrator: a step of its own, a growth, a reduction, or a signal.\<close>

lemma admin_cases:
  assumes "admin_thread choice absent refused s = Inr (Some s')"
  obtains (own) a where "s' = set_admin a s" "a = A_Gone \<longrightarrow> shutdown (pool s)"
  | (grow) qs live busy s1 where "admin_pc s = A_Grow qs live busy" "lock_owner s = None" "\<not> freed s"
      "grow_loop absent refused [0..<nat (max_thr_num (pool s))] 0 s = Inr s1" "s' = set_admin (A_Shrink live busy) s1"
  | (shrink) live busy where "admin_pc s = A_Shrink live busy" "busy * 2 < live" "min_thr_num (pool s) < live"
      "s' = set_admin (A_Signal DEFAULT_THREAD_NUM) (s\<lparr>pool := (pool s)\<lparr>wait_exit_thr_num := int DEFAULT_THREAD_NUM\<rparr>\<rparr>)"
  | (notify) n ws where "admin_pc s = A_Signal (Suc n)" "signal choice (workers s) = Some ws"
      "s' = set_admin (A_Signal n) (s\<lparr>workers := ws\<rparr>)"
proof (cases "admin_pc s")
  case A_Loop
  then show thesis using assms own [of A_Gone] own [of A_Sleep]
    by (simp add: admin_thread_def guarded_def Let_def split: if_splits)
next
  case A_Sleep
  then show thesis using assms own [of "A_Count (queue_size (pool s)) (live_thr_num (pool s))"]
    by (simp add: admin_thread_def locking_def guarded_def Let_def split: if_splits)
next
  case (A_Count qs live)
  then show thesis using assms own [of "A_Grow qs live (busy_thr_num (pool s))"]
    by (simp add: admin_thread_def guarded_def Let_def split: if_splits)
next
  case (A_Grow qs live busy)
  show thesis
  proof (cases "MIN_WAIT_TASK_NUM \<le> qs \<and> live \<le> max_thr_num (pool s)")
    case True
    then show thesis using assms A_Grow grow
      by (auto simp: admin_thread_def locking_def guarded_def Let_def res_simps split: if_splits)
  next
    case False
    then have "\<not> freed s" "s' = set_admin (A_Shrink live busy) s" using assms A_Grow
      unfolding admin_thread_def Let_def by (auto simp: guarded_def split: if_splits)
    then show thesis using own [of "A_Shrink live busy"] by simp
  qed
next
  case (A_Shrink live busy)
  show thesis
  proof (cases "busy * 2 < live \<and> min_thr_num (pool s) < live")
    case True
    then show thesis using assms A_Shrink shrink
      by (auto simp: admin_thread_def locking_def guarded_def Let_def split: if_splits)
  next
    case False
    then have "s' = set_admin A_Loop s" using assms A_Shrink
      unfolding admin_thread_def Let_def by (auto simp: guarded_def split: if_splits)
    then show thesis using own [of A_Loop] by simp
  qed
next
  case (A_Signal n)
  then show thesis using assms own [of A_Loop] notify
    by (cases n) (auto simp: admin_thread_def guarded_def Let_def split: if_splits option.splits)
qed (use assms in \<open>simp add: admin_thread_def Let_def\<close>)

lemma destroy_cases:
  assumes "threadpool_destroy s = Inr (Some s')"
  obtains (own) d where "s' = set_destroyer d s"
  | (begin_shutdown) "destroyer_pc s = D_None" "s' = set_destroyer D_Admin (s\<lparr>pool := (pool s)\<lparr>shutdown := True\<rparr>\<rparr>)"
  | (broadcast) i where "destroyer_pc s = D_Broadcast i"
      "s' = set_destroyer (D_Broadcast (i + 1)) (s\<lparr>workers := map wake_worker (workers s)\<rparr>)"
  | (free) "destroyer_pc s = D_Free" "lock_owner s = None" "s' = set_destroyer D_Return (s\<lparr>freed := True\<rparr>)"
proof (cases "destroyer_pc s")
  case D_None
  with assms show thesis by (intro begin_shutdown) (auto simp: threadpool_destroy_def)
next
  case D_Admin
  with assms show thesis by (intro own [of "D_Broadcast 0"]) (auto simp: threadpool_destroy_def split: if_splits)
next
  case (D_Broadcast i)
  show thesis
  proof (cases "i < live_thr_num (pool s)")
    case True
    with assms D_Broadcast show thesis by (intro broadcast) (auto simp: threadpool_destroy_def)
  next
    case False
    with assms D_Broadcast show thesis by (intro own [of "D_Join 0"]) (auto simp: threadpool_destroy_def)
  qed
next
  case (D_Join i)
  show thesis
  proof (cases "i < live_thr_num (pool s)")
    case True
    with assms D_Join show thesis
      by (intro own [of "D_Join (i + 1)"]) (auto simp: threadpool_destroy_def res_simps split: if_splits)
  next
    case False
    with assms D_Join show thesis by (intro own [of D_Free]) (auto simp: threadpool_destroy_def)
  qed
next
  case D_Free
  with assms show thesis
    by (intro free) (auto simp: threadpool_destroy_def locking_def guarded_def threadpool_free_def split: if_splits)
next
  case D_Return
  with assms show thesis by (simp add: threadpool_destroy_def)
qed

text \<open>A signal changes at most one worker, from waiting to woken.\<close>

lemma signal_cases:
  assumes "signal choice ws = Some ws'"
  obtains (nobody) "ws' = ws" "W_Wait \<notin> set ws"
  | (one) t where "t < length ws" "ws ! t = W_Wait" "ws' = ws[t := W_Woken]"
proof (cases choice)
  case None
  with assms show thesis by (intro nobody) (auto simp: signal_def split: if_splits)
next
  case (Some t)
  with assms show thesis by (intro one [of t]) (auto simp: signal_def split: if_splits)
qed

lemmas set_defs = set_worker_def set_producer_def set_admin_def set_destroyer_def spend_def

lemma exec_cases:
  assumes "exec e s = Inr (Some s')"
  obtains (work) t where "e = Work t" "threadpool_thread t s = Inr (Some s')"
  | (spurious) t where "e = Spurious t" "t < length (workers s)" "workers s ! t = W_Wait" "s' = set_worker t W_Woken s"
  | (enter) i task r where "e = Call i task" "i < length (producers s)" "producers s ! i = P_Idle r"
      "s' = set_producer i (P_Lock task) s"
  | (produce) i choice where "e = Produce i choice" "threadpool_add_task i choice s = Inr (Some s')"
  | (spurious_producer) i task where "e = Spurious_producer i" "i < length (producers s)" "producers s ! i = P_Wait task"
      "s' = set_producer i (P_Lock task) s"
  | (admin) choice absent refused where "e = Admin choice absent refused" "admin_thread choice absent refused s = Inr (Some s')"
  | (destroy) "e = Destroy" "threadpool_destroy s = Inr (Some s')"
proof (cases e)
  case (Work t)
  with assms show thesis by (intro work) (simp_all add: exec_def)
next
  case (Spurious t)
  with assms show thesis by (intro spurious) (auto simp: exec_def split: if_splits)
next
  case (Call i task)
  with assms obtain r where "i < length (producers s)" "producers s ! i = P_Idle r" "s' = set_producer i (P_Lock task) s"
    by (auto simp: exec_def split: if_splits producer.splits)
  with Call show thesis by (intro enter)
next
  case (Produce i choice)
  with assms show thesis by (intro produce) (simp_all add: exec_def)
next
  case (Spurious_producer i)
  with assms obtain task where "i < length (producers s)" "producers s ! i = P_Wait task" "s' = set_producer i (P_Lock task) s"
    by (auto simp: exec_def split: if_splits producer.splits)
  with Spurious_producer show thesis by (intro spurious_producer)
next
  case (Admin choice absent refused)
  with assms show thesis by (intro admin) (simp_all add: exec_def)
next
  case Destroy
  with assms show thesis by (intro destroy) (simp_all add: exec_def)
qed

section \<open>What a step leaves alone\<close>

lemma ring_take_fields: "ring_take p = Inr (task, p1) \<Longrightarrow> \<exists>f n. p1 = p\<lparr>queue_front := f, queue_size := n\<rparr>"
  by (auto simp: ring_take_def res_simps)

lemma ring_put_fields:
  "ring_put task p = Inr p1 \<Longrightarrow> \<exists>q r n. p1 = p\<lparr>task_queue := q, queue_rear := r, queue_size := n\<rparr>"
  unfolding ring_put_def Let_def bindE_Inr_iff by auto

lemma spawn_result:
  "spawn i ok s = Inr s1 \<Longrightarrow> s1 = (if ok then s\<lparr>pool := (pool s)\<lparr>threads := (threads (pool s))[i := Suc (length (workers s))]\<rparr>,
     workers := workers s @ [W_Lock]\<rparr> else s) \<and> i < length (threads (pool s))"
  by (auto simp: spawn_def st_def res_simps split: if_splits)

text \<open>A growth adds workers at the lock and counts every one of them.\<close>

lemma grow_loop_result:
  assumes "grow_loop absent refused is add s = Inr s1"
  shows "\<exists>k ts l. s1 = s\<lparr>pool := (pool s)\<lparr>threads := ts, live_thr_num := l\<rparr>, workers := workers s @ replicate k W_Lock\<rparr>
    \<and> live_thr_num (pool s) + int k \<le> l \<and> (live_thr_num (pool s) \<le> max_thr_num (pool s) \<longrightarrow> l \<le> max_thr_num (pool s))
    \<and> length ts = length (threads (pool s))"
  using assms
proof (induction "is" arbitrary: add s)
  case Nil
  then show ?case by (intro exI [of _ 0] exI [of _ "threads (pool s)"] exI [of _ "live_thr_num (pool s)"]) simp
next
  case (Cons i "is")
  show ?case
  proof (cases "add < DEFAULT_THREAD_NUM \<and> live_thr_num (pool s) < max_thr_num (pool s)")
    case False
    then have "s1 = s" using Cons.prems by auto
    then show ?thesis by (intro exI [of _ 0] exI [of _ "threads (pool s)"] exI [of _ "live_thr_num (pool s)"]) simp
  next
    case True
    with Cons.prems obtain tid where tid: "ld (threads (pool s)) i = Inr tid"
      "(if tid = 0 \<or> \<not> is_thread_alive s absent tid
        then bindE (spawn i (i \<notin> set refused) s) (\<lambda>s1. grow_loop absent refused is (Suc add)
               (s1\<lparr>pool := (pool s1)\<lparr>live_thr_num := live_thr_num (pool s1) + 1\<rparr>\<rparr>))
        else grow_loop absent refused is add s) = Inr s1"
      by (auto simp: res_simps)
    show ?thesis
    proof (cases "tid = 0 \<or> \<not> is_thread_alive s absent tid")
      case False
      then show ?thesis using tid(2) Cons.IH by simp
    next
      case go: True
      with tid(2) obtain s2 where s2: "spawn i (i \<notin> set refused) s = Inr s2"
        "grow_loop absent refused is (Suc add) (s2\<lparr>pool := (pool s2)\<lparr>live_thr_num := live_thr_num (pool s2) + 1\<rparr>\<rparr>) = Inr s1"
        by (auto simp: bindE_Inr_iff)
      note sp = spawn_result [OF s2(1)]
      obtain k ts l where IH: "s1 = s2\<lparr>pool := (pool s2)\<lparr>threads := ts, live_thr_num := l\<rparr>, workers := workers s2 @ replicate k W_Lock\<rparr>"
        "live_thr_num (pool s2) + 1 + int k \<le> l" "live_thr_num (pool s2) + 1 \<le> max_thr_num (pool s2) \<longrightarrow> l \<le> max_thr_num (pool s2)"
        "length ts = length (threads (pool s2))"
        using Cons.IH [OF s2(2)] by auto
      show ?thesis
      proof (cases "i \<in> set refused")
        case True
        then have "s2 = s" using sp by simp
        then show ?thesis using IH \<open>add < _ \<and> _\<close> by (intro exI [of _ k] exI [of _ ts] exI [of _ l]) auto
      next
        case False
        then show ?thesis using IH sp \<open>add < _ \<and> _\<close>
          by (intro exI [of _ "Suc k"] exI [of _ ts] exI [of _ l]) (auto simp: replicate_app_Cons_same [symmetric])
      qed
    qed
  qed
qed

section \<open>The log\<close>

definition log_ok :: "sys \<Rightarrow> bool" where
  "log_ok s \<longleftrightarrow> ring_ok (pool s) \<and> taken s @ queued (pool s) = added s"

lemma log_worker_test:
  assumes "worker_test t s = Inr (Some s')" and "log_ok s"
  shows "log_ok s'"
  using assms(1)
proof (cases rule: worker_test_cases)
  case (take task p1)
  then have "0 < queue_size (pool s)" using assms(2) by (auto simp: log_ok_def ring_ok_def)
  from ring_take_ok [OF _ this] take assms(2) obtain f where
    "task = hd (queued (pool s))" "ring_ok p1" "queued p1 = tl (queued (pool s))" by (auto simp: log_ok_def)
  moreover have "queued (pool s) \<noteq> []"
    using \<open>0 < queue_size (pool s)\<close> length_queued [of "pool s"] by fastforce
  ultimately show ?thesis using take assms(2) by (simp add: log_ok_def set_defs)
qed (use assms(2) in \<open>simp_all add: log_ok_def set_defs\<close>)

lemma log_step:
  assumes "exec e s = Inr (Some s')" and "log_ok s"
  shows "log_ok s'"
  using assms(1)
proof (cases rule: exec_cases)
  case (work t)
  from work(2) show ?thesis
  proof (cases rule: thread_cases)
    case spent
    have "log_ok (spend s)" using assms(2) by (simp add: log_ok_def spend_def)
    with spent log_worker_test show ?thesis by blast
  qed (use assms(2) log_worker_test in \<open>simp_all add: log_ok_def set_defs\<close>)
next
  case (produce i choice)
  from produce(2) show ?thesis
  proof (cases rule: add_task_cases)
    case (put task p1)
    then have "queue_size (pool s) < queue_max_size (pool s)" using assms(2) by (simp add: log_ok_def ring_ok_def)
    from ring_put_ok [OF _ this, of task] put assms(2) show ?thesis
      by (auto simp: log_ok_def set_defs)
  qed (use assms(2) in \<open>simp_all add: log_ok_def set_defs\<close>)
next
  case (admin choice absent refused)
  from admin(2) show ?thesis
  proof (cases rule: admin_cases)
    case (grow qs live busy s1)
    from grow_loop_result [OF grow(4)] grow(5) assms(2) show ?thesis by (auto simp: log_ok_def set_defs)
  qed (use assms(2) in \<open>simp_all add: log_ok_def set_defs\<close>)
next
  case destroy
  from destroy(2) show ?thesis
    by (cases rule: destroy_cases) (use assms(2) in \<open>simp_all add: log_ok_def set_defs\<close>)
qed (use assms(2) in \<open>simp_all add: log_ok_def set_defs\<close>)

end
