(* ===== verification/PoolSafety.thy ===== *)
theory PoolSafety
  imports PoolRuns
begin

text \<open>
  The safety of the pool in every interleaving: tasks are taken in the order they were added, each by
  exactly one worker; the number of threads stays within its limits; the lock has one holder; and the
  ring is never read out of its bounds.
\<close>

section \<open>Tasks in hand\<close>

fun in_hand :: "worker \<Rightarrow> threadpool_task_t multiset" where
  "in_hand (W_Taken task) = {#task#}"
| "in_hand (W_Run task) = {#task#}"
| "in_hand (W_Finish task) = {#task#}"
| "in_hand w = {#}"

fun working :: "worker \<Rightarrow> int" where
  "working (W_Run task) = 1"
| "working (W_Finish task) = 1"
| "working w = 0"

fun present :: "worker \<Rightarrow> int" where
  "present W_Gone = 0"
| "present w = 1"

lemma map_wake_worker: "f W_Wait = f W_Woken \<Longrightarrow> map f (map wake_worker ws) = map f ws"
proof (induction ws)
  case (Cons w ws)
  then show ?case by (cases w) simp_all
qed simp

lemma map_signal: "signal choice ws = Some ws' \<Longrightarrow> f W_Wait = f W_Woken \<Longrightarrow> map f ws' = map f ws"
  by (elim signal_cases) (auto simp: map_update list_update_same_conv)

lemma no_tasks [simp]: "sum_list (replicate k {#}) = {#}"
  by (induction k) simp_all

definition hand_ok :: "sys \<Rightarrow> bool" where
  "hand_ok s \<longleftrightarrow> mset (taken s) = sum_list (map in_hand (workers s)) + mset (finished s)
     \<and> busy_thr_num (pool s) = sum_list (map working (workers s))"

lemma hand_move:
  assumes "hand_ok s" and "t < length (workers s)"
    and "in_hand w = in_hand (workers s ! t)" and "working w = working (workers s ! t)"
  shows "mset (taken s) = sum_list (map in_hand ((workers s)[t := w])) + mset (finished s)"
    and "busy_thr_num (pool s) = sum_list (map working ((workers s)[t := w]))"
  using sum_list_map_update [OF assms(2), of in_hand w] sum_list_map_update [OF assms(2), of working w] assms
  by (simp_all add: hand_ok_def)

lemma hand_worker_test:
  assumes "worker_test t s = Inr (Some s')" and "hand_ok s" and "t < length (workers s)"
    and "workers s ! t \<in> {W_Lock, W_Woken}"
  shows "hand_ok s'"
  using assms(1)
proof (cases rule: worker_test_cases)
  case (take task p1)
  have "sum_list (map in_hand ((workers s)[t := W_Taken task])) = add_mset task (sum_list (map in_hand (workers s)))"
    "sum_list (map working ((workers s)[t := W_Taken task])) = sum_list (map working (workers s))"
    using sum_list_map_update [OF assms(3), of in_hand "W_Taken task"]
      sum_list_map_update [OF assms(3), of working "W_Taken task"] assms(4) by auto
  then show ?thesis using take ring_take_fields [OF take(3)] assms(2) by (auto simp: hand_ok_def set_defs)
next
  case sleepy
  then show ?thesis using hand_move [OF assms(2,3), of W_Sleepy] assms(4) by (auto simp: hand_ok_def set_defs)
next
  case leave
  then show ?thesis using hand_move [OF assms(2,3), of W_Gone] assms(4) by (auto simp: hand_ok_def set_defs)
qed

lemma hand_step:
  assumes "exec e s = Inr (Some s')" and "hand_ok s"
  shows "hand_ok s'"
  using assms(1)
proof (cases rule: exec_cases)
  case (work t)
  from work(2) show ?thesis
  proof (cases rule: thread_cases)
    case test
    then show ?thesis using hand_worker_test assms(2) by blast
  next
    case spent
    have "hand_ok (spend s)" "workers (spend s) = workers s" using assms(2) by (simp_all add: hand_ok_def spend_def)
    with spent hand_worker_test show ?thesis by simp
  next
    case leave
    then show ?thesis using hand_move [OF assms(2), of t W_Gone] by (auto simp: hand_ok_def set_defs)
  next
    case sleep
    then show ?thesis using hand_move [OF assms(2), of t W_Wait] by (auto simp: hand_ok_def set_defs)
  next
    case (begin_task task)
    then show ?thesis using sum_list_map_update [of t "workers s" in_hand "W_Run task"]
        sum_list_map_update [of t "workers s" working "W_Run task"] assms(2) by (auto simp: hand_ok_def set_defs)
  next
    case (run task)
    then show ?thesis using hand_move [OF assms(2), of t "W_Finish task"] by (auto simp: hand_ok_def set_defs)
  next
    case (finish task)
    then show ?thesis using sum_list_map_update [of t "workers s" in_hand W_Lock]
        sum_list_map_update [of t "workers s" working W_Lock] assms(2) by (auto simp: hand_ok_def set_defs)
  qed
next
  case (spurious t)
  then show ?thesis using hand_move [OF assms(2), of t W_Woken] by (auto simp: hand_ok_def set_defs)
next
  case (produce i choice)
  from produce(2) show ?thesis
  proof (cases rule: add_task_cases)
    case (put task p1)
    then show ?thesis using ring_put_fields [OF put(7)] assms(2) by (auto simp: hand_ok_def set_defs)
  next
    case (notify ws)
    then show ?thesis using map_signal [OF notify(4), of in_hand] map_signal [OF notify(4), of working] assms(2)
      by (simp add: hand_ok_def set_defs)
  qed (use assms(2) in \<open>simp_all add: hand_ok_def set_defs\<close>)
next
  case (admin choice absent refused)
  from admin(2) show ?thesis
  proof (cases rule: admin_cases)
    case (grow qs live busy s1)
    from grow_loop_result [OF grow(4)] grow(5) assms(2) show ?thesis
      by (auto simp: hand_ok_def set_defs sum_list_replicate)
  next
    case (notify n ws)
    then show ?thesis using map_signal [OF notify(2), of in_hand] map_signal [OF notify(2), of working] assms(2)
      by (simp add: hand_ok_def set_defs)
  qed (use assms(2) in \<open>simp_all add: hand_ok_def set_defs\<close>)
next
  case destroy
  from destroy(2) show ?thesis
  proof (cases rule: destroy_cases)
    case (broadcast i)
    then show ?thesis using assms(2) map_wake_worker [of in_hand "workers s"] map_wake_worker [of working "workers s"]
      by (simp add: hand_ok_def set_defs del: map_map)
  qed (use assms(2) in \<open>simp_all add: hand_ok_def set_defs\<close>)
qed (use assms(2) in \<open>simp_all add: hand_ok_def set_defs\<close>)

section \<open>The number of threads\<close>

definition threads_ok :: "sys \<Rightarrow> bool" where
  "threads_ok s \<longleftrightarrow> min_thr_num (pool s) \<le> live_thr_num (pool s) \<and> live_thr_num (pool s) \<le> max_thr_num (pool s)
     \<and> 0 \<le> wait_exit_thr_num (pool s) \<and> wait_exit_thr_num (pool s) \<le> int DEFAULT_THREAD_NUM
     \<and> sum_list (map present (workers s)) \<le> live_thr_num (pool s)"

lemma present_move:
  "t < length ws \<Longrightarrow> sum_list (map present (ws[t := w])) = sum_list (map present ws) + present w - present (ws ! t)"
  using sum_list_map_update [of t ws present w] by linarith

lemma present_le: "present w \<le> 1" "0 \<le> present w"
  by (cases w; simp)+

lemma threads_worker_test:
  assumes "worker_test t s = Inr (Some s')" and "threads_ok s" and "t < length (workers s)"
    and "workers s ! t \<in> {W_Lock, W_Woken}"
  shows "threads_ok s'"
  using assms(1)
proof (cases rule: worker_test_cases)
  case (take task p1)
  then show ?thesis using ring_take_fields [OF take(3)] assms(2-4) by (auto simp: threads_ok_def set_defs present_move)
qed (use assms(2-4) in \<open>auto simp: threads_ok_def set_defs present_move\<close>)

lemma threads_step:
  assumes "exec e s = Inr (Some s')" and "threads_ok s"
  shows "threads_ok s'"
  using assms(1)
proof (cases rule: exec_cases)
  case (work t)
  from work(2) show ?thesis
  proof (cases rule: thread_cases)
    case test
    then show ?thesis using threads_worker_test assms(2) by blast
  next
    case spent
    have "threads_ok (spend s)" "workers (spend s) = workers s" using spent assms(2) by (simp_all add: threads_ok_def spend_def)
    with spent threads_worker_test show ?thesis by simp
  qed (use assms(2) in \<open>auto simp: threads_ok_def set_defs present_move\<close>)
next
  case (produce i choice)
  from produce(2) show ?thesis
  proof (cases rule: add_task_cases)
    case (put task p1)
    then show ?thesis using ring_put_fields [OF put(7)] assms(2) by (auto simp: threads_ok_def set_defs)
  next
    case (notify ws)
    then show ?thesis using map_signal [OF notify(4), of present] assms(2) by (simp add: threads_ok_def set_defs)
  qed (use assms(2) in \<open>simp_all add: threads_ok_def set_defs\<close>)
next
  case (admin choice absent refused)
  from admin(2) show ?thesis
  proof (cases rule: admin_cases)
    case (grow qs live busy s1)
    from grow_loop_result [OF grow(4)] grow(5) assms(2) show ?thesis
      by (auto simp: threads_ok_def set_defs sum_list_replicate)
  next
    case (notify n ws)
    then show ?thesis using map_signal [OF notify(2), of present] assms(2) by (simp add: threads_ok_def set_defs)
  qed (use assms(2) in \<open>simp_all add: threads_ok_def set_defs\<close>)
next
  case destroy
  from destroy(2) show ?thesis
  proof (cases rule: destroy_cases)
    case (broadcast i)
    then show ?thesis using assms(2) map_wake_worker [of present "workers s"]
      by (simp add: threads_ok_def set_defs del: map_map)
  qed (use assms(2) in \<open>simp_all add: threads_ok_def set_defs\<close>)
qed (use assms(2) in \<open>auto simp: threads_ok_def set_defs present_move\<close>)

section \<open>The holder of the lock\<close>

text \<open>Only a thread that is about to wait holds the lock between two steps, a worker only of an empty ring.\<close>

definition sleeper :: "agent \<Rightarrow> sys \<Rightarrow> bool" where
  "sleeper a s = (case a of
     Worker t \<Rightarrow> t < length (workers s) \<and> workers s ! t = W_Sleepy
   | Producer i \<Rightarrow> i < length (producers s) \<and> (\<exists>task. producers s ! i = P_Sleepy task))"

definition lock_ok :: "sys \<Rightarrow> bool" where
  "lock_ok s \<longleftrightarrow> (\<forall>a. sleeper a s \<longleftrightarrow> lock_owner s = Some a)
     \<and> (\<forall>t. lock_owner s = Some (Worker t) \<longrightarrow> queue_size (pool s) = 0)"

lemma sleeper_updates [simp]:
  "sleeper a (s\<lparr>pool := p\<rparr>) = sleeper a s" "sleeper a (s\<lparr>admin_pc := ap\<rparr>) = sleeper a s"
  "sleeper a (s\<lparr>destroyer_pc := d\<rparr>) = sleeper a s" "sleeper a (s\<lparr>freed := b\<rparr>) = sleeper a s"
  by (simp_all add: sleeper_def split: agent.splits)

text \<open>A step that moves no thread to or from the point before the wait.\<close>

lemma lock_same:
  assumes "lock_ok s" and "lock_owner s' = lock_owner s"
    and "queue_size (pool s') = queue_size (pool s) \<or> lock_owner s = None"
    and "\<And>a. sleeper a s' \<longleftrightarrow> sleeper a s"
  shows "lock_ok s'"
  using assms by (auto simp: lock_ok_def)

lemma sleeper_worker:
  assumes "w \<noteq> W_Sleepy" and "workers s ! t \<noteq> W_Sleepy"
    and "workers s' = (workers s)[t := w]" and "producers s' = producers s"
  shows "sleeper a s' \<longleftrightarrow> sleeper a s"
  using assms by (cases a; cases "t < length (workers s)") (auto simp: sleeper_def nth_list_update)

lemma sleeper_producer:
  assumes "\<forall>task. q \<noteq> P_Sleepy task" and "\<forall>task. producers s ! i \<noteq> P_Sleepy task"
    and "producers s' = (producers s)[i := q]" and "workers s' = workers s"
  shows "sleeper a s' \<longleftrightarrow> sleeper a s"
  using assms by (cases a; cases "i < length (producers s)") (auto simp: sleeper_def nth_list_update)

lemma sleeper_workers:
  assumes "map f (workers s') = map f (workers s)" and "\<And>w. f w = f W_Sleepy \<longleftrightarrow> w = W_Sleepy"
    and "producers s' = producers s"
  shows "sleeper a s' \<longleftrightarrow> sleeper a s"
proof -
  have l: "length (workers s') = length (workers s)" using map_eq_imp_length_eq [OF assms(1)] .
  have "workers s' ! t = W_Sleepy \<longleftrightarrow> workers s ! t = W_Sleepy" if "t < length (workers s)" for t
    using arg_cong [OF assms(1), of "\<lambda>xs. xs ! t"] that l assms(2) by (metis nth_map)
  then show ?thesis using assms(3) l by (cases a) (auto simp: sleeper_def)
qed

lemma sleeper_spawned:
  assumes "workers s' = workers s @ replicate k W_Lock" and "producers s' = producers s"
  shows "sleeper a s' \<longleftrightarrow> sleeper a s"
proof -
  have iff: "t < length (workers s') \<and> workers s' ! t = W_Sleepy \<longleftrightarrow> t < length (workers s) \<and> workers s ! t = W_Sleepy" for t
  proof (cases "t < length (workers s)")
    case False
    then have "t < length (workers s') \<Longrightarrow> workers s' ! t = W_Lock" using assms(1) by (simp add: nth_append)
    then show ?thesis using False by auto
  qed (simp add: assms(1) nth_append)
  show ?thesis unfolding sleeper_def iff assms(2) ..
qed

fun about_to_wait :: "worker \<Rightarrow> bool" where
  "about_to_wait W_Sleepy = True"
| "about_to_wait w = False"

lemma about_to_wait_iff [simp]: "about_to_wait w \<longleftrightarrow> w = W_Sleepy"
  by (cases w) simp_all

lemma lock_take:
  assumes "lock_ok s" and "lock_owner s = None" and "sleeper a s'"
    and "\<And>b. sleeper b s' \<longleftrightarrow> b = a \<or> sleeper b s" and "lock_owner s' = Some a"
    and "\<And>t. a = Worker t \<Longrightarrow> queue_size (pool s') = 0"
  shows "lock_ok s'"
  using assms by (auto simp: lock_ok_def)

lemma lock_release:
  assumes "lock_ok s" and "sleeper a s" and "\<And>b. sleeper b s' \<longleftrightarrow> b \<noteq> a \<and> sleeper b s" and "lock_owner s' = None"
  shows "lock_ok s'"
  using assms by (auto simp: lock_ok_def)

lemma wake_producer_sleepy [simp]: "wake_producer q = P_Sleepy task \<longleftrightarrow> q = P_Sleepy task"
  by (cases q) simp_all

lemma lock_worker_test:
  assumes "worker_test t s = Inr (Some s')" and "lock_ok s" and "lock_owner s = None" and "t < length (workers s)"
    and "workers s ! t \<in> {W_Lock, W_Woken}"
  shows "lock_ok s'"
  using assms(1)
proof (cases rule: worker_test_cases)
  case sleepy
  with assms(3-5) show ?thesis
    by (intro lock_take [OF assms(2,3), of "Worker t"]) (auto simp: set_defs sleeper_def nth_list_update split: agent.splits)
next
  case leave
  with assms(3-5) show ?thesis
    by (intro lock_same [OF assms(2)] sleeper_worker [of W_Gone _ t]) (auto simp: set_defs)
next
  case (take task p1)
  with assms(3-5) show ?thesis
    by (intro lock_same [OF assms(2)]) (auto simp: set_defs sleeper_def nth_list_update split: agent.splits)
qed

lemma lock_step:
  assumes "exec e s = Inr (Some s')" and "lock_ok s"
  shows "lock_ok s'"
  using assms(1)
proof (cases rule: exec_cases)
  case (work t)
  from work(2) show ?thesis
  proof (cases rule: thread_cases)
    case test
    then show ?thesis using lock_worker_test assms(2) by blast
  next
    case spent
    have "lock_ok (spend s)" by (intro lock_same [OF assms(2)]) (simp_all add: spend_def)
    with spent lock_worker_test show ?thesis by (simp add: spend_def)
  next
    case leave
    then show ?thesis by (intro lock_same [OF assms(2)] sleeper_worker [of W_Gone _ t]) (auto simp: set_defs)
  next
    case sleep
    then show ?thesis by (intro lock_release [OF assms(2), of "Worker t"])
        (auto simp: set_defs sleeper_def nth_list_update split: agent.splits)
  next
    case (begin_task task)
    then show ?thesis by (intro lock_same [OF assms(2)] sleeper_worker [of "W_Run task" _ t]) (auto simp: set_defs)
  next
    case (run task)
    then show ?thesis by (intro lock_same [OF assms(2)] sleeper_worker [of "W_Finish task" _ t]) (auto simp: set_defs)
  next
    case (finish task)
    then show ?thesis by (intro lock_same [OF assms(2)] sleeper_worker [of W_Lock _ t]) (auto simp: set_defs)
  qed
next
  case (spurious t)
  then show ?thesis by (intro lock_same [OF assms(2)] sleeper_worker [of W_Woken _ t]) (auto simp: set_defs)
next
  case (enter i task)
  then show ?thesis by (intro lock_same [OF assms(2)] sleeper_producer [of "P_Lock task" _ i]) (auto simp: set_defs)
next
  case (spurious_producer i task)
  then show ?thesis by (intro lock_same [OF assms(2)] sleeper_producer [of "P_Lock task" _ i]) (auto simp: set_defs)
next
  case (produce i choice)
  from produce(2) show ?thesis
  proof (cases rule: add_task_cases)
    case (sleepy task)
    then show ?thesis by (intro lock_take [OF assms(2), of "Producer i"])
        (auto simp: set_defs sleeper_def nth_list_update split: agent.splits)
  next
    case (refuse task)
    then show ?thesis by (intro lock_same [OF assms(2)] sleeper_producer [of "P_Idle (Some (-1))" _ i]) (auto simp: set_defs)
  next
    case (put task p1)
    then show ?thesis by (intro lock_same [OF assms(2)] sleeper_producer [of P_Signal _ i]) (auto simp: set_defs)
  next
    case (sleep task)
    then show ?thesis by (intro lock_release [OF assms(2), of "Producer i"])
        (auto simp: set_defs sleeper_def nth_list_update split: agent.splits)
  next
    case (notify ws)
    let ?s = "s\<lparr>workers := ws\<rparr>"
    have "sleeper a ?s \<longleftrightarrow> sleeper a s" for a
      using map_signal [OF notify(4), of about_to_wait] by (intro sleeper_workers [of about_to_wait]) simp_all
    moreover have "sleeper a s' \<longleftrightarrow> sleeper a ?s" for a
      using notify by (intro sleeper_producer [of "P_Idle (Some 0)" _ i]) (auto simp: set_defs)
    ultimately show ?thesis using notify by (intro lock_same [OF assms(2)]) (auto simp: set_defs)
  qed
next
  case (admin choice absent refused)
  from admin(2) show ?thesis
  proof (cases rule: admin_cases)
    case (own a)
    then show ?thesis by (intro lock_same [OF assms(2)]) (auto simp: set_defs)
  next
    case (grow qs live busy s1)
    from grow_loop_result [OF grow(4)] obtain k where
      "workers s1 = workers s @ replicate k W_Lock" "producers s1 = producers s" "lock_owner s1 = lock_owner s" by auto
    then show ?thesis using grow(2,5)
      by (intro lock_same [OF assms(2)] sleeper_spawned [of _ _ k]) (auto simp: set_defs)
  next
    case (shrink live busy)
    then show ?thesis by (intro lock_same [OF assms(2)]) (auto simp: set_defs)
  next
    case (notify n ws)
    then show ?thesis using map_signal [OF notify(2), of about_to_wait]
      by (intro lock_same [OF assms(2)] sleeper_workers [of about_to_wait]) (auto simp: set_defs)
  qed
next
  case destroy
  from destroy(2) show ?thesis
  proof (cases rule: destroy_cases)
    case (broadcast i)
    then show ?thesis using map_wake_worker [of about_to_wait "workers s"]
      by (intro lock_same [OF assms(2)] sleeper_workers [of about_to_wait]) (simp_all add: set_defs del: map_map)
  qed (intro lock_same [OF assms(2)], auto simp: set_defs)+
qed

section \<open>The slots\<close>

definition slots_ok :: "sys \<Rightarrow> bool" where
  "slots_ok s \<longleftrightarrow> (\<forall>tid \<in> set (threads (pool s)). tid \<le> length (workers s))
     \<and> length (threads (pool s)) = nat (max_thr_num (pool s))
     \<and> (case destroyer_pc s of D_Join i \<Rightarrow> 0 \<le> i | _ \<Rightarrow> True)"

lemma spawn_slots:
  assumes "spawn i ok s = Inr s1" and "\<forall>tid \<in> set (threads (pool s)). tid \<le> length (workers s)"
  shows "\<forall>tid \<in> set (threads (pool s1)). tid \<le> length (workers s1)"
  using spawn_result [OF assms(1)] assms(2)
  by (cases ok) (auto dest!: set_update_subset_insert [THEN subsetD] intro: le_SucI)

lemma grow_loop_slots:
  assumes "grow_loop absent refused is add s = Inr s1" and "\<forall>tid \<in> set (threads (pool s)). tid \<le> length (workers s)"
  shows "\<forall>tid \<in> set (threads (pool s1)). tid \<le> length (workers s1)"
  using assms
proof (induction "is" arbitrary: add s)
  case (Cons i "is")
  show ?case
  proof (cases "add < DEFAULT_THREAD_NUM \<and> live_thr_num (pool s) < max_thr_num (pool s)")
    case True
    with Cons.prems obtain tid where tid: "ld (threads (pool s)) i = Inr tid" by (auto simp: res_simps)
    show ?thesis
    proof (cases "tid = 0 \<or> \<not> is_thread_alive s absent tid")
      case go: True
      with Cons.prems(1) True tid obtain s2 where s2: "spawn i (i \<notin> set refused) s = Inr s2"
        "grow_loop absent refused is (Suc add) (s2\<lparr>pool := (pool s2)\<lparr>live_thr_num := live_thr_num (pool s2) + 1\<rparr>\<rparr>) = Inr s1"
        by (auto simp: bindE_Inr_iff)
      from Cons.IH [OF s2(2)] spawn_slots [OF s2(1) Cons.prems(2)] show ?thesis by simp
    next
      case False
      then show ?thesis using Cons True tid by simp
    qed
  qed (use Cons.prems in auto)
qed simp

lemma length_signal: "signal choice ws = Some ws' \<Longrightarrow> length ws' = length ws"
  by (elim signal_cases) simp_all

lemma slots_worker_test:
  assumes "worker_test t s = Inr (Some s')" and "slots_ok s"
  shows "slots_ok s'"
  using assms(1)
proof (cases rule: worker_test_cases)
  case (take task p1)
  then show ?thesis using ring_take_fields [OF take(3)] assms(2) by (auto simp: slots_ok_def set_defs)
qed (use assms(2) in \<open>simp_all add: slots_ok_def set_defs\<close>)

lemma slots_destroy:
  assumes "threadpool_destroy s = Inr (Some s')" and "slots_ok s"
  shows "slots_ok s'"
  using assms
  by (cases "destroyer_pc s")
    (auto simp: threadpool_destroy_def slots_ok_def set_defs locking_def guarded_def threadpool_free_def res_simps
      split: if_splits)

lemma slots_step:
  assumes "exec e s = Inr (Some s')" and "slots_ok s"
  shows "slots_ok s'"
  using assms(1)
proof (cases rule: exec_cases)
  case (work t)
  from work(2) show ?thesis
  proof (cases rule: thread_cases)
    case test
    then show ?thesis using slots_worker_test assms(2) by blast
  next
    case spent
    have "slots_ok (spend s)" using assms(2) by (simp add: slots_ok_def spend_def)
    with spent slots_worker_test show ?thesis by simp
  qed (use assms(2) in \<open>simp_all add: slots_ok_def set_defs\<close>)
next
  case (produce i choice)
  from produce(2) show ?thesis
  proof (cases rule: add_task_cases)
    case (put task p1)
    then show ?thesis using ring_put_fields [OF put(7)] assms(2) by (auto simp: slots_ok_def set_defs)
  next
    case (notify ws)
    then show ?thesis using length_signal [OF notify(4)] assms(2) by (simp add: slots_ok_def set_defs)
  qed (use assms(2) in \<open>simp_all add: slots_ok_def set_defs\<close>)
next
  case (admin choice absent refused)
  from admin(2) show ?thesis
  proof (cases rule: admin_cases)
    case (grow qs live busy s1)
    from grow_loop_result [OF grow(4)] grow_loop_slots [OF grow(4)] grow(5) assms(2) show ?thesis
      by (auto simp: slots_ok_def set_defs)
  next
    case (notify n ws)
    then show ?thesis using length_signal [OF notify(2)] assms(2) by (simp add: slots_ok_def set_defs)
  qed (use assms(2) in \<open>simp_all add: slots_ok_def set_defs\<close>)
next
  case destroy
  then show ?thesis using slots_destroy assms(2) by blast
qed (use assms(2) in \<open>simp_all add: slots_ok_def set_defs\<close>)

section \<open>A created pool\<close>

lemma spawn_all:
  assumes "foldE (\<lambda>i s. spawn i (i \<notin> set refused) s) [0..<n] s0 = Inr s"
  shows "\<exists>k ts. s = s0\<lparr>pool := (pool s0)\<lparr>threads := ts\<rparr>, workers := workers s0 @ replicate k W_Lock\<rparr>
    \<and> k \<le> n \<and> length ts = length (threads (pool s0)) \<and> n \<le> length ts"
  using assms
proof (induction n arbitrary: s)
  case 0
  then show ?case by (intro exI [of _ 0] exI [of _ "threads (pool s0)"]) simp
next
  case (Suc n)
  then obtain s1 where s1: "foldE (\<lambda>i s. spawn i (i \<notin> set refused) s) [0..<n] s0 = Inr s1"
    "spawn n (n \<notin> set refused) s1 = Inr s" by (auto simp: foldE_append res_simps)
  from Suc.IH [OF s1(1)] obtain k ts where IH: "s1 = s0\<lparr>pool := (pool s0)\<lparr>threads := ts\<rparr>, workers := workers s0 @ replicate k W_Lock\<rparr>"
    "k \<le> n" "length ts = length (threads (pool s0))" by blast
  note sp = spawn_result [OF s1(2)]
  show ?case
  proof (cases "n \<in> set refused")
    case True
    then show ?thesis using sp IH by (intro exI [of _ k] exI [of _ ts]) auto
  next
    case False
    then show ?thesis using sp IH
      by (intro exI [of _ "Suc k"] exI [of _ "ts[n := Suc (length (workers s1))]"])
        (auto simp: replicate_append_same)
  qed
qed

lemma spawn_all_slots:
  assumes "foldE (\<lambda>i s. spawn i (i \<notin> set refused) s) [0..<n] s0 = Inr s"
    and "\<forall>tid \<in> set (threads (pool s0)). tid \<le> length (workers s0)"
  shows "\<forall>tid \<in> set (threads (pool s)). tid \<le> length (workers s)"
  using assms
proof (induction n arbitrary: s)
  case (Suc n)
  then obtain s1 where s1: "foldE (\<lambda>i s. spawn i (i \<notin> set refused) s) [0..<n] s0 = Inr s1"
    "spawn n (n \<notin> set refused) s1 = Inr s" by (auto simp: foldE_append res_simps)
  from spawn_slots [OF s1(2) Suc.IH [OF s1(1) Suc.prems(2)]] show ?case .
qed simp

lemma create_result:
  assumes "threadpool_create E mn mx qm = Inr (Some s)"
  shows "0 \<le> mx \<and> 0 \<le> qm \<and> got_locks E
    \<and> foldE (\<lambda>i s. spawn i (i \<notin> set (refused_slots E)) s) [0..<nat mn] (fresh_pool E mn mx qm) = Inr s"
  using assms by (auto simp: threadpool_create_def res_simps split: if_splits)

definition pool_ok :: "sys \<Rightarrow> bool" where
  "pool_ok s \<longleftrightarrow> log_ok s \<and> hand_ok s \<and> threads_ok s \<and> lock_ok s \<and> slots_ok s"

lemma create_ok:
  assumes "threadpool_create E mn mx qm = Inr (Some s)" and "0 \<le> mn"
  shows "pool_ok s"
proof -
  note c = create_result [OF assms(1)]
  obtain k ts where s: "s = (fresh_pool E mn mx qm)\<lparr>pool := (pool (fresh_pool E mn mx qm))\<lparr>threads := ts\<rparr>,
      workers := workers (fresh_pool E mn mx qm) @ replicate k W_Lock\<rparr>"
    "k \<le> nat mn" "length ts = length (threads (pool (fresh_pool E mn mx qm)))" "nat mn \<le> length ts"
    using spawn_all c by blast
  have w: "workers (fresh_pool E mn mx qm) = []" "length (threads (pool (fresh_pool E mn mx qm))) = nat mx"
    by (simp_all add: fresh_pool_def)
  note s = s [unfolded w append_Nil]
  have "log_ok s" using c by (simp add: s(1) log_ok_def ring_ok_def queued_def fresh_pool_def)
  moreover have "hand_ok s" by (simp add: s(1) hand_ok_def fresh_pool_def sum_list_replicate)
  moreover have mn: "mn \<le> mx" "int k \<le> mn"
    using s(2,4) [unfolded s(3)] assms(2) conjunct1 [OF c] by simp_all
  have "threads_ok s" using mn
    by (simp add: s(1) threads_ok_def fresh_pool_def sum_list_replicate)
  moreover have "lock_ok s" by (auto simp: s(1) lock_ok_def sleeper_def fresh_pool_def split: agent.splits)
  moreover have "slots_ok s"
  proof -
    have "\<forall>tid \<in> set (threads (pool s)). tid \<le> length (workers s)"
      by (rule spawn_all_slots [of "refused_slots E" "nat mn" "fresh_pool E mn mx qm"]) (use c in simp, simp add: fresh_pool_def)
    then show ?thesis using s(3) by (simp add: s(1) slots_ok_def fresh_pool_def)
  qed
  ultimately show ?thesis by (simp add: pool_ok_def)
qed

lemma pool_ok_reachable: "reachable s0 s \<Longrightarrow> pool_ok s0 \<Longrightarrow> pool_ok s"
proof (induction rule: reachable.induct)
  case (step s e s')
  then show ?case unfolding pool_ok_def using log_step hand_step threads_step lock_step slots_step by blast
qed simp

end
