(* ===== verification/PoolLive.thy ===== *)
theory PoolLive
  imports PoolSafety
begin

text \<open>
  Progress of the pool: in a pool of fixed size no wake-up is lost, after the shutdown the queue is
  dropped and the workers that are not asleep leave, and the states in which the code's own
  notifications cannot free a thread any more.
\<close>

section \<open>What never changes\<close>

definition limits :: "sys \<Rightarrow> int \<times> int \<times> int" where
  "limits s = (min_thr_num (pool s), max_thr_num (pool s), queue_max_size (pool s))"

lemma limits_worker_test:
  assumes "worker_test t s = Inr (Some s')"
  shows "limits s' = limits s \<and> (shutdown (pool s) \<longrightarrow> shutdown (pool s') \<and> taken s' = taken s \<and> added s' = added s
    \<and> queued (pool s') = queued (pool s))"
  using assms
proof (cases rule: worker_test_cases)
  case (take task p1)
  then show ?thesis using ring_take_fields [OF take(3)] by (auto simp: limits_def set_defs)
qed (simp_all add: limits_def set_defs)

text \<open>Limits stay; once shut down, nothing is added, nothing is taken, and the ring keeps what it holds.\<close>

lemma limits_step:
  assumes "exec e s = Inr (Some s')"
  shows "limits s' = limits s \<and> (shutdown (pool s) \<longrightarrow> shutdown (pool s') \<and> taken s' = taken s \<and> added s' = added s
    \<and> queued (pool s') = queued (pool s))"
  using assms
proof (cases rule: exec_cases)
  case (work t)
  from work(2) show ?thesis
  proof (cases rule: thread_cases)
    case test
    then show ?thesis using limits_worker_test by blast
  next
    case spent
    from limits_worker_test [OF spent(7)] show ?thesis by (simp add: limits_def spend_def)
  qed (simp_all add: limits_def set_defs)
next
  case (produce i choice)
  from produce(2) show ?thesis
  proof (cases rule: add_task_cases)
    case (put task p1)
    then show ?thesis using ring_put_fields [OF put(7)] by (auto simp: limits_def set_defs)
  qed (simp_all add: limits_def set_defs)
next
  case (admin choice absent refused)
  from admin(2) show ?thesis
  proof (cases rule: admin_cases)
    case (grow qs live busy s1)
    from grow_loop_result [OF grow(4)] grow(5) show ?thesis by (auto simp: limits_def set_defs)
  qed (simp_all add: limits_def set_defs)
next
  case destroy
  from destroy(2) show ?thesis by (cases rule: destroy_cases) (simp_all add: limits_def set_defs)
qed (simp_all add: limits_def set_defs)

lemma limits_reachable: "reachable s0 s \<Longrightarrow> limits s = limits s0"
  by (induction rule: reachable.induct) (simp_all add: limits_step)

section \<open>No lost wake-up in a pool of fixed size\<close>

fun awake :: "worker \<Rightarrow> bool" where
  "awake W_Sleepy = False"
| "awake W_Wait = False"
| "awake W_Gone = False"
| "awake w = True"

definition wake_ok :: "sys \<Rightarrow> bool" where
  "wake_ok s \<longleftrightarrow> (0 < queue_size (pool s) \<and> \<not> shutdown (pool s) \<and> W_Wait \<in> set (workers s) \<longrightarrow>
     (\<exists>w \<in> set (workers s). awake w) \<or> P_Signal \<in> set (producers s))"

lemma wake_awake: "t < length (workers s) \<Longrightarrow> awake w \<Longrightarrow> workers s' = (workers s)[t := w] \<Longrightarrow> wake_ok s'"
  by (metis length_list_update nth_list_update_eq nth_mem wake_ok_def)

lemma wake_same:
  assumes "wake_ok s" and "workers s' = workers s" and "queue_size (pool s') = queue_size (pool s)"
    and "shutdown (pool s) \<longrightarrow> shutdown (pool s')" and "P_Signal \<in> set (producers s) \<longrightarrow> P_Signal \<in> set (producers s')"
  shows "wake_ok s'"
  using assms by (auto simp: wake_ok_def)

lemma signal_kept: "i < length ps \<Longrightarrow> ps ! i \<noteq> P_Signal \<Longrightarrow> P_Signal \<in> set ps \<Longrightarrow> P_Signal \<in> set (ps[i := q])"
  by (metis in_set_conv_nth length_list_update nth_list_update_neq)

lemma wake_worker_test:
  assumes "worker_test t s = Inr (Some s')" and "t < length (workers s)"
  shows "wake_ok s'"
  using assms(1)
proof (cases rule: worker_test_cases)
  case (take task p1)
  then show ?thesis using assms(2) by (intro wake_awake [of t s "W_Taken task"]) (simp_all add: set_defs)
qed (simp_all add: wake_ok_def set_defs)

lemma wake_step:
  assumes "exec e s = Inr (Some s')" and "wake_ok s" and "lock_ok s" and "threads_ok s"
    and "min_thr_num (pool s) = max_thr_num (pool s)"
  shows "wake_ok s'"
  using assms(1)
proof (cases rule: exec_cases)
  case (work t)
  from work(2) show ?thesis
  proof (cases rule: thread_cases)
    case test
    then show ?thesis using wake_worker_test by blast
  next
    case spent
    then show ?thesis using wake_worker_test [of t "spend s"] by (simp add: spend_def)
  next
    case leave
    then show ?thesis using assms(4,5) by (simp add: threads_ok_def)
  next
    case sleep
    then have "sleeper (Worker t) s" by (simp add: sleeper_def)
    with assms(3) have "queue_size (pool s) = 0" by (auto simp: lock_ok_def)
    then show ?thesis using sleep by (simp add: wake_ok_def set_defs)
  next
    case (begin_task task)
    then show ?thesis by (intro wake_awake [of t s "W_Run task"]) (simp_all add: set_defs)
  next
    case (run task)
    then show ?thesis by (intro wake_awake [of t s "W_Finish task"]) (simp_all add: set_defs)
  next
    case (finish task)
    then show ?thesis by (intro wake_awake [of t s W_Lock]) (simp_all add: set_defs)
  qed
next
  case (spurious t)
  then show ?thesis by (intro wake_awake [of t s W_Woken]) (simp_all add: set_defs)
next
  case (produce i choice)
  from produce(2) show ?thesis
  proof (cases rule: add_task_cases)
    case (put task p1)
    then have "P_Signal \<in> set (producers s')" by (simp add: set_defs set_update_memI)
    then show ?thesis by (simp add: wake_ok_def)
  next
    case (notify ws)
    from notify(4) show ?thesis
    proof (cases rule: signal_cases)
      case nobody
      then show ?thesis using notify by (simp add: wake_ok_def set_defs)
    next
      case (one t)
      then show ?thesis using notify by (intro wake_awake [of t s W_Woken]) (simp_all add: set_defs)
    qed
  qed (use signal_kept in \<open>auto intro!: wake_same [OF assms(2)] simp: set_defs\<close>)
next
  case (admin choice absent refused)
  from admin(2) show ?thesis
  proof (cases rule: admin_cases)
    case (grow qs live busy s1)
    from grow_loop_result [OF grow(4)] obtain k where k: "workers s1 = workers s @ replicate k W_Lock"
      "producers s1 = producers s" "queue_size (pool s1) = queue_size (pool s)" "shutdown (pool s1) = shutdown (pool s)" by auto
    show ?thesis
    proof (cases k)
      case 0
      then show ?thesis using k grow(5) by (intro wake_same [OF assms(2)]) (simp_all add: set_defs)
    next
      case (Suc k')
      then have "W_Lock \<in> set (workers s')" using k grow(5) by (simp add: set_defs)
      then show ?thesis unfolding wake_ok_def using awake.simps(4) by blast
    qed
  next
    case (notify n ws)
    from notify(2) show ?thesis
    proof (cases rule: signal_cases)
      case nobody
      then show ?thesis using notify by (simp add: wake_ok_def set_defs)
    next
      case (one t)
      then show ?thesis using notify by (intro wake_awake [of t s W_Woken]) (simp_all add: set_defs)
    qed
  qed (auto intro!: wake_same [OF assms(2)] simp: set_defs)
next
  case destroy
  from destroy(2) show ?thesis
  proof (cases rule: destroy_cases)
    case (broadcast i)
    have "wake_worker w \<noteq> W_Wait" for w by (cases w) simp_all
    then have "W_Wait \<notin> set (workers s')" using broadcast by (auto simp: set_defs dest: sym)
    then show ?thesis by (simp add: wake_ok_def)
  qed (auto intro!: wake_same [OF assms(2)] simp: set_defs)
qed (use signal_kept in \<open>auto intro!: wake_same [OF assms(2)] simp: set_defs\<close>)

section \<open>Stranded callers, and the end of the workers\<close>

text \<open>
  The only notification of \<^verbatim>\<open>queue_not_full\<close> is the one of a worker that takes a task, and after the
  shutdown no worker takes one.
\<close>

lemma waiting_worker_test:
  assumes "worker_test t s = Inr (Some s')" and "shutdown (pool s)"
  shows "producers s' = producers s"
  using assms by (auto simp: worker_test_def Let_def set_defs)

lemma waiting_step:
  assumes "exec e s = Inr (Some s')" and "shutdown (pool s)" and "e \<noteq> Spurious_producer i"
    and "i < length (producers s)" and "producers s ! i = P_Wait task"
  shows "i < length (producers s') \<and> producers s' ! i = P_Wait task"
  using assms(1)
proof (cases rule: exec_cases)
  case (work t)
  from work(2) show ?thesis
  proof (cases rule: thread_cases)
    case test
    then show ?thesis using waiting_worker_test assms by simp
  next
    case spent
    then show ?thesis using waiting_worker_test [OF spent(7)] assms by (simp add: spend_def)
  qed (use assms in \<open>simp_all add: set_defs\<close>)
next
  case (enter j task)
  then show ?thesis using assms by (cases "j = i") (simp_all add: set_defs)
next
  case (spurious_producer j task)
  then show ?thesis using assms by (cases "j = i") (simp_all add: set_defs)
next
  case (produce j choice)
  from produce(2) show ?thesis
    by (cases rule: add_task_cases; cases "j = i") (use assms in \<open>simp_all add: set_defs\<close>)
next
  case (admin choice absent refused)
  from admin(2) show ?thesis
  proof (cases rule: admin_cases)
    case (grow qs live busy s1)
    from grow_loop_result [OF grow(4)] grow(5) assms show ?thesis by (auto simp: set_defs)
  qed (use assms in \<open>simp_all add: set_defs\<close>)
next
  case destroy
  from destroy(2) show ?thesis by (cases rule: destroy_cases) (use assms in \<open>simp_all add: set_defs\<close>)
qed (use assms in \<open>simp_all add: set_defs\<close>)

lemma pool_run_Cons:
  "pool_run (e # es) s = Inr (Some s') \<longleftrightarrow> (\<exists>s1. exec e s = Inr (Some s1) \<and> pool_run es s1 = Inr (Some s'))"
  by (auto simp: res_simps split: option.splits)

declare pool_run.simps(2) [simp del]

text \<open>How many steps a worker still makes once the pool is shut down.\<close>

fun steps_left :: "worker \<Rightarrow> nat" where
  "steps_left W_Gone = 0"
| "steps_left W_Lock = 1"
| "steps_left W_Woken = 1"
| "steps_left W_Wait = 2"
| "steps_left (W_Finish task) = 2"
| "steps_left W_Sleepy = 3"
| "steps_left (W_Run task) = 3"
| "steps_left (W_Taken task) = 4"

fun of_worker :: "event \<Rightarrow> bool" where
  "of_worker (Work t) = True"
| "of_worker (Spurious t) = True"
| "of_worker e = False"

definition all_left :: "sys \<Rightarrow> nat" where
  "all_left s = sum_list (map steps_left (workers s))"

lemma all_left_move:
  "t < length (workers s) \<Longrightarrow> steps_left w < steps_left (workers s ! t) \<Longrightarrow> workers s' = (workers s)[t := w]
    \<Longrightarrow> all_left s' < all_left s"
  using sum_list_map_update [of t "workers s" steps_left w] by (simp add: all_left_def)

lemma all_left_wake: "sum_list (map steps_left (map wake_worker ws)) \<le> sum_list (map steps_left ws)"
proof (induction ws)
  case (Cons w ws)
  then show ?case by (cases w) simp_all
qed simp

lemma all_left_signal:
  assumes "signal choice (workers s) = Some ws" and "workers s' = ws"
  shows "all_left s' \<le> all_left s"
  using assms(1)
proof (cases rule: signal_cases)
  case (one t)
  then show ?thesis using all_left_move [of t s W_Woken s'] assms(2) by simp
qed (simp add: all_left_def assms(2))

lemma left_worker_test:
  assumes "worker_test t s = Inr (Some s')" and "shutdown (pool s)" and "t < length (workers s)"
    and "workers s ! t \<in> {W_Lock, W_Woken}"
  shows "all_left s' < all_left s"
  using assms by (intro all_left_move [of t s W_Gone]) (auto simp: worker_test_def Let_def set_defs)

lemma left_step:
  assumes "exec e s = Inr (Some s')" and "shutdown (pool s)" and "admin_pc s = A_Gone"
  shows "admin_pc s' = A_Gone \<and> all_left s' + of_bool (of_worker e) \<le> all_left s"
  using assms(1)
proof (cases rule: exec_cases)
  case (work t)
  from work(2) have "all_left s' < all_left s"
  proof (cases rule: thread_cases)
    case test
    then show ?thesis using left_worker_test assms(2) by blast
  next
    case spent
    then show ?thesis using left_worker_test [OF spent(7)] assms(2) by (simp add: spend_def all_left_def)
  next
    case leave
    then show ?thesis by (intro all_left_move [of t s W_Gone]) (simp_all add: set_defs)
  next
    case sleep
    then show ?thesis by (intro all_left_move [of t s W_Wait]) (simp_all add: set_defs)
  next
    case (begin_task task)
    then show ?thesis by (intro all_left_move [of t s "W_Run task"]) (simp_all add: set_defs)
  next
    case (run task)
    then show ?thesis by (intro all_left_move [of t s "W_Finish task"]) (simp_all add: set_defs)
  next
    case (finish task)
    then show ?thesis by (intro all_left_move [of t s W_Lock]) (simp_all add: set_defs)
  qed
  moreover have "admin_pc s' = A_Gone"
    using work(2) assms(3)
    by (cases rule: thread_cases) (auto simp: set_defs worker_test_def Let_def bindE_Inr_iff split: if_splits prod.splits)
  ultimately show ?thesis using work by simp
next
  case (spurious t)
  then show ?thesis using all_left_move [of t s W_Woken s'] assms(3) by (simp add: set_defs)
next
  case (produce i choice)
  from produce(2) show ?thesis
  proof (cases rule: add_task_cases)
    case (notify ws)
    then show ?thesis using all_left_signal [of choice s ws s'] produce assms(3) by (simp add: set_defs)
  qed (use produce assms(3) in \<open>simp_all add: set_defs all_left_def\<close>)
next
  case (admin choice absent refused)
  then show ?thesis using assms(3) by (simp add: admin_thread_def Let_def)
next
  case destroy
  from destroy(2) show ?thesis
  proof (cases rule: destroy_cases)
    case (broadcast i)
    then show ?thesis using all_left_wake [of "workers s"] destroy(1) assms(3)
      by (simp add: set_defs all_left_def del: map_map)
  qed (use destroy(1) assms(3) in \<open>simp_all add: set_defs all_left_def\<close>)
qed (use assms(3) in \<open>simp_all add: set_defs all_left_def\<close>)

end
