(* ===== verification/PoolProperties.thy ===== *)
theory PoolProperties
  imports PoolLive
begin

text \<open>
  The properties of the thread pool, with the runs that show them at work: concrete sequences of
  steps from \<^verbatim>\<open>threadpool_create\<close>, evaluated by the simplifier.
\<close>

section \<open>Concrete runs\<close>

definition job :: "nat \<Rightarrow> threadpool_task_t" where
  "job n = \<lparr>task_function = 1, task_arg = of_nat n\<rparr>"

definition working_env :: "nat \<Rightarrow> creation" where
  "working_env n = \<lparr>got_pool = True, got_threads = True, got_queue = True, got_locks = True, junk_pointer = Null,
     junk_tasks = [], refused_slots = [], callers = n\<rparr>"

fun scenario :: "sys option res \<Rightarrow> event list \<Rightarrow> sys option res" where
  "scenario (Inr (Some s)) es = pool_run es s"
| "scenario r es = r"

definition ends :: "(sys \<Rightarrow> bool) \<Rightarrow> sys option res \<Rightarrow> bool" where
  "ends P r = (case r of Inr (Some s) \<Rightarrow> P s | _ \<Rightarrow> False)"

lemma ends_scenario:
  assumes "ends P (scenario (threadpool_create E mn mx qm) es)"
  obtains s0 s where "threadpool_create E mn mx qm = Inr (Some s0)" "pool_run es s0 = Inr (Some s)"
    "reachable s0 s" "P s"
proof -
  obtain s0 where s0: "threadpool_create E mn mx qm = Inr (Some s0)"
    using assms by (cases "(threadpool_create E mn mx qm, es)" rule: scenario.cases) (auto simp: ends_def)
  then obtain s where "pool_run es s0 = Inr (Some s)" "P s"
    using assms by (auto simp: ends_def split: sum.splits option.splits)
  with s0 that pool_run_reachable [OF _ reachable.start] show thesis by blast
qed

lemma create_limits: "threadpool_create E mn mx qm = Inr (Some s0) \<Longrightarrow> reachable s0 s \<Longrightarrow> limits s = (mn, mx, qm)"
  using create_result spawn_all limits_reachable by (fastforce simp: fresh_pool_def limits_def)

text \<open>One caller adds ten tasks while no worker waits; one turn of the administrator.\<close>

definition add_ten :: "event list" where
  "add_ten = concat (map (\<lambda>n. [Call 0 (job n), Produce 0 None, Produce 0 None]) [0..<10])"

definition admin_turn :: "nat list \<Rightarrow> event list" where
  "admin_turn absent = replicate 5 (Admin None absent [])"

text \<open>A pool of one to two workers grows, works, and shrinks again: worker 0 leaves, worker 1 still runs a task.\<close>

definition shrunk_run :: "event list" where
  "shrunk_run = add_ten @ admin_turn [] @ concat (replicate 9 (replicate 4 (Work 1))) @ [Work 1, Work 0, Work 0]
     @ admin_turn [] @ [Admin (Some 0) [] [], Work 0] @ replicate 10 (Admin None [] [])"

section \<open>Order and accounting of the tasks\<close>

text \<open>
  C5: in every state a created pool can reach, by any interleaving of workers, callers, administrator
  and destroyer, the tasks taken by workers are the tasks added, in the order they were added, and
  the ones not yet taken are exactly the contents of the ring, which never holds more than its size.
\<close>

theorem pool_queue_order:
  assumes "threadpool_create E mn mx qm = Inr (Some s0)" and "0 \<le> mn" and "reachable s0 s"
  shows "taken s @ queued (pool s) = added s \<and> int (length (queued (pool s))) \<le> qm"
proof -
  have ok: "pool_ok s" using pool_ok_reachable create_ok assms by blast
  have "queue_max_size (pool s) = qm" using create_limits [OF assms(1,3)] by (simp add: limits_def)
  then show ?thesis using ok by (auto simp: pool_ok_def log_ok_def ring_ok_def)
qed

lemma shrunk_run_ends: "ends (\<lambda>s. length (taken s) = 10 \<and> queued (pool s) = [] \<and> live_thr_num (pool s) = 1
    \<and> wait_exit_thr_num (pool s) = 9 \<and> workers s = [W_Gone, W_Taken (job 9)] \<and> length (finished s) = 9)
  (scenario (threadpool_create (working_env 1) 1 2 10) shrunk_run)"
  by code_simp

theorem pool_queue_order_witness:
  "\<exists>s0 s. threadpool_create (working_env 1) 1 2 10 = Inr (Some s0) \<and> reachable s0 s \<and> length (taken s) = 10 \<and> taken s = added s"
proof -
  from shrunk_run_ends obtain s0 s where s: "threadpool_create (working_env 1) 1 2 10 = Inr (Some s0)" "reachable s0 s"
    "length (taken s) = 10 \<and> queued (pool s) = []" by (elim ends_scenario) blast
  from pool_queue_order [OF s(1) _ s(2)] s show ?thesis by auto
qed

text \<open>
  C7: every task that was added is in exactly one place: in the ring, in the hands of one worker, or
  finished; and \<^verbatim>\<open>busy_thr_num\<close> counts the workers between their two updates of it.
\<close>

theorem pool_tasks_accounted:
  assumes "threadpool_create E mn mx qm = Inr (Some s0)" and "0 \<le> mn" and "reachable s0 s"
  shows "mset (added s) = mset (queued (pool s)) + sum_list (map in_hand (workers s)) + mset (finished s)
    \<and> busy_thr_num (pool s) = int (length (filter (\<lambda>w. working w = 1) (workers s)))"
proof -
  have ok: "log_ok s" "hand_ok s" using pool_ok_reachable create_ok assms by (auto simp: pool_ok_def)
  have "sum_list (map working ws) = int (length (filter (\<lambda>w. working w = 1) ws))" for ws
  proof (induction ws)
    case (Cons w ws)
    then show ?case by (cases w) simp_all
  qed simp
  moreover have "mset (added s) = mset (taken s) + mset (queued (pool s))" using ok(1) by (metis log_ok_def mset_append)
  ultimately show ?thesis using ok(2) by (simp add: hand_ok_def ac_simps)
qed

theorem pool_tasks_accounted_witness:
  "\<exists>s0 s. threadpool_create (working_env 1) 1 2 10 = Inr (Some s0) \<and> reachable s0 s
    \<and> mset (added s) = add_mset (job 9) (mset (finished s)) \<and> length (finished s) = 9"
proof -
  from shrunk_run_ends obtain s0 s where s: "threadpool_create (working_env 1) 1 2 10 = Inr (Some s0)" "reachable s0 s"
    "queued (pool s) = [] \<and> workers s = [W_Gone, W_Taken (job 9)] \<and> length (finished s) = 9"
    by (elim ends_scenario) blast
  from pool_tasks_accounted [OF s(1) _ s(2)] s show ?thesis by auto
qed

section \<open>Bounds\<close>

text \<open>
  C11: the number of workers that have not ended never exceeds \<^verbatim>\<open>live_thr_num\<close>, which stays between
  the two limits of the pool even when the administrator acts on an old reading of it, and
  \<^verbatim>\<open>wait_exit_thr_num\<close> stays between 0 and ten.
\<close>

theorem pool_thread_bounds:
  assumes "threadpool_create E mn mx qm = Inr (Some s0)" and "0 \<le> mn" and "reachable s0 s"
  shows "int (length (filter (\<lambda>w. w \<noteq> W_Gone) (workers s))) \<le> live_thr_num (pool s)
    \<and> mn \<le> live_thr_num (pool s) \<and> live_thr_num (pool s) \<le> mx
    \<and> 0 \<le> wait_exit_thr_num (pool s) \<and> wait_exit_thr_num (pool s) \<le> 10"
proof -
  have ok: "threads_ok s" using pool_ok_reachable create_ok assms by (auto simp: pool_ok_def)
  have "min_thr_num (pool s) = mn \<and> max_thr_num (pool s) = mx"
    using create_limits [OF assms(1,3)] by (simp add: limits_def)
  moreover have "sum_list (map present ws) = int (length (filter (\<lambda>w. w \<noteq> W_Gone) ws))" for ws
  proof (induction ws)
    case (Cons w ws)
    then show ?case by (cases w) simp_all
  qed simp
  ultimately show ?thesis using ok by (simp add: threads_ok_def DEFAULT_THREAD_NUM_def)
qed

theorem pool_thread_bounds_witness:
  "\<exists>s0 s. threadpool_create (working_env 1) 1 2 10 = Inr (Some s0) \<and> reachable s0 s
    \<and> workers s = [W_Gone, W_Taken (job 9)] \<and> 1 \<le> live_thr_num (pool s) \<and> live_thr_num (pool s) \<le> 2"
proof -
  from shrunk_run_ends obtain s0 s where s: "threadpool_create (working_env 1) 1 2 10 = Inr (Some s0)" "reachable s0 s"
    "workers s = [W_Gone, W_Taken (job 9)]" by (elim ends_scenario) blast
  from pool_thread_bounds [OF s(1) _ s(2)] s show ?thesis by auto
qed

section \<open>Faults\<close>

lemma worker_test_total:
  assumes "ring_ok (pool s)"
  shows "worker_test t s \<noteq> Inl f"
proof
  assume "worker_test t s = Inl f"
  then have "queue_size (pool s) \<noteq> 0" "ring_take (pool s) = Inl f"
    by (auto simp: worker_test_def Let_def res_simps split: if_splits)
  with ring_take_ok [OF assms] assms show False by (auto simp: ring_ok_def)
qed

lemma grow_loop_total:
  assumes "\<forall>i \<in> set is. i < length (threads (pool s))"
  shows "\<exists>s1. grow_loop absent refused is add s = Inr s1"
  using assms
proof (induction "is" arbitrary: add s)
  case (Cons i "is")
  have "\<exists>s1. spawn i (i \<notin> set refused) s = Inr s1" using Cons.prems by (simp add: spawn_def st_def)
  then obtain s1 where s1: "spawn i (i \<notin> set refused) s = Inr s1" ..
  have "length (threads (pool s1)) = length (threads (pool s))" using spawn_result [OF s1] by auto
  with Cons.prems Cons.IH [of "s1\<lparr>pool := (pool s1)\<lparr>live_thr_num := live_thr_num (pool s1) + 1\<rparr>\<rparr>" "Suc add"] Cons.IH [of s add]
  show ?case by (auto simp: ld_def s1)
qed simp

lemma thread_faults:
  assumes "threadpool_thread t s = Inl f" and "ring_ok (pool s)"
  shows "freed s \<and> f = UseAfterFree"
proof -
  have woken: "worker_woken t s \<noteq> Inl e" for e
    using worker_test_total [OF assms(2)] worker_test_total [of "spend s"] assms(2)
    by (simp add: worker_woken_def Let_def spend_def)
  show ?thesis using assms woken worker_test_total
    by (auto simp: threadpool_thread_def locking_def guarded_def split: if_splits worker.splits)
qed

lemma add_task_faults:
  assumes "threadpool_add_task i choice s = Inl f" and "ring_ok (pool s)"
  shows "freed s \<and> f = UseAfterFree"
proof -
  have "ring_put task (pool s) \<noteq> Inl e" if "queue_size (pool s) \<noteq> queue_max_size (pool s)" for task e
    using ring_put_ok [OF assms(2), of task] that assms(2) by (auto simp: ring_ok_def)
  then show ?thesis using assms
    by (auto simp: threadpool_add_task_def locking_def guarded_def Let_def res_simps split: if_splits producer.splits option.splits)
qed

lemma admin_faults:
  assumes "admin_thread choice absent refused s = Inl f" and "slots_ok s"
  shows "freed s \<and> f = UseAfterFree"
proof -
  have "grow_loop absent refused [0..<nat (max_thr_num (pool s))] 0 s \<noteq> Inl e" for e
    using grow_loop_total [of "[0..<nat (max_thr_num (pool s))]" s absent refused 0] assms(2) by (auto simp: slots_ok_def)
  then show ?thesis using assms(1)
    by (auto simp: admin_thread_def locking_def guarded_def Let_def res_simps split: if_splits admin.splits nat.splits option.splits)
qed

lemma destroy_faults:
  assumes "threadpool_destroy s = Inl f" and "slots_ok s" and "threads_ok s"
  shows "freed s \<and> f = UseAfterFree \<or> f = NullDeref \<and> (\<exists>i. destroyer_pc s = D_Join i \<and> threads (pool s) ! nat i = 0)"
proof (cases "destroyer_pc s")
  case (D_Join i)
  with assms(1) have i: "i < live_thr_num (pool s)" "join_slot (nat i) s = Inl f"
    by (auto simp: threadpool_destroy_def res_simps split: if_splits)
  have "nat i < length (threads (pool s))" using i(1) assms(2,3) D_Join by (simp add: slots_ok_def threads_ok_def)
  moreover have "threads (pool s) ! nat i \<le> length (workers s)" using calculation assms(2) by (simp add: slots_ok_def)
  ultimately show ?thesis using i(2) D_Join by (auto simp: join_slot_def ld_def split: if_splits)
qed (use assms(1) in \<open>auto simp: threadpool_destroy_def locking_def guarded_def threadpool_free_def split: if_splits\<close>)

text \<open>
  C16: the code reads the ring and the array of threads only within their bounds and never divides by
  zero; a created pool can only fault in two ways: a thread uses the pool after \<^verbatim>\<open>threadpool_destroy\<close>
  has freed it, or \<^verbatim>\<open>threadpool_destroy\<close> joins a slot without a thread.
\<close>

theorem pool_faults:
  assumes "threadpool_create E mn mx qm = Inr (Some s0)" and "0 \<le> mn" and "reachable s0 s" and "exec e s = Inl f"
  shows "freed s \<and> f = UseAfterFree
    \<or> f = NullDeref \<and> e = Destroy \<and> (\<exists>i. destroyer_pc s = D_Join i \<and> threads (pool s) ! nat i = 0)"
proof -
  have ok: "ring_ok (pool s)" "slots_ok s" "threads_ok s"
    using pool_ok_reachable create_ok assms by (auto simp: pool_ok_def log_ok_def)
  then show ?thesis using assms(4) thread_faults add_task_faults admin_faults destroy_faults
    by (cases e) (auto simp: exec_def)
qed

text \<open>
  The same pool destroyed: worker 0 has ended in slot 0, \<^verbatim>\<open>live_thr_num\<close> is 1, so only slot 0 is
  joined and worker 1 is still at its task when the pool is freed.
\<close>

definition destroy_run :: "event list" where
  "destroy_run = [Destroy, Admin None [] [], Destroy, Destroy, Destroy, Destroy, Destroy, Destroy]"

lemma destroyed_ends: "ends (\<lambda>s. freed s \<and> destroyer_pc s = D_Return \<and> exec (Work 1) s = Inl UseAfterFree)
  (scenario (threadpool_create (working_env 1) 1 2 10) (shrunk_run @ destroy_run))"
  by code_simp

theorem pool_faults_witness:
  "\<exists>s0 s. threadpool_create (working_env 1) 1 2 10 = Inr (Some s0) \<and> reachable s0 s \<and> exec (Work 1) s = Inl UseAfterFree \<and> freed s"
proof -
  from destroyed_ends obtain s0 s where s: "threadpool_create (working_env 1) 1 2 10 = Inr (Some s0)" "reachable s0 s"
    "exec (Work 1) s = Inl UseAfterFree" by (elim ends_scenario) blast
  from pool_faults [OF s(1) _ s(2,3)] s show ?thesis by auto
qed

text \<open>
  \<^verbatim>\<open>threadpool_destroy\<close> can free the pool under a running worker. It joins the first
  \<^verbatim>\<open>live_thr_num\<close> slots, and after the pool has shrunk these are not the slots of the live threads.
\<close>

theorem destroy_frees_under_worker:
  "\<exists>s0 s. threadpool_create (working_env 1) 1 2 10 = Inr (Some s0) \<and> reachable s0 s
    \<and> destroyer_pc s = D_Return \<and> exec (Work 1) s = Inl UseAfterFree"
proof -
  from destroyed_ends show ?thesis by (elim ends_scenario) blast
qed

section \<open>Wake-ups\<close>

text \<open>
  C19: in a pool of fixed size no wake-up is lost: while it is not shut down, whenever a worker waits
  although tasks are queued, another worker is on its way to the queue or a caller is about to
  signal.
\<close>

theorem no_lost_wakeup:
  assumes "threadpool_create E n n qm = Inr (Some s0)" and "0 \<le> n" and "reachable s0 s"
    and "0 < queue_size (pool s)" and "\<not> shutdown (pool s)" and "W_Wait \<in> set (workers s)"
  shows "(\<exists>w \<in> set (workers s). awake w) \<or> P_Signal \<in> set (producers s)"
proof -
  have "wake_ok s" using assms(3)
  proof (induction rule: reachable.induct)
    case start
    then show ?case using create_result [OF assms(1)] spawn_all by (fastforce simp: wake_ok_def fresh_pool_def)
  next
    case (step s e s')
    then have "pool_ok s" using pool_ok_reachable create_ok assms by blast
    moreover have "min_thr_num (pool s) = max_thr_num (pool s)"
      using create_limits [OF assms(1) step(1)] by (simp add: limits_def)
    ultimately show ?case using wake_step [OF step(2) step(3)] by (simp add: pool_ok_def)
  qed
  then show ?thesis using assms(4-6) by (simp add: wake_ok_def)
qed

lemma signal_pending_ends: "ends (\<lambda>s. queue_size (pool s) = 1 \<and> \<not> shutdown (pool s) \<and> workers s = [W_Wait]
    \<and> producers s = [P_Signal])
  (scenario (threadpool_create (working_env 1) 1 1 10) [Work 0, Work 0, Call 0 (job 0), Produce 0 None])"
  by code_simp

theorem no_lost_wakeup_witness:
  "\<exists>s0 s. threadpool_create (working_env 1) 1 1 10 = Inr (Some s0) \<and> reachable s0 s \<and> workers s = [W_Wait]
    \<and> P_Signal \<in> set (producers s)"
proof -
  from signal_pending_ends obtain s0 s where s: "threadpool_create (working_env 1) 1 1 10 = Inr (Some s0)" "reachable s0 s"
    "queue_size (pool s) = 1 \<and> \<not> shutdown (pool s) \<and> workers s = [W_Wait]" by (elim ends_scenario) blast
  from no_lost_wakeup [OF s(1) _ s(2)] s show ?thesis by auto
qed

text \<open>
  The pool of the shrunk run, still with nine exits wanted, grows again and then runs out of work:
  both workers wait. The next task wakes worker 1, which leaves instead of taking it.
\<close>

definition stalled_run :: "event list" where
  "stalled_run = shrunk_run @ add_ten @ admin_turn [1] @ [Work 1, Work 1, Work 1] @ concat (replicate 10 (replicate 4 (Work 1)))
     @ [Work 1, Work 1, Work 2, Work 2, Call 0 (job 10), Produce 0 None, Produce 0 (Some 1), Work 1]"

text \<open>
  when the limits differ a wake-up can be lost for good: a task is queued, the only live worker
  waits, no signal is pending, and the administrator's turns leave this state as it is. The exits
  wanted by an earlier reduction are still counted and take the worker that the task had woken.
\<close>

theorem stale_exit_stalls_task:
  "\<exists>s0 s. threadpool_create (working_env 1) 1 2 10 = Inr (Some s0) \<and> reachable s0 s \<and> \<not> shutdown (pool s)
    \<and> queued (pool s) = [job 10] \<and> workers s = [W_Gone, W_Gone, W_Wait] \<and> producers s = [P_Idle (Some 0)]
    \<and> pool_run (admin_turn []) s = Inr (Some s)"
proof -
  have "ends (\<lambda>s. \<not> shutdown (pool s) \<and> queued (pool s) = [job 10] \<and> workers s = [W_Gone, W_Gone, W_Wait]
      \<and> producers s = [P_Idle (Some 0)] \<and> pool_run (admin_turn []) s = Inr (Some s))
    (scenario (threadpool_create (working_env 1) 1 2 10) stalled_run)"
    by code_simp
  then show ?thesis by (elim ends_scenario) blast
qed

section \<open>Shutting down\<close>

text \<open>
  from the moment \<^verbatim>\<open>shutdown\<close> is set no task is taken and none is added, whatever steps follow: the
  tasks still in the ring are never run.
\<close>

theorem shutdown_drops_queue:
  assumes "pool_run es s = Inr (Some s')" and "shutdown (pool s)"
  shows "shutdown (pool s') \<and> taken s' = taken s \<and> added s' = added s \<and> queued (pool s') = queued (pool s)"
  using assms
proof (induction es arbitrary: s)
  case (Cons e es)
  then obtain s1 where "exec e s = Inr (Some s1)" "pool_run es s1 = Inr (Some s')" by (auto simp: pool_run_Cons)
  with Cons limits_step [of e s s1] show ?case by auto
qed simp

text \<open>A pool with one place in its ring: caller 0 fills it, caller 1 waits, and the pool is destroyed.\<close>

definition full_run :: "event list" where
  "full_run = [Call 0 (job 0), Produce 0 None, Produce 0 None, Call 1 (job 1), Produce 1 None, Produce 1 None, Destroy]"

definition leaving_run :: "event list" where
  "leaving_run = [Admin None [] [], Destroy, Destroy, Destroy, Work 0, Destroy, Destroy, Destroy]"

lemma full_run_ends:
  "ends (\<lambda>s. shutdown (pool s) \<and> queued (pool s) = [job 0] \<and> producers s = [P_Idle (Some 0), P_Wait (job 1)]
      \<and> workers s = [W_Lock] \<and> ends (\<lambda>s'. freed s' \<and> workers s' = [W_Gone]) (pool_run leaving_run s))
    (scenario (threadpool_create (working_env 2) 1 1 1) full_run)"
  by code_simp

lemma ends_run: "ends P (pool_run es s) \<Longrightarrow> \<exists>s'. pool_run es s = Inr (Some s') \<and> P s'"
  by (auto simp: ends_def split: sum.splits option.splits)

theorem shutdown_drops_queue_witness:
  "\<exists>s s'. pool_run leaving_run s = Inr (Some s') \<and> freed s' \<and> queued (pool s') = [job 0] \<and> taken s' = taken s"
proof -
  from full_run_ends obtain s where "shutdown (pool s) \<and> queued (pool s) = [job 0]
    \<and> ends (\<lambda>s'. freed s' \<and> workers s' = [W_Gone]) (pool_run leaving_run s)" by (elim ends_scenario) blast
  then obtain s' where "pool_run leaving_run s = Inr (Some s')" "shutdown (pool s)" "freed s'" "queued (pool s) = [job 0]"
    using ends_run by blast
  with shutdown_drops_queue show ?thesis by fastforce
qed

text \<open>
  a caller that waits for room when the pool is shut down is never notified: whatever the other
  threads do, it still waits, even after the pool has been freed; only a spurious wake-up moves it.
\<close>

theorem shutdown_strands_caller:
  assumes "pool_run es s = Inr (Some s')" and "shutdown (pool s)" and "Spurious_producer i \<notin> set es"
    and "i < length (producers s)" and "producers s ! i = P_Wait task"
  shows "producers s' ! i = P_Wait task"
  using assms
proof (induction es arbitrary: s)
  case (Cons e es)
  then obtain s1 where s1: "exec e s = Inr (Some s1)" "pool_run es s1 = Inr (Some s')" by (auto simp: pool_run_Cons)
  with Cons waiting_step [OF s1(1), of i task] limits_step [OF s1(1)] show ?case by auto
qed simp

theorem shutdown_strands_caller_witness:
  "\<exists>s s'. pool_run leaving_run s = Inr (Some s') \<and> freed s' \<and> producers s' ! 1 = P_Wait (job 1)"
proof -
  from full_run_ends obtain s where "shutdown (pool s) \<and> producers s = [P_Idle (Some 0), P_Wait (job 1)]
    \<and> ends (\<lambda>s'. freed s' \<and> workers s' = [W_Gone]) (pool_run leaving_run s)" by (elim ends_scenario) blast
  then obtain s' where "pool_run leaving_run s = Inr (Some s')" "shutdown (pool s)" "freed s'"
    "producers s = [P_Idle (Some 0), P_Wait (job 1)]" using ends_run by blast
  moreover have "Spurious_producer 1 \<notin> set leaving_run" by (simp add: leaving_run_def)
  ultimately show ?thesis using shutdown_strands_caller [of leaving_run s s' 1 "job 1"] by auto
qed

text \<open>
  once the pool is shut down and the administrator has ended, the workers make only finitely many
  steps, at most four each, in any interleaving: none of them waits for more than the wake-up it gets.
\<close>

theorem shutdown_drains:
  assumes "pool_run es s = Inr (Some s')" and "shutdown (pool s)" and "admin_pc s = A_Gone"
  shows "length (filter of_worker es) + all_left s' \<le> 4 * length (workers s)"
proof -
  have "length (filter of_worker es) + all_left s' \<le> all_left s" using assms
  proof (induction es arbitrary: s)
    case (Cons e es)
    then obtain s1 where s1: "exec e s = Inr (Some s1)" "pool_run es s1 = Inr (Some s')" by (auto simp: pool_run_Cons)
    with left_step [OF s1(1) Cons.prems(2,3)] limits_step [OF s1(1)] Cons.prems
    have "length (filter of_worker es) + all_left s' \<le> all_left s1" by (intro Cons.IH) simp_all
    with left_step [OF s1(1) Cons.prems(2,3)] show ?case by (cases "of_worker e") simp_all
  qed simp
  moreover have "all_left s \<le> 4 * length (workers s)"
  proof -
    have "steps_left w \<le> 4" for w by (cases w) simp_all
    then have "sum_list (map steps_left ws) \<le> 4 * length ws" for ws
    proof (induction ws)
      case (Cons w ws)
      then show ?case using add_mono [of "steps_left w" 4] by fastforce
    qed simp
    then show ?thesis by (simp add: all_left_def)
  qed
  ultimately show ?thesis by linarith
qed

lemma drained_ends:
  "ends (\<lambda>s. shutdown (pool s) \<and> admin_pc s = A_Gone \<and> length (workers s) = 1
      \<and> ends (\<lambda>s'. all_left s' = 0) (pool_run (tl leaving_run) s))
    (scenario (threadpool_create (working_env 2) 1 1 1) (full_run @ [hd leaving_run]))"
  by code_simp

theorem shutdown_drains_witness:
  "\<exists>s s'. pool_run (tl leaving_run) s = Inr (Some s') \<and> all_left s' = 0 \<and> length (filter of_worker (tl leaving_run)) \<le> 4"
proof -
  from drained_ends obtain s where "shutdown (pool s) \<and> admin_pc s = A_Gone \<and> length (workers s) = 1
      \<and> ends (\<lambda>s'. all_left s' = 0) (pool_run (tl leaving_run) s)" by (elim ends_scenario) blast
  then obtain s' where "pool_run (tl leaving_run) s = Inr (Some s')" "shutdown (pool s)" "admin_pc s = A_Gone"
    "length (workers s) = 1" "all_left s' = 0" using ends_run by blast
  with shutdown_drains [of "tl leaving_run" s s'] show ?thesis by auto
qed

text \<open>
  \<^verbatim>\<open>threadpool_destroy\<close> can wait for ever. It sets \<^verbatim>\<open>shutdown\<close> and broadcasts without the lock, so
  both can fall between a worker's test and its wait; then the worker is never woken, and every step
  but a spurious wake-up is blocked.
\<close>

theorem shutdown_wakeup_lost:
  "\<exists>s0 s. threadpool_create (working_env 0) 1 1 10 = Inr (Some s0) \<and> reachable s0 s
    \<and> workers s = [W_Wait] \<and> destroyer_pc s = D_Join 0 \<and> (\<forall>e. exec e s = Inr None \<or> e = Spurious 0)"
proof -
  have "ends (\<lambda>s. workers s = [W_Wait] \<and> producers s = [] \<and> admin_pc s = A_Gone \<and> destroyer_pc s = D_Join 0
      \<and> threadpool_destroy s = Inr None)
    (scenario (threadpool_create (working_env 0) 1 1 10) [Work 0, Destroy, Admin None [] [], Destroy, Destroy, Destroy, Work 0])"
    by code_simp
  then obtain s0 s where s: "threadpool_create (working_env 0) 1 1 10 = Inr (Some s0)" "reachable s0 s"
    "workers s = [W_Wait] \<and> producers s = [] \<and> admin_pc s = A_Gone \<and> destroyer_pc s = D_Join 0
      \<and> threadpool_destroy s = Inr None" by (elim ends_scenario) blast
  have "exec e s = Inr None \<or> e = Spurious 0" for e
    using s(3) by (cases e) (simp_all add: exec_def threadpool_thread_def threadpool_add_task_def admin_thread_def Suc_le_eq)
  with s show ?thesis by blast
qed

section \<open>Creating\<close>

text \<open>
  \<^verbatim>\<open>threadpool_create\<close> reports a failure, by the null pointer, only when the pool itself could
  not be allocated, or when the array of threads could not and the pointer to the queue, which is
  not initialised, happens to be freeable; every later failure uses mutexes that do not exist.
\<close>

theorem create_failure:
  assumes "0 \<le> mn" and "0 \<le> mx" and "0 \<le> qm"
  shows "threadpool_create E mn mx qm =
    (if \<not> got_pool E then Inr None
     else if \<not> got_threads E then (if junk_pointer E = Garbage then Inl BadFree else Inr None)
     else if \<not> got_queue E \<or> \<not> got_locks E then Inl BadLock
     else bindE (foldE (\<lambda>i s. spawn i (i \<notin> set (refused_slots E)) s) [0..<nat mn] (fresh_pool E mn mx qm)) (\<lambda>s. Inr (Some s)))"
  using assms by (cases "junk_pointer E") (simp_all add: threadpool_create_def threadpool_free_def)

theorem create_failure_witness:
  "threadpool_create ((working_env 1)\<lparr>got_queue := False\<rparr>) 1 2 10 = Inl BadLock
    \<and> threadpool_create ((working_env 1)\<lparr>got_threads := False, junk_pointer := Garbage\<rparr>) 1 2 10 = Inl BadFree"
  using create_failure [of 1 2 10 "(working_env 1)\<lparr>got_queue := False\<rparr>"]
    create_failure [of 1 2 10 "(working_env 1)\<lparr>got_threads := False, junk_pointer := Garbage\<rparr>"]
  by (simp add: working_env_def)

end
