(* ===== verification/PoolSingle.thy ===== *)
theory PoolSingle
  imports PoolProperties
begin

text \<open>
  The pool of the recorder, \<^verbatim>\<open>threadpool_create(1, 1, MAX_INDEX)\<close>: it has one worker at most and the
  administrator never adds one, so its tasks run one at a time in the order in which they were added.
  This is why Persist can take the pool to be a list of tasks with one worker at its head.
\<close>

fun hand :: "worker \<Rightarrow> threadpool_task_t list" where
  "hand (W_Taken task) = [task]"
| "hand (W_Run task) = [task]"
| "hand (W_Finish task) = [task]"
| "hand w = []"

definition hands :: "sys \<Rightarrow> threadpool_task_t list" where
  "hands s = concat (map hand (workers s))"

definition single_ok :: "sys \<Rightarrow> bool" where
  "single_ok s \<longleftrightarrow> length (workers s) \<le> 1 \<and> taken s = finished s @ hands s"

lemma single_move:
  assumes "single_ok s" and "t < length (workers s)"
  shows "workers s = [workers s ! t]" "t = 0" "taken s = finished s @ hand (workers s ! t)"
proof -
  show t: "t = 0" using assms by (simp add: single_ok_def)
  show w: "workers s = [workers s ! t]" using assms t by (cases "workers s") (auto simp: single_ok_def)
  show "taken s = finished s @ hand (workers s ! t)"
    using assms(1) t by (subst (asm) single_ok_def, subst (asm) hands_def, subst (asm) w) simp
qed

lemma single_worker:
  assumes "single_ok s" and "t < length (workers s)" and "workers s' = (workers s)[t := w]" and "taken s' = finished s' @ hand w"
  shows "single_ok s'"
proof -
  have "workers s' = [w]" using single_move(1,2) [OF assms(1,2)] assms(3) by (metis list_update_code(2))
  then show ?thesis using assms(4) by (simp add: single_ok_def hands_def)
qed

lemma single_same:
  "single_ok s \<Longrightarrow> map hand (workers s') = map hand (workers s) \<Longrightarrow> taken s' = taken s \<Longrightarrow> finished s' = finished s \<Longrightarrow> single_ok s'"
  unfolding single_ok_def hands_def by (metis length_map)

lemma single_worker_test:
  assumes "worker_test t s = Inr (Some s')" and "single_ok s" and "t < length (workers s)"
    and "workers s ! t \<in> {W_Lock, W_Woken}"
  shows "single_ok s'"
proof -
  have "taken s = finished s" using single_move(3) [OF assms(2,3)] assms(4) by auto
  note move = single_worker [OF assms(2,3)]
  from assms(1) show ?thesis
  proof (cases rule: worker_test_cases)
    case sleepy
    then show ?thesis using \<open>taken s = finished s\<close> by (intro move [where w = W_Sleepy]) (simp_all add: set_defs)
  next
    case leave
    then show ?thesis using \<open>taken s = finished s\<close> by (intro move [where w = W_Gone]) (simp_all add: set_defs)
  next
    case (take task p1)
    then show ?thesis using \<open>taken s = finished s\<close> by (intro move [where w = "W_Taken task"]) (simp_all add: set_defs)
  qed
qed

text \<open>With one worker as its least and its greatest number, a growth finds nothing to do.\<close>

lemma no_growth: "\<not> live_thr_num (pool s) < max_thr_num (pool s) \<Longrightarrow> grow_loop absent refused is 0 s = Inr s"
  by (cases "is") simp_all

lemma single_step:
  assumes "exec e s = Inr (Some s')" and "single_ok s" and "threads_ok s" and "limits s = (1, 1, qm)"
  shows "single_ok s'"
  using assms(1)
proof (cases rule: exec_cases)
  case (work t)
  from work(2) show ?thesis
  proof (cases rule: thread_cases)
    case test
    then show ?thesis using single_worker_test assms(2) by blast
  next
    case spent
    have "single_ok (spend s)" "workers (spend s) = workers s" using assms(2) by (simp_all add: single_ok_def hands_def spend_def)
    with spent single_worker_test show ?thesis by simp
  next
    case leave
    then show ?thesis using single_move(3) [OF assms(2)] by (intro single_worker [OF assms(2)]) (auto simp: set_defs)
  next
    case sleep
    then show ?thesis using single_move(3) [OF assms(2)] by (intro single_worker [OF assms(2)]) (auto simp: set_defs)
  next
    case (begin_task task)
    then show ?thesis using single_move(3) [OF assms(2)] by (intro single_worker [OF assms(2)]) (auto simp: set_defs)
  next
    case (run task)
    then show ?thesis using single_move(3) [OF assms(2)] by (intro single_worker [OF assms(2)]) (auto simp: set_defs)
  next
    case (finish task)
    then show ?thesis using single_move(3) [OF assms(2)] by (intro single_worker [OF assms(2)]) (auto simp: set_defs)
  qed
next
  case (spurious t)
  then show ?thesis using single_move(3) [OF assms(2)] by (intro single_worker [OF assms(2)]) (auto simp: set_defs)
next
  case (produce i choice)
  from produce(2) show ?thesis
  proof (cases rule: add_task_cases)
    case (notify ws)
    then show ?thesis using map_signal [OF notify(4), of hand] by (intro single_same [OF assms(2)]) (simp_all add: set_defs)
  qed (rule single_same [OF assms(2)]; simp add: set_defs)+
next
  case (admin choice absent refused)
  from admin(2) show ?thesis
  proof (cases rule: admin_cases)
    case (grow qs live busy s1)
    have "\<not> live_thr_num (pool s) < max_thr_num (pool s)" using assms(3,4) by (simp add: threads_ok_def limits_def)
    then show ?thesis using grow no_growth by (intro single_same [OF assms(2)]) (simp_all add: set_defs)
  next
    case (notify n ws)
    then show ?thesis using map_signal [OF notify(2), of hand] by (intro single_same [OF assms(2)]) (simp_all add: set_defs)
  qed (rule single_same [OF assms(2)]; simp add: set_defs)+
next
  case destroy
  from destroy(2) show ?thesis
  proof (cases rule: destroy_cases)
    case (broadcast i)
    then show ?thesis using map_wake_worker [of hand "workers s"] by (intro single_same [OF assms(2)]) (simp_all add: set_defs del: map_map)
  qed (rule single_same [OF assms(2)]; simp add: set_defs)+
qed (rule single_same [OF assms(2)]; simp add: set_defs)+

lemma single_reachable:
  assumes "reachable s0 s" and "pool_ok s0" and "limits s0 = (1, 1, qm)" and "single_ok s0"
  shows "single_ok s"
  using assms
proof (induction rule: reachable.induct)
  case (step s e s')
  then show ?case using single_step [of e s s' qm] pool_ok_reachable limits_reachable by (auto simp: pool_ok_def)
qed simp

lemma create_single:
  assumes "threadpool_create E 1 1 qm = Inr (Some s)"
  shows "single_ok s"
proof -
  obtain k ts where "s = (fresh_pool E 1 1 qm)\<lparr>pool := (pool (fresh_pool E 1 1 qm))\<lparr>threads := ts\<rparr>,
      workers := workers (fresh_pool E 1 1 qm) @ replicate k W_Lock\<rparr>" "k \<le> nat 1"
    using spawn_all create_result [OF assms] by blast
  then show ?thesis by (auto simp: single_ok_def hands_def fresh_pool_def le_Suc_eq)
qed

text \<open>
  C17: a pool created for one worker never has a second one, in any interleaving of its threads with the
  administrator and the destroyer, and its tasks run one at a time in the order in which they were added:
  the finished tasks, the one in the worker's hands and the queued ones are the tasks that were added.
\<close>

theorem single_pool_in_order:
  assumes "threadpool_create E 1 1 qm = Inr (Some s0)" and "reachable s0 s"
  shows "finished s @ hands s @ queued (pool s) = added s \<and> length (hands s) \<le> 1 \<and> length (workers s) \<le> 1"
proof -
  have ok: "pool_ok s0" using create_ok [OF assms(1)] by simp
  have "single_ok s"
    using single_reachable [OF assms(2) ok create_limits [OF assms(1) reachable.start] create_single [OF assms(1)]] .
  moreover have "log_ok s" using pool_ok_reachable [OF assms(2) ok] by (simp add: pool_ok_def)
  moreover have "length (hands s) \<le> 1" if "length (workers s) \<le> 1"
  proof -
    have "length (hand w) \<le> 1" for w by (cases w) simp_all
    then show ?thesis using that by (cases "workers s") (auto simp: hands_def)
  qed
  ultimately show ?thesis by (auto simp: single_ok_def log_ok_def)
qed

definition two_jobs :: "event list" where
  "two_jobs = concat (map (\<lambda>n. [Call 0 (job n), Produce 0 None, Produce 0 None]) [0..<3]) @ replicate 6 (Work 0)"

lemma two_jobs_end: "ends (\<lambda>s. finished s = [job 0] \<and> hands s = [job 1] \<and> length (queued (pool s)) = 1)
    (scenario (threadpool_create (working_env 1) 1 1 64) two_jobs)"
  by code_simp

theorem single_pool_in_order_witness:
  "\<exists>s0 s. threadpool_create (working_env 1) 1 1 64 = Inr (Some s0) \<and> reachable s0 s \<and> finished s = [job 0]
    \<and> job 0 # job 1 # queued (pool s) = added s"
proof -
  from two_jobs_end obtain s0 s where s: "threadpool_create (working_env 1) 1 1 64 = Inr (Some s0)" "reachable s0 s"
    "finished s = [job 0]" "hands s = [job 1]" by (elim ends_scenario) blast
  then show ?thesis using single_pool_in_order [OF s(1,2)] by auto
qed

end
