(* ===== verification/SpeechArray.thy ===== *)
theory SpeechArray
  imports PcmStream SpeechFormat "HOL-Library.Signed_Division"
begin

text \<open>
  The microphone array of speech/src/speecharray.c: a handle that owns a capture stream of Pcm and a
  buffer of two stream buffers, and the two versions of its read call, which fill the buffer from the
  stream, skip what is not sound, pack the frames with the parser of SpeechFormat, and keep the rest
  for the next call. The mutex of the handle only serialises its calls and is left out.
  \<^verbatim>\<open>memcpy\<close> within one buffer is a parameter \<open>C\<close>: the code uses it on overlapping ranges, which the C
  standard leaves to the library. The loops retry a failed read without a bound: a call that never
  returns is \<^term>\<open>None\<close>.
\<close>

section \<open>The handle\<close>

definition HW_BUFFER_COUNT :: int where "HW_BUFFER_COUNT = 2"
definition HW_OUT_DATA_RATIO :: int where "HW_OUT_DATA_RATIO = 4"
definition DEFAULT_PCM_FLAGS :: u32 where "DEFAULT_PCM_FLAGS = PCM_IN"

definition hw_config :: pcm_config where
  "hw_config = \<lparr>channels = 2, rate = 96000, period_size = 3072, period_count = 2, format = PCM_FORMAT_S32_LE,
     start_threshold = 0, stop_threshold = 0, silence_threshold = 0, silence_size = 0, avail_min = 0\<rparr>"

datatype WorkMode_e = WorkMode_MicArray | WorkMode_File | WorkMode_Inject | WorkMode_Others

record SpeechArray_t =
  sa_mode :: WorkMode_e
  sa_issync :: int
  sa_card :: u32
  sa_device :: u32
  sa_channels :: u32
  sa_rate :: u32
  sa_period_size :: u32
  sa_period_count :: u32
  sa_format :: pcm_format

record SpeechArrayHandle_t =
  array_config :: SpeechArray_t
  out_align :: int
  pcm_handle :: "pcm option"
  hwconfig :: pcm_config
  buff_size :: int
  buffer :: "u8 list"
  data_size :: int
  hw_align :: int
  ratio :: int

text \<open>The file of the debugging dump beside the world of the stream.\<close>

record 'k sound =
  sw :: "'k world"
  dumpfd :: int
  dumped :: "u8 list"

definition DUMP_DATA_FILE :: string where "DUMP_DATA_FILE = ''/sdcard/org-data.pcm''"

definition speechArrayInit :: "'k pcm_kernel \<Rightarrow> 'k sound \<Rightarrow> int \<times> 'k sound" where
  "speechArrayInit K w =
     (let (d, w1) = sys (k_open K DUMP_DATA_FILE (kst (sw w))) (sw w) in (0, w\<lparr>sw := w1, dumpfd := d\<rparr>))"

definition speechArrayUninit :: "'k pcm_kernel \<Rightarrow> 'k sound \<Rightarrow> int \<times> 'k sound" where
  "speechArrayUninit K w =
     (0, if 0 < dumpfd w then w\<lparr>sw := snd (sys (k_close K (dumpfd w) (kst (sw w))) (sw w))\<rparr> else w)"

section \<open>Opening and closing\<close>

text \<open>What the library decides: the allocations, the initialisations, and the contents of the new buffer.\<close>

record allocations =
  got_handle :: bool
  got_lock :: bool
  got_cond :: bool
  got_buffer :: bool
  junk_buffer :: "u8 list"

definition new_handle :: "SpeechArray_t \<Rightarrow> SpeechArrayHandle_t" where
  "new_handle c = \<lparr>array_config = c,
     out_align = sint (pcm_format_to_bits (sa_format c) * sa_channels c div 8),
     pcm_handle = None, hwconfig = hw_config, buff_size = 0, buffer = [], data_size = 0, hw_align = 0, ratio = 0\<rparr>"

text \<open>The handle once the stream is ready; \<open>conf\<close> is its configuration as \<^verbatim>\<open>pcm_open\<close> left it.\<close>

definition ready_handle :: "allocations \<Rightarrow> SpeechArray_t \<Rightarrow> pcm \<Rightarrow> pcm_config \<Rightarrow> SpeechArrayHandle_t" where
  "ready_handle E c p conf =
     (let size = sint (2 * pcm_frames_to_bytes p (pcm_get_buffer_size p))
      in (new_handle c)\<lparr>pcm_handle := Some p, hwconfig := conf, buff_size := size,
           buffer := take (nat size) (junk_buffer E @ replicate (nat size) 0),
           hw_align := sint (channels conf * pcm_format_to_bits (format conf) div 8),
           ratio := HW_OUT_DATA_RATIO\<rparr>)"

definition speechArrayOpen ::
    "'k pcm_kernel \<Rightarrow> allocations \<Rightarrow> SpeechArray_t option \<Rightarrow> 'k sound \<Rightarrow> (SpeechArrayHandle_t option \<times> 'k sound) option" where
  "speechArrayOpen K E co w =
     (case co of
        None \<Rightarrow> Some (None, w)
      | Some c \<Rightarrow>
          if \<not> got_handle E \<or> \<not> got_lock E \<or> \<not> got_cond E then Some (None, w)
          else case pcm_open K (sa_card c) (sa_device c) DEFAULT_PCM_FLAGS (Some hw_config) (sw w) of
                 None \<Rightarrow> None
               | Some (po, confo, w1) \<Rightarrow>
                   (case (po, confo) of
                      (Some p, Some conf) \<Rightarrow>
                        if \<not> pcm_is_ready p then Some (None, w\<lparr>sw := w1\<rparr>)
                        else let h = ready_handle E c p conf
                             in if got_buffer E \<and> 0 \<le> buff_size h then Some (Some h, w\<lparr>sw := w1\<rparr>)
                                else Some (None, w\<lparr>sw := w1\<rparr>)
                    | _ \<Rightarrow> Some (None, w\<lparr>sw := w1\<rparr>)))"

definition speechArrayClose :: "'k pcm_kernel \<Rightarrow> SpeechArrayHandle_t option \<Rightarrow> 'k sound \<Rightarrow> int \<times> 'k sound" where
  "speechArrayClose K ho w =
     (case ho of
        None \<Rightarrow> (-1, w)
      | Some h \<Rightarrow> (0, w\<lparr>sw := snd (pcm_close K (pcm_handle h) (sw w))\<rparr>))"

definition SpeechArrayWrite :: "SpeechArrayHandle_t option \<Rightarrow> u8 list option \<Rightarrow> int \<Rightarrow> int" where
  "SpeechArrayWrite ho buff len = -1"

section \<open>Pieces of the read calls\<close>

type_synonym copier = "u8 list \<Rightarrow> nat \<Rightarrow> nat \<Rightarrow> nat \<Rightarrow> u8 list res"

text \<open>An \<^verbatim>\<open>int\<close> as a \<^verbatim>\<open>size_t\<close>, and the C remainder.\<close>

definition size_of :: "int \<Rightarrow> nat" where
  "size_of i = nat (i mod 2 ^ 64)"

definition c_rem :: "int \<Rightarrow> int \<Rightarrow> int res" where
  "c_rem a b = (if b = 0 then Inl DivByZero else Inr (a smod b))"

definition round_up :: "int \<Rightarrow> int \<Rightarrow> int res" where
  "round_up r a =
     bindE (c_rem r a) (\<lambda>m.
       if m \<noteq> 0 then bindE (c_rem (r + a) a) (\<lambda>m'. Inr (r + a - m')) else Inr r)"

text \<open>
  \<^verbatim>\<open>pcm_read\<close> into the buffer from offset \<open>off\<close> on: the kernel writes whole frames, and a fault is a
  transfer that does not fit.
\<close>

definition read_into ::
    "'k pcm_kernel \<Rightarrow> SpeechArrayHandle_t \<Rightarrow> int \<Rightarrow> int \<Rightarrow> 'k world \<Rightarrow> (int \<times> SpeechArrayHandle_t \<times> 'k world) res option" where
  "read_into K h off count w =
     (case pcm_handle h of
        None \<Rightarrow> Some (Inl NullDeref)
      | Some p \<Rightarrow>
          (case xfer_frames p (of_int count) of
             Inl f \<Rightarrow> Some (Inl f)
           | Inr nf \<Rightarrow>
               if length (buffer h) < nat off + unat nf * unat (pcm_frames_to_bytes p 1)
               then Some (Inl OutOfBounds)
               else case pcm_read K (drop (nat off) (buffer h)) (of_int count) p w of
                      None \<Rightarrow> None
                    | Some (Inl f) \<Rightarrow> Some (Inl f)
                    | Some (Inr (r, d, p', w')) \<Rightarrow>
                        Some (Inr (r, h\<lparr>buffer := take (nat off) (buffer h) @ d, pcm_handle := Some p'\<rparr>, w'))))"

definition dump :: "SpeechArrayHandle_t \<Rightarrow> int \<Rightarrow> int \<Rightarrow> 'k sound \<Rightarrow> 'k sound res" where
  "dump h off count w =
     (if 0 < dumpfd w
      then bindE (slice (buffer h) (nat off) (size_of count)) (\<lambda>d. Inr (w\<lparr>dumped := dumped w @ d\<rparr>))
      else Inr w)"

text \<open>What a call does with the data it has: the guards, the size of its reads, and the delivery.\<close>

definition read_refused :: "SpeechArrayHandle_t \<Rightarrow> u8 list option \<Rightarrow> int \<Rightarrow> bool res" where
  "read_refused h buff len =
     (if buff = None \<or> len \<le> 0 then Inr True else bindE (c_rem len (out_align h)) (\<lambda>m. Inr (m \<noteq> 0)))"

definition clamp_len :: "SpeechArrayHandle_t \<Rightarrow> int \<Rightarrow> int res" where
  "clamp_len h len =
     (if ratio h = 0 then Inl DivByZero
      else Inr (if buff_size h sdiv ratio h < len then buff_size h sdiv ratio h else len))"

definition half_buffer :: "SpeechArrayHandle_t \<Rightarrow> int" where
  "half_buffer h = buff_size h sdiv HW_BUFFER_COUNT"

definition first_read :: "SpeechArrayHandle_t \<Rightarrow> int \<Rightarrow> int res" where
  "first_read h len =
     (if len * HW_OUT_DATA_RATIO < data_size h then Inr 0
      else bindE (round_up (len * ratio h - data_size h) (hw_align h)) (\<lambda>r.
             Inr (if r < half_buffer h then half_buffer h else r)))"

text \<open>After \<open>skip\<close> bytes were dropped: the next read.\<close>

definition next_read :: "SpeechArrayHandle_t \<Rightarrow> int \<Rightarrow> int \<Rightarrow> int \<Rightarrow> int \<Rightarrow> int res" where
  "next_read h len read_size avail skip =
     (if len * HW_OUT_DATA_RATIO \<le> avail then Inr 0
      else bindE (c_rem skip (hw_align h)) (\<lambda>m.
           bindE (c_rem read_size (hw_align h)) (\<lambda>m'.
             let n = skip - m + hw_align h;
                 n1 = (if n < half_buffer h then half_buffer h else n)
             in Inr (if buff_size h < avail + read_size then buff_size h - avail - m' else n1))))"

definition deliver :: "copier \<Rightarrow> SpeechArrayHandle_t \<Rightarrow> int \<Rightarrow> int \<Rightarrow> u8 list \<Rightarrow> (int \<times> SpeechArrayHandle_t \<times> u8 list) res" where
  "deliver C h len avail buff =
     (let parse_size = (if len * HW_OUT_DATA_RATIO < avail then len * HW_OUT_DATA_RATIO else avail);
          rest = avail - parse_size
      in bindE (parseData_INT32 (buffer h) parse_size) (\<lambda>(ret, b1).
         bindE (slice b1 0 (size_of ret)) (\<lambda>out.
         bindE (blit buff 0 out) (\<lambda>buff'.
         bindE (if 0 < rest
                then bindE (C b1 0 (nat parse_size) (nat rest)) (\<lambda>b2.
                     blit b2 (nat rest) (replicate (size_of (buff_size h - rest)) 0))
                else Inr b1) (\<lambda>b3.
         Inr (ret, h\<lparr>buffer := b3, data_size := rest\<rparr>, buff'))))))"

text \<open>One pass after a successful read: either the next read, with its offset and the bytes at hand, or the delivery.\<close>

datatype pass = Read_on SpeechArrayHandle_t int int int | Deliver SpeechArrayHandle_t int

definition skip_pass :: "copier \<Rightarrow> SpeechArrayHandle_t \<Rightarrow> int \<Rightarrow> int \<Rightarrow> int \<Rightarrow> int \<Rightarrow> bool \<Rightarrow> pass res" where
  "skip_pass C h len read_size off avail checked =
     (if checked then Inr (Deliver h avail)
      else bindE (skipData (buffer h) avail) (\<lambda>skip.
        if skip \<le> 0 then Inr (Deliver h avail)
        else bindE (C (buffer h) 0 (nat skip) (size_of (avail - skip))) (\<lambda>b.
          let h1 = h\<lparr>buffer := b\<rparr>; avail1 = avail - skip
          in bindE (next_read h len read_size avail1 skip) (\<lambda>n.
               Inr (if n \<noteq> 0 then Read_on h1 (off + avail - skip) avail1 n else Deliver h1 avail1)))))"

section \<open>Reading\<close>

partial_function (option) read_loop ::
    "'k pcm_kernel \<Rightarrow> copier \<Rightarrow> int \<Rightarrow> int \<Rightarrow> int \<Rightarrow> int \<Rightarrow> int \<Rightarrow> bool \<Rightarrow> SpeechArrayHandle_t \<Rightarrow> u8 list \<Rightarrow> 'k sound
      \<Rightarrow> (int \<times> SpeechArrayHandle_t \<times> u8 list \<times> 'k sound) res option" where
  "read_loop K C len read_size off avail n checked h buff w =
     (case (if n \<noteq> 0 then read_into K h off n (sw w) else Some (Inr (0, h, sw w))) of
        None \<Rightarrow> None
      | Some (Inl f) \<Rightarrow> Some (Inl f)
      | Some (Inr (ret, h1, w1)) \<Rightarrow>
          if ret \<noteq> 0 then read_loop K C len read_size off avail n checked h1 buff (w\<lparr>sw := w1\<rparr>)
          else case bindE (dump h1 off n (w\<lparr>sw := w1\<rparr>)) (\<lambda>w2.
                      bindE (skip_pass C h1 len read_size off (avail + n) checked) (\<lambda>ps. Inr (ps, w2))) of
                 Inl f \<Rightarrow> Some (Inl f)
               | Inr (Read_on h2 off' avail' n', w2) \<Rightarrow> read_loop K C len read_size off' avail' n' True h2 buff w2
               | Inr (Deliver h2 avail', w2) \<Rightarrow>
                   Some (bindE (deliver C h2 len avail' buff) (\<lambda>(r, h3, buff'). Inr (r, h3, buff', w2))))"

definition SpeechArrayRead ::
    "'k pcm_kernel \<Rightarrow> copier \<Rightarrow> SpeechArrayHandle_t option \<Rightarrow> u8 list option \<Rightarrow> int \<Rightarrow> 'k sound
      \<Rightarrow> (int \<times> SpeechArrayHandle_t \<times> u8 list option \<times> 'k sound) res option" where
  "SpeechArrayRead K C ho buff len w =
     (case ho of
        None \<Rightarrow> Some (Inl NullDeref)
      | Some h \<Rightarrow>
          (case bindE (read_refused h buff len) (\<lambda>no. if no then Inr None
                else bindE (clamp_len h len) (\<lambda>l. bindE (first_read h l) (\<lambda>n. Inr (Some (l, n))))) of
             Inl f \<Rightarrow> Some (Inl f)
           | Inr None \<Rightarrow> Some (Inr (-1, h, buff, w))
           | Inr (Some (l, n)) \<Rightarrow>
               map_option (map_sum id (\<lambda>(r, h', b, w'). (r, h', Some b, w')))
                 (read_loop K C l n (data_size h) (data_size h) n False h (the buff) w)))"

section \<open>The first version of the call\<close>

definition deliver1 :: "copier \<Rightarrow> SpeechArrayHandle_t \<Rightarrow> int \<Rightarrow> u8 list \<Rightarrow> (int \<times> SpeechArrayHandle_t \<times> u8 list) res" where
  "deliver1 C h avail buff =
     bindE (parseData_INT32 (buffer h) avail) (\<lambda>(ret, b1).
     bindE (slice b1 0 (size_of ret)) (\<lambda>out.
     bindE (blit buff 0 out) (\<lambda>buff'.
       let rest = avail - ret * HW_OUT_DATA_RATIO
       in bindE (if rest \<noteq> 0
                 then bindE (C b1 0 (nat (ret * HW_OUT_DATA_RATIO)) (size_of rest)) (\<lambda>b2.
                      blit b2 (nat rest) (replicate (size_of (ret * HW_OUT_DATA_RATIO)) 0))
                 else Inr b1) (\<lambda>b3.
          Inr (ret, h\<lparr>buffer := b3, data_size := rest\<rparr>, buff')))))"

definition skip_pass1 :: "copier \<Rightarrow> SpeechArrayHandle_t \<Rightarrow> int \<Rightarrow> int \<Rightarrow> bool \<Rightarrow> pass res" where
  "skip_pass1 C h off avail checked =
     (if checked then Inr (Deliver h avail)
      else bindE (skipData (buffer h) avail) (\<lambda>skip.
        if skip \<le> 0 then Inr (Deliver h avail)
        else bindE (C (buffer h) 0 (nat skip) (size_of (avail - skip))) (\<lambda>b.
             bindE (c_rem skip (hw_align h)) (\<lambda>m.
               let h1 = h\<lparr>buffer := b\<rparr>; n = skip - m + hw_align h
               in Inr (if n \<noteq> 0 then Read_on h1 (off + avail - skip) (avail - skip) n else Deliver h1 (avail - skip))))))"

partial_function (option) read_loop1 ::
    "'k pcm_kernel \<Rightarrow> copier \<Rightarrow> int \<Rightarrow> int \<Rightarrow> int \<Rightarrow> bool \<Rightarrow> SpeechArrayHandle_t \<Rightarrow> u8 list \<Rightarrow> 'k sound
      \<Rightarrow> (int \<times> SpeechArrayHandle_t \<times> u8 list \<times> 'k sound) res option" where
  "read_loop1 K C off avail n checked h buff w =
     (case read_into K h off n (sw w) of
        None \<Rightarrow> None
      | Some (Inl f) \<Rightarrow> Some (Inl f)
      | Some (Inr (ret, h1, w1)) \<Rightarrow>
          if ret \<noteq> 0 then read_loop1 K C off avail n checked h1 buff (w\<lparr>sw := w1\<rparr>)
          else case bindE (dump h1 off n (w\<lparr>sw := w1\<rparr>)) (\<lambda>w2.
                      bindE (skip_pass1 C h1 off (avail + n) checked) (\<lambda>ps. Inr (ps, w2))) of
                 Inl f \<Rightarrow> Some (Inl f)
               | Inr (Read_on h2 off' avail' n', w2) \<Rightarrow> read_loop1 K C off' avail' n' True h2 buff w2
               | Inr (Deliver h2 avail', w2) \<Rightarrow>
                   Some (bindE (deliver1 C h2 avail' buff) (\<lambda>(r, h3, buff'). Inr (r, h3, buff', w2))))"

definition SpeechArrayRead1 ::
    "'k pcm_kernel \<Rightarrow> copier \<Rightarrow> SpeechArrayHandle_t option \<Rightarrow> u8 list option \<Rightarrow> int \<Rightarrow> 'k sound
      \<Rightarrow> (int \<times> SpeechArrayHandle_t \<times> u8 list option \<times> 'k sound) res option" where
  "SpeechArrayRead1 K C ho buff len w =
     (case ho of
        None \<Rightarrow> Some (Inl NullDeref)
      | Some h \<Rightarrow>
          (case bindE (read_refused h buff len) (\<lambda>no. if no then Inr None
                else bindE (clamp_len h len) (\<lambda>l.
                     bindE (round_up (l * ratio h - data_size h) (hw_align h)) (\<lambda>n. Inr (Some n)))) of
             Inl f \<Rightarrow> Some (Inl f)
           | Inr None \<Rightarrow> Some (Inr (-1, h, buff, w))
           | Inr (Some n) \<Rightarrow>
               map_option (map_sum id (\<lambda>(r, h', b, w'). (r, h', Some b, w')))
                 (read_loop1 K C (data_size h) (data_size h) n False h (the buff) w)))"

end
