(* ===== verification/SpeechStream.thy ===== *)
theory SpeechStream
  imports SpeechArray
begin

text \<open>
  What the read call of the microphone array promises. The abstraction of a handle and its stream is
  one endless sequence of frames: first the frames kept in the buffer, then the ones the stream still
  delivers. A call hands out the samples of the first frames of this sequence and keeps the others.
\<close>

section \<open>Frames in a buffer\<close>

definition loud :: "u32 list \<Rightarrow> bool" where
  "loud fr \<longleftrightarrow> length fr = 12 \<and> tagged fr \<and> \<not> silent fr"

definition raw :: "u32 list list \<Rightarrow> u8 list" where
  "raw frs = concat (map bytes_le32 (concat frs))"

definition samples :: "u32 list list \<Rightarrow> u8 list" where
  "samples frs = concat (map (\<lambda>fr. concat (map (\<lambda>c. sample (fr ! (c - 1))) [2, 1, 8, 7, 10, 4])) frs)"

lemma raw_append [simp]: "raw (xs @ ys) = raw xs @ raw ys"
  by (simp add: raw_def)

lemma raw_Nil [simp]: "raw [] = []"
  by (simp add: raw_def)

lemma samples_append: "samples (xs @ ys) = samples xs @ samples ys"
  by (simp add: samples_def)

lemma length_frames: "\<forall>fr \<in> set frs. loud fr \<Longrightarrow> length (concat frs) = 12 * length frs"
  by (induction frs) (auto simp: loud_def)

lemma length_bytes: "length (concat (map bytes_le32 ws)) = 4 * length ws"
  by (induction ws) simp_all

lemma length_raw: "\<forall>fr \<in> set frs. loud fr \<Longrightarrow> length (raw frs) = 48 * length frs"
  by (simp add: raw_def length_bytes length_frames)

lemma length_samples: "\<forall>fr \<in> set frs. loud fr \<Longrightarrow> length (samples frs) = 12 * length frs"
  by (induction frs) (simp_all add: samples_def sample_def)

text \<open>The words of a buffer that starts with whole frames.\<close>

lemma words_of_frames:
  assumes "take (48 * length frs) b = raw frs" and "48 * length frs \<le> length b" and "\<forall>fr \<in> set frs. loud fr"
  shows "words b = concat frs @ drop (12 * length frs) (words b)"
proof -
  have "12 * length frs \<le> length b div 4" using assms(2) by simp
  from take_words [OF this] assms(1) have "raw frs = concat (map bytes_le32 (take (12 * length frs) (words b)))" by simp
  then have "concat frs = take (12 * length frs) (words b)" by (metis raw_def words_bytes)
  then show ?thesis by (metis append_take_drop_id)
qed

lemma bytes_of_words: "4 dvd length b \<Longrightarrow> concat (map bytes_le32 (words b)) = b"
  using take_words [of "length b div 4" b] by simp

lemma skip_loud:
  assumes "words b = concat frs @ rest" and "\<forall>fr \<in> set frs. loud fr" and "frs \<noteq> []"
  shows "skipData b (int (48 * length frs)) = Inr 0"
proof -
  have t: "\<forall>fr \<in> set frs. length fr = 12 \<and> tagged fr" using assms(2) by (simp add: loud_def)
  have l: "48 \<le> 48 * length frs" using assms(3) by (cases frs) simp_all
  have "fits (12 * (48 * length frs div 48)) (words b)"
    using clean_concat [OF t, of rest] by (simp add: fits_def assms(1))
  from skipData_words [OF l this] have "skipData b (int (48 * length frs)) = Inr (int (4 * skip_count (12 * length frs) (words b)))"
    by simp
  moreover obtain fr frs' where f: "frs = fr # frs'" using assms(3) by (cases frs) auto
  then have "tagged (words b)" "\<not> silent (words b)" using assms(1,2) by (auto simp: loud_def tagged_append silent_def)
  then have "skip_count (12 * length frs) (words b) = 0" by (subst skip_count.simps) simp
  ultimately show ?thesis by simp
qed

text \<open>Parsing the first frames leaves the bytes of the others.\<close>

lemma parse_loud:
  assumes "words b = concat frs @ rest" and "\<forall>fr \<in> set frs. loud fr" and "frs \<noteq> []" and "4 dvd length b"
  shows "\<exists>b'. parseData_INT32 b (int (48 * length frs)) = Inr (int (12 * length frs), b') \<and> length b' = length b
    \<and> take (12 * length frs) b' = samples frs \<and> drop (48 * length frs) b' = drop (48 * length frs) b"
proof -
  have t: "\<forall>fr \<in> set frs. length fr = 12 \<and> tagged fr" using assms(2) by (simp add: loud_def)
  obtain b' where b': "parseData_INT32 b (int (48 * length frs)) = Inr (int (12 * length frs), b')" "length b' = length b"
    "words b' = overwrite (words b) 0 (concat (map demux frs))" "take (12 * length frs) b' = samples frs"
    using parse_stream [OF t assms(3,1)] unfolding samples_def by blast
  have "length (concat (map demux frs)) = 3 * length frs" by (induction frs) (simp_all add: demux_def)
  moreover have "3 * length frs \<le> length (words b)" using length_frames [OF assms(2)] by (simp only: assms(1)) simp
  ultimately have "drop (12 * length frs) (words b') = drop (12 * length frs) (words b)"
    unfolding b'(3) by (intro drop_overwrite_before) simp_all
  then have "concat (map bytes_le32 (drop (12 * length frs) (words b'))) = concat (map bytes_le32 (drop (12 * length frs) (words b)))"
    by simp
  moreover have "concat (map bytes_le32 (drop k (words m))) = drop (4 * k) m" if "4 dvd length m" "k \<le> length m div 4" for k and m :: "u8 list"
  proof -
    have "m = take (4 * k) m @ concat (map bytes_le32 (drop k (words m)))"
      using bytes_of_words [OF that(1)] take_words [OF that(2)] by (metis append_take_drop_id concat_append map_append)
    moreover have "4 * k \<le> length m" using that(2) by simp
    then have "length (take (4 * k) m) = 4 * k" by simp
    ultimately show ?thesis by (metis append_eq_conv_conj)
  qed
  moreover have "12 * length frs \<le> length b div 4" using length_frames [OF assms(2)] assms(1)
    by (metis length_append length_words le_add1)
  ultimately have "drop (4 * (12 * length frs)) b' = drop (4 * (12 * length frs)) b"
    using assms(4) b'(2) by metis
  with b' show ?thesis by auto
qed

section \<open>The handle of a steady stream\<close>

text \<open>
  The sizes of a handle opened on six channels of 16 bits with the default configuration: frames of
  the array are 48 bytes, frames of the output 12, and half the buffer is \<open>m\<close> frames.
\<close>

definition array_ok :: "nat \<Rightarrow> SpeechArrayHandle_t \<Rightarrow> bool" where
  "array_ok m h \<longleftrightarrow> ratio h = 4 \<and> hw_align h = 8 \<and> out_align h = 12 \<and> buff_size h = int (96 * m) \<and> 0 < m
     \<and> 96 * m < 2 ^ 31 \<and> length (buffer h) = 96 * m"

definition buffered :: "nat \<Rightarrow> SpeechArrayHandle_t \<Rightarrow> u32 list list \<Rightarrow> bool" where
  "buffered m h frs \<longleftrightarrow> data_size h = int (48 * length frs) \<and> take (48 * length frs) (buffer h) = raw frs
     \<and> (\<forall>fr \<in> set frs. loud fr) \<and> length frs \<le> m"

lemma sdiv_nat: "int a sdiv int b = int (a div b)"
  by (cases "a = 0"; cases "b = 0") (simp_all add: signed_divide_int_def zdiv_int)

lemma smod_nat: "int a smod int b = int (a mod b)"
  by (cases "a = 0") (simp_all add: signed_modulo_int_def zmod_int)

lemma round_up_nat:
  assumes "0 < a"
  shows "round_up (int r) (int a) = Inr (int (if r mod a \<noteq> 0 then r + a - (r + a) mod a else r))"
proof -
  have "c_rem (int r) (int a) = Inr (int (r mod a))" "c_rem (int r + int a) (int a) = Inr (int ((r + a) mod a))"
    using assms smod_nat [of r a] smod_nat [of "r + a" a] by (simp_all add: c_rem_def)
  moreover have "(r + a) mod a \<le> r + a" by (rule mod_less_eq_dividend)
  ultimately show ?thesis by (auto simp: round_up_def of_nat_diff)
qed

text \<open>How many frames a call for \<open>k\<close> frames reads when \<open>f\<close> are at hand.\<close>

definition fresh_frames :: "nat \<Rightarrow> nat \<Rightarrow> nat \<Rightarrow> nat" where
  "fresh_frames m k f = (if k < f then 0 else max (k - f) m)"

lemma half_buffer_frames: "array_ok m h \<Longrightarrow> half_buffer h = int (48 * m)"
  using sdiv_nat [of "96 * m" 2] by (simp add: half_buffer_def HW_BUFFER_COUNT_def array_ok_def)

lemma first_read_frames:
  assumes "array_ok m h" and "data_size h = int (48 * f)"
  shows "first_read h (int (12 * k)) = Inr (int (48 * fresh_frames m k f))"
proof (cases "k < f")
  case True
  then show ?thesis using assms(2) by (simp add: first_read_def fresh_frames_def HW_OUT_DATA_RATIO_def)
next
  case False
  then have r: "int (12 * k) * ratio h - data_size h = int (48 * (k - f))"
    using assms by (simp add: array_ok_def of_nat_diff algebra_simps)
  have "round_up (int (48 * (k - f))) (hw_align h) = Inr (int (48 * (k - f)))"
    using assms(1) round_up_nat [of 8 "48 * (k - f)"] by (simp add: array_ok_def)
  then show ?thesis using False assms half_buffer_frames [OF assms(1)] r
    by (auto simp: first_read_def fresh_frames_def HW_OUT_DATA_RATIO_def max_def)
qed

lemma clamp_frames:
  assumes "array_ok m h" and "k \<le> 2 * m"
  shows "clamp_len h (int (12 * k)) = Inr (int (12 * k))"
  using assms sdiv_nat [of "96 * m" 4] by (simp add: clamp_len_def array_ok_def)

lemma accepted_frames:
  assumes "array_ok m h" and "0 < k"
  shows "read_refused h (Some buff) (int (12 * k)) = Inr False"
  using assms smod_nat [of "12 * k" 12] by (simp add: read_refused_def c_rem_def array_ok_def)

definition moves :: "copier \<Rightarrow> bool" where
  "moves C \<longleftrightarrow> (\<forall>m d s n. C m d s n = bindE (slice m s n) (blit m d))"

lemma size_of_nat: "n < 2 ^ 31 \<Longrightarrow> size_of (int n) = n"
  by (simp add: size_of_def)

lemma take_raw:
  assumes "\<forall>fr \<in> set frs. loud fr" and "take (48 * length frs) b = raw frs" and "k \<le> length frs"
  shows "take (48 * (length frs - k)) (drop (48 * k) b) = raw (drop k frs)"
proof -
  have "take (48 * length frs) b = raw (take k frs) @ raw (drop k frs)" using assms(2) by (simp flip: raw_append)
  moreover have "length (raw (take k frs)) = 48 * k" using assms(1,3) by (subst length_raw) (auto dest: in_set_takeD)
  ultimately have "drop (48 * k) (take (48 * length frs) b) = raw (drop k frs)" by simp
  then show ?thesis by (simp add: drop_take diff_mult_distrib2)
qed

text \<open>Handing out \<open>k\<close> of the frames at hand.\<close>

lemma deliver_frames:
  assumes "array_ok m h" and "take (48 * length frs) (buffer h) = raw frs" and "\<forall>fr \<in> set frs. loud fr"
    and "length frs \<le> 2 * m" and "0 < k" and "k \<le> length frs" and "moves C" and "12 * k \<le> length buff"
  shows "\<exists>b. deliver C h (int (12 * k)) (int (48 * length frs)) buff
      = Inr (int (12 * k), h\<lparr>buffer := b, data_size := int (48 * (length frs - k))\<rparr>, samples (take k frs) @ drop (12 * k) buff)
    \<and> length b = length (buffer h) \<and> take (48 * (length frs - k)) b = raw (drop k frs)"
proof -
  let ?r = "48 * (length frs - k)"
  have B: "length (buffer h) = 96 * m" "96 * m < 2 ^ 31" "buff_size h = int (96 * m)" using assms(1) by (simp_all add: array_ok_def)
  have all: "48 * length frs \<le> length (buffer h)" using assms(4) B by simp
  have tl: "\<forall>fr \<in> set (take k frs). loud fr" using assms(3) by (auto dest: in_set_takeD)
  have ne: "take k frs \<noteq> []" "length (take k frs) = k" using assms(5,6) by auto
  have "words (buffer h) = concat (take k frs) @ (concat (drop k frs) @ drop (12 * length frs) (words (buffer h)))"
    using words_of_frames [OF assms(2) all assms(3)] by (metis append.assoc append_take_drop_id concat_append)
  from parse_loud [OF this tl ne(1)] obtain b1 where
    b1: "parseData_INT32 (buffer h) (int (48 * k)) = Inr (int (12 * k), b1)" "length b1 = 96 * m"
    "take (12 * k) b1 = samples (take k frs)" "drop (48 * k) b1 = drop (48 * k) (buffer h)"
    unfolding ne(2) using B by (auto simp: dvd_def)
  have ps: "(if int (12 * k) * HW_OUT_DATA_RATIO < int (48 * length frs) then int (12 * k) * HW_OUT_DATA_RATIO else int (48 * length frs))
      = int (48 * k)" using assms(6) by (auto simp: HW_OUT_DATA_RATIO_def)
  have rest: "int (48 * length frs) - int (48 * k) = int ?r" using assms(6) by (simp add: of_nat_diff)
  have k: "12 * k < 2 ^ 31" "12 * k \<le> length b1" using assms(4,6) B b1(2) by linarith+
  have out: "slice b1 0 (size_of (int (12 * k))) = Inr (samples (take k frs))"
    unfolding size_of_nat [OF k(1)] using k(2) b1(3) by (simp add: mem_simps)
  have ls: "length (samples (take k frs)) = 12 * k" using length_samples [OF tl] ne(2) by simp
  have bl: "blit buff 0 (samples (take k frs)) = Inr (samples (take k frs) @ drop (12 * k) buff)"
    using assms(8) ls by (simp add: mem_simps overwrite_def)
  have raw_rest: "take ?r (drop (48 * k) b1) = raw (drop k frs)" using take_raw [OF assms(3,2,6)] b1(4) by simp
  have eq: "deliver C h (int (12 * k)) (int (48 * length frs)) buff =
      bindE (if 0 < int ?r then bindE (C b1 0 (48 * k) ?r) (\<lambda>b2.
               blit b2 ?r (replicate (size_of (buff_size h - int ?r)) 0)) else Inr b1) (\<lambda>b3.
      Inr (int (12 * k), h\<lparr>buffer := b3, data_size := int ?r\<rparr>, samples (take k frs) @ drop (12 * k) buff))"
    unfolding deliver_def Let_def ps rest b1(1) bindE_simps prod.case out bl nat_int ..
  show ?thesis
  proof (cases "k = length frs")
    case True
    then show ?thesis unfolding eq using b1(2) B by (intro exI [of _ b1]) simp
  next
    case False
    then have r: "0 < ?r" "?r + 48 * k \<le> 96 * m" using assms(4,6) by auto
    have lr: "length (raw (drop k frs)) = ?r" using raw_rest r b1(2) by (metis length_drop length_take min.absorb2 add_le_imp_le_diff)
    have cp: "C b1 0 (48 * k) ?r = Inr (overwrite b1 0 (raw (drop k frs)))"
      using assms(7) r b1(2) raw_rest lr by (simp add: moves_def mem_simps)
    have z: "size_of (buff_size h - int ?r) = 96 * m - ?r"
      using B r by (simp add: size_of_def of_nat_diff [symmetric] del: of_nat_mult of_nat_diff)
    let ?b2 = "overwrite b1 0 (raw (drop k frs))"
    have b2: "length ?b2 = 96 * m" using lr r b1(2) by simp
    then have "blit ?b2 ?r (replicate (96 * m - ?r) 0) = Inr (overwrite ?b2 ?r (replicate (96 * m - ?r) 0))"
      using r by (simp add: mem_simps)
    moreover have "take ?r (overwrite ?b2 ?r (replicate (96 * m - ?r) 0)) = raw (drop k frs)"
      using b2 r lr by (simp add: take_overwrite_after overwrite_def)
    ultimately show ?thesis unfolding eq cp z bindE_simps using r b2 B
      by (intro exI [of _ "overwrite ?b2 ?r (replicate (96 * m - ?r) 0)"]) simp
  qed
qed

section \<open>One call\<close>

text \<open>
  A stream that pours frames: every read of whole frames of the array succeeds, returns the next of
  the sequence, and leaves a stream that goes on after them.
\<close>

definition pours :: "'k pcm_kernel \<Rightarrow> ((nat \<Rightarrow> u32 list) \<Rightarrow> pcm \<Rightarrow> 'k world \<Rightarrow> bool) \<Rightarrow> bool" where
  "pours K src \<longleftrightarrow> (\<forall>fs p w. src fs p w \<longrightarrow>
     channels (config p) = 2 \<and> format (config p) = PCM_FORMAT_S32_LE \<and> (\<forall>i. loud (fs i))
     \<and> (\<forall>n buf. 0 < n \<and> 48 * n \<le> length buf \<and> 48 * n < 2 ^ 31 \<longrightarrow>
         (\<exists>p' w'. pcm_read K buf (of_nat (48 * n)) p w = Some (Inr (0, overwrite buf 0 (raw (map fs [0..<n])), p', w'))
           \<and> src (\<lambda>i. fs (i + n)) p' w')))"

text \<open>The frames at hand, followed by the ones to come.\<close>

definition sequence :: "u32 list list \<Rightarrow> (nat \<Rightarrow> u32 list) \<Rightarrow> nat \<Rightarrow> u32 list" where
  "sequence frs fs i = (if i < length frs then frs ! i else fs (i - length frs))"

lemma sequence_append: "sequence (frs @ map fs [0..<n]) (\<lambda>i. fs (i + n)) = sequence frs fs"
  by (auto simp: sequence_def nth_append fun_eq_iff)

lemma take_sequence: "k \<le> length frs \<Longrightarrow> take k frs = map (sequence frs fs) [0..<k]"
  by (rule nth_equalityI) (simp_all add: sequence_def)

lemma drop_sequence: "k \<le> length frs \<Longrightarrow> sequence (drop k frs) fs i = sequence frs fs (i + k)"
  by (auto simp: sequence_def add.commute)

lemma loud_map: "pours K src \<Longrightarrow> src fs p w \<Longrightarrow> \<forall>fr \<in> set (map fs xs). loud fr"
  by (auto simp: pours_def)

lemma stereo_frames:
  assumes "channels (config p) = 2" and "format (config p) = PCM_FORMAT_S32_LE" and "8 * n < 2 ^ 31"
  shows "xfer_frames p (of_nat (8 * n)) = Inr (of_nat n)"
proof -
  have "unat (of_nat (8 * n) :: u32) = 8 * n" using assms(3) by (intro unat_of_nat_small) simp
  then have "unat ((of_nat (8 * n) :: u32) div 8) = n" by (simp add: unat_div del: of_nat_mult)
  then have "ucast ((of_nat (8 * n) :: u32) div 8) = (of_nat n :: u64)"
    by (metis of_nat_unat)
  then show ?thesis
    using assms(1,2) by (simp add: xfer_frames_def pcm_format_to_bits_def Let_def del: of_nat_mult)
qed

lemma frame_sizes:
  assumes "channels (config p) = 2" and "format (config p) = PCM_FORMAT_S32_LE" and "48 * n < 2 ^ 31"
  shows "xfer_frames p (of_nat (48 * n)) = Inr (of_nat (6 * n))" and "pcm_frames_to_bytes p 1 = 8"
  using stereo_frames [OF assms(1,2), of "6 * n"] assms
  by (simp_all add: pcm_frames_to_bytes_def pcm_format_to_bits_def drop_bit_eq_div)

lemma read_into_frames:
  assumes "pours K src" and "src fs p w" and "pcm_handle h = Some p" and "0 < n" and "48 * f + 48 * n \<le> length (buffer h)"
    and "length (buffer h) < 2 ^ 31" and "take (48 * f) (buffer h) = raw frs"
  shows "\<exists>b p' w'. read_into K h (int (48 * f)) (int (48 * n)) w = Some (Inr (0, h\<lparr>buffer := b, pcm_handle := Some p'\<rparr>, w'))
    \<and> src (\<lambda>i. fs (i + n)) p' w' \<and> length b = length (buffer h) \<and> take (48 * f + 48 * n) b = raw (frs @ map fs [0..<n])"
proof -
  let ?new = "raw (map fs [0..<n])" and ?d = "drop (48 * f) (buffer h)"
  have c: "channels (config p) = 2" "format (config p) = PCM_FORMAT_S32_LE" using assms(1,2) by (auto simp: pours_def)
  have n: "48 * n < 2 ^ 31" "48 * n \<le> length ?d" using assms(5,6) by auto
  obtain p' w' where r: "pcm_read K ?d (of_nat (48 * n)) p w = Some (Inr (0, overwrite ?d 0 ?new, p', w'))"
    "src (\<lambda>i. fs (i + n)) p' w'" using assms(1,2,4) n unfolding pours_def by blast
  have l: "length ?new = 48 * n" using length_raw [OF loud_map [OF assms(1,2), of "[0..<n]"]] by simp
  have lf: "length (raw frs) = 48 * f" using assms(5,7) by (metis add_leD1 length_take min.absorb2)
  have "unat (of_nat (6 * n) :: u64) = 6 * n" using n(1) by (intro unat_of_nat_small) simp
  then have room: "\<not> length (buffer h) < nat (int (48 * f)) + unat (of_nat (6 * n) :: u64) * unat (pcm_frames_to_bytes p 1)"
    using assms(5) frame_sizes(2) [OF c n(1)] by simp
  have "of_int (int (48 * n)) = (of_nat (48 * n) :: u32)" by (rule of_int_of_nat_eq)
  then have "read_into K h (int (48 * f)) (int (48 * n)) w
      = Some (Inr (0, h\<lparr>buffer := take (48 * f) (buffer h) @ overwrite ?d 0 ?new, pcm_handle := Some p'\<rparr>, w'))"
    unfolding read_into_def assms(3) using room by (simp only: option.case frame_sizes(1) [OF c n(1)] sum.case r(1) nat_int if_False prod.case)
  moreover have "take (48 * f + 48 * n) (take (48 * f) (buffer h) @ overwrite ?d 0 ?new) = raw (frs @ map fs [0..<n])"
    using assms(5,7) l lf by (simp add: overwrite_def)
  moreover have "length (take (48 * f) (buffer h) @ overwrite ?d 0 ?new) = length (buffer h)" using assms(5) l by simp
  ultimately show ?thesis using r(2) by blast
qed

text \<open>
  One pass of the loop: the buffer after the read (or as it is) starts with at least the frames asked
  for, so nothing is skipped and they are handed out.
\<close>

lemma read_loop_once:
  assumes "array_ok m h1" and "(if n \<noteq> 0 then read_into K h off n (sw w) else Some (Inr (0, h, sw w))) = Some (Inr (0, h1, w1))"
    and "take (48 * length all) (buffer h1) = raw all" and "\<forall>fr \<in> set all. loud fr" and "length all \<le> 2 * m"
    and "0 < k" and "k \<le> length all" and "moves C" and "12 * k \<le> length buff"
    and "avail + n = int (48 * length all)" and "dump h1 off n (w\<lparr>sw := w1\<rparr>) = Inr w2"
  shows "\<exists>b. read_loop K C (int (12 * k)) rs off avail n False h buff w
      = Some (Inr (int (12 * k), h1\<lparr>buffer := b, data_size := int (48 * (length all - k))\<rparr>,
          samples (take k all) @ drop (12 * k) buff, w2))
    \<and> length b = length (buffer h1) \<and> take (48 * (length all - k)) b = raw (drop k all)"
proof -
  have ne: "all \<noteq> []" using assms(6,7) by auto
  have "48 * length all \<le> length (buffer h1)" using assms(1,5) by (simp add: array_ok_def)
  from skip_loud [OF words_of_frames [OF assms(3) this assms(4)] assms(4) ne]
  have ps: "skip_pass C h1 (int (12 * k)) rs off (avail + n) False = Inr (Deliver h1 (int (48 * length all)))"
    by (simp add: skip_pass_def assms(10))
  from deliver_frames [OF assms(1,3-9)] obtain b where
    b: "deliver C h1 (int (12 * k)) (int (48 * length all)) buff
      = Inr (int (12 * k), h1\<lparr>buffer := b, data_size := int (48 * (length all - k))\<rparr>, samples (take k all) @ drop (12 * k) buff)"
    "length b = length (buffer h1)" "take (48 * (length all - k)) b = raw (drop k all)" by blast
  have "read_loop K C (int (12 * k)) rs off avail n False h buff w
      = Some (Inr (int (12 * k), h1\<lparr>buffer := b, data_size := int (48 * (length all - k))\<rparr>,
          samples (take k all) @ drop (12 * k) buff, w2))"
    by (subst read_loop.simps) (simp only: assms(2) ps assms(11) b(1) option.case sum.case prod.case bindE_simps pass.case
        if_False refl simp_thms)
  with b show ?thesis by blast
qed

lemma dump_fits:
  assumes "n < 2 ^ 31" and "off + n \<le> length (buffer h)"
  shows "\<exists>w2. dump h (int off) (int n) w = Inr w2 \<and> sw w2 = sw w"
  using assms by (simp add: dump_def size_of_nat mem_simps)

lemma fresh_frames_bounds:
  assumes "f \<le> m" and "k \<le> 2 * m"
  shows "f + fresh_frames m k f \<le> 2 * m" and "k \<le> f + fresh_frames m k f" and "f + fresh_frames m k f - k \<le> m"
  using assms by (auto simp: fresh_frames_def)

text \<open>A call for \<open>k\<close> frames hands out the first \<open>k\<close> of the sequence and leaves the sequence after them.\<close>

lemma speech_read_frames:
  assumes "pours K src" and "src fs p (sw w)" and "pcm_handle h = Some p" and "array_ok m h" and "buffered m h frs"
    and "0 < k" and "k \<le> 2 * m" and "moves C" and "12 * k \<le> length buff"
  shows "\<exists>h' p' w' fs' frs'. SpeechArrayRead K C (Some h) (Some buff) (int (12 * k)) w
      = Some (Inr (int (12 * k), h', Some (samples (map (sequence frs fs) [0..<k]) @ drop (12 * k) buff), w'))
    \<and> array_ok m h' \<and> buffered m h' frs' \<and> pcm_handle h' = Some p' \<and> src fs' p' (sw w')
    \<and> sequence frs' fs' = (\<lambda>i. sequence frs fs (i + k))"
proof -
  let ?f = "length frs" and ?n = "fresh_frames m k (length frs)"
  let ?all = "frs @ map fs [0..<fresh_frames m k (length frs)]"
  have ar: "length (buffer h) = 96 * m" "96 * m < 2 ^ 31" using assms(4) by (simp_all add: array_ok_def)
  have bf: "data_size h = int (48 * ?f)" "take (48 * ?f) (buffer h) = raw frs" "\<forall>fr \<in> set frs. loud fr" "?f \<le> m"
    using assms(5) by (simp_all add: buffered_def)
  note fb = fresh_frames_bounds [OF bf(4) assms(7)]
  have fits: "48 * ?f + 48 * ?n \<le> length (buffer h)" using fb(1) ar by simp
  have loud: "\<forall>fr \<in> set ?all. loud fr" using bf(3) loud_map [OF assms(1,2), of "[0..<?n]"] by auto
  obtain b p' w1 where r: "(if int (48 * ?n) \<noteq> 0 then read_into K h (int (48 * ?f)) (int (48 * ?n)) (sw w) else Some (Inr (0, h, sw w)))
      = Some (Inr (0, h\<lparr>buffer := b, pcm_handle := Some p'\<rparr>, w1))" "src (\<lambda>i. fs (i + ?n)) p' w1"
    "length b = length (buffer h)" "take (48 * length ?all) b = raw ?all"
  proof (cases "?n = 0")
    case True
    then show thesis using assms(2,3) bf(2) by (intro that [of p "buffer h" "sw w"]) simp_all
  next
    case False
    with read_into_frames [OF assms(1,2,3) _ fits _ bf(2)] ar show thesis by (auto simp: distrib_left intro: that)
  qed
  let ?h1 = "h\<lparr>buffer := b, pcm_handle := Some p'\<rparr>"
  obtain w2 where w2: "dump ?h1 (int (48 * ?f)) (int (48 * ?n)) (w\<lparr>sw := w1\<rparr>) = Inr w2" "sw w2 = w1"
    using dump_fits [of "48 * ?n" "48 * ?f" ?h1 "w\<lparr>sw := w1\<rparr>"] fits ar r(3) by auto
  have h1: "array_ok m ?h1" using assms(4) r(3) by (simp add: array_ok_def)
  have "\<exists>b'. read_loop K C (int (12 * k)) (int (48 * ?n)) (int (48 * ?f)) (int (48 * ?f)) (int (48 * ?n)) False h buff w
      = Some (Inr (int (12 * k), ?h1\<lparr>buffer := b', data_size := int (48 * (length ?all - k))\<rparr>,
          samples (take k ?all) @ drop (12 * k) buff, w2))
    \<and> length b' = length (buffer ?h1) \<and> take (48 * (length ?all - k)) b' = raw (drop k ?all)"
    by (rule read_loop_once [OF h1 r(1) _ loud _ assms(6) _ assms(8,9) _ w2(1)]) (use r(4) fb in simp_all)
  then obtain b' where b': "read_loop K C (int (12 * k)) (int (48 * ?n)) (int (48 * ?f)) (int (48 * ?f)) (int (48 * ?n)) False h buff w
      = Some (Inr (int (12 * k), ?h1\<lparr>buffer := b', data_size := int (48 * (length ?all - k))\<rparr>,
          samples (take k ?all) @ drop (12 * k) buff, w2))"
    "length b' = length (buffer h)" "take (48 * (length ?all - k)) b' = raw (drop k ?all)" using r(3) by auto
  let ?h2 = "?h1\<lparr>buffer := b', data_size := int (48 * (length ?all - k))\<rparr>"
  have sq: "sequence ?all (\<lambda>i. fs (i + ?n)) = sequence frs fs" by (rule sequence_append)
  have tk: "take k ?all = map (sequence frs fs) [0..<k]" using take_sequence [of k ?all "\<lambda>i. fs (i + ?n)"] fb(2) sq by simp
  have "SpeechArrayRead K C (Some h) (Some buff) (int (12 * k)) w
      = Some (Inr (int (12 * k), ?h2, Some (samples (map (sequence frs fs) [0..<k]) @ drop (12 * k) buff), w2))"
    unfolding SpeechArrayRead_def option.case accepted_frames [OF assms(4,6)] bindE_simps if_False
      clamp_frames [OF assms(4,7)] first_read_frames [OF assms(4) bf(1)] sum.case prod.case option.sel bf(1) b'(1) tk by simp
  moreover have "array_ok m ?h2" using assms(4) b'(2) by (simp add: array_ok_def)
  moreover have "buffered m ?h2 (drop k ?all)"
    unfolding buffered_def length_drop using b'(3) fb(3) in_set_dropD [of _ k ?all] loud
    by (intro conjI ballI) (simp_all del: drop_append)
  moreover have "sequence (drop k ?all) (\<lambda>i. fs (i + ?n)) = (\<lambda>i. sequence frs fs (i + k))"
    using drop_sequence [of k ?all "\<lambda>i. fs (i + ?n)"] fb(2) sq by (auto simp: fun_eq_iff)
  ultimately show ?thesis using r(2) w2(2) by (intro exI [of _ ?h2] exI [of _ p'] exI [of _ w2] exI [of _ "\<lambda>i. fs (i + ?n)"]
      exI [of _ "drop k ?all"]) simp
qed

section \<open>A series of calls\<close>

text \<open>Calls for \<open>ks\<close> frames, each into a buffer of its own, and all the bytes they hand out.\<close>

fun read_calls ::
    "'k pcm_kernel \<Rightarrow> copier \<Rightarrow> SpeechArrayHandle_t \<Rightarrow> nat list \<Rightarrow> 'k sound \<Rightarrow> (u8 list \<times> SpeechArrayHandle_t \<times> 'k sound) option" where
  "read_calls K C h [] w = Some ([], h, w)"
| "read_calls K C h (k # ks) w =
     (case SpeechArrayRead K C (Some h) (Some (replicate (12 * k) 0)) (int (12 * k)) w of
        Some (Inr (r, h', Some b, w')) \<Rightarrow>
          map_option (\<lambda>(bs, h'', w''). (take (nat r) b @ bs, h'', w'')) (read_calls K C h' ks w')
      | _ \<Rightarrow> None)"

lemma read_calls_frames:
  assumes "pours K src" and "src fs p (sw w)" and "pcm_handle h = Some p" and "array_ok m h" and "buffered m h frs"
    and "\<forall>k \<in> set ks. 0 < k \<and> k \<le> 2 * m" and "moves C"
  shows "\<exists>h' w'. read_calls K C h ks w = Some (samples (map (sequence frs fs) [0..<sum_list ks]), h', w')"
  using assms(2-6)
proof (induction ks arbitrary: fs p w h frs)
  case Nil
  then show ?case by (simp add: samples_def)
next
  case (Cons k ks)
  have k: "0 < k" "k \<le> 2 * m" using Cons.prems(5) by simp_all
  obtain h' p' w' fs' frs' where
    r: "SpeechArrayRead K C (Some h) (Some (replicate (12 * k) 0)) (int (12 * k)) w
      = Some (Inr (int (12 * k), h', Some (samples (map (sequence frs fs) [0..<k]) @ drop (12 * k) (replicate (12 * k) 0)), w'))"
    "array_ok m h'" "buffered m h' frs'" "pcm_handle h' = Some p'" "src fs' p' (sw w')"
    "sequence frs' fs' = (\<lambda>i. sequence frs fs (i + k))"
    using speech_read_frames [OF assms(1) Cons.prems(1-4) k assms(7), of "replicate (12 * k) 0"] by auto
  from Cons.IH [OF r(5,4,2,3)] Cons.prems(5) obtain h'' w'' where
    IH: "read_calls K C h' ks w' = Some (samples (map (sequence frs' fs') [0..<sum_list ks]), h'', w'')" by auto
  have "\<forall>fr \<in> set (map (sequence frs fs) [0..<k]). loud fr"
    using Cons.prems(1,4) assms(1) by (auto simp: sequence_def buffered_def pours_def)
  from length_samples [OF this] have len: "length (samples (map (sequence frs fs) [0..<k])) = 12 * k" by simp
  have "map (sequence frs' fs') [0..<sum_list ks] = map (sequence frs fs) [k..<k + sum_list ks]"
    unfolding r(6) by (rule nth_equalityI) (simp_all add: add.commute)
  note tail = this
  have sum: "samples (map (sequence frs fs) [0..<sum_list (k # ks)])
      = samples (map (sequence frs fs) [0..<k]) @ samples (map (sequence frs' fs') [0..<sum_list ks])"
    unfolding tail sum_list.Cons upt_add_eq_append [OF le0] map_append samples_append ..
  have "read_calls K C h (k # ks) w = Some (take (12 * k) (samples (map (sequence frs fs) [0..<k]) @ drop (12 * k) (replicate (12 * k) 0))
      @ samples (map (sequence frs' fs') [0..<sum_list ks]), h'', w'')"
    unfolding read_calls.simps r(1) option.case sum.case prod.case IH option.map nat_int ..
  then show ?case unfolding sum using len by auto
qed


text \<open>A kernel that always delivers the same frame.\<close>

definition tone_kernel :: "demo pcm_kernel" where
  "tone_kernel = demo_kernel\<lparr>k_readi := \<lambda>d b n k. (SysOk 0, overwrite b 0 (raw (replicate (unat n div 6) (demo_frame 0x40))), k)\<rparr>"

definition tone_pcm :: pcm where
  "tone_pcm = zero_pcm\<lparr>flags := PCM_IN, running := True, prepared := True, config := hw_config, buffer_size := 6\<rparr>"

definition tone :: "(nat \<Rightarrow> u32 list) \<Rightarrow> pcm \<Rightarrow> demo world \<Rightarrow> bool" where
  "tone fs p w \<longleftrightarrow> fs = (\<lambda>i. demo_frame 0x40) \<and> p = tone_pcm"

definition move_bytes :: copier where
  "move_bytes m d s n = bindE (slice m s n) (blit m d)"

lemma tone_pours: "pours tone_kernel tone"
proof -
  have l: "loud (demo_frame 0x40)" using demo_frame_ok by (simp add: loud_def)
  have c: "channels (config tone_pcm) = 2" "format (config tone_pcm) = PCM_FORMAT_S32_LE" "running tone_pcm" "has (flags tone_pcm) PCM_IN"
    by (simp_all add: tone_pcm_def hw_config_def has_def PCM_IN_def)
  have "\<exists>w'. pcm_read tone_kernel buf (of_nat (48 * n)) tone_pcm w
      = Some (Inr (0, overwrite buf 0 (raw (map (\<lambda>i. demo_frame 0x40) [0..<n])), tone_pcm, w'))"
    if n: "48 * n < 2 ^ 31" for n buf w
  proof -
    have "unat (of_nat (6 * n) :: u64) = 6 * n" using n by (intro unat_of_nat_small) simp
    then have "pcm_read_loop tone_kernel (of_nat (6 * n)) buf tone_pcm w
        = Some (0, overwrite buf 0 (raw (replicate n (demo_frame 0x40))), tone_pcm, w\<lparr>kst := kst w, errno := errno_after (errno w) (SysOk 0)\<rparr>)"
      using c by (subst pcm_read_loop.simps) (simp add: tone_kernel_def sys_def del: of_nat_mult)
    then show ?thesis using frame_sizes(1) [OF c(1,2) n] c(4)
      by (simp add: pcm_read_def map_replicate_const del: of_nat_mult)
  qed
  then show ?thesis using c l unfolding pours_def tone_def by blast
qed

definition tone_handle :: SpeechArrayHandle_t where
  "tone_handle = \<lparr>array_config = \<lparr>sa_mode = WorkMode_MicArray, sa_issync = 0, sa_card = 0, sa_device = 0, sa_channels = 6,
       sa_rate = 16000, sa_period_size = 0, sa_period_count = 0, sa_format = PCM_FORMAT_S16_LE\<rparr>,
     out_align = 12, pcm_handle = Some tone_pcm, hwconfig = hw_config, buff_size = 96, buffer = replicate 96 0,
     data_size = 0, hw_align = 8, ratio = 4\<rparr>"

definition tone_world :: "demo sound" where
  "tone_world = \<lparr>sw = demo_world [], dumpfd = 0, dumped = []\<rparr>"

lemma tone_ready: "array_ok 1 tone_handle" "buffered 1 tone_handle []" "pcm_handle tone_handle = Some tone_pcm"
  by (simp_all add: array_ok_def buffered_def tone_handle_def)


end
