(* ===== verification/SpeechFaults.thy ===== *)
theory SpeechFaults
  imports SpeechStream
begin

text \<open>
  Opening the microphone array, and what its read call does outside the steady stream: requests that
  are too short, buffers that hold a partial frame, devices that fail for good.
\<close>

section \<open>Opening\<close>

lemma tone_request:
  "param_get_int 13 (param_set_int 13 (param_get_min 13 (open_params PCM_IN hw_config)) (open_params PCM_IN hw_config)) = 3072"
  "param_get_int 15 (param_set_int 13 (param_get_min 13 (open_params PCM_IN hw_config)) (open_params PCM_IN hw_config)) = 2"
  by code_simp+

lemma open_thresholds_config:
  "open_thresholds c p = (sp, p') \<Longrightarrow> channels (config p') = channels (config p) \<and> format (config p') = format (config p)"
  by (auto simp: open_thresholds_def Let_def split: prod.splits if_splits)

text \<open>Opening on the demonstration kernel, however it reads.\<close>

lemma demo_open_array:
  assumes "K = demo_kernel\<lparr>k_readi := f\<rparr>"
  shows "\<exists>p c w'. pcm_open K 0 0 PCM_IN (Some hw_config) w = Some (Some p, Some c, w')
    \<and> d_fds (kst w') = int (d_fresh (kst w)) # d_fds (kst w) \<and> fd p = int (d_fresh (kst w)) \<and> flags p = PCM_IN
    \<and> channels (config p) = 2 \<and> format (config p) = PCM_FORMAT_S32_LE
    \<and> buffer_size p = 6144 \<and> channels c = 2 \<and> format c = PCM_FORMAT_S32_LE"
proof -
  have flags: "\<not> has PCM_IN PCM_NOIRQ" "\<not> has PCM_IN PCM_MMAP" "\<not> has PCM_IN PCM_MONOTONIC" by code_simp+
  define n where "n = d_fresh (kst w)"
  define p where "p = zero_pcm\<lparr>config := hw_config, flags := PCM_IN, fd := int n\<rparr>"
  define c where "c = hw_config\<lparr>period_size := 3072, period_count := 2\<rparr>"
  obtain b where b: "boundary_loop 6144 6144 = Some b" using boundary_loop_ok [of 6144 6144] by auto
  obtain sp p1 where t: "open_thresholds c (p\<lparr>buffer_size := 6144\<rparr>) = (sp, p1)" by (rule prod.exhaust)
  note p1 = open_thresholds_fields [OF t]
  have sync: "sync_ptr p1 = None" "buffer_size p1 = 6144"
    using t by (auto simp: open_thresholds_def Let_def p_def zero_pcm_def split: prod.splits)
  have cf: "channels (config p1) = 2" "format (config p1) = PCM_FORMAT_S32_LE"
    using open_thresholds_config [OF t] by (simp_all add: p_def hw_config_def)
  have fin: "\<exists>q w'. open_finish K sp (p1\<lparr>boundary := b\<rparr>) v = (q, w') \<and> d_fds (kst w') = d_fds (kst v)
     \<and> fd q = int n \<and> flags q = PCM_IN \<and> config q = config p1 \<and> buffer_size q = 6144" for v
    using flags p1 sync assms by (simp add: open_finish_def pcm_hw_mmap_status_def Let_def p_def)
  have conf: "\<exists>q w'. open_configure K PCM_IN hw_config p v = Some ((q, w'), c) \<and> d_fds (kst w') = d_fds (kst v)
      \<and> fd q = int n \<and> flags q = PCM_IN \<and> config q = config p1 \<and> buffer_size q = 6144" for v
    using flags p1 b t tone_request fin assms
    by (simp add: open_configure_def p_def c_def open_map_def open_mapped_def)
  let ?w = "w\<lparr>kst := kst w\<lparr>d_fds := int n # d_fds (kst w)\<rparr>\<rparr>"
  obtain q w' where q: "open_configure K PCM_IN hw_config p ?w = Some ((q, w'), c)"
    "d_fds (kst w') = int n # d_fds (kst w)" "fd q = int n" "flags q = PCM_IN" "config q = config p1" "buffer_size q = 6144"
    using conf [of ?w] by auto
  then have "pcm_open K 0 0 PCM_IN (Some hw_config) w = Some (Some q, Some c, w')"
    by (simp add: pcm_open_def Let_def p_def n_def assms)
  then show ?thesis using q cf by (auto simp: c_def hw_config_def n_def)
qed

lemma tone_open:
  "\<exists>p c w'. pcm_open demo_kernel 0 0 PCM_IN (Some hw_config) (demo_world []) = Some (Some p, Some c, w')
    \<and> d_fds (kst w') = [3, 0, 1, 2] \<and> fd p = 3 \<and> channels (config p) = 2 \<and> format (config p) = PCM_FORMAT_S32_LE
    \<and> buffer_size p = 6144 \<and> channels c = 2 \<and> format c = PCM_FORMAT_S32_LE"
proof -
  have "d_fresh (kst (demo_world [])) = 3" "d_fds (kst (demo_world [])) = [0, 1, 2]" by code_simp+
  then show ?thesis using demo_open_array [of demo_kernel "k_readi demo_kernel" "demo_world []"] by auto
qed

text \<open>The handle of a ready stream of 32-bit stereo frames, with six output channels of 16 bits.\<close>

lemma ready_handle_ok:
  assumes "channels (config p) = 2" and "format (config p) = PCM_FORMAT_S32_LE" and "buffer_size p = of_nat (6 * m)"
    and "0 < m" and "96 * m < 2 ^ 31" and "sa_channels c = 6" and "sa_format c = PCM_FORMAT_S16_LE"
    and "channels conf = 2" and "format conf = PCM_FORMAT_S32_LE"
  shows "array_ok m (ready_handle E c p conf) \<and> buffered m (ready_handle E c p conf) [] \<and> pcm_handle (ready_handle E c p conf) = Some p"
proof -
  have "2 * pcm_frames_to_bytes p (pcm_get_buffer_size p) = (of_nat (96 * m) :: u32)"
    using assms(1-3) by (simp add: pcm_frames_to_bytes_def pcm_get_buffer_size_def pcm_format_to_bits_def drop_bit_eq_div)
  moreover have "unat (of_nat (96 * m) :: u32) = 96 * m" using assms(5) by (intro unat_of_nat_small) simp
  ultimately have size: "sint (2 * pcm_frames_to_bytes p (pcm_get_buffer_size p)) = int (96 * m)"
    using assms(5) sint_small_u32 [of "of_nat (96 * m)"] by simp
  have "sint (pcm_format_to_bits (sa_format c) * sa_channels c div 8) = 12"
    "sint (channels conf * pcm_format_to_bits (format conf) div 8) = 8"
    using assms(6-9) by (simp_all add: pcm_format_to_bits_def)
  then show ?thesis using assms(4,5) unfolding ready_handle_def Let_def size
    by (simp add: array_ok_def buffered_def new_handle_def HW_OUT_DATA_RATIO_def)
qed

text \<open>
  \<^verbatim>\<open>speechArrayOpen\<close> of six channels on a ready stream of stereo frames gives an empty handle with
  the sizes that the read call needs; when the stream is not ready, or the buffer cannot be allocated,
  it returns no handle and leaves the stream as \<^verbatim>\<open>pcm_open\<close> left it: it is never closed.
\<close>

theorem speech_open_outcomes:
  assumes "pcm_open K (sa_card c) (sa_device c) PCM_IN (Some hw_config) (sw w) = Some (Some p, Some conf, w1)"
    and "got_handle E" and "got_lock E" and "got_cond E"
    and "channels (config p) = 2" and "format (config p) = PCM_FORMAT_S32_LE" and "buffer_size p = of_nat (6 * m)"
    and "0 < m" and "96 * m < 2 ^ 31" and "sa_channels c = 6" and "sa_format c = PCM_FORMAT_S16_LE"
    and "channels conf = 2" and "format conf = PCM_FORMAT_S32_LE"
  shows "\<exists>ho. speechArrayOpen K E (Some c) w = Some (ho, w\<lparr>sw := w1\<rparr>)
    \<and> (case ho of
         Some h \<Rightarrow> pcm_is_ready p \<and> got_buffer E \<and> array_ok m h \<and> buffered m h [] \<and> pcm_handle h = Some p
       | None \<Rightarrow> \<not> pcm_is_ready p \<or> \<not> got_buffer E)"
  using assms(1-4) ready_handle_ok [OF assms(5-13)] by (simp add: speechArrayOpen_def DEFAULT_PCM_FLAGS_def Let_def array_ok_def)

definition all_granted :: allocations where
  "all_granted = \<lparr>got_handle = True, got_lock = True, got_cond = True, got_buffer = True, junk_buffer = []\<rparr>"

theorem speech_open_outcomes_witness:
  "\<exists>h w1. speechArrayOpen demo_kernel all_granted (Some (array_config tone_handle)) tone_world = Some (Some h, tone_world\<lparr>sw := w1\<rparr>)
      \<and> array_ok 1024 h \<and> buff_size h = 98304
    \<and> speechArrayOpen demo_kernel (all_granted\<lparr>got_buffer := False\<rparr>) (Some (array_config tone_handle)) tone_world
      = Some (None, tone_world\<lparr>sw := w1\<rparr>) \<and> d_fds (kst w1) = [3, 0, 1, 2]"
proof -
  let ?c = "array_config tone_handle"
  obtain p conf w1 where o: "pcm_open demo_kernel 0 0 PCM_IN (Some hw_config) (demo_world []) = Some (Some p, Some conf, w1)"
    "d_fds (kst w1) = [3, 0, 1, 2]" "fd p = 3" "channels (config p) = 2" "format (config p) = PCM_FORMAT_S32_LE"
    "buffer_size p = 6144" "channels conf = 2" "format conf = PCM_FORMAT_S32_LE" using tone_open by blast
  have c: "sa_card ?c = 0" "sa_device ?c = 0" "sa_channels ?c = 6" "sa_format ?c = PCM_FORMAT_S16_LE"
    by (simp_all add: tone_handle_def)
  have o': "pcm_open demo_kernel (sa_card ?c) (sa_device ?c) PCM_IN (Some hw_config) (sw tone_world) = Some (Some p, Some conf, w1)"
    using o(1) c by (simp add: tone_world_def)
  have m: "buffer_size p = of_nat (6 * 1024)" using o(6) by simp
  have g: "got_handle E \<and> got_lock E \<and> got_cond E" if "E = all_granted \<or> E = all_granted\<lparr>got_buffer := False\<rparr>" for E
    using that by (auto simp: all_granted_def)
  have 1: "\<exists>ho. speechArrayOpen demo_kernel E (Some ?c) tone_world = Some (ho, tone_world\<lparr>sw := w1\<rparr>)
    \<and> (case ho of
         Some h \<Rightarrow> pcm_is_ready p \<and> got_buffer E \<and> array_ok 1024 h \<and> buffered 1024 h [] \<and> pcm_handle h = Some p
       | None \<Rightarrow> \<not> pcm_is_ready p \<or> \<not> got_buffer E)" if "E = all_granted \<or> E = all_granted\<lparr>got_buffer := False\<rparr>" for E
    using g [OF that] by (intro speech_open_outcomes [OF o' _ _ _ o(4,5) m _ _ c(3,4) o(7,8)]) simp_all
  have r: "pcm_is_ready p" using o(3) by (simp add: pcm_is_ready_def)
  from 1 [of all_granted] r obtain h where
    "speechArrayOpen demo_kernel all_granted (Some ?c) tone_world = Some (Some h, tone_world\<lparr>sw := w1\<rparr>)" "array_ok 1024 h"
    by (auto simp: all_granted_def split: option.splits)
  moreover from 1 [of "all_granted\<lparr>got_buffer := False\<rparr>"] have
    "speechArrayOpen demo_kernel (all_granted\<lparr>got_buffer := False\<rparr>) (Some ?c) tone_world = Some (None, tone_world\<lparr>sw := w1\<rparr>)"
    by (auto split: option.splits)
  ultimately show ?thesis using o(2) by (auto simp: array_ok_def)
qed

section \<open>Requests that are too short\<close>

lemma size_of_minus: "size_of (-1) = 2 ^ 64 - 1"
  by (simp add: size_of_def zmod_minus1)

text \<open>
  a request for less than twelve bytes, which a handle of one or two channels accepts, makes the
  call copy the parser's -1 as a length: it leaves every buffer.
\<close>

theorem speech_read_short:
  assumes "pours K src" and "src fs p (sw w)" and "pcm_handle h = Some p" and "array_ok m (h\<lparr>out_align := 12\<rparr>)"
    and "data_size h = 0" and "out_align h = int a" and "0 < a" and "a dvd len" and "0 < len" and "len < 12"
  shows "SpeechArrayRead K C (Some h) (Some buff) (int len) w = Some (Inl OutOfBounds)"
proof -
  have h: "ratio h = 4" "hw_align h = 8" "buff_size h = int (96 * m)" "0 < m" "96 * m < 2 ^ 31" "length (buffer h) = 96 * m"
    using assms(4) by (simp_all add: array_ok_def)
  have "int len smod int a = 0" using assms(8) smod_nat [of len a] by (simp add: mod_eq_0_iff_dvd)
  then have 1: "read_refused h (Some buff) (int len) = Inr False"
    using assms(6,7,9) by (simp add: read_refused_def c_rem_def)
  have 2: "clamp_len h (int len) = Inr (int len)"
    using h assms(10) sdiv_nat [of "96 * m" 4] by (simp add: clamp_len_def)
  have half: "half_buffer h = int (48 * m)" using h sdiv_nat [of "96 * m" 2] by (simp add: half_buffer_def HW_BUFFER_COUNT_def)
  have "round_up (int (4 * len)) 8 = Inr (int (if 4 * len mod 8 \<noteq> 0 then 4 * len + 8 - (4 * len + 8) mod 8 else 4 * len))"
    using round_up_nat [of 8 "4 * len"] by simp
  moreover have "4 * len mod 8 = 0 \<or> 4 * len mod 8 = 4" by presburger
  then have "(if 4 * len mod 8 \<noteq> 0 then 4 * len + 8 - (4 * len + 8) mod 8 else 4 * len) \<le> 48 * m" using assms(10) h(4) by auto
  ultimately have 3: "first_read h (int len) = Inr (int (48 * m))"
    using h assms(5) half by (auto simp: first_read_def HW_OUT_DATA_RATIO_def mult.commute)
  have fits: "48 * 0 + 48 * m \<le> length (buffer h)" "length (buffer h) < 2 ^ 31" "take (48 * 0) (buffer h) = raw []"
    using h by simp_all
  obtain b p' w1 where r: "read_into K h (int (48 * 0)) (int (48 * m)) (sw w) = Some (Inr (0, h\<lparr>buffer := b, pcm_handle := Some p'\<rparr>, w1))"
    "length b = 96 * m" "take (48 * m) b = raw (map fs [0..<m])"
    using read_into_frames [OF assms(1-3) h(4) fits] h(6) by auto
  let ?h1 = "h\<lparr>buffer := b, pcm_handle := Some p'\<rparr>" and ?all = "map fs [0..<m]"
  have l: "\<forall>fr \<in> set ?all. loud fr" "?all \<noteq> []" using loud_map [OF assms(1,2), of "[0..<m]"] h(4) by auto
  have "words b = concat ?all @ drop (12 * length ?all) (words b)" by (rule words_of_frames) (use r l in simp_all)
  from skip_loud [OF this l] have sk: "skip_pass C ?h1 (int len) (int (48 * m)) (int (48 * 0)) (int (48 * 0) + int (48 * m)) False
      = Inr (Deliver ?h1 (int (48 * m)))" by (simp add: skip_pass_def)
  obtain w2 where w2: "dump ?h1 (int (48 * 0)) (int (48 * m)) (w\<lparr>sw := w1\<rparr>) = Inr w2"
    using dump_fits [of "48 * m" "48 * 0" ?h1 "w\<lparr>sw := w1\<rparr>"] h r(2) by auto
  have "parseData_INT32 b (int len * HW_OUT_DATA_RATIO) = Inr (-1, b)"
    using assms(10) by (simp add: parseData_INT32_def MINI_SINGLE_SAMPLE_BYTES_def HW_OUT_DATA_RATIO_def)
  moreover have "int len * HW_OUT_DATA_RATIO < int (48 * m)" using assms(10) h(4) by (simp add: HW_OUT_DATA_RATIO_def)
  moreover have "slice b 0 (2 ^ 64 - 1) = Inl OutOfBounds" using h(5) r(2) by (simp add: slice_def)
  ultimately have d: "deliver C ?h1 (int len) (int (48 * m)) buff = Inl OutOfBounds"
    by (simp add: deliver_def Let_def size_of_minus)
  have n: "int (48 * m) \<noteq> 0" using h(4) by simp
  have "read_loop K C (int len) (int (48 * m)) (int (48 * 0)) (int (48 * 0)) (int (48 * m)) False h buff w = Some (Inl OutOfBounds)"
    by (subst read_loop.simps) (simp only: n r(1) sk w2 d option.case sum.case prod.case bindE_simps pass.case if_True if_False
        refl simp_thms)
  then show ?thesis
    by (simp add: SpeechArrayRead_def 1 2 3 assms(5))
qed

theorem speech_read_short_witness:
  "SpeechArrayRead tone_kernel move_bytes (Some (tone_handle\<lparr>out_align := 2\<rparr>)) (Some [0, 0]) 2 tone_world = Some (Inl OutOfBounds)"
proof -
  have "tone (\<lambda>i. demo_frame 0x40) tone_pcm (sw tone_world)" by (simp add: tone_def)
  from speech_read_short [OF tone_pours this, of "tone_handle\<lparr>out_align := 2\<rparr>" 1 2 2] tone_ready
  show ?thesis by (simp add: tone_handle_def)
qed

section \<open>A partial frame at hand\<close>

text \<open>
  when the bytes kept from the last call are not a multiple of the eight bytes of a hardware
  frame, a call for the whole buffer reads past its end.
\<close>

theorem speech_read_overflow:
  assumes "array_ok m h" and "pcm_handle h = Some p" and "channels (config p) = 2" and "format (config p) = PCM_FORMAT_S32_LE"
    and "data_size h = int d" and "d mod 8 \<noteq> 0" and "d < 96 * m"
  shows "SpeechArrayRead K C (Some h) (Some buff) (int (24 * m)) w = Some (Inl OutOfBounds)"
proof -
  have h: "ratio h = 4" "hw_align h = 8" "buff_size h = int (96 * m)" "0 < m" "96 * m < 2 ^ 31" "length (buffer h) = 96 * m"
    using assms(1) by (simp_all add: array_ok_def)
  define e where "e = 96 * m - d"
  define q where "q = e div 8 + 1"
  have de: "d + e = 96 * m" using assms(7) by (simp add: e_def)
  have md: "e mod 8 \<noteq> 0"
  proof
    assume "e mod 8 = 0"
    then have "d mod 8 = (d + e) mod 8" by (simp add: mod_add_eq [symmetric, of d e 8])
    then show False using assms(6) by (simp add: de)
  qed
  have "e + 8 - e mod 8 = e - e mod 8 + 8" by (simp add: mod_less_eq_dividend)
  then have q: "e + 8 - (e + 8) mod 8 = 8 * q" unfolding q_def mod_add_self2 minus_mod_eq_mult_div by simp
  have "e < 8 * q" using dividend_less_div_times [of 8 e] by (simp add: q_def mult.commute)
  then have big: "96 * m < d + 8 * q" using de by linarith
  have "round_up (int (96 * m - d)) 8 = Inr (int (8 * q))"
    using round_up_nat [of 8 e] md q by (simp add: e_def)
  moreover have "int (24 * m) * ratio h - data_size h = int (96 * m - d)" using h(1) assms(5,7) by (simp add: of_nat_diff)
  moreover have half: "half_buffer h = int (48 * m)" by (rule half_buffer_frames [OF assms(1)])
  ultimately have 3: "first_read h (int (24 * m)) = Inr (int (8 * max q (6 * m)))"
    using h(2) assms(5,7) by (auto simp: first_read_def HW_OUT_DATA_RATIO_def max_def)
  let ?n = "8 * max q (6 * m)"
  have n: "0 < ?n" "?n < 2 ^ 31" "96 * m < d + ?n" using h(4,5) big de by (auto simp: max_def q_def)
  have x: "xfer_frames p (of_int (int ?n)) = Inr (of_nat (max q (6 * m)))"
    using stereo_frames [OF assms(3,4) n(2)] by (simp only: of_int_of_nat_eq)
  have "unat (of_nat (max q (6 * m)) :: u64) = max q (6 * m)" using n(2) by (intro unat_of_nat_small) simp
  then have room: "length (buffer h) < nat (int d) + unat (of_nat (max q (6 * m)) :: u64) * unat (pcm_frames_to_bytes p 1)"
    using n(3) h(6) frame_sizes(2) [OF assms(3,4), of 0] by simp
  then have "read_into K h (int d) (int ?n) (sw w) = Some (Inl OutOfBounds)"
    unfolding read_into_def assms(2) option.case x sum.case by (rule if_P)
  moreover have "int ?n \<noteq> 0" using h(4) by simp
  ultimately have "read_loop K C (int (24 * m)) (int ?n) (int d) (int d) (int ?n) False h buff w = Some (Inl OutOfBounds)"
    by (subst read_loop.simps) (simp only: option.case sum.case if_True simp_thms)
  moreover have 1: "read_refused h (Some buff) (int (24 * m)) = Inr False" and 2: "clamp_len h (int (24 * m)) = Inr (int (24 * m))"
    using accepted_frames [OF assms(1), of "2 * m" buff] clamp_frames [OF assms(1), of "2 * m"] h(4) by simp_all
  ultimately show ?thesis
    unfolding SpeechArrayRead_def option.case 1 2 3 bindE_simps if_False sum.case prod.case option.sel assms(5) by simp
qed

theorem speech_read_overflow_witness:
  "SpeechArrayRead tone_kernel move_bytes (Some (tone_handle\<lparr>data_size := 4\<rparr>)) (Some (replicate 24 0)) 24 tone_world
    = Some (Inl OutOfBounds)"
proof -
  have "array_ok 1 (tone_handle\<lparr>data_size := 4\<rparr>)" using tone_ready(1) by (simp add: array_ok_def)
  from speech_read_overflow [OF this, of tone_pcm 4] show ?thesis
    by (simp add: tone_handle_def tone_pcm_def hw_config_def)
qed

section \<open>A device that fails for good\<close>

text \<open>A stream on which every read fails.\<close>

definition broken :: "'k pcm_kernel \<Rightarrow> pcm_config \<Rightarrow> (pcm \<Rightarrow> 'k world \<Rightarrow> bool) \<Rightarrow> bool" where
  "broken K c bad \<longleftrightarrow> (\<forall>p w buf n. bad p w \<longrightarrow> config p = c
     \<and> (\<exists>r buf' p' w'. pcm_read K buf n p w = Some (Inr (r, buf', p', w')) \<and> r \<noteq> 0 \<and> length buf' = length buf \<and> bad p' w'))"

lemma read_into_broken:
  assumes "broken K c bad" and "pcm_handle h = Some p" and "bad p w" and "xfer_frames p (of_int n) = Inr nf"
    and "nat off + unat nf * unat (pcm_frames_to_bytes p 1) \<le> length (buffer h)"
  shows "\<exists>r b p' w'. read_into K h off n w = Some (Inr (r, h\<lparr>buffer := b, pcm_handle := Some p'\<rparr>, w')) \<and> r \<noteq> 0
    \<and> length b = length (buffer h) \<and> bad p' w'"
proof -
  obtain r d p' w' where r: "pcm_read K (drop (nat off) (buffer h)) (of_int n) p w = Some (Inr (r, d, p', w'))" "r \<noteq> 0"
    "length d = length (drop (nat off) (buffer h))" "bad p' w'" using assms(1,3) unfolding broken_def by blast
  have "\<not> length (buffer h) < nat off + unat nf * unat (pcm_frames_to_bytes p 1)" using assms(5) by simp
  then have "read_into K h off n w = Some (Inr (r, h\<lparr>buffer := take (nat off) (buffer h) @ d, pcm_handle := Some p'\<rparr>, w'))"
    by (simp add: read_into_def assms(2,4) r(1))
  moreover have "length (take (nat off) (buffer h) @ d) = length (buffer h)" using r(3) by simp
  ultimately show ?thesis using r(2,4) by blast
qed

lemma xfer_frames_config: "config p' = config p \<Longrightarrow> xfer_frames p' n = xfer_frames p n"
  by (simp add: xfer_frames_def)

lemma frames_to_bytes_config: "config p' = config p \<Longrightarrow> pcm_frames_to_bytes p' n = pcm_frames_to_bytes p n"
  by (simp add: pcm_frames_to_bytes_def)

lemma read_loop_broken:
  fixes K :: "'k pcm_kernel"
  assumes "broken K c bad" and "pcm_handle h = Some p" and "bad p (sw w)" and "n \<noteq> 0" and "xfer_frames p (of_int n) = Inr nf"
    and "nat off + unat nf * unat (pcm_frames_to_bytes p 1) \<le> length (buffer h)"
  shows "read_loop K C len rs off avail n checked h buff w = None"
proof -
  let ?good = "\<lambda>h w. \<exists>p. pcm_handle h = Some p \<and> bad p (sw w) \<and> xfer_frames p (of_int n) = Inr nf
    \<and> nat off + unat nf * unat (pcm_frames_to_bytes p 1) \<le> length (buffer h)"
  let ?P = "\<lambda>K' C' len' rs' off' avail' n' checked' h' buff' w' y. \<not> (K' = K \<and> off' = off \<and> n' = n \<and> ?good h' w')"
  have "\<not> read_loop K C len rs off avail n checked h buff w = Some y" for y :: "(int \<times> SpeechArrayHandle_t \<times> u8 list \<times> 'k sound) res"
  proof
    assume y: "read_loop K C len rs off avail n checked h buff w = Some y"
    have "?P K C len rs off avail n checked h buff w y"
    proof (rule read_loop.raw_induct [of ?P, OF _ y])
      fix loop K' C' len' rs' off' avail' n' checked' h' buff' w' and y :: "(int \<times> SpeechArrayHandle_t \<times> u8 list \<times> 'k sound) res"
      assume IH: "\<And>K' C' len' rs' off' avail' n' checked' h' buff' w' y.
          loop K' C' len' rs' off' avail' n' checked' h' buff' w' = Some y \<Longrightarrow> ?P K' C' len' rs' off' avail' n' checked' h' buff' w' y"
        and eq: "(case (if n' \<noteq> 0 then read_into K' h' off' n' (sw w') else Some (Inr (0, h', sw w'))) of
            None \<Rightarrow> None
          | Some (Inl f) \<Rightarrow> Some (Inl f)
          | Some (Inr (ret, h1, w1)) \<Rightarrow>
              if ret \<noteq> 0 then loop K' C' len' rs' off' avail' n' checked' h1 buff' (w'\<lparr>sw := w1\<rparr>)
              else case bindE (dump h1 off' n' (w'\<lparr>sw := w1\<rparr>)) (\<lambda>w2.
                          bindE (skip_pass C' h1 len' rs' off' (avail' + n') checked') (\<lambda>ps. Inr (ps, w2))) of
                     Inl f \<Rightarrow> Some (Inl f)
                   | Inr (Read_on h2 off'' avail'' n'', w2) \<Rightarrow> loop K' C' len' rs' off'' avail'' n'' True h2 buff' w2
                   | Inr (Deliver h2 avail'', w2) \<Rightarrow>
                       Some (bindE (deliver C' h2 len' avail'' buff') (\<lambda>(r, h3, b). Inr (r, h3, b, w2)))) = Some y"
      show "?P K' C' len' rs' off' avail' n' checked' h' buff' w' y"
      proof
        assume a: "K' = K \<and> off' = off \<and> n' = n \<and> ?good h' w'"
        then have e: "K' = K" "off' = off" "n' = n" by simp_all
        from a obtain p where p: "pcm_handle h' = Some p" "bad p (sw w')" "xfer_frames p (of_int n) = Inr nf"
          "nat off + unat nf * unat (pcm_frames_to_bytes p 1) \<le> length (buffer h')" by blast
        from read_into_broken [OF assms(1) p] obtain r b p' w1 where
          r: "read_into K h' off n (sw w') = Some (Inr (r, h'\<lparr>buffer := b, pcm_handle := Some p'\<rparr>, w1))" "r \<noteq> 0"
          "length b = length (buffer h')" "bad p' w1" by blast
        have c: "config p' = config p" using assms(1) p(2) r(4) unfolding broken_def by metis
        then have "?good (h'\<lparr>buffer := b, pcm_handle := Some p'\<rparr>) (w'\<lparr>sw := w1\<rparr>)"
          using p(3,4) r(3,4) by (simp add: xfer_frames_config [OF c] frames_to_bytes_config [OF c])
        moreover have "loop K C' len' rs' off avail' n checked' (h'\<lparr>buffer := b, pcm_handle := Some p'\<rparr>) buff' (w'\<lparr>sw := w1\<rparr>) = Some y"
          using eq unfolding e if_P [OF assms(4)] r(1) option.case sum.case prod.case if_P [OF r(2)] .
        ultimately show False using IH by blast
      qed
    qed
    then show False using assms(2,3,5,6) by blast
  qed
  then show ?thesis by (cases "read_loop K C len rs off avail n checked h buff w") auto
qed

text \<open>
  on a device whose reads fail for good, for instance one that was unplugged, the read call never
  returns: it has no answer for a failed read but another one, and holds the lock of the handle.
\<close>

theorem speech_read_never_returns:
  assumes "broken K c bad" and "pcm_handle h = Some p" and "bad p (sw w)" and "array_ok m h" and "buffered m h frs"
    and "channels c = 2" and "format c = PCM_FORMAT_S32_LE" and "length frs \<le> k" and "0 < k" and "k \<le> 2 * m"
  shows "SpeechArrayRead K C (Some h) (Some buff) (int (12 * k)) w = None"
proof -
  let ?n = "fresh_frames m k (length frs)"
  have d: "data_size h = int (48 * length frs)" "length frs \<le> m" using assms(5) by (simp_all add: buffered_def)
  have m: "0 < m" "96 * m < 2 ^ 31" "length (buffer h) = 96 * m" using assms(4) by (simp_all add: array_ok_def)
  have n: "0 < ?n" "48 * length frs + 48 * ?n \<le> 96 * m"
    using fresh_frames_bounds(1) [OF d(2) assms(10)] assms(8) m(1) by (auto simp: fresh_frames_def)
  have c: "channels (config p) = 2" "format (config p) = PCM_FORMAT_S32_LE" using assms(1,3,6,7) unfolding broken_def by metis+
  have n31: "48 * ?n < 2 ^ 31" using n(2) m(2) by linarith
  have x: "xfer_frames p (of_int (int (48 * ?n))) = Inr (of_nat (6 * ?n))"
    using frame_sizes(1) [OF c n31] by (simp only: of_int_of_nat_eq)
  have "unat (of_nat (6 * ?n) :: u64) = 6 * ?n" using n31 by (intro unat_of_nat_small) simp
  then have room: "nat (int (48 * length frs)) + unat (of_nat (6 * ?n) :: u64) * unat (pcm_frames_to_bytes p 1) \<le> length (buffer h)"
    using n(2) m(3) frame_sizes(2) [OF c n31] by simp
  have "int (48 * ?n) \<noteq> 0" using n(1) by simp
  from read_loop_broken [OF assms(1-3) this x room] show ?thesis
    by (simp add: SpeechArrayRead_def accepted_frames [OF assms(4,9), simplified] clamp_frames [OF assms(4,10), simplified]
        first_read_frames [OF assms(4) d(1), simplified] d(1))
qed

definition dead_kernel :: "demo pcm_kernel" where
  "dead_kernel = demo_kernel\<lparr>k_readi := \<lambda>d b n k. (SysErr 19, b, k), k_prepare := \<lambda>d k. (SysErr 19, k)\<rparr>"

definition dead_stream :: "pcm \<Rightarrow> demo world \<Rightarrow> bool" where
  "dead_stream p w \<longleftrightarrow> config p = hw_config \<and> has (flags p) PCM_IN \<and> (running p \<or> \<not> prepared p)"

lemma dead_read:
  assumes "dead_stream p w"
  shows "\<exists>r p' w'. pcm_read_loop dead_kernel fr buf p w = Some (r, buf, p', w') \<and> r \<noteq> 0 \<and> dead_stream p' w'"
proof (cases "running p")
  case True
  with assms show ?thesis
    by (subst pcm_read_loop.simps)
       (simp add: dead_kernel_def dead_stream_def sys_def pcm_fail_def)
next
  case False
  with assms show ?thesis
    by (subst pcm_read_loop.simps)
       (simp add: dead_kernel_def dead_stream_def sys_def pcm_fail_def pcm_start_def pcm_prepare_def)
qed

lemma dead_broken: "broken dead_kernel hw_config dead_stream"
proof -
  have "\<exists>r buf' p' w'. pcm_read dead_kernel buf n p w = Some (Inr (r, buf', p', w')) \<and> r \<noteq> 0 \<and> length buf' = length buf
      \<and> dead_stream p' w'" if d: "dead_stream p w" for p w buf n
  proof -
    have c: "config p = hw_config" "has (flags p) PCM_IN" using d by (simp_all add: dead_stream_def)
    obtain fr where fr: "xfer_frames p n = Inr fr" using c(1) by (auto simp: xfer_frames_def hw_config_def pcm_format_to_bits_def)
    from dead_read [OF d, of fr buf] show ?thesis using c(2) fr by (force simp: pcm_read_def)
  qed
  then show ?thesis unfolding broken_def by (simp add: dead_stream_def)
qed

theorem speech_read_never_returns_witness:
  "SpeechArrayRead dead_kernel move_bytes (Some tone_handle) (Some (replicate 24 0)) 24 tone_world = None"
proof -
  have "dead_stream tone_pcm (sw tone_world)"
    by (simp add: dead_stream_def tone_pcm_def has_def PCM_IN_def)
  from speech_read_never_returns [OF dead_broken tone_ready(3) this tone_ready(1,2), of 2 move_bytes "replicate 24 0"]
  show ?thesis by (simp add: hw_config_def)
qed

end
