(* ===== verification/FileStore.thy ===== *)
theory FileStore
  imports Prelude
begin

text \<open>
  The file system calls of demo/SpeechPersistentDemo/SpeechPersistent.c as a record, and the functions
  of that file that need nothing else: joining paths, \<^verbatim>\<open>remove_file\<close> and \<^verbatim>\<open>rmDir\<close>. The directory stream of
  \<^verbatim>\<open>readdir\<close> is the list of the names that the directory had when it was opened: a directory is only
  changed by the loop that reads it, which removes no entry before it has read it. The allocations of
  the joined paths are left out: each is freed in the round that makes it.
\<close>

section \<open>The calls\<close>

datatype file_kind = Regular | Directory | Other_file

record tm =
  tm_year :: int
  tm_mon :: nat
  tm_mday :: nat
  tm_hour :: nat
  tm_min :: nat
  tm_sec :: nat

record 'k fs_kernel =
  f_malloc :: "'k \<Rightarrow> bool \<times> 'k"
  f_pool :: "'k \<Rightarrow> bool \<times> 'k"
  f_thread :: "'k \<Rightarrow> bool \<times> 'k"
  f_localtime :: "'k \<Rightarrow> tm \<times> 'k"
  f_access :: "string \<Rightarrow> nat \<Rightarrow> 'k \<Rightarrow> sysret \<times> 'k"
  f_mkdir :: "string \<Rightarrow> nat \<Rightarrow> 'k \<Rightarrow> sysret \<times> 'k"
  f_open :: "string \<Rightarrow> nat \<Rightarrow> 'k \<Rightarrow> sysret \<times> 'k"
  f_write :: "int \<Rightarrow> u8 list \<Rightarrow> 'k \<Rightarrow> sysret \<times> 'k"
  f_close :: "int \<Rightarrow> 'k \<Rightarrow> sysret \<times> 'k"
  f_lstat :: "string \<Rightarrow> 'k \<Rightarrow> (sysret \<times> file_kind) \<times> 'k"
  f_opendir :: "string \<Rightarrow> 'k \<Rightarrow> string list option \<times> 'k"
  f_closedir :: "string \<Rightarrow> 'k \<Rightarrow> sysret \<times> 'k"
  f_rmdir :: "string \<Rightarrow> 'k \<Rightarrow> sysret \<times> 'k"
  f_unlink :: "string \<Rightarrow> 'k \<Rightarrow> sysret \<times> 'k"
  f_remove :: "string \<Rightarrow> 'k \<Rightarrow> sysret \<times> 'k"
  f_chdir :: "string \<Rightarrow> 'k \<Rightarrow> sysret \<times> 'k"

abbreviation (input) ENOENT :: int where "ENOENT \<equiv> 2"

text \<open>A call in a world, or in a record that extends one: its return value and the new state.\<close>

definition fsys :: "sysret \<times> 'k \<Rightarrow> ('k, 'z) world_scheme \<Rightarrow> int \<times> ('k, 'z) world_scheme" where
  "fsys rk w = (ret_of (fst rk), w\<lparr>kst := snd rk, errno := errno_after (errno w) (fst rk)\<rparr>)"

section \<open>Paths\<close>

text \<open>Whether the last character of \<open>s\<close> is \<open>c\<close>; the code returns a pointer to it.\<close>

definition last_char_is :: "string option \<Rightarrow> char \<Rightarrow> bool" where
  "last_char_is s c = (case s of None \<Rightarrow> False | Some t \<Rightarrow> t \<noteq> [] \<and> last t = c)"

definition DOT_OR_DOTDOT :: "string \<Rightarrow> bool" where
  "DOT_OR_DOTDOT s \<longleftrightarrow> s = ''.'' \<or> s = ''..''"

definition concat_path_file :: "string option \<Rightarrow> string \<Rightarrow> string" where
  "concat_path_file path filename =
     (let p = (case path of None \<Rightarrow> '''' | Some q \<Rightarrow> q);
          f = dropWhile (\<lambda>c. c = CHR ''/'') filename
      in p @ (if last_char_is (Some p) CHR ''/'' then '''' else ''/'') @ f)"

definition concat_subpath_file :: "string option \<Rightarrow> string \<Rightarrow> string option" where
  "concat_subpath_file path f = (if DOT_OR_DOTDOT f then None else Some (concat_path_file path f))"

section \<open>Removing\<close>

text \<open>
  \<open>Inl path\<close> is a call of \<^verbatim>\<open>remove_file\<close>; \<open>Inr (path, names, status)\<close> is its loop over the names that are
  still to be read. \<^term>\<open>None\<close> is a call that never returns.
\<close>

partial_function (option) remove_go ::
    "'k fs_kernel \<Rightarrow> string + (string \<times> string list \<times> int) \<Rightarrow> 'k world \<Rightarrow> (int \<times> 'k world) option" where
  "remove_go K job w =
     (case job of
        Inl path \<Rightarrow>
          (case f_lstat K path (kst w) of
             ((r, kind), k1) \<Rightarrow>
               (case fsys (r, k1) w of
                  (ret, w1) \<Rightarrow>
                    if ret < 0 then Some (if errno w1 \<noteq> ENOENT then -1 else 0, w1)
                    else if kind = Directory
                    then (case f_opendir K path (kst w1) of
                            (None, k2) \<Rightarrow> Some (-1, w1\<lparr>kst := k2\<rparr>)
                          | (Some names, k2) \<Rightarrow>
                              Option.bind (remove_go K (Inr (path, names, 0)) (w1\<lparr>kst := k2\<rparr>)) (\<lambda>(status, w2).
                                   (case fsys (f_closedir K path (kst w2)) w2 of
                                      (c, w3) \<Rightarrow>
                                        if c < 0 then Some (-1, w3)
                                        else (case fsys (f_rmdir K path (kst w3)) w3 of
                                                (d, w4) \<Rightarrow> Some (if d < 0 then -1 else status, w4)))))
                    else (case fsys (f_unlink K path (kst w1)) w1 of
                            (u, w2) \<Rightarrow> Some (if u < 0 then -1 else 0, w2))))
      | Inr (path, names, status) \<Rightarrow>
          (case names of
             [] \<Rightarrow> Some (status, w)
           | n # ns \<Rightarrow>
               (case concat_subpath_file (Some path) n of
                  None \<Rightarrow> remove_go K (Inr (path, ns, status)) w
                | Some new_path \<Rightarrow>
                    Option.bind (remove_go K (Inl new_path) w) (\<lambda>(r, w1).
                       remove_go K (Inr (path, ns, if r < 0 then -1 else status)) w1))))"

definition remove_file :: "'k fs_kernel \<Rightarrow> string \<Rightarrow> 'k world \<Rightarrow> (int \<times> 'k world) option" where
  "remove_file K path w = remove_go K (Inl path) w"

text \<open>The loop of \<^verbatim>\<open>rmDir\<close>: a failed \<^verbatim>\<open>lstat\<close> leaves the kind of the entry before.\<close>

fun rmDir_loop :: "'k fs_kernel \<Rightarrow> string list \<Rightarrow> file_kind \<Rightarrow> 'k world \<Rightarrow> 'k world" where
  "rmDir_loop K [] kind w = w"
| "rmDir_loop K (n # ns) kind w =
     (case f_lstat K n (kst w) of
        ((r, kd), k1) \<Rightarrow>
          (case fsys (r, k1) w of
             (ret, w1) \<Rightarrow>
               let kind' = (if ret < 0 then kind else kd)
               in rmDir_loop K ns kind'
                    (if kind' = Regular then snd (fsys (f_remove K n (kst w1)) w1) else w1)))"

definition rmDir :: "'k fs_kernel \<Rightarrow> string option \<Rightarrow> 'k world \<Rightarrow> int \<times> 'k world" where
  "rmDir K dir w =
     (case dir of
        None \<Rightarrow> (-1, w)
      | Some path \<Rightarrow>
          (case f_lstat K path (kst w) of
             ((r, kind), k1) \<Rightarrow>
               (case fsys (r, k1) w of
                  (ret, w1) \<Rightarrow>
                    if ret \<noteq> 0 then (-1, w1)
                    else if kind = Directory
                    then (case f_opendir K path (kst w1) of
                            (None, k2) \<Rightarrow> (-1, w1\<lparr>kst := k2\<rparr>)
                          | (Some names, k2) \<Rightarrow>
                              (0, rmDir_loop K names kind (snd (fsys (f_chdir K path k2) (w1\<lparr>kst := k2\<rparr>)))))
                    else (0, snd (fsys (f_remove K path (kst w1)) w1)))))"

end
