(* ===== verification/Persist.thy ===== *)
theory Persist
  imports FileStore PcmParams
begin

text \<open>
  The recorder of demo/SpeechPersistentDemo/SpeechPersistent.c. Its callers start a session, hand it
  chunks of sound and results, and stop it; each call becomes a task of a thread pool with one worker,
  which writes the files of the session. Every twentieth complete session starts a thread that moves on
  to the next of four directories and removes the old one.
  \<^item> A task is one step of the worker: the only other threads are the callers, who touch nothing
    that a task uses but the memory they hand over, and the upload thread, whose steps are apart.
  \<^item> A log line below the level of an error is compiled out (\<^verbatim>\<open>DEBUGLEVEL\<close> in dprintf.h); the others
    print texts that are in use, and are left out.
  \<^item> Memory is a map from addresses to cells. 0 is \<^verbatim>\<open>NULL\<close>; an access to a cell that was freed, and
    \<^verbatim>\<open>NULL\<close> passed to \<^verbatim>\<open>sprintf\<close> for a path or to a system call as one, are faults.
  \<^item> The pool is the queue of the tasks its worker has not begun; the theory PoolSingle shows that the
    pool of Threadpool with one worker runs its tasks like that.
\<close>

section \<open>State\<close>

definition MAX_INDEX :: nat where "MAX_INDEX = 64"
definition MAX_NLP_BUFFER_LEN :: int where "MAX_NLP_BUFFER_LEN = 128 * 1024"
definition MAX_PERSISTENT_COUNT :: int where "MAX_PERSISTENT_COUNT = 20"
definition SN_LENGTH :: nat where "SN_LENGTH = 33"
definition MAX_PATH_INDEX :: int where "MAX_PATH_INDEX = 4"
definition DEFAULT_MODE :: nat where "DEFAULT_MODE = 511"

definition gDefaultLocal :: "string list" where
  "gDefaultLocal = [''/data/speech0'', ''/data/speech1'', ''/data/speech2'', ''/data/speech3'']"

datatype PersistentType_t = TYPE_START | TYPE_SEEPCH | TYPE_ASR | TYPE_NLP | TYPE_STOP

record PersistentHandle_t =
  h_id :: nat
  h_type :: PersistentType_t
  h_buf :: nat
  h_len :: int
  h_completed :: int

datatype cell = Text string | Bytes "u8 list" | Handle PersistentHandle_t

datatype task_function = StartTask | StopTask | ProcessTask

datatype pool_pointer = No_pool | Pool_up | Pool_shutdown | Pool_freed

text \<open>Where an upload thread stands; its argument is the directory to remove.\<close>

datatype upload = U_Start "string option" | U_Null string | U_Remove string

record 'k persist = "'k world" +
  mem :: "nat \<rightharpoonup> cell"
  brk :: nat
  gThreadPool :: pool_pointer
  pool_tasks :: "(task_function \<times> nat) list"
  gPreName :: nat
  gPersistentCount :: int
  gnDefaultPathIndex :: int
  gpDefaultPath :: "string option"
  gSDId :: string
  uploads :: "upload list"

section \<open>Memory\<close>

definition new_cell :: "'k fs_kernel \<Rightarrow> cell \<Rightarrow> 'k persist \<Rightarrow> nat \<times> 'k persist" where
  "new_cell K c s =
     (let (ok, k) = f_malloc K (kst s); a = brk s + 1
      in if ok then (a, s\<lparr>kst := k, brk := a, mem := (mem s)(a \<mapsto> c)\<rparr>) else (0, s\<lparr>kst := k\<rparr>))"

definition free_cell :: "nat \<Rightarrow> 'k persist \<Rightarrow> 'k persist res" where
  "free_cell a s =
     (if a = 0 then Inr s else case mem s a of None \<Rightarrow> Inl DoubleFree | Some c \<Rightarrow> Inr (s\<lparr>mem := (mem s)(a := None)\<rparr>))"

definition text_at :: "nat \<Rightarrow> 'k persist \<Rightarrow> string res" where
  "text_at a s =
     (if a = 0 then Inl NullDeref else case mem s a of Some (Text t) \<Rightarrow> Inr t | _ \<Rightarrow> Inl UseAfterFree)"

definition bytes_at :: "nat \<Rightarrow> 'k persist \<Rightarrow> u8 list res" where
  "bytes_at a s =
     (if a = 0 then Inl NullDeref else case mem s a of Some (Bytes b) \<Rightarrow> Inr b | _ \<Rightarrow> Inl UseAfterFree)"

definition handle_at :: "nat \<Rightarrow> 'k persist \<Rightarrow> PersistentHandle_t res" where
  "handle_at a s = (case mem s a of Some (Handle h) \<Rightarrow> Inr h | _ \<Rightarrow> Inl UseAfterFree)"

text \<open>\<^verbatim>\<open>sprintf\<close> into a local buffer of \<open>n\<close> bytes, of an already formatted text.\<close>

definition sprintf_local :: "nat \<Rightarrow> string \<Rightarrow> string res" where
  "sprintf_local n tx = (if length tx < n then Inr tx else Inl OutOfBounds)"

definition getDeviceId :: "'k persist \<Rightarrow> string res" where
  "getDeviceId s =
     (if CHR 0x00 \<in> set (gSDId s) then Inr (takeWhile (\<lambda>c. c \<noteq> CHR 0x00) (gSDId s)) else Inl OutOfBounds)"

section \<open>Names\<close>

definition two_digits :: "nat \<Rightarrow> string" where
  "two_digits n = pad_left CHR ''0'' 2 (digits 10 n)"

definition time_text :: "tm \<Rightarrow> string" where
  "time_text t =
     (let y = tm_year t + 1900
      in (if 0 \<le> y then pad_left CHR ''0'' 4 (digits 10 (nat y)) else CHR ''-'' # pad_left CHR ''0'' 3 (digits 10 (nat (- y))))
         @ two_digits (tm_mon t) @ two_digits (tm_mday t) @ two_digits (tm_hour t) @ two_digits (tm_min t) @ two_digits (tm_sec t))"

definition getIDbytime :: "'k fs_kernel \<Rightarrow> 'k persist \<Rightarrow> (nat \<times> 'k persist) res" where
  "getIDbytime K s =
     (let (t, k) = f_localtime K (kst s)
      in bindE (sprintf_local 20 (time_text t)) (\<lambda>tx. Inr (new_cell K (Text tx) (s\<lparr>kst := k\<rparr>))))"

text \<open>The four functions that name a file of a session differ in what they append.\<close>

definition name_of_session :: "'k fs_kernel \<Rightarrow> string \<Rightarrow> nat \<Rightarrow> 'k persist \<Rightarrow> (nat \<times> 'k persist) res" where
  "name_of_session K tail i s =
     bindE (text_at (gPreName s) s) (\<lambda>pre.
     bindE (text_at i s) (\<lambda>id'.
     bindE (sprintf_local 256 (pre @ ''/'' @ id' @ tail)) (\<lambda>tx.
       Inr (new_cell K (Text tx) s))))"

definition getDirByID :: "'k fs_kernel \<Rightarrow> nat \<Rightarrow> 'k persist \<Rightarrow> (nat \<times> 'k persist) res" where
  "getDirByID K i s = name_of_session K '''' i s"

definition getNameByID :: "'k fs_kernel \<Rightarrow> nat \<Rightarrow> 'k persist \<Rightarrow> (nat \<times> 'k persist) res" where
  "getNameByID K i s = name_of_session K ''/input.pcm'' i s"

definition getASRByID :: "'k fs_kernel \<Rightarrow> nat \<Rightarrow> 'k persist \<Rightarrow> (nat \<times> 'k persist) res" where
  "getASRByID K i s = name_of_session K ''/outputasr.json'' i s"

definition getNLPByID :: "'k fs_kernel \<Rightarrow> nat \<Rightarrow> 'k persist \<Rightarrow> (nat \<times> 'k persist) res" where
  "getNLPByID K i s = name_of_session K ''/output.json'' i s"

text \<open>One \<^verbatim>\<open>access\<close> and, when it fails, one \<^verbatim>\<open>mkdir\<close>: whether the caller goes on.\<close>

definition ensure_dir :: "'k fs_kernel \<Rightarrow> string \<Rightarrow> 'k persist \<Rightarrow> bool \<times> 'k persist" where
  "ensure_dir K path s =
     (case fsys (f_access K path DEFAULT_MODE (kst s)) s of
        (ret, s1) \<Rightarrow>
          if ret \<noteq> 0
          then (case fsys (f_mkdir K path DEFAULT_MODE (kst s1)) s1 of
                  (r, s2) \<Rightarrow> (\<not> (r < 0 \<and> errno s2 \<noteq> EEXIST), s2))
          else (True, s1))"

definition initPath :: "'k fs_kernel \<Rightarrow> 'k persist \<Rightarrow> 'k persist res" where
  "initPath K s =
     (case gpDefaultPath s of
        None \<Rightarrow> Inl NullDeref
      | Some dir \<Rightarrow>
          (case ensure_dir K dir s of
             (go, s1) \<Rightarrow>
               if \<not> go then Inr s1
               else bindE (sprintf_local 256 (dir @ ''/'' @ ''flying-pig'')) (\<lambda>path.
                 (case ensure_dir K path s1 of
                    (go, s2) \<Rightarrow>
                      if \<not> go then Inr s2
                      else bindE (getDeviceId s2) (\<lambda>dev.
                           bindE (sprintf_local 256 (dir @ ''/'' @ ''flying-pig'' @ ''/'' @ dev)) (\<lambda>path.
                             (case ensure_dir K path s2 of
                                (go, s3) \<Rightarrow>
                                  if \<not> go then Inr s3
                                  else (case new_cell K (Text path) s3 of (a, s4) \<Rightarrow> Inr (s4\<lparr>gPreName := a\<rparr>)))))))))"

section \<open>Tasks\<close>

definition run_StartTask :: "'k fs_kernel \<Rightarrow> nat \<Rightarrow> 'k persist \<Rightarrow> 'k persist res" where
  "run_StartTask K a s =
     (if a = 0 then Inr s
      else bindE (handle_at a s) (\<lambda>h.
        if h_type h \<noteq> TYPE_START then free_cell a s
        else bindE (initPath K (s\<lparr>gpDefaultPath := Some (gDefaultLocal ! nat (gnDefaultPathIndex s))\<rparr>)) (\<lambda>s1.
             bindE (getDirByID K (h_id h) s1) (\<lambda>(name, s2).
             bindE (text_at name s2) (\<lambda>path.
               (case fsys (f_mkdir K path DEFAULT_MODE (kst s2)) s2 of
                  (ret, s3) \<Rightarrow> bindE (free_cell name s3) (free_cell a)))))))"

definition checkUpload :: "'k fs_kernel \<Rightarrow> 'k persist \<Rightarrow> 'k persist res" where
  "checkUpload K s =
     (let (ok, k) = f_thread K (kst s)
      in if ok then Inr (s\<lparr>kst := k, uploads := uploads s @ [U_Start (gpDefaultPath s)]\<rparr>) else Inl BadThread)"

definition doCheckAndTriggerUpload :: "'k fs_kernel \<Rightarrow> 'k persist \<Rightarrow> 'k persist res" where
  "doCheckAndTriggerUpload K s =
     bindE (if gPersistentCount s = MAX_PERSISTENT_COUNT - 1 then checkUpload K s else Inr s) (\<lambda>s1.
       Inr (s1\<lparr>gPersistentCount := (gPersistentCount s1 + 1) mod MAX_PERSISTENT_COUNT\<rparr>))"

text \<open>\<^verbatim>\<open>remove_file\<close> in the state of the recorder; \<^term>\<open>None\<close> when it never returns.\<close>

definition remove_here :: "'k fs_kernel \<Rightarrow> string \<Rightarrow> 'k persist \<Rightarrow> 'k persist option" where
  "remove_here K path s =
     (case remove_file K path \<lparr>kst = kst s, errno = errno s\<rparr> of
        None \<Rightarrow> None
      | Some (r, w) \<Rightarrow> Some (s\<lparr>kst := kst w, errno := errno w\<rparr>))"

definition run_StopTask :: "'k fs_kernel \<Rightarrow> nat \<Rightarrow> 'k persist \<Rightarrow> 'k persist res option" where
  "run_StopTask K a s =
     (if a = 0 then Some (Inr s)
      else case bindE (handle_at a s) (\<lambda>h.
             if h_completed h = 0 then bindE (getDirByID K (h_id h) s) (\<lambda>(dir, s1).
                                       bindE (text_at dir s1) (\<lambda>path. Inr (h, Some (dir, path), s1)))
             else bindE (doCheckAndTriggerUpload K s) (\<lambda>s1. Inr (h, None, s1))) of
             Inl f \<Rightarrow> Some (Inl f)
           | Inr (h, job, s1) \<Rightarrow>
               (case (case job of None \<Rightarrow> Some s1 | Some (dir, path) \<Rightarrow> remove_here K path s1) of
                  None \<Rightarrow> None
                | Some s2 \<Rightarrow> Some (
                    bindE (case job of None \<Rightarrow> Inr s2 | Some (dir, path) \<Rightarrow> free_cell dir s2) (\<lambda>s3.
                    bindE (free_cell (h_buf h) s3) (\<lambda>s4.
                    bindE (free_cell (h_id h) s4) (free_cell a))))))"

text \<open>The \<^verbatim>\<open>switch\<close> of \<^verbatim>\<open>ProcessTask\<close>; \<^term>\<open>None\<close> is its default.\<close>

definition name_of_task ::
    "'k fs_kernel \<Rightarrow> PersistentType_t \<Rightarrow> nat \<Rightarrow> 'k persist \<Rightarrow> (nat \<times> 'k persist) res option" where
  "name_of_task K ty i s =
     (case ty of
        TYPE_ASR \<Rightarrow> Some (getASRByID K i s)
      | TYPE_NLP \<Rightarrow> Some (getNLPByID K i s)
      | TYPE_SEEPCH \<Rightarrow> Some (getNameByID K i s)
      | _ \<Rightarrow> None)"

definition run_ProcessTask :: "'k fs_kernel \<Rightarrow> nat \<Rightarrow> 'k persist \<Rightarrow> 'k persist res" where
  "run_ProcessTask K a s =
     (if a = 0 then Inr s
      else bindE (handle_at a s) (\<lambda>h.
        (case name_of_task K (h_type h) (h_id h) s of
           None \<Rightarrow> bindE (free_cell (h_buf h) s) (free_cell a)
         | Some made \<Rightarrow>
             bindE made (\<lambda>(name, s1).
             bindE (text_at name s1) (\<lambda>path.
               (case fsys (f_open K path DEFAULT_MODE (kst s1)) s1 of
                  (filefd, s2) \<Rightarrow>
                    if filefd \<le> 0
                    then bindE (free_cell name s2) (\<lambda>s3. bindE (free_cell (h_buf h) s3) (free_cell a))
                    else bindE (bytes_at (h_buf h) s2) (\<lambda>b.
                         bindE (slice b 0 (nat (h_len h))) (\<lambda>data.
                           (case fsys (f_write K filefd data (kst s2)) s2 of
                              (ret, s3) \<Rightarrow>
                                if ret \<noteq> h_len h
                                then (case fsys (f_close K filefd (kst s3)) s3 of
                                        (c, s4) \<Rightarrow> bindE (free_cell (h_buf h) s4) (free_cell a))
                                else bindE (free_cell name s3) (\<lambda>s4.
                                       (case fsys (f_close K filefd (kst s4)) s4 of
                                          (c, s5) \<Rightarrow> bindE (free_cell (h_buf h) s5) (free_cell a))))))))))))"

section \<open>Calls\<close>

datatype 'a outcome = Fault fault | Blocked | Diverges | Next 'a

text \<open>\<^verbatim>\<open>threadpool_add_task\<close> on the pool of the recorder: it waits while the queue is full.\<close>

definition add_task :: "task_function \<Rightarrow> nat \<Rightarrow> 'k persist \<Rightarrow> (int \<times> 'k persist) outcome" where
  "add_task f a s =
     (case gThreadPool s of
        No_pool \<Rightarrow> Fault NullDeref
      | Pool_freed \<Rightarrow> Fault UseAfterFree
      | Pool_shutdown \<Rightarrow> Next (-1, s)
      | Pool_up \<Rightarrow> if length (pool_tasks s) = MAX_INDEX then Blocked
                  else Next (0, s\<lparr>pool_tasks := pool_tasks s @ [(f, a)]\<rparr>))"

text \<open>What a caller does with the answer: on a failure the handle is freed.\<close>

definition submit :: "task_function \<Rightarrow> nat \<Rightarrow> int \<Rightarrow> int \<Rightarrow> 'k persist \<Rightarrow> (int \<times> 'k persist) outcome" where
  "submit f a good bad s =
     (case add_task f a s of
        Next (ret, s1) \<Rightarrow>
          if ret \<noteq> 0 then (case free_cell a s1 of Inl e \<Rightarrow> Fault e | Inr s2 \<Rightarrow> Next (bad, s2)) else Next (good, s1)
      | other \<Rightarrow> other)"

text \<open>A second \<^verbatim>\<open>Init\<close> while a pool is up would leave its worker behind; it is not modelled, and blocks.\<close>

definition Init :: "'k fs_kernel \<Rightarrow> string option \<Rightarrow> 'k persist \<Rightarrow> (int \<times> 'k persist) outcome" where
  "Init K param s =
     (if gThreadPool s = Pool_up \<or> gThreadPool s = Pool_shutdown then Blocked
      else let sn = (case param of None \<Rightarrow> ''UBTUBT0123456789UBTUBT0123456789'' | Some p \<Rightarrow> p)
           in case blit (gSDId s) 0 sn of
                Inl f \<Rightarrow> Fault f
              | Inr dev \<Rightarrow>
                  (let (ok, k) = f_pool K (kst s);
                       s1 = s\<lparr>kst := k, gPersistentCount := 0, gnDefaultPathIndex := 0, gSDId := dev,
                         gThreadPool := (if ok then Pool_up else No_pool), pool_tasks := []\<rparr>
                   in Next (0, s1)))"

definition speechStart :: "'k fs_kernel \<Rightarrow> 'k persist \<Rightarrow> (int \<times> 'k persist) outcome" where
  "speechStart K s =
     (if gThreadPool s = No_pool then Next (0, s)
      else case new_cell K (Handle \<lparr>h_id = 0, h_type = TYPE_START, h_buf = 0, h_len = 0, h_completed = 0\<rparr>) s of
             (a, s1) \<Rightarrow>
               if a = 0 then Next (0, s1)
               else (case getIDbytime K s1 of
                       Inl f \<Rightarrow> Fault f
                     | Inr (i, s2) \<Rightarrow>
                         submit StartTask a (int i) 0
                           (s2\<lparr>mem := (mem s2)(a \<mapsto> Handle \<lparr>h_id = i, h_type = TYPE_START, h_buf = 0, h_len = 0, h_completed = 1\<rparr>)\<rparr>)))"

definition nlpHeader :: string where
  "nlpHeader = ''{\"source\":\"dingdang3.0\",\"result\":[''"

definition nlpTail :: string where
  "nlpTail = '']}''"

definition chars :: "string \<Rightarrow> u8 list" where
  "chars t = map of_char t"

text \<open>What the worker will write for a chunk.\<close>

definition payload :: "PersistentType_t \<Rightarrow> u8 list \<Rightarrow> u8 list" where
  "payload ty data = (if ty = TYPE_NLP then chars nlpHeader @ data @ chars nlpTail else data)"

definition speechProcess ::
    "'k fs_kernel \<Rightarrow> nat \<Rightarrow> u8 list option \<Rightarrow> int \<Rightarrow> PersistentType_t \<Rightarrow> 'k persist \<Rightarrow> (int \<times> 'k persist) outcome" where
  "speechProcess K handle buf len ty s =
     (case buf of
        None \<Rightarrow> Next (-1, s)
      | Some b \<Rightarrow>
          if handle = 0 \<or> len \<le> 0 \<or> MAX_NLP_BUFFER_LEN < len \<or> gThreadPool s = No_pool then Next (-1, s)
          else (case new_cell K (Handle \<lparr>h_id = 0, h_type = ty, h_buf = 0, h_len = 0, h_completed = 0\<rparr>) s of
                  (a, s1) \<Rightarrow>
                    if a = 0 then Next (-1, s1)
                    else (case new_cell K (Bytes []) s1 of
                            (d, s2) \<Rightarrow>
                              if d = 0 then (case free_cell a s2 of Inl f \<Rightarrow> Fault f | Inr s3 \<Rightarrow> Next (-1, s3))
                              else (case slice b 0 (nat len) of
                                      Inl f \<Rightarrow> Fault f
                                    | Inr data \<Rightarrow>
                                        submit ProcessTask a 0 (-1)
                                          (s2\<lparr>mem := (mem s2)(d \<mapsto> Bytes (payload ty data),
                                              a \<mapsto> Handle \<lparr>h_id = handle, h_type = ty, h_buf = d,
                                                h_len = int (length (payload ty data)), h_completed = 1\<rparr>)\<rparr>)))))"

definition speechStop :: "'k fs_kernel \<Rightarrow> nat \<Rightarrow> int \<Rightarrow> 'k persist \<Rightarrow> (int \<times> 'k persist) outcome" where
  "speechStop K handle isCompleted s =
     (if handle = 0 \<or> gThreadPool s = No_pool then Next (-1, s)
      else (case new_cell K (Handle \<lparr>h_id = handle, h_type = TYPE_STOP, h_buf = 0, h_len = 0, h_completed = isCompleted\<rparr>) s of
              (a, s1) \<Rightarrow> if a = 0 then Next (-1, s1) else submit StopTask a 0 (-1) s1))"

text \<open>
  \<^verbatim>\<open>unInit\<close> up to the point where \<^verbatim>\<open>threadpool_destroy\<close> has set \<^verbatim>\<open>shutdown\<close>, from when on no task is taken
  any more, and from its return on.
\<close>

definition unInit_begin :: "'k persist \<Rightarrow> (int \<times> 'k persist) outcome" where
  "unInit_begin s =
     (case gThreadPool s of
        Pool_up \<Rightarrow> Next (0, s\<lparr>gThreadPool := Pool_shutdown, pool_tasks := []\<rparr>)
      | Pool_freed \<Rightarrow> Fault UseAfterFree
      | Pool_shutdown \<Rightarrow> Blocked
      | No_pool \<Rightarrow> (case free_cell (gPreName s) s of Inl f \<Rightarrow> Fault f | Inr s1 \<Rightarrow> Next (0, s1)))"

definition unInit_end :: "'k persist \<Rightarrow> (int \<times> 'k persist) outcome" where
  "unInit_end s =
     (if gThreadPool s = Pool_shutdown
      then (case free_cell (gPreName s) (s\<lparr>gThreadPool := Pool_freed\<rparr>) of Inl f \<Rightarrow> Fault f | Inr s1 \<Rightarrow> Next (0, s1))
      else Blocked)"

section \<open>Threads\<close>

definition run_task :: "'k fs_kernel \<Rightarrow> task_function \<Rightarrow> nat \<Rightarrow> 'k persist \<Rightarrow> 'k persist res option" where
  "run_task K f a s =
     (case f of
        StartTask \<Rightarrow> Some (run_StartTask K a s)
      | StopTask \<Rightarrow> run_StopTask K a s
      | ProcessTask \<Rightarrow> Some (run_ProcessTask K a s))"

definition worker :: "'k fs_kernel \<Rightarrow> 'k persist \<Rightarrow> (int \<times> 'k persist) outcome" where
  "worker K s =
     (case pool_tasks s of
        [] \<Rightarrow> Blocked
      | (f, a) # rest \<Rightarrow>
          (case run_task K f a (s\<lparr>pool_tasks := rest\<rparr>) of
             None \<Rightarrow> Diverges
           | Some (Inl e) \<Rightarrow> Fault e
           | Some (Inr s1) \<Rightarrow> Next (0, s1)))"

text \<open>\<^verbatim>\<open>UploadTask\<close> of thread \<open>i\<close>: up to the \<^verbatim>\<open>free\<close>, the store of \<^verbatim>\<open>NULL\<close>, and the removal.\<close>

definition UploadTask :: "'k fs_kernel \<Rightarrow> nat \<Rightarrow> 'k persist \<Rightarrow> (int \<times> 'k persist) outcome" where
  "UploadTask K i s =
     (if length (uploads s) \<le> i then Blocked
      else let gone = take i (uploads s) @ drop (Suc i) (uploads s)
           in case uploads s ! i of
                U_Start None \<Rightarrow> Next (0, s\<lparr>uploads := gone\<rparr>)
              | U_Start (Some path) \<Rightarrow>
                  (let n = (gnDefaultPathIndex s + 1) mod MAX_PATH_INDEX;
                       s1 = s\<lparr>gnDefaultPathIndex := n, gpDefaultPath := Some (gDefaultLocal ! nat n)\<rparr>
                   in case free_cell (gPreName s1) s1 of
                        Inl f \<Rightarrow> Fault f
                      | Inr s2 \<Rightarrow> Next (0, s2\<lparr>uploads := (uploads s)[i := U_Null path]\<rparr>))
              | U_Null path \<Rightarrow> Next (0, s\<lparr>gPreName := 0, uploads := (uploads s)[i := U_Remove path]\<rparr>)
              | U_Remove path \<Rightarrow>
                  (case remove_here K path s of
                     None \<Rightarrow> Diverges
                   | Some s1 \<Rightarrow> Next (0, s1\<lparr>uploads := gone\<rparr>)))"

section \<open>Runs\<close>

datatype persist_event =
    E_init "string option" | E_start | E_process nat "u8 list option" int PersistentType_t | E_stop nat int
  | E_uninit | E_uninit_end | E_worker | E_upload nat

definition persist_exec :: "'k fs_kernel \<Rightarrow> persist_event \<Rightarrow> 'k persist \<Rightarrow> (int \<times> 'k persist) outcome" where
  "persist_exec K e s =
     (case e of
        E_init param \<Rightarrow> Init K param s
      | E_start \<Rightarrow> speechStart K s
      | E_process handle buf len ty \<Rightarrow> speechProcess K handle buf len ty s
      | E_stop handle c \<Rightarrow> speechStop K handle c s
      | E_uninit \<Rightarrow> unInit_begin s
      | E_uninit_end \<Rightarrow> unInit_end s
      | E_worker \<Rightarrow> worker K s
      | E_upload i \<Rightarrow> UploadTask K i s)"

fun persist_run :: "'k fs_kernel \<Rightarrow> persist_event list \<Rightarrow> 'k persist \<Rightarrow> 'k persist outcome" where
  "persist_run K [] s = Next s"
| "persist_run K (e # es) s =
     (case persist_exec K e s of
        Next (r, s1) \<Rightarrow> persist_run K es s1
      | Fault f \<Rightarrow> Fault f
      | Blocked \<Rightarrow> Blocked
      | Diverges \<Rightarrow> Diverges)"

definition program_start :: "'k \<Rightarrow> 'k persist" where
  "program_start k = \<lparr>kst = k, errno = 0, mem = Map.empty, brk = 0, gThreadPool = No_pool, pool_tasks = [], gPreName = 0,
     gPersistentCount = 0, gnDefaultPathIndex = 0, gpDefaultPath = None, gSDId = replicate SN_LENGTH (CHR 0x00), uploads = []\<rparr>"

end
