(* ===== verification/FileTree.thy ===== *)
theory FileTree
  imports FileStore
begin

text \<open>
  What \<^verbatim>\<open>remove_file\<close> promises: on a file system that serves a tree, it removes exactly the subtree of
  its path. The tree is a map from absolute paths to entries, the root being the empty path, and every
  other entry lies in a directory of the tree.
\<close>

section \<open>Trees of paths\<close>

datatype entry = Dir | File "u8 list"

type_synonym tree = "string \<rightharpoonup> entry"

definition sub :: "string \<Rightarrow> string \<Rightarrow> string" where
  "sub p n = p @ ''/'' @ n"

definition leaf :: "string \<Rightarrow> bool" where
  "leaf n \<longleftrightarrow> n \<noteq> [] \<and> CHR ''/'' \<notin> set n \<and> \<not> DOT_OR_DOTDOT n"

definition under :: "string \<Rightarrow> string \<Rightarrow> bool" where
  "under p q \<longleftrightarrow> q = p \<or> (\<exists>r. q = sub p r)"

definition rooted :: "tree \<Rightarrow> bool" where
  "rooted v \<longleftrightarrow> (\<forall>q \<in> dom v. q = [] \<or> (\<exists>p n. q = sub p n \<and> leaf n \<and> v p = Some Dir))"

definition cut :: "string \<Rightarrow> tree \<Rightarrow> tree" where
  "cut p v = (\<lambda>q. if under p q then None else v q)"

definition children :: "tree \<Rightarrow> string \<Rightarrow> string set" where
  "children v p = {n. leaf n \<and> v (sub p n) \<noteq> None}"

definition subtree :: "tree \<Rightarrow> string \<Rightarrow> string set" where
  "subtree v p = {q \<in> dom v. under p q}"

lemma under_refl [simp]: "under p p"
  by (simp add: under_def)

lemma under_trans: "under p q \<Longrightarrow> under q r \<Longrightarrow> under p r"
  by (force simp: under_def sub_def)

lemma under_sub [simp]: "under p (sub p r)"
  by (auto simp: under_def)

lemma not_under_longer: "\<not> under (sub p r) p"
proof
  assume "under (sub p r) p"
  then obtain x where "p = p @ CHR ''/'' # x" by (auto simp: under_def sub_def)
  then show False by (metis append_self_conv list.distinct(1))
qed

lemma sub_eq_cases:
  assumes "sub p r = sub q n" and "CHR ''/'' \<notin> set n"
  shows "p = q \<and> r = n \<or> (\<exists>r1. r = sub r1 n \<and> q = sub p r1)"
proof -
  have "p @ CHR ''/'' # r = q @ CHR ''/'' # n" using assms(1) by (simp add: sub_def)
  then obtain us where us: "p = q @ us \<and> us @ CHR ''/'' # r = CHR ''/'' # n \<or> p @ us = q \<and> CHR ''/'' # r = us @ CHR ''/'' # n"
    unfolding append_eq_append_conv2 by blast
  show ?thesis
  proof (cases us)
    case Nil
    then show ?thesis using us by auto
  next
    case (Cons c vs)
    from us show ?thesis
    proof
      assume "p = q @ us \<and> us @ CHR ''/'' # r = CHR ''/'' # n"
      then have "vs @ CHR ''/'' # r = n" using Cons by simp
      then show ?thesis using assms(2) by auto
    next
      assume "p @ us = q \<and> CHR ''/'' # r = us @ CHR ''/'' # n"
      then have "r = sub vs n" "q = sub p vs" using Cons by (auto simp: sub_def)
      then show ?thesis by blast
    qed
  qed
qed

lemma sub_not_root [simp]: "sub p r \<noteq> []"
  by (simp add: sub_def)

lemma rootedE:
  assumes "rooted v" and "v (sub p r) \<noteq> None"
  obtains q n where "sub p r = sub q n" "leaf n" "v q = Some Dir"
proof -
  have "sub p r \<in> dom v" using assms(2) by blast
  then have "sub p r = [] \<or> (\<exists>q n. sub p r = sub q n \<and> leaf n \<and> v q = Some Dir)"
    using assms(1) unfolding rooted_def by blast
  then show thesis using that by auto
qed

lemma parent_dir:
  assumes "rooted v" and "v (sub p n) \<noteq> None" and "leaf n"
  shows "v p = Some Dir"
proof -
  obtain q m where q: "sub p n = sub q m" "leaf m" "v q = Some Dir" using rootedE [OF assms(1,2)] .
  have "CHR ''/'' \<notin> set m" using q(2) by (simp add: leaf_def)
  from sub_eq_cases [OF q(1) this] have "p = q"
  proof
    assume "\<exists>r1. n = sub r1 m \<and> q = sub p r1"
    then have "CHR ''/'' \<in> set n" by (auto simp: sub_def)
    then show ?thesis using assms(3) by (simp add: leaf_def)
  qed simp
  then show ?thesis using q(3) by simp
qed

text \<open>What is above an entry is a directory.\<close>

lemma above_dir:
  assumes "rooted v"
  shows "v (sub p r) \<noteq> None \<Longrightarrow> v p = Some Dir"
proof (induction "length r" arbitrary: r rule: less_induct)
  case less
  obtain q n where q: "sub p r = sub q n" "leaf n" "v q = Some Dir" using rootedE [OF assms less.prems] .
  then have "CHR ''/'' \<notin> set n" by (simp add: leaf_def)
  from sub_eq_cases [OF q(1) this] show ?case
  proof
    assume "\<exists>r1. r = sub r1 n \<and> q = sub p r1"
    then obtain r1 where r1: "r = sub r1 n" "q = sub p r1" by blast
    have "length r1 < length r" using r1(1) by (simp add: sub_def)
    with less.hyps [of r1] q(3) r1(2) show ?thesis by simp
  qed (use q(3) in simp)
qed

lemma descend:
  assumes "rooted v" and "v (sub p r) \<noteq> None"
  shows "\<exists>n \<in> children v p. under (sub p n) (sub p r)"
  using assms(2)
proof (induction "length r" arbitrary: r rule: less_induct)
  case less
  obtain q n where q: "sub p r = sub q n" "leaf n" "v q = Some Dir" using rootedE [OF assms(1) less.prems] .
  then have "CHR ''/'' \<notin> set n" by (simp add: leaf_def)
  from sub_eq_cases [OF q(1) this] show ?case
  proof
    assume "p = q \<and> r = n"
    then show ?thesis using less.prems q(2) by (auto simp: children_def)
  next
    assume "\<exists>r1. r = sub r1 n \<and> q = sub p r1"
    then obtain r1 where r1: "r = sub r1 n" "q = sub p r1" by blast
    have "length r1 < length r" using r1(1) by (simp add: sub_def)
    with less.hyps [of r1] q(3) r1(2) obtain m where "m \<in> children v p" "under (sub p m) (sub p r1)" by auto
    moreover have "under (sub p r1) (sub p r)" using r1 by (simp add: under_def sub_def)
    ultimately show ?thesis using under_trans by blast
  qed
qed

lemma leaf_of_under:
  assumes "leaf n" and "under (sub p n) q"
  shows "takeWhile (\<lambda>c. c \<noteq> CHR ''/'') (drop (length p + 1) q) = n"
proof -
  have n: "\<forall>c \<in> set n. c \<noteq> CHR ''/''" using assms(1) by (auto simp: leaf_def)
  from assms(2) consider "q = sub p n" | r where "q = sub (sub p n) r" by (auto simp: under_def)
  then show ?thesis
  proof cases
    case 1
    then show ?thesis using n by (simp add: sub_def takeWhile_eq_all_conv)
  next
    case 2
    then show ?thesis using n by (simp add: sub_def takeWhile_append2)
  qed
qed

lemma siblings_apart: "leaf n \<Longrightarrow> leaf m \<Longrightarrow> n \<noteq> m \<Longrightarrow> under (sub p n) q \<Longrightarrow> \<not> under (sub p m) q"
  using leaf_of_under by metis

lemma rooted_cut:
  assumes "rooted v"
  shows "rooted (cut p v)"
  unfolding rooted_def
proof
  fix q assume q: "q \<in> dom (cut p v)"
  then have "q \<in> dom v" "\<not> under p q" by (auto simp: cut_def split: if_splits)
  then consider "q = []" | q' n where "q = sub q' n" "leaf n" "v q' = Some Dir"
    using assms unfolding rooted_def by blast
  then show "q = [] \<or> (\<exists>q' n. q = sub q' n \<and> leaf n \<and> cut p v q' = Some Dir)"
  proof cases
    case 2
    then have "\<not> under p q'" using \<open>\<not> under p q\<close> under_trans under_sub by blast
    then show ?thesis using 2 by (auto simp: cut_def)
  qed simp
qed

lemma finite_cut: "finite (dom v) \<Longrightarrow> finite (dom (cut p v))"
  by (rule finite_subset [of _ "dom v"]) (auto simp: cut_def split: if_splits)

lemma children_cut:
  assumes "leaf n"
  shows "children (cut (sub p n) v) p = children v p - {n}"
proof -
  have "m = n" if "leaf m" "under (sub p n) (sub p m)" for m
    using siblings_apart [OF assms that(1), of p "sub p m"] that by auto
  then show ?thesis by (auto simp: children_def cut_def)
qed

lemma subtree_child: "v p \<noteq> None \<Longrightarrow> subtree v (sub p n) \<subset> subtree v p"
proof -
  assume "v p \<noteq> None"
  then have "p \<in> subtree v p" "p \<notin> subtree v (sub p n)" using not_under_longer by (auto simp: subtree_def)
  moreover have "subtree v (sub p n) \<subseteq> subtree v p" using under_trans [OF under_sub] by (auto simp: subtree_def)
  ultimately show ?thesis by blast
qed

lemma subtree_cut: "subtree (cut q v) p \<subseteq> subtree v p"
  by (auto simp: subtree_def cut_def split: if_splits)

lemma cut_all:
  assumes "rooted v" and "children v p = {}"
  shows "v(p := None) = cut p v"
proof
  fix q
  show "(v(p := None)) q = cut p v q"
    using assms descend [OF assms(1), of p] by (cases "v q") (auto simp: cut_def under_def)
qed

lemma cut_cut: "under p q \<Longrightarrow> cut p (cut q v) = cut p v"
  using under_trans by (fastforce simp: cut_def)

section \<open>File systems that serve a tree\<close>

definition kind_of :: "entry \<Rightarrow> file_kind" where
  "kind_of e = (case e of Dir \<Rightarrow> Directory | File b \<Rightarrow> Regular)"

text \<open>
  The calls that \<^verbatim>\<open>remove_file\<close> makes, on the paths for which it makes them, as POSIX describes them for
  a process that may write every directory.
\<close>

definition serves_removal :: "'k fs_kernel \<Rightarrow> ('k \<Rightarrow> tree) \<Rightarrow> bool" where
  "serves_removal K view \<longleftrightarrow>
     (\<forall>k p. \<exists>kd k'. f_lstat K p k = ((case view k p of None \<Rightarrow> SysErr ENOENT | Some e \<Rightarrow> SysOk 0, kd), k') \<and> view k' = view k
        \<and> (\<forall>e. view k p = Some e \<longrightarrow> kd = kind_of e))
   \<and> (\<forall>k p. view k p = Some Dir \<longrightarrow> (\<exists>names k'. f_opendir K p k = (Some names, k') \<and> view k' = view k
        \<and> distinct names \<and> set names - {''.'', ''..''} = children (view k) p))
   \<and> (\<forall>k p. \<exists>k'. f_closedir K p k = (SysOk 0, k') \<and> view k' = view k)
   \<and> (\<forall>k p. view k p = Some Dir \<and> children (view k) p = {} \<longrightarrow> (\<exists>k'. f_rmdir K p k = (SysOk 0, k') \<and> view k' = (view k)(p := None)))
   \<and> (\<forall>k p b. view k p = Some (File b) \<longrightarrow> (\<exists>k'. f_unlink K p k = (SysOk 0, k') \<and> view k' = (view k)(p := None)))"

lemma removal_laws:
  assumes "serves_removal K view"
  shows "\<exists>kd k'. f_lstat K p k = ((case view k p of None \<Rightarrow> SysErr ENOENT | Some e \<Rightarrow> SysOk 0, kd), k') \<and> view k' = view k
      \<and> (\<forall>e. view k p = Some e \<longrightarrow> kd = kind_of e)"
    and "view k p = Some Dir \<Longrightarrow> \<exists>names k'. f_opendir K p k = (Some names, k') \<and> view k' = view k
      \<and> distinct names \<and> set names - {''.'', ''..''} = children (view k) p"
    and "\<exists>k'. f_closedir K p k = (SysOk 0, k') \<and> view k' = view k"
    and "view k p = Some Dir \<Longrightarrow> children (view k) p = {} \<Longrightarrow> \<exists>k'. f_rmdir K p k = (SysOk 0, k') \<and> view k' = (view k)(p := None)"
    and "view k p = Some (File b) \<Longrightarrow> \<exists>k'. f_unlink K p k = (SysOk 0, k') \<and> view k' = (view k)(p := None)"
  using assms unfolding serves_removal_def by simp_all

definition plain_path :: "string \<Rightarrow> bool" where
  "plain_path p \<longleftrightarrow> p \<noteq> [] \<longrightarrow> last p \<noteq> CHR ''/''"

lemma plain_sub: "leaf n \<Longrightarrow> plain_path (sub p n)"
  by (cases n rule: rev_cases) (auto simp: plain_path_def sub_def leaf_def)

lemma concat_subpath_leaf: "plain_path p \<Longrightarrow> leaf n \<Longrightarrow> concat_subpath_file (Some p) n = Some (sub p n)"
  by (cases n) (auto simp: concat_subpath_file_def leaf_def concat_path_file_def Let_def last_char_is_def plain_path_def sub_def)

lemma fsys_ok [simp]: "fsys (SysOk n, k) w = (int n, w\<lparr>kst := k\<rparr>)"
  by (simp add: fsys_def)

lemma children_dots: "n \<in> children v p \<Longrightarrow> n \<noteq> ''.'' \<and> n \<noteq> ''..''"
  by (auto simp: children_def leaf_def DOT_OR_DOTDOT_def)

text \<open>The loop, given that every smaller subtree is removed.\<close>

lemma remove_names:
  assumes IH: "\<And>q w. subtree (view (kst w)) q \<subset> S \<Longrightarrow> rooted (view (kst w)) \<Longrightarrow> finite (dom (view (kst w)))
      \<Longrightarrow> view (kst w) q \<noteq> None \<Longrightarrow> plain_path q
      \<Longrightarrow> \<exists>w'. remove_go K (Inl q) w = Some (0, w') \<and> view (kst w') = cut q (view (kst w))"
    and "plain_path p"
  shows "rooted (view (kst w)) \<Longrightarrow> finite (dom (view (kst w))) \<Longrightarrow> subtree (view (kst w)) p \<subseteq> S \<Longrightarrow> view (kst w) p = Some Dir
    \<Longrightarrow> distinct names \<Longrightarrow> set names - {''.'', ''..''} = children (view (kst w)) p
    \<Longrightarrow> \<exists>w'. remove_go K (Inr (p, names, 0)) w = Some (0, w') \<and> view (kst w') p = Some Dir \<and> rooted (view (kst w'))
      \<and> children (view (kst w')) p = {} \<and> cut p (view (kst w')) = cut p (view (kst w))"
proof (induction names arbitrary: w)
  case Nil
  then show ?case by (subst remove_go.simps) simp
next
  case (Cons n names)
  let ?v = "view (kst w)"
  show ?case
  proof (cases "n = ''.'' \<or> n = ''..''")
    case True
    then have "concat_subpath_file (Some p) n = None" by (auto simp: concat_subpath_file_def DOT_OR_DOTDOT_def)
    moreover have "set names - {''.'', ''..''} = children ?v p" using True Cons.prems(6) by auto
    ultimately show ?thesis using Cons.IH [of w] Cons.prems by (subst remove_go.simps) simp
  next
    case False
    then have n: "n \<in> children ?v p" using Cons.prems(6) by auto
    then have l: "leaf n" "?v (sub p n) \<noteq> None" by (auto simp: children_def)
    have "subtree ?v (sub p n) \<subset> S" using subtree_child [of ?v p n] Cons.prems(3,4) by auto
    from IH [OF this Cons.prems(1,2) l(2) plain_sub [OF l(1)]] obtain w1 where
      w1: "remove_go K (Inl (sub p n)) w = Some (0, w1)" "view (kst w1) = cut (sub p n) ?v" by blast
    have "set names - {''.'', ''..''} = children ?v p - {n}" using Cons.prems(5,6) False by auto
    then have "set names - {''.'', ''..''} = children (view (kst w1)) p" by (simp add: w1(2) children_cut [OF l(1)])
    moreover have "view (kst w1) p = Some Dir" using Cons.prems(4) not_under_longer by (simp add: w1(2) cut_def)
    moreover have "rooted (view (kst w1))" "finite (dom (view (kst w1)))" "subtree (view (kst w1)) p \<subseteq> S"
      using rooted_cut [OF Cons.prems(1)] finite_cut [OF Cons.prems(2)] subtree_cut [of "sub p n" ?v p] Cons.prems(3)
      by (auto simp: w1(2))
    ultimately obtain w2 where w2: "remove_go K (Inr (p, names, 0)) w1 = Some (0, w2)" "view (kst w2) p = Some Dir"
      "rooted (view (kst w2))" "children (view (kst w2)) p = {}" "cut p (view (kst w2)) = cut p (view (kst w1))"
      using Cons.IH [of w1] Cons.prems(5) by auto
    have "cut p (view (kst w1)) = cut p ?v" by (simp add: w1(2) cut_cut)
    then show ?thesis using w1(1) w2 concat_subpath_leaf [OF assms(2) l(1)] by (subst remove_go.simps) simp
  qed
qed

lemma remove_tree:
  assumes "serves_removal K view"
  shows "rooted (view (kst w)) \<Longrightarrow> finite (dom (view (kst w))) \<Longrightarrow> view (kst w) p \<noteq> None \<Longrightarrow> plain_path p
    \<Longrightarrow> \<exists>w'. remove_go K (Inl p) w = Some (0, w') \<and> view (kst w') = cut p (view (kst w))"
proof (induction "card (subtree (view (kst w)) p)" arbitrary: w p rule: less_induct)
  case less
  let ?v = "view (kst w)"
  have fin: "finite (subtree ?v p)" using less.prems(2) by (auto simp: subtree_def)
  obtain e where e: "?v p = Some e" using less.prems(3) by blast
  obtain k1 where k1: "f_lstat K p (kst w) = ((SysOk 0, kind_of e), k1)" "view k1 = ?v"
    using removal_laws(1) [OF assms, of p "kst w"] e by auto
  show ?case
  proof (cases e)
    case (File b)
    then have "view k1 p = Some (File b)" using e k1(2) by simp
    then obtain k2 where "f_unlink K p k1 = (SysOk 0, k2)" "view k2 = (view k1)(p := None)"
      using removal_laws(5) [OF assms] by blast
    moreover have "children ?v p = {}"
    proof -
      have "?v (sub p n) = None" if "leaf n" for n
        using parent_dir [OF less.prems(1) _ that, of p] e File by (cases "?v (sub p n)") auto
      then show ?thesis by (auto simp: children_def)
    qed
    ultimately show ?thesis using k1 File cut_all [OF less.prems(1)]
      by (subst remove_go.simps) (simp add: kind_of_def)
  next
    case Dir
    then have "view k1 p = Some Dir" using e k1(2) by simp
    then obtain names k2 where k2: "f_opendir K p k1 = (Some names, k2)" "view k2 = view k1" "distinct names"
      "set names - {''.'', ''..''} = children (view k1) p" using removal_laws(2) [OF assms] by blast
    let ?w = "w\<lparr>kst := k2\<rparr>"
    have v2: "view (kst ?w) = ?v" using k1(2) k2(2) by simp
    have "\<exists>w'. remove_go K (Inr (p, names, 0)) ?w = Some (0, w') \<and> view (kst w') p = Some Dir \<and> rooted (view (kst w'))
      \<and> children (view (kst w')) p = {} \<and> cut p (view (kst w')) = cut p (view (kst ?w))"
    proof (rule remove_names [where S = "subtree ?v p"])
      show "\<exists>w'. remove_go K (Inl q) w = Some (0, w') \<and> view (kst w') = cut q (view (kst w))"
        if "subtree (view (kst w)) q \<subset> subtree ?v p" "rooted (view (kst w))" "finite (dom (view (kst w)))"
          "view (kst w) q \<noteq> None" "plain_path q" for q w
        using less.hyps [of w q] psubset_card_mono [OF fin that(1)] that(2-5) by blast
    qed (use less.prems k1 k2 e Dir in \<open>simp_all add: v2\<close>)
    then obtain w3 where w3: "remove_go K (Inr (p, names, 0)) ?w = Some (0, w3)" "view (kst w3) p = Some Dir"
      "rooted (view (kst w3))" "children (view (kst w3)) p = {}" "cut p (view (kst w3)) = cut p ?v"
      using v2 by auto
    obtain k4 where k4: "f_closedir K p (kst w3) = (SysOk 0, k4)" "view k4 = view (kst w3)"
      using removal_laws(3) [OF assms] by blast
    obtain k5 where k5: "f_rmdir K p k4 = (SysOk 0, k5)" "view k5 = (view k4)(p := None)"
      using removal_laws(4) [OF assms, of k4 p] k4(2) w3(2,4) by auto
    have "view k5 = cut p ?v" using k5(2) k4(2) cut_all [OF w3(3,4)] w3(5) by simp
    then show ?thesis using k1(1) k2(1) w3(1) k4(1) k5(1) Dir
      by (subst remove_go.simps) (simp add: kind_of_def)
  qed
qed

lemma remove_nothing:
  assumes "serves_removal K view" and "rooted (view (kst w))" and "view (kst w) p = None"
  shows "\<exists>w'. remove_file K p w = Some (0, w') \<and> view (kst w') = cut p (view (kst w))"
proof -
  obtain kd k' where k': "f_lstat K p (kst w) = ((SysErr ENOENT, kd), k')" "view k' = view (kst w)"
    using removal_laws(1) [OF assms(1), of p "kst w"] assms(3) by auto
  have "\<forall>r. view (kst w) (sub p r) = None"
  proof (rule allI, rule ccontr)
    fix r assume "view (kst w) (sub p r) \<noteq> None"
    from descend [OF assms(2) this] obtain n where "leaf n" "view (kst w) (sub p n) \<noteq> None" by (auto simp: children_def)
    then show False using parent_dir [OF assms(2)] assms(3) by fastforce
  qed
  then have "cut p (view (kst w)) = view (kst w)" using assms(3) by (auto simp: cut_def under_def fun_eq_iff)
  then show ?thesis using k' by (subst remove_file_def, subst remove_go.simps) (simp add: fsys_def)
qed


end
