(* ===== verification/PersistSession.thy ===== *)
theory PersistSession
  imports Persist FileTree
begin

text \<open>
  A session of the recorder: from the state that its start leaves, whatever order the calls and the
  worker take, every chunk that was handed over is in the file of its type or still queued, in the
  order of the calls, and the memory of a chunk is given back once it is written.
\<close>

section \<open>The file system\<close>

definition content :: "tree \<Rightarrow> string \<Rightarrow> u8 list" where
  "content v q = (case v q of Some (File b) \<Rightarrow> b | _ \<Rightarrow> [])"

text \<open>The calls of \<^verbatim>\<open>ProcessTask\<close>, on a file system with room and for a process that may write; \<open>opn\<close> are its descriptors.\<close>

definition serves_recording :: "'k fs_kernel \<Rightarrow> ('k \<Rightarrow> tree) \<Rightarrow> ('k \<Rightarrow> int \<rightharpoonup> string) \<Rightarrow> bool" where
  "serves_recording K view opn \<longleftrightarrow>
     (\<forall>k. \<exists>k'. f_malloc K k = (True, k') \<and> view k' = view k \<and> opn k' = opn k)
   \<and> (\<forall>k p n m. view k p = Some Dir \<and> leaf n \<and> view k (sub p n) \<noteq> Some Dir \<longrightarrow>
        (\<exists>fd k'. f_open K (sub p n) m k = (SysOk fd, k') \<and> 0 < fd
          \<and> view k' = (view k)(sub p n \<mapsto> File (content (view k) (sub p n))) \<and> opn k' = (opn k)(int fd \<mapsto> sub p n)))
   \<and> (\<forall>k fd q b d. opn k fd = Some q \<and> view k q = Some (File b) \<longrightarrow>
        (\<exists>k'. f_write K fd d k = (SysOk (length d), k') \<and> view k' = (view k)(q \<mapsto> File (b @ d)) \<and> opn k' = opn k))
   \<and> (\<forall>k fd. \<exists>r k'. f_close K fd k = (r, k') \<and> view k' = view k)"

lemma recording_laws:
  assumes "serves_recording K view opn"
  shows "\<exists>k'. f_malloc K k = (True, k') \<and> view k' = view k \<and> opn k' = opn k"
    and "view k p = Some Dir \<Longrightarrow> leaf n \<Longrightarrow> view k (sub p n) \<noteq> Some Dir \<Longrightarrow>
      \<exists>fd k'. f_open K (sub p n) m k = (SysOk fd, k') \<and> 0 < fd
        \<and> view k' = (view k)(sub p n \<mapsto> File (content (view k) (sub p n))) \<and> opn k' = (opn k)(int fd \<mapsto> sub p n)"
    and "opn k fd = Some q \<Longrightarrow> view k q = Some (File b) \<Longrightarrow>
      \<exists>k'. f_write K fd d k = (SysOk (length d), k') \<and> view k' = (view k)(q \<mapsto> File (b @ d)) \<and> opn k' = opn k"
    and "\<exists>r k'. f_close K fd k = (r, k') \<and> view k' = view k"
  using assms unfolding serves_recording_def by simp_all

section \<open>An open session\<close>

fun file_name :: "PersistentType_t \<Rightarrow> string" where
  "file_name TYPE_SEEPCH = ''input.pcm''"
| "file_name TYPE_ASR = ''outputasr.json''"
| "file_name TYPE_NLP = ''output.json''"
| "file_name _ = ''''"

definition stored :: "PersistentType_t \<Rightarrow> bool" where
  "stored ty \<longleftrightarrow> ty = TYPE_SEEPCH \<or> ty = TYPE_ASR \<or> ty = TYPE_NLP"

lemma stored_leaf: "stored ty \<Longrightarrow> leaf (file_name ty)"
  by (auto simp: stored_def leaf_def DOT_OR_DOTDOT_def)

lemma file_name_inject: "stored ty \<Longrightarrow> stored ty' \<Longrightarrow> file_name ty = file_name ty' \<longleftrightarrow> ty = ty'"
  by (auto simp: stored_def)

definition chunk_handle :: "nat \<Rightarrow> PersistentType_t \<Rightarrow> nat \<Rightarrow> u8 list \<Rightarrow> PersistentHandle_t" where
  "chunk_handle i ty d b = \<lparr>h_id = i, h_type = ty, h_buf = d, h_len = int (length b), h_completed = 1\<rparr>"

definition session_at :: "'k persist \<Rightarrow> nat \<Rightarrow> string \<Rightarrow> bool" where
  "session_at s i dir \<longleftrightarrow> 0 < gPreName s \<and> 0 < i
     \<and> (\<exists>pre tx. mem s (gPreName s) = Some (Text pre) \<and> mem s i = Some (Text tx) \<and> dir = sub pre tx \<and> length dir < 240)"

definition cells :: "(nat \<times> nat) list \<Rightarrow> nat list" where
  "cells ads = concat (map (\<lambda>(a, d). [a, d]) ads)"

lemma cells_simps [simp]: "cells [] = []" "cells ((a, d) # ads) = a # d # cells ads" "cells (xs @ ys) = cells xs @ cells ys"
  by (simp_all add: cells_def)

text \<open>A queued chunk and its two cells.\<close>

definition queued_chunk :: "(nat \<rightharpoonup> cell) \<Rightarrow> nat \<Rightarrow> nat \<times> nat \<Rightarrow> PersistentType_t \<times> u8 list \<Rightarrow> bool" where
  "queued_chunk m i c p \<longleftrightarrow> stored (fst p) \<and> m (fst c) = Some (Handle (chunk_handle i (fst p) (snd c) (snd p)))
     \<and> m (snd c) = Some (Bytes (snd p))"

lemma queued_chunk_other:
  "queued_chunk m i c p \<Longrightarrow> m' (fst c) = m (fst c) \<Longrightarrow> m' (snd c) = m (snd c) \<Longrightarrow> queued_chunk m' i c p"
  by (simp add: queued_chunk_def)

lemma queued_chunks_other:
  assumes "list_all2 (queued_chunk m i) ads ps" and "\<And>x. x \<in> set (cells ads) \<Longrightarrow> m' x = m x"
  shows "list_all2 (queued_chunk m' i) ads ps"
  using assms
proof (induction rule: list_all2_induct)
  case (Cons c ads p ps)
  then show ?case by (cases c) (auto intro: queued_chunk_other)
qed simp

text \<open>
  The session \<open>i\<close> with directory \<open>dir\<close>: \<open>ads\<close> are the cells of the queued chunks, each a handle and a
  buffer, \<open>ps\<close> the chunks, and \<open>B\<close> all other cells in use.
\<close>

definition recording ::
    "('k \<Rightarrow> tree) \<Rightarrow> nat \<Rightarrow> string \<Rightarrow> nat set \<Rightarrow> (nat \<times> nat) list \<Rightarrow> (PersistentType_t \<times> u8 list) list \<Rightarrow> 'k persist \<Rightarrow> bool" where
  "recording view i dir B ads ps s \<longleftrightarrow>
     gThreadPool s = Pool_up \<and> pool_tasks s = map (\<lambda>(a, d). (ProcessTask, a)) ads \<and> length ads \<le> MAX_INDEX
     \<and> session_at s i dir
     \<and> i \<in> B \<and> gPreName s \<in> B \<and> distinct (cells ads)
     \<and> B \<inter> set (cells ads) = {}
     \<and> dom (mem s) = B \<union> set (cells ads)
     \<and> list_all2 (queued_chunk (mem s) i) ads ps
     \<and> (\<forall>a \<in> dom (mem s). 0 < a \<and> a \<le> brk s)
     \<and> view (kst s) dir = Some Dir \<and> (\<forall>ty. stored ty \<longrightarrow> view (kst s) (sub dir (file_name ty)) \<noteq> Some Dir)
     \<and> rooted (view (kst s)) \<and> finite (dom (view (kst s)))"

definition chunks :: "PersistentType_t \<Rightarrow> (PersistentType_t \<times> u8 list) list \<Rightarrow> u8 list" where
  "chunks ty ps = concat (map snd (filter (\<lambda>p. fst p = ty) ps))"

lemma chunks_simps [simp]:
  "chunks ty [] = []" "chunks ty (p # ps) = (if fst p = ty then snd p else []) @ chunks ty ps"
  "chunks ty (ps @ qs) = chunks ty ps @ chunks ty qs"
  by (simp_all add: chunks_def)

section \<open>The worker\<close>

lemma name_of_stored:
  assumes "session_at s i dir" and "stored ty" and "serves_recording K view opn"
  shows "\<exists>k'. name_of_task K ty i s
    = Some (Inr (brk s + 1, s\<lparr>kst := k', brk := brk s + 1, mem := (mem s)(brk s + 1 \<mapsto> Text (sub dir (file_name ty)))\<rparr>))
    \<and> view k' = view (kst s)"
proof -
  obtain pre tx where t: "mem s (gPreName s) = Some (Text pre)" "mem s i = Some (Text tx)" "dir = sub pre tx" "length dir < 240"
    "0 < gPreName s" "0 < i" using assms(1) unfolding session_at_def by blast
  obtain k' where k': "f_malloc K (kst s) = (True, k')" "view k' = view (kst s)" using recording_laws(1) [OF assms(3)] by blast
  have "name_of_session K (''/'' @ file_name ty) i s
    = Inr (brk s + 1, s\<lparr>kst := k', brk := brk s + 1, mem := (mem s)(brk s + 1 \<mapsto> Text (sub dir (file_name ty)))\<rparr>)"
    if "length (file_name ty) \<le> 14"
    using t k'(1) that by (simp add: name_of_session_def text_at_def sprintf_local_def new_cell_def sub_def)
  moreover have "length (file_name ty) \<le> 14" using assms(2) by (auto simp: stored_def)
  ultimately show ?thesis using assms(2) k'(2)
    by (auto simp: stored_def name_of_task_def getASRByID_def getNLPByID_def getNameByID_def)
qed

text \<open>The task of one chunk, from the names of its cells.\<close>

lemma run_chunk_fields:
  assumes "session_at s i dir" and "stored ty" and "serves_recording K view opn"
    and "mem s a = Some (Handle (chunk_handle i ty d b))" and "mem s d = Some (Bytes b)" and "a \<noteq> d" and "0 < a" and "0 < d"
    and "a \<noteq> i" and "d \<noteq> i" and "\<forall>x \<in> dom (mem s). x \<le> brk s"
    and "view (kst s) dir = Some Dir" and "view (kst s) (sub dir (file_name ty)) \<noteq> Some Dir"
  shows "\<exists>k e. run_ProcessTask K a s
      = Inr (s\<lparr>kst := k, errno := e, brk := brk s + 1, mem := (mem s)(a := None, d := None)\<rparr>)
    \<and> view k = (view (kst s))(sub dir (file_name ty) \<mapsto> File (content (view (kst s)) (sub dir (file_name ty)) @ b))"
proof -
  let ?q = "sub dir (file_name ty)" and ?n = "brk s + 1"
  obtain k1 where k1: "name_of_task K ty i s
    = Some (Inr (?n, s\<lparr>kst := k1, brk := ?n, mem := (mem s)(?n \<mapsto> Text ?q)\<rparr>))" "view k1 = view (kst s)"
    using name_of_stored [OF assms(1-3)] by blast
  have old: "a \<le> brk s" "d \<le> brk s" "i \<le> brk s" using assms(1,4,5,11) by (auto simp: session_at_def)
  have fresh: "mem s ?n = None" using assms(11) by (metis Suc_eq_plus1 Suc_n_not_le_n domIff)
  obtain tx where i: "0 < i" "mem s i = Some (Text tx)" using assms(1) by (auto simp: session_at_def)
  obtain fd k2 where k2: "f_open K ?q DEFAULT_MODE k1 = (SysOk fd, k2)" "0 < fd"
    "view k2 = (view k1)(?q \<mapsto> File (content (view k1) ?q))" "opn k2 = (opn k1)(int fd \<mapsto> ?q)"
    using recording_laws(2) [OF assms(3) _ stored_leaf [OF assms(2)], of k1 dir DEFAULT_MODE] k1(2) assms(12,13) by auto
  obtain k3 where k3: "f_write K (int fd) b k2 = (SysOk (length b), k3)"
    "view k3 = (view k2)(?q \<mapsto> File (content (view k1) ?q @ b))"
    using recording_laws(3) [OF assms(3), of k2 "int fd" ?q "content (view k1) ?q" b] k2(3,4) by auto
  obtain r k4 where k4: "f_close K (int fd) k3 = (r, k4)" "view k4 = view k3" using recording_laws(4) [OF assms(3)] by blast
  have "(mem s)(?n := None) = mem s" using fresh by auto
  then have m: "(mem s)(?n := None, d := None, a := None) = (mem s)(a := None, d := None)" using assms(6) by auto
  have "run_ProcessTask K a s
      = Inr (s\<lparr>kst := k4, errno := errno_after (errno s) r, brk := ?n, mem := (mem s)(?n := None, d := None, a := None)\<rparr>)"
    using assms(4-10) old i k1(1) k2(1,2) k3(1) k4(1)
    by (simp add: run_ProcessTask_def handle_at_def chunk_handle_def text_at_def bytes_at_def slice_def free_cell_def fsys_def)
  moreover have "view k4 = (view (kst s))(?q \<mapsto> File (content (view (kst s)) ?q @ b))"
    using k1(2) k2(3) k3(2) k4(2) by (auto simp: content_def)
  ultimately show ?thesis using m by metis
qed

lemma recording_cases:
  assumes "recording view i dir B ads ps s"
  shows "gThreadPool s = Pool_up" "pool_tasks s = map (\<lambda>(a, d). (ProcessTask, a)) ads" "length ads \<le> MAX_INDEX"
    "session_at s i dir" "i \<in> B" "gPreName s \<in> B" "distinct (cells ads)" "B \<inter> set (cells ads) = {}"
    "dom (mem s) = B \<union> set (cells ads)" "list_all2 (queued_chunk (mem s) i) ads ps"
    "\<forall>a \<in> dom (mem s). 0 < a \<and> a \<le> brk s" "view (kst s) dir = Some Dir"
    "\<forall>ty. stored ty \<longrightarrow> view (kst s) (sub dir (file_name ty)) \<noteq> Some Dir" "rooted (view (kst s))" "finite (dom (view (kst s)))"
  using assms unfolding recording_def by blast+

lemma rooted_put:
  assumes "rooted v" and "v p = Some Dir" and "leaf n" and "v (sub p n) \<noteq> Some Dir \<or> e = Dir"
  shows "rooted (v(sub p n \<mapsto> e))"
  unfolding rooted_def
proof
  fix q assume q: "q \<in> dom (v(sub p n \<mapsto> e))"
  have ne: "p \<noteq> sub p n" by (simp add: sub_def)
  show "q = [] \<or> (\<exists>p' m. q = sub p' m \<and> leaf m \<and> (v(sub p n \<mapsto> e)) p' = Some Dir)"
  proof (cases "q = sub p n")
    case True
    then show ?thesis using ne assms(2,3) by auto
  next
    case False
    then have "q \<in> dom v" using q by auto
    then consider "q = []" | p' m where "q = sub p' m" "leaf m" "v p' = Some Dir"
      using assms(1) unfolding rooted_def by blast
    then show ?thesis
    proof cases
      case 2
      then have "(v(sub p n \<mapsto> e)) p' = Some Dir" using assms(4) by auto
      then show ?thesis using 2 by blast
    qed simp
  qed
qed

text \<open>What the steps of an open session leave alone.\<close>

definition keeps_rest :: "('k \<Rightarrow> tree) \<Rightarrow> string \<Rightarrow> 'k persist \<Rightarrow> 'k persist \<Rightarrow> bool" where
  "keeps_rest view dir s s' \<longleftrightarrow> gPreName s' = gPreName s \<and> gPersistentCount s' = gPersistentCount s
     \<and> gnDefaultPathIndex s' = gnDefaultPathIndex s \<and> gpDefaultPath s' = gpDefaultPath s \<and> gSDId s' = gSDId s
     \<and> uploads s' = uploads s \<and> (\<forall>q. \<not> under dir q \<longrightarrow> view (kst s') q = view (kst s) q)"

lemma keeps_rest_refl: "keeps_rest view dir s s"
  by (simp add: keeps_rest_def)

lemma keeps_rest_trans: "keeps_rest view dir s s' \<Longrightarrow> keeps_rest view dir s' s'' \<Longrightarrow> keeps_rest view dir s s''"
  by (simp add: keeps_rest_def)

lemma worker_step:
  assumes "recording view i dir B ((a, d) # ads) (p # ps) s" and "serves_recording K view opn"
  shows "\<exists>s'. worker K s = Next (0, s') \<and> recording view i dir B ads ps s' \<and> keeps_rest view dir s s'
    \<and> (\<forall>ty. stored ty \<longrightarrow> content (view (kst s')) (sub dir (file_name ty))
          = content (view (kst s)) (sub dir (file_name ty)) @ (if fst p = ty then snd p else []))"
proof -
  note r = recording_cases [OF assms(1)]
  let ?ty = "fst p" and ?b = "snd p"
  define s0 where "s0 = s\<lparr>pool_tasks := map (\<lambda>(a, d). (ProcessTask, a)) ads\<rparr>"
  have c: "stored ?ty" "mem s a = Some (Handle (chunk_handle i ?ty d ?b))" "mem s d = Some (Bytes ?b)"
    using r(10) by (simp_all add: queued_chunk_def)
  have ne: "a \<noteq> d" "a \<noteq> i" "d \<noteq> i" "a \<noteq> gPreName s" "d \<noteq> gPreName s" using r(5-8) by auto
  have pos: "0 < a" "0 < d" using r(11) c(2,3) by auto
  have "session_at s0 i dir" using r(4) by (simp add: session_at_def s0_def)
  from run_chunk_fields [OF this c(1) assms(2), of a d ?b] obtain k e where
    k: "run_ProcessTask K a s0 = Inr (s0\<lparr>kst := k, errno := e, brk := brk s + 1, mem := (mem s)(a := None, d := None)\<rparr>)"
    "view k = (view (kst s))(sub dir (file_name ?ty) \<mapsto> File (content (view (kst s)) (sub dir (file_name ?ty)) @ ?b))"
    using c ne pos r(11-13) by (auto simp: s0_def)
  let ?s = "s0\<lparr>kst := k, errno := e, brk := brk s + 1, mem := (mem s)(a := None, d := None)\<rparr>"
  have "worker K s = Next (0, ?s)" using r(2) k(1) by (simp add: worker_def run_task_def s0_def)
  moreover have "recording view i dir B ads ps ?s"
    unfolding recording_def
  proof (intro conjI)
    show "session_at ?s i dir" using r(4) ne by (simp add: session_at_def s0_def)
    show "list_all2 (queued_chunk (mem ?s) i) ads ps"
      using r(7,10) by (auto intro!: queued_chunks_other [of "mem s"])
    show "dom (mem ?s) = B \<union> set (cells ads)" using r(7,8,9) by auto
    show "\<forall>a\<in>dom (mem ?s). 0 < a \<and> a \<le> brk ?s" using r(11) by (auto intro: le_SucI)
    have "dir \<noteq> sub dir n" for n by (simp add: sub_def)
    then show "view (kst ?s) dir = Some Dir" using r(12) k(2) by simp
    show "\<forall>ty. stored ty \<longrightarrow> view (kst ?s) (sub dir (file_name ty)) \<noteq> Some Dir" using r(13) k(2) by simp
    show "rooted (view (kst ?s))" using rooted_put [OF r(14,12) stored_leaf [OF c(1)]] r(13) c(1) k(2) by simp
    show "finite (dom (view (kst ?s)))" using r(15) k(2) by simp
  qed (use r in \<open>auto simp: s0_def\<close>)
  moreover have "content (view k) (sub dir (file_name ty))
      = content (view (kst s)) (sub dir (file_name ty)) @ (if ?ty = ty then ?b else [])" if "stored ty" for ty
    using k(2) file_name_inject [OF c(1) that] by (auto simp: content_def sub_def)
  moreover have "keeps_rest view dir s ?s" using k(2) by (auto simp: keeps_rest_def s0_def)
  ultimately show ?thesis by auto
qed

section \<open>The callers\<close>

text \<open>The calls of a session that is open: chunks of at most 128 KiB, each with its length.\<close>

fun session_event :: "nat \<Rightarrow> persist_event \<Rightarrow> bool" where
  "session_event i E_worker = True"
| "session_event i (E_process handle (Some buf) len ty) \<longleftrightarrow>
     handle = i \<and> 0 < len \<and> len \<le> int (length buf) \<and> len \<le> MAX_NLP_BUFFER_LEN \<and> stored ty"
| "session_event i _ = False"

fun handed_over :: "persist_event list \<Rightarrow> (PersistentType_t \<times> u8 list) list" where
  "handed_over [] = []"
| "handed_over (E_process handle (Some buf) len ty # es) = (ty, payload ty (take (nat len) buf)) # handed_over es"
| "handed_over (e # es) = handed_over es"

lemma process_step:
  assumes "recording view i dir B ads ps s" and "serves_recording K view opn" and "session_event i (E_process i (Some buf) len ty)"
  shows "length ads = MAX_INDEX \<and> speechProcess K i (Some buf) len ty s = Blocked
    \<or> (\<exists>a d s'. speechProcess K i (Some buf) len ty s = Next (0, s') \<and> keeps_rest view dir s s'
        \<and> recording view i dir B (ads @ [(a, d)]) (ps @ [(ty, payload ty (take (nat len) buf))]) s' \<and> view (kst s') = view (kst s))"
proof -
  note r = recording_cases [OF assms(1)]
  let ?b = "payload ty (take (nat len) buf)"
  define a where "a = brk s + 1"
  define d where "d = brk s + 2"
  obtain k1 where k1: "f_malloc K (kst s) = (True, k1)" "view k1 = view (kst s)" using recording_laws(1) [OF assms(2)] by blast
  obtain k2 where k2: "f_malloc K k1 = (True, k2)" "view k2 = view k1" using recording_laws(1) [OF assms(2)] by blast
  obtain tx where i: "0 < i" "mem s i = Some (Text tx)" using r(4) by (auto simp: session_at_def)
  define m where "m = (mem s)(a \<mapsto> Handle (chunk_handle i ty d ?b), d \<mapsto> Bytes ?b)"
  let ?s = "s\<lparr>kst := k2, brk := d, mem := m, pool_tasks := pool_tasks s @ [(ProcessTask, a)]\<rparr>"
  have "x \<notin> dom (mem s)" if "brk s < x" for x using r(11) that leD by blast
  then have old: "a \<notin> dom (mem s)" "d \<notin> dom (mem s)" "a \<noteq> d" by (simp_all add: a_def d_def)
  have len: "0 < len" "len \<le> MAX_NLP_BUFFER_LEN" "nat len \<le> length buf" "stored ty" using assms(3) by auto
  have "length (pool_tasks s) = length ads" using r(2) by simp
  then have "speechProcess K i (Some buf) len ty s = (if length ads = MAX_INDEX then Blocked else Next (0, ?s))"
    using i k1(1) k2(1) len r(1) old
    by (simp add: speechProcess_def text_at_def new_cell_def slice_def submit_def add_task_def
        a_def d_def m_def chunk_handle_def fun_upd_twist)
  moreover have "recording view i dir B (ads @ [(a, d)]) (ps @ [(ty, ?b)]) ?s" if "length ads \<noteq> MAX_INDEX"
    unfolding recording_def
  proof (intro conjI)
    show "session_at ?s i dir" using r(4,5,6,9) old by (auto simp: session_at_def m_def)
    have "list_all2 (queued_chunk m i) ads ps"
      by (rule queued_chunks_other [OF r(10)]) (use r(9) old in \<open>auto simp: m_def\<close>)
    then show "list_all2 (queued_chunk (mem ?s) i) (ads @ [(a, d)]) (ps @ [(ty, ?b)])"
      using len(4) old(3) by (simp add: list_all2_appendI queued_chunk_def m_def)
    show "length (ads @ [(a, d)]) \<le> MAX_INDEX" using r(3) that by simp
    show "dom (mem ?s) = B \<union> set (cells (ads @ [(a, d)]))" using r(9) by (auto simp: m_def)
    show "B \<inter> set (cells (ads @ [(a, d)])) = {}" using r(8,9) old by auto
    show "distinct (cells (ads @ [(a, d)]))" using r(7,9) old by auto
    show "\<forall>x\<in>dom (mem ?s). 0 < x \<and> x \<le> brk ?s"
    proof
      fix x assume "x \<in> dom (mem ?s)"
      then have "x \<in> dom (mem s) \<or> x = a \<or> x = d" by (auto simp: m_def split: if_splits)
      moreover have "x \<in> dom (mem s) \<longrightarrow> 0 < x \<and> x \<le> brk s" using r(11) by blast
      ultimately have "0 < x \<and> x \<le> d" unfolding a_def d_def by linarith
      then show "0 < x \<and> x \<le> brk ?s" by simp
    qed
    show "view (kst ?s) dir = Some Dir" using r(12) k1(2) k2(2) by simp
    show "\<forall>ty. stored ty \<longrightarrow> view (kst ?s) (sub dir (file_name ty)) \<noteq> Some Dir" using r(13) k1(2) k2(2) by simp
    show "rooted (view (kst ?s))" "finite (dom (view (kst ?s)))" using r(14,15) k1(2) k2(2) by simp_all
  qed (use r in auto)
  moreover have "view (kst ?s) = view (kst s)" "keeps_rest view dir s ?s" using k1(2) k2(2) by (simp_all add: keeps_rest_def)
  ultimately show ?thesis
    by (cases "length ads = MAX_INDEX") (simp, intro disjI2 exI [of _ a] exI [of _ d] exI [of _ ?s], simp)
qed

text \<open>The worker is never ahead of the calls, the queue never full, and in the end the worker has caught up.\<close>

fun drains :: "nat \<Rightarrow> persist_event list \<Rightarrow> bool" where
  "drains n [] \<longleftrightarrow> n = 0"
| "drains n (E_worker # es) \<longleftrightarrow> 0 < n \<and> drains (n - 1) es"
| "drains n (e # es) \<longleftrightarrow> n < MAX_INDEX \<and> drains (n + 1) es"

lemma session_run:
  assumes "serves_recording K view opn" and "recording view i dir B ads ps s" and "\<forall>e \<in> set es. session_event i e"
  shows "\<not> drains (length ads) es \<and> persist_run K es s = Blocked
    \<or> (\<exists>s' ads' ps'. persist_run K es s = Next s' \<and> recording view i dir B ads' ps' s' \<and> keeps_rest view dir s s'
        \<and> (drains (length ads) es \<longrightarrow> ads' = [])
        \<and> (\<forall>ty. stored ty \<longrightarrow> content (view (kst s')) (sub dir (file_name ty)) @ chunks ty ps'
              = content (view (kst s)) (sub dir (file_name ty)) @ chunks ty (ps @ handed_over es)))"
  using assms(2,3)
proof (induction es arbitrary: s ads ps)
  case Nil
  then show ?case
    by (intro disjI2 exI [of _ s] exI [of _ ads] exI [of _ ps]) (simp add: keeps_rest_refl)
next
  case (Cons e es)
  show ?case
  proof (cases e)
    case E_worker
    show ?thesis
    proof (cases ads)
      case Nil
      then show ?thesis using recording_cases(2) [OF Cons.prems(1)] E_worker by (simp add: persist_exec_def worker_def)
    next
      case (Cons c ads1)
      obtain a d where c: "c = (a, d)" by (cases c)
      obtain p ps1 where p: "ps = p # ps1" using recording_cases(10) [OF Cons.prems(1)] Cons by (cases ps) auto
      from worker_step [of view i dir B a d ads1 p ps1 s K opn] assms(1) Cons.prems(1) Cons c p obtain s1 where
        s1: "worker K s = Next (0, s1)" "recording view i dir B ads1 ps1 s1" "keeps_rest view dir s s1"
        "\<forall>ty. stored ty \<longrightarrow> content (view (kst s1)) (sub dir (file_name ty))
          = content (view (kst s)) (sub dir (file_name ty)) @ (if fst p = ty then snd p else [])" by blast
      have "persist_run K (e # es) s = persist_run K es s1" using E_worker s1(1) by (simp add: persist_exec_def)
      moreover have "drains (length ads) (e # es) = drains (length ads1) es" using E_worker Cons by simp
      ultimately show ?thesis
        using Cons.IH [OF s1(2)] Cons.prems(2) s1(4) p E_worker keeps_rest_trans [OF s1(3)] by fastforce
    qed
  next
    case (E_process handle bo len ty)
    then obtain buf where b: "bo = Some buf" "handle = i" using Cons.prems(2) by (cases bo) auto
    then have ev: "session_event i (E_process i (Some buf) len ty)" using Cons.prems(2) E_process by auto
    from process_step [OF Cons.prems(1) assms(1) ev] show ?thesis
    proof
      assume "length ads = MAX_INDEX \<and> speechProcess K i (Some buf) len ty s = Blocked"
      then show ?thesis using E_process b by (simp add: persist_exec_def)
    next
      assume "\<exists>a d s'. speechProcess K i (Some buf) len ty s = Next (0, s') \<and> keeps_rest view dir s s'
        \<and> recording view i dir B (ads @ [(a, d)]) (ps @ [(ty, payload ty (take (nat len) buf))]) s' \<and> view (kst s') = view (kst s)"
      then obtain a d s1 where s1: "speechProcess K i (Some buf) len ty s = Next (0, s1)" "keeps_rest view dir s s1"
        "recording view i dir B (ads @ [(a, d)]) (ps @ [(ty, payload ty (take (nat len) buf))]) s1" "view (kst s1) = view (kst s)"
        by blast
      have "persist_run K (e # es) s = persist_run K es s1" using E_process b s1(1) by (simp add: persist_exec_def)
      moreover have "drains (length ads) (e # es) \<longrightarrow> drains (length (ads @ [(a, d)])) es" using E_process by simp
      ultimately show ?thesis
        using Cons.IH [OF s1(3)] Cons.prems(2) s1(4) E_process b keeps_rest_trans [OF s1(2)] by fastforce
    qed
  qed (use Cons.prems in auto)
qed


section \<open>Starting and stopping\<close>

text \<open>The calls of \<^verbatim>\<open>StartTask\<close>: \<^verbatim>\<open>access\<close> may fail on a directory that exists, as it does for the mode 0777.\<close>

definition serves_start :: "'k fs_kernel \<Rightarrow> ('k \<Rightarrow> tree) \<Rightarrow> bool" where
  "serves_start K view \<longleftrightarrow>
     (\<forall>k. \<exists>k'. f_malloc K k = (True, k') \<and> view k' = view k)
   \<and> (\<forall>k. \<exists>t k'. f_localtime K k = (t, k') \<and> view k' = view k \<and> leaf (time_text t) \<and> length (time_text t) < 20)
   \<and> (\<forall>k p m. \<exists>r k'. f_access K p m k = (r, k') \<and> view k' = view k \<and> (r = SysOk 0 \<longrightarrow> view k p \<noteq> None))
   \<and> (\<forall>k p n m. view k p = Some Dir \<and> leaf n \<longrightarrow>
        (\<exists>k'. f_mkdir K (sub p n) m k = ((if view k (sub p n) = None then SysOk 0 else SysErr EEXIST), k')
          \<and> view k' = (if view k (sub p n) = None then (view k)(sub p n \<mapsto> Dir) else view k)))"

lemma start_laws:
  assumes "serves_start K view"
  shows "\<exists>k'. f_malloc K k = (True, k') \<and> view k' = view k"
    and "\<exists>t k'. f_localtime K k = (t, k') \<and> view k' = view k \<and> leaf (time_text t) \<and> length (time_text t) < 20"
    and "\<exists>r k'. f_access K p m k = (r, k') \<and> view k' = view k \<and> (r = SysOk 0 \<longrightarrow> view k p \<noteq> None)"
    and "view k p = Some Dir \<Longrightarrow> leaf n \<Longrightarrow>
      \<exists>k'. f_mkdir K (sub p n) m k = ((if view k (sub p n) = None then SysOk 0 else SysErr EEXIST), k')
        \<and> view k' = (if view k (sub p n) = None then (view k)(sub p n \<mapsto> Dir) else view k)"
  using assms unfolding serves_start_def by simp_all

text \<open>A directory that is there already, or can be made.\<close>

definition made :: "string \<Rightarrow> tree \<Rightarrow> tree" where
  "made q v = (if v q = None then v(q \<mapsto> Dir) else v)"

lemma made_there: "v q \<in> {None, Some Dir} \<Longrightarrow> made q v q = Some Dir"
  by (auto simp: made_def)

lemma made_other: "q' \<noteq> q \<Longrightarrow> made q v q' = v q'"
  by (simp add: made_def)

lemma rooted_made: "rooted v \<Longrightarrow> v p = Some Dir \<Longrightarrow> leaf n \<Longrightarrow> rooted (made (sub p n) v)"
  using rooted_put [of v p n Dir] by (simp add: made_def)

lemma finite_made: "finite (dom v) \<Longrightarrow> finite (dom (made q v))"
  by (simp add: made_def)

lemma ensure_dir_made:
  assumes "serves_start K view" and "view (kst s) p = Some Dir" and "leaf n"
  shows "\<exists>k e. ensure_dir K (sub p n) s = (True, s\<lparr>kst := k, errno := e\<rparr>) \<and> view k = made (sub p n) (view (kst s))"
proof -
  obtain r k1 where 1: "f_access K (sub p n) DEFAULT_MODE (kst s) = (r, k1)" "view k1 = view (kst s)"
    "r = SysOk 0 \<longrightarrow> view (kst s) (sub p n) \<noteq> None" using start_laws(3) [OF assms(1)] by blast
  have "view k1 p = Some Dir" using 1(2) assms(2) by simp
  then obtain k2 where 2: "f_mkdir K (sub p n) DEFAULT_MODE k1
      = ((if view k1 (sub p n) = None then SysOk 0 else SysErr EEXIST), k2)"
    "view k2 = (if view k1 (sub p n) = None then (view k1)(sub p n \<mapsto> Dir) else view k1)"
    using start_laws(4) [OF assms(1) _ assms(3)] by blast
  show ?thesis
  proof (cases "ret_of r = 0")
    case True
    then have "r = SysOk 0" by (cases r) auto
    then show ?thesis using 1 by (intro exI [of _ k1] exI [of _ "errno s"]) (auto simp: ensure_dir_def made_def)
  next
    case False
    then show ?thesis using 1 2 by (auto simp: ensure_dir_def fsys_def made_def)
  qed
qed

lemma default_dirs:
  assumes "i < 4"
  shows "\<exists>n. gDefaultLocal ! i = sub ''/data'' n \<and> leaf n \<and> length n = 7"
proof -
  have "i = 0 \<or> i = 1 \<or> i = 2 \<or> i = 3" using assms by arith
  then show ?thesis
  proof (elim disjE)
    assume "i = 0"
    then show ?thesis by (intro exI [of _ "''speech0''"]) (simp add: gDefaultLocal_def sub_def leaf_def DOT_OR_DOTDOT_def)
  next
    assume "i = 1"
    then show ?thesis by (intro exI [of _ "''speech1''"]) (simp add: gDefaultLocal_def sub_def leaf_def DOT_OR_DOTDOT_def)
  next
    assume "i = 2"
    then show ?thesis by (intro exI [of _ "''speech2''"]) (simp add: gDefaultLocal_def sub_def leaf_def DOT_OR_DOTDOT_def)
  next
    assume "i = 3"
    then show ?thesis by (intro exI [of _ "''speech3''"]) (simp add: gDefaultLocal_def sub_def leaf_def DOT_OR_DOTDOT_def)
  qed
qed

lemma initPath_makes:
  assumes "serves_start K view" and "gpDefaultPath s = Some dir" and "dir = sub ''/data'' n" and "leaf n" and "length n = 7"
    and "view (kst s) ''/data'' = Some Dir" and "getDeviceId s = Inr dev" and "leaf dev" and "length dev < 200"
    and "v1 = made dir (view (kst s))" and "v2 = made (sub dir ''flying-pig'') v1" and "v3 = made (sub (sub dir ''flying-pig'') dev) v2"
    and "v1 dir = Some Dir" and "v2 (sub dir ''flying-pig'') = Some Dir"
  shows "\<exists>k e. initPath K s = Inr (s\<lparr>kst := k, errno := e, brk := brk s + 1,
        mem := (mem s)(brk s + 1 \<mapsto> Text (sub (sub dir ''flying-pig'') dev)), gPreName := brk s + 1\<rparr>) \<and> view k = v3"
proof -
  obtain k1 e1 where 1: "ensure_dir K dir s = (True, s\<lparr>kst := k1, errno := e1\<rparr>)" "view k1 = v1"
    using ensure_dir_made [OF assms(1,6,4)] assms(3,10) by auto
  let ?s1 = "s\<lparr>kst := k1, errno := e1\<rparr>"
  have pig: "leaf ''flying-pig''" by (simp add: leaf_def DOT_OR_DOTDOT_def)
  have "view (kst ?s1) dir = Some Dir" using 1(2) assms(13) by simp
  from ensure_dir_made [OF assms(1) this pig] obtain k2 e2 where
    2: "ensure_dir K (sub dir ''flying-pig'') ?s1 = (True, s\<lparr>kst := k2, errno := e2\<rparr>)" "view k2 = v2"
    using 1(2) assms(11) by auto
  let ?s2 = "s\<lparr>kst := k2, errno := e2\<rparr>"
  have "view (kst ?s2) (sub dir ''flying-pig'') = Some Dir" using 2(2) assms(14) by simp
  from ensure_dir_made [OF assms(1) this assms(8)] obtain k3 e3 where
    3: "ensure_dir K (sub (sub dir ''flying-pig'') dev) ?s2 = (True, s\<lparr>kst := k3, errno := e3\<rparr>)" "view k3 = v3"
    using 2(2) assms(12) by auto
  obtain k4 where 4: "f_malloc K k3 = (True, k4)" "view k4 = view k3" using start_laws(1) [OF assms(1)] by blast
  have d: "getDeviceId ?s2 = Inr dev" using assms(7) by (auto simp: getDeviceId_def split: if_splits)
  have ln: "length dir = 13" using assms(3,5) by (simp add: sub_def)
  have "initPath K s = Inr (s\<lparr>kst := k4, errno := e3, brk := brk s + 1,
        mem := (mem s)(brk s + 1 \<mapsto> Text (sub (sub dir ''flying-pig'') dev)), gPreName := brk s + 1\<rparr>)"
    using assms(2,9) 1(1) 2(1) 3(1) 4(1) d ln
    by (simp add: initPath_def sprintf_local_def sub_def new_cell_def)
  then show ?thesis using 4(2) 3(2) by auto
qed

text \<open>Where the session of the identifier \<open>tx\<close> lives.\<close>

definition session_dir :: "int \<Rightarrow> string \<Rightarrow> string \<Rightarrow> string" where
  "session_dir n dev tx = sub (sub (sub (gDefaultLocal ! nat n) ''flying-pig'') dev) tx"

text \<open>Nothing is in the way of the directories and files of the sessions in \<open>d\<close>.\<close>

definition clear_way :: "tree \<Rightarrow> string \<Rightarrow> string \<Rightarrow> bool" where
  "clear_way v dev d \<longleftrightarrow> v d \<in> {None, Some Dir} \<and> v (sub d ''flying-pig'') \<in> {None, Some Dir}
     \<and> v (sub (sub d ''flying-pig'') dev) \<in> {None, Some Dir}
     \<and> (\<forall>tx. leaf tx \<longrightarrow> v (sub (sub (sub d ''flying-pig'') dev) tx) \<in> {None, Some Dir}
          \<and> (\<forall>ty. stored ty \<longrightarrow> v (sub (sub (sub (sub d ''flying-pig'') dev) tx) (file_name ty)) \<noteq> Some Dir))"

lemma clear_way_cut: "clear_way v dev d \<Longrightarrow> clear_way (cut p v) dev d"
  by (simp add: clear_way_def cut_def)

text \<open>A recorder at rest, with a serial number that can name a directory.\<close>

definition idle :: "('k \<Rightarrow> tree) \<Rightarrow> string \<Rightarrow> 'k persist \<Rightarrow> bool" where
  "idle view dev s \<longleftrightarrow> gThreadPool s = Pool_up \<and> pool_tasks s = [] \<and> 0 \<le> gnDefaultPathIndex s \<and> gnDefaultPathIndex s < 4
     \<and> getDeviceId s = Inr dev \<and> leaf dev \<and> length dev < 33 \<and> (\<forall>a \<in> dom (mem s). 0 < a \<and> a \<le> brk s)
     \<and> view (kst s) ''/data'' = Some Dir \<and> rooted (view (kst s)) \<and> finite (dom (view (kst s)))
     \<and> (\<forall>j < 4. clear_way (view (kst s)) dev (gDefaultLocal ! j))"

lemma idleD:
  assumes "idle view dev s"
  shows "gThreadPool s = Pool_up" "pool_tasks s = []" "nat (gnDefaultPathIndex s) < 4" "getDeviceId s = Inr dev" "leaf dev"
    "length dev < 33" "\<forall>a \<in> dom (mem s). 0 < a \<and> a \<le> brk s" "view (kst s) ''/data'' = Some Dir"
    "view (kst s) (gDefaultLocal ! nat (gnDefaultPathIndex s)) \<in> {None, Some Dir}"
    "view (kst s) (sub (gDefaultLocal ! nat (gnDefaultPathIndex s)) ''flying-pig'') \<in> {None, Some Dir}"
    "view (kst s) (sub (sub (gDefaultLocal ! nat (gnDefaultPathIndex s)) ''flying-pig'') dev) \<in> {None, Some Dir}"
    "rooted (view (kst s))" "finite (dom (view (kst s)))"
    "leaf tx \<Longrightarrow> view (kst s) (session_dir (gnDefaultPathIndex s) dev tx) \<in> {None, Some Dir}"
    "leaf tx \<Longrightarrow> stored ty \<Longrightarrow> view (kst s) (sub (session_dir (gnDefaultPathIndex s) dev tx) (file_name ty)) \<noteq> Some Dir"
    "\<forall>j < 4. clear_way (view (kst s)) dev (gDefaultLocal ! j)"
proof -
  have n: "nat (gnDefaultPathIndex s) < 4" using assms by (auto simp: idle_def nat_less_iff)
  then have "clear_way (view (kst s)) dev (gDefaultLocal ! nat (gnDefaultPathIndex s))" using assms by (simp add: idle_def)
  note c = this [unfolded clear_way_def, folded session_dir_def]
  show "view (kst s) (gDefaultLocal ! nat (gnDefaultPathIndex s)) \<in> {None, Some Dir}"
    "view (kst s) (sub (gDefaultLocal ! nat (gnDefaultPathIndex s)) ''flying-pig'') \<in> {None, Some Dir}"
    "view (kst s) (sub (sub (gDefaultLocal ! nat (gnDefaultPathIndex s)) ''flying-pig'') dev) \<in> {None, Some Dir}"
    using c by simp_all
  show "leaf tx \<Longrightarrow> view (kst s) (session_dir (gnDefaultPathIndex s) dev tx) \<in> {None, Some Dir}"
    "leaf tx \<Longrightarrow> stored ty \<Longrightarrow> view (kst s) (sub (session_dir (gnDefaultPathIndex s) dev tx) (file_name ty)) \<noteq> Some Dir"
    using c by simp_all
qed (use assms in \<open>auto simp: idle_def nat_less_iff\<close>)

lemma sub_longer: "length (sub p n) = length p + length n + 1"
  by (simp add: sub_def)

text \<open>The tree after the four directories of a session are there, one inside the other.\<close>

lemma session_tree:
  assumes "d = sub ''/data'' dn" and "leaf dn" and "leaf dev" and "leaf tx"
    and "v ''/data'' = Some Dir" and "rooted v" and "finite (dom v)"
    and "v1 = made d v" and "v2 = made (sub d ''flying-pig'') v1" and "v3 = made (sub (sub d ''flying-pig'') dev) v2"
    and "v1 d = Some Dir" and "v2 (sub d ''flying-pig'') = Some Dir" and "v3 (sub (sub d ''flying-pig'') dev) = Some Dir"
    and "dir = sub (sub (sub d ''flying-pig'') dev) tx"
  shows "rooted (made dir v3)" and "finite (dom (made dir v3))" and "\<And>q. \<not> under q dir \<Longrightarrow> made dir v3 q = v q"
proof -
  have pig: "leaf ''flying-pig''" by (simp add: leaf_def DOT_OR_DOTDOT_def)
  have "rooted v1" unfolding assms(1,8) by (rule rooted_made) (use assms(2,5,6) in simp_all)
  then have "rooted v2" using rooted_made [of v1 d, OF _ assms(11) pig] by (simp add: assms(9))
  then have "rooted v3" using rooted_made [of v2, OF _ assms(12,3)] by (simp add: assms(10))
  then show "rooted (made dir v3)" using rooted_made [of v3, OF _ assms(13,4)] by (simp add: assms(14))
  show "finite (dom (made dir v3))" using assms(7) by (simp add: assms(8-10) finite_made)
  have "under d dir" "under (sub d ''flying-pig'') dir" "under (sub (sub d ''flying-pig'') dev) dir" "under dir dir"
    using under_trans [OF under_sub under_trans [OF under_sub under_sub]] under_trans [OF under_sub under_sub]
    by (simp_all add: assms(14))
  then have "q \<noteq> d" "q \<noteq> sub d ''flying-pig''" "q \<noteq> sub (sub d ''flying-pig'') dev" "q \<noteq> dir" if "\<not> under q dir" for q using that by blast+
  then show "made dir v3 q = v q" if "\<not> under q dir" for q using that unfolding assms(8-10) by (simp add: made_other)
qed

lemma session_starts:
  assumes "serves_start K view" and "idle view dev s"
    and "f_localtime K (snd (f_malloc K (kst s))) = (t, k')" and "dir = session_dir (gnDefaultPathIndex s) dev (time_text t)"
  shows "\<exists>i s1 s2. speechStart K s = Next (int i, s1) \<and> worker K s1 = Next (0, s2)
    \<and> recording view i dir (dom (mem s) \<union> {i, gPreName s2}) [] [] s2 \<and> i \<notin> dom (mem s)
    \<and> gPreName s2 \<notin> dom (mem s) \<and> i \<noteq> gPreName s2
    \<and> gPersistentCount s2 = gPersistentCount s \<and> uploads s2 = uploads s \<and> gSDId s2 = gSDId s
    \<and> gnDefaultPathIndex s2 = gnDefaultPathIndex s \<and> gpDefaultPath s2 = Some (gDefaultLocal ! nat (gnDefaultPathIndex s))
    \<and> (\<forall>q. \<not> under q dir \<longrightarrow> view (kst s2) q = view (kst s) q)"
proof -
  note idl = idleD [OF assms(2)]
  define d where "d = gDefaultLocal ! nat (gnDefaultPathIndex s)"
  define pig where "pig = sub d ''flying-pig''"
  define home where "home = sub pig dev"
  define tx where "tx = time_text t"
  define v where "v = view (kst s)"
  define v1 where "v1 = made d v"
  define v2 where "v2 = made pig v1"
  define v3 where "v3 = made home v2"
  have dr: "dir = sub home tx" using assms(4) by (simp add: session_dir_def home_def pig_def d_def tx_def)
  obtain dn where dn: "d = sub ''/data'' dn" "leaf dn" "length dn = 7" using default_dirs [OF idl(3)] by (auto simp: d_def)
  have neq: "pig \<noteq> d" "home \<noteq> pig" "home \<noteq> d" "dir \<noteq> home" "dir \<noteq> pig" "dir \<noteq> d"
    using sub_longer [of d "''flying-pig''"] sub_longer [of pig dev] sub_longer [of home tx]
    unfolding dr home_def [symmetric] pig_def [symmetric] by auto
  have w: "v1 d = Some Dir" "v2 pig = Some Dir" "v3 home = Some Dir" "v3 dir = v dir"
    using idl(9-11) neq by (auto simp: v1_def v2_def v3_def v_def d_def [symmetric] pig_def [symmetric] home_def [symmetric] made_def)
  obtain k0 where k0: "f_malloc K (kst s) = (True, k0)" "view k0 = v" using start_laws(1) [OF assms(1)] by (auto simp: v_def)
  have k': "f_localtime K k0 = (t, k')" using assms(3) k0(1) by simp
  have tm: "view k' = v" "leaf tx" "length tx < 20" using start_laws(2) [OF assms(1), of k0] k' k0(2) by (auto simp: tx_def)
  have clear: "view (kst s) dir \<in> {None, Some Dir}" "\<forall>ty. stored ty \<longrightarrow> view (kst s) (sub dir (file_name ty)) \<noteq> Some Dir"
    using idl(14,15) [OF tm(2)] by (simp_all add: assms(4) tx_def)
  obtain k1 where k1: "f_malloc K k' = (True, k1)" "view k1 = v" using start_laws(1) [OF assms(1), of k'] tm(1) by auto
  define a where "a = brk s + 1"
  define i where "i = brk s + 2"
  define p where "p = brk s + 3"
  let ?h = "\<lparr>h_id = i, h_type = TYPE_START, h_buf = 0, h_len = 0, h_completed = 1\<rparr>"
  let ?m = "(mem s)(a \<mapsto> Handle ?h, i \<mapsto> Text tx)"
  define s1 where "s1 = s\<lparr>kst := k1, brk := i, mem := ?m, pool_tasks := [(StartTask, a)]\<rparr>"
  have st: "speechStart K s = Next (int i, s1)"
    using idl(1,2) k0(1) k' k1(1) tm(3)
    by (simp add: speechStart_def new_cell_def getIDbytime_def sprintf_local_def tx_def text_at_def submit_def
        add_task_def MAX_INDEX_def s1_def a_def i_def fun_upd_twist)
  let ?sA = "s1\<lparr>pool_tasks := [], gpDefaultPath := Some d\<rparr>"
  have dev: "getDeviceId ?sA = Inr dev" using idl(4) by (auto simp: getDeviceId_def s1_def split: if_splits)
  have A: "gpDefaultPath ?sA = Some d" "view (kst ?sA) ''/data'' = Some Dir" "v1 = made d (view (kst ?sA))"
    "brk ?sA + 1 = p" "mem ?sA = ?m" using idl(8) k1(2) by (simp_all add: s1_def i_def p_def v1_def v_def)
  have v: "v2 = made (sub d ''flying-pig'') v1" "v3 = made (sub (sub d ''flying-pig'') dev) v2"
    "v2 (sub d ''flying-pig'') = Some Dir" "length dev < 200" using w(2) idl(6) by (simp_all add: v2_def v3_def home_def pig_def)
  from initPath_makes [OF assms(1) A(1) dn A(2) dev idl(5) v(4) A(3) v(1,2) w(1) v(3)] obtain kB eB where
    B: "initPath K ?sA = Inr (?sA\<lparr>kst := kB, errno := eB, brk := p, mem := ?m(p \<mapsto> Text home), gPreName := p\<rparr>)" "view kB = v3"
    unfolding A(4,5) pig_def [symmetric] home_def [symmetric] by blast
  let ?sB = "?sA\<lparr>kst := kB, errno := eB, brk := p, mem := ?m(p \<mapsto> Text home), gPreName := p\<rparr>"
  obtain kC where C: "f_malloc K kB = (True, kC)" "view kC = v3" using start_laws(1) [OF assms(1), of kB] B(2) by auto
  let ?sC = "?sB\<lparr>kst := kC, brk := p + 1, mem := ?m(p \<mapsto> Text home, p + 1 \<mapsto> Text dir)\<rparr>"
  have ln: "length dir < 240" using tm(3) idl(6) dn(3) by (simp add: dr home_def pig_def dn(1) sub_longer)
  have gd: "getDirByID K i ?sB = Inr (p + 1, ?sC)"
    using C(1) ln by (simp add: getDirByID_def name_of_session_def text_at_def sprintf_local_def new_cell_def dr sub_def p_def i_def a_def Let_def)
  have "view kC home = Some Dir" using C(2) w(3) by simp
  then obtain kD where D: "f_mkdir K dir DEFAULT_MODE kC = ((if view kC dir = None then SysOk 0 else SysErr EEXIST), kD)"
    "view kD = (if view kC dir = None then (view kC)(dir \<mapsto> Dir) else view kC)"
    using start_laws(4) [OF assms(1) _ tm(2)] unfolding dr by blast
  have vD: "view kD = made dir v3" using D(2) C(2) by (simp add: made_def)
  define eD where "eD = (if view kC dir = None then eB else EEXIST)"
  define s2 where "s2 = s\<lparr>kst := kD, errno := eD, brk := p + 1, mem := (mem s)(i \<mapsto> Text tx, p \<mapsto> Text home),
      gPreName := p, gpDefaultPath := Some d, pool_tasks := []\<rparr>"
  have big: "x \<notin> dom (mem s)" if "brk s < x" for x using idl(7) leD that by blast
  have out: "a \<notin> dom (mem s)" "i \<notin> dom (mem s)" "p \<notin> dom (mem s)" "p + 1 \<notin> dom (mem s)"
    by (rule big, simp add: a_def i_def p_def)+
  have ord: "a \<noteq> i" "p \<noteq> a" "p \<noteq> i" "p + 1 \<noteq> a" "p + 1 \<noteq> i" "0 < a" "0 < i" "0 < p" by (simp_all add: a_def i_def p_def)
  let ?sD = "?sC\<lparr>kst := kD, errno := eD\<rparr>"
  let ?s0 = "s1\<lparr>pool_tasks := []\<rparr>"
  have H: "handle_at a ?s0 = Inr ?h" "text_at (p + 1) ?sC = Inr dir"
    using ord by (simp_all add: handle_at_def text_at_def s1_def)
  have dd: "gDefaultLocal ! nat (gnDefaultPathIndex ?s0) = d" by (simp add: d_def s1_def)
  obtain r where mk: "fsys (f_mkdir K dir DEFAULT_MODE (kst ?sC)) ?sC = (r, ?sD)" "\<not> (r < 0 \<and> errno ?sD \<noteq> EEXIST)"
    using D(1) by (cases "view kC dir") (auto simp: fsys_def eD_def)
  let ?sE = "?sD\<lparr>mem := ?m(p \<mapsto> Text home)\<rparr>"
  have F1: "free_cell (p + 1) ?sD = Inr ?sE"
    using out ord by (auto simp: free_cell_def fun_upd_twist)
  have "(?m(p \<mapsto> Text home)) a = Some (Handle ?h)" "(?m(p \<mapsto> Text home))(a := None) = (mem s)(i \<mapsto> Text tx, p \<mapsto> Text home)"
    using out ord by auto
  then have F2: "free_cell a ?sE = Inr s2" using ord by (simp add: free_cell_def s1_def s2_def)
  have h: "h_type ?h = TYPE_START" "h_id ?h = i" by simp_all
  have run: "run_StartTask K a ?s0 = Inr s2"
    unfolding run_StartTask_def if_not_P [OF less_imp_neq [OF ord(6), symmetric]] H(1) bindE_simps h simp_thms if_False dd
      B(1) gd prod.case H(2) mk(1) F1 F2 ..
  have "pool_tasks s1 = [(StartTask, a)]" by (simp add: s1_def)
  then have wk: "worker K s1 = Next (0, s2)" by (simp add: worker_def run_task_def run)
  have "d = sub ''/data'' dn" "dir = sub (sub (sub d ''flying-pig'') dev) tx" using dn(1) dr by (simp_all add: home_def pig_def)
  note tree = session_tree [OF this(1) dn(2) idl(5) tm(2) _ _ _ v1_def _ _ w(1) _ _ this(2), of v2 v3]
  have v': "v ''/data'' = Some Dir" "rooted v" "finite (dom v)" "v2 = made (sub d ''flying-pig'') v1"
    "v3 = made (sub (sub d ''flying-pig'') dev) v2" "v2 (sub d ''flying-pig'') = Some Dir" "v3 (sub (sub d ''flying-pig'') dev) = Some Dir"
    using idl(8,12,13) w(2,3) v by (simp_all add: v_def home_def pig_def)
  note tree = tree [OF v']
  have rest: "view kD q = v q" if "\<not> under q dir" for q using tree(3) [OF that] by (simp add: vD)
  have inside: "\<not> under (sub dir n) dir" for n by (rule not_under_longer)
  have "recording view i dir (dom (mem s) \<union> {i, gPreName s2}) [] [] s2"
    unfolding recording_def
  proof (intro conjI)
    show "session_at s2 i dir" using ord ln by (auto simp: session_at_def s2_def dr)
    show "\<forall>x\<in>dom (mem s2). 0 < x \<and> x \<le> brk s2"
    proof
      fix x assume "x \<in> dom (mem s2)"
      then have "x \<in> dom (mem s) \<or> x = i \<or> x = p" by (auto simp: s2_def split: if_splits)
      moreover have "x \<in> dom (mem s) \<longrightarrow> 0 < x \<and> x \<le> brk s" using idl(7) by blast
      ultimately have "0 < x \<and> x \<le> p + 1" unfolding i_def p_def by linarith
      then show "0 < x \<and> x \<le> brk s2" by (simp add: s2_def)
    qed
    show "view (kst s2) dir = Some Dir" using clear(1) w(4) by (auto simp: s2_def vD made_def v_def)
    show "\<forall>ty. stored ty \<longrightarrow> view (kst s2) (sub dir (file_name ty)) \<noteq> Some Dir"
      using clear(2) rest inside by (simp add: s2_def v_def)
    show "rooted (view (kst s2))" using tree(1) by (simp add: s2_def vD)
    show "finite (dom (view (kst s2)))" using tree(2) by (simp add: s2_def vD)
  qed (use idl(1) in \<open>auto simp: s2_def\<close>)
  moreover have "gPersistentCount s2 = gPersistentCount s" "uploads s2 = uploads s" "gSDId s2 = gSDId s"
    "gPreName s2 \<notin> dom (mem s)" "i \<noteq> gPreName s2"
    "gnDefaultPathIndex s2 = gnDefaultPathIndex s" "gpDefaultPath s2 = Some (gDefaultLocal ! nat (gnDefaultPathIndex s))"
    using out(3) ord(3) by (simp_all add: s2_def d_def)
  moreover have "\<forall>q. \<not> under q dir \<longrightarrow> view (kst s2) q = view (kst s) q" using rest by (simp add: s2_def v_def)
  ultimately show ?thesis using st wk out(2) by blast
qed

text \<open>All that a session asks of the system, with threads that can be made.\<close>

definition serves_session :: "'k fs_kernel \<Rightarrow> ('k \<Rightarrow> tree) \<Rightarrow> ('k \<Rightarrow> int \<rightharpoonup> string) \<Rightarrow> bool" where
  "serves_session K view opn \<longleftrightarrow> serves_start K view \<and> serves_recording K view opn \<and> serves_removal K view
     \<and> (\<forall>k. \<exists>k'. f_thread K k = (True, k') \<and> view k' = view k)"

lemma remove_here_cut:
  assumes "serves_removal K view" and "rooted (view (kst s))" and "finite (dom (view (kst s)))" and "plain_path p"
  shows "\<exists>k e. remove_here K p s = Some (s\<lparr>kst := k, errno := e\<rparr>) \<and> view k = cut p (view (kst s))"
proof -
  let ?w = "\<lparr>kst = kst s, errno = errno s\<rparr>"
  have "view (kst ?w) = view (kst s)" by simp
  then obtain w' where w': "remove_file K p ?w = Some (0, w')" "view (kst w') = cut p (view (kst s))"
  proof (cases "view (kst s) p")
    case (Some e)
    then show thesis using remove_tree [OF assms(1), of ?w p] assms(2-4) that by (auto simp: remove_file_def)
  next
    case None
    then show thesis using remove_nothing [OF assms(1), of ?w p] assms(2,4) that by auto
  qed
  then show ?thesis by (auto simp: remove_here_def)
qed

lemma session_stops:
  assumes "recording view i dir B [] [] s" and "serves_session K view opn" and "plain_path dir"
  shows "\<exists>s'. persist_run K [E_stop i c, E_worker] s = Next s' \<and> pool_tasks s' = [] \<and> dom (mem s') = B - {i} \<and> gPreName s' = gPreName s
    \<and> gThreadPool s' = Pool_up \<and> gSDId s' = gSDId s \<and> gnDefaultPathIndex s' = gnDefaultPathIndex s \<and> brk s \<le> brk s'
    \<and> view (kst s') = (if c = 0 then cut dir (view (kst s)) else view (kst s))
    \<and> gPersistentCount s' = (if c = 0 then gPersistentCount s else (gPersistentCount s + 1) mod 20)
    \<and> uploads s' = uploads s @ (if c \<noteq> 0 \<and> gPersistentCount s = 19 then [U_Start (gpDefaultPath s)] else [])"
proof -
  note r = recording_cases [OF assms(1)]
  note laws = assms(2) [unfolded serves_session_def]
  let ?a = "brk s + 1"
  let ?h = "\<lparr>h_id = i, h_type = TYPE_STOP, h_buf = 0, h_len = 0, h_completed = c\<rparr>"
  obtain pre tx where t: "mem s (gPreName s) = Some (Text pre)" "mem s i = Some (Text tx)" "dir = sub pre tx" "length dir < 240"
    "0 < gPreName s" "0 < i" using r(4) unfolding session_at_def by blast
  have old: "i \<le> brk s" "gPreName s \<le> brk s" using r(11) t(1,2) by auto
  have big: "x \<notin> dom (mem s)" if "brk s < x" for x using r(11) leD that by blast
  then have fresh: "mem s ?a = None" "mem s (brk s + 2) = None" using big [of "brk s + 1"] big [of "brk s + 2"] by (simp_all add: domIff)
  obtain k1 where k1: "f_malloc K (kst s) = (True, k1)" "view k1 = view (kst s)" using start_laws(1) [of K view] laws by blast
  define s1 where "s1 = s\<lparr>kst := k1, brk := ?a, mem := (mem s)(?a \<mapsto> Handle ?h), pool_tasks := [(StopTask, ?a)]\<rparr>"
  have st: "speechStop K i c s = Next (0, s1)"
    using r(1,2) t(2,6) k1(1)
    by (simp add: speechStop_def text_at_def new_cell_def submit_def add_task_def MAX_INDEX_def s1_def)
  let ?s0 = "s1\<lparr>pool_tasks := []\<rparr>"
  have H: "handle_at ?a ?s0 = Inr ?h"
    using old t(2,6) by (simp_all add: handle_at_def text_at_def s1_def)
  have h: "h_id ?h = i" "h_completed ?h = c" "h_buf ?h = 0" by simp_all
  have a0: "?a \<noteq> 0" "?a \<noteq> i" "brk s + 2 \<noteq> i" "brk s + 2 \<noteq> ?a" using old(1) by simp_all
  have gone: "(mem s)(i := None, ?a := None) = (mem s)(i := None)" using fresh(1) by auto
  have frees: "bindE (free_cell (h_buf ?h) z) (\<lambda>z1. bindE (free_cell (h_id ?h) z1) (free_cell ?a))
      = Inr (z\<lparr>mem := (mem s)(i := None)\<rparr>)" if "mem z = (mem s)(?a \<mapsto> Handle ?h)" for z
  proof -
    have "free_cell i z = Inr (z\<lparr>mem := ((mem s)(?a \<mapsto> Handle ?h))(i := None)\<rparr>)"
      using that t(2,6) a0 by (simp add: free_cell_def)
    moreover have "free_cell ?a (z\<lparr>mem := ((mem s)(?a \<mapsto> Handle ?h))(i := None)\<rparr>)
        = Inr (z\<lparr>mem := ((mem s)(?a \<mapsto> Handle ?h))(i := None, ?a := None)\<rparr>)"
      using a0 by (simp add: free_cell_def)
    ultimately show ?thesis by (simp add: h free_cell_def [of 0] gone [simplified])
  qed
  have "pool_tasks s1 = [(StopTask, ?a)]" by (simp add: s1_def)
  then have fin: "persist_run K [E_stop i c, E_worker] s = Next z" if "run_StopTask K ?a ?s0 = Some (Inr z)" for z
    using st that by (simp add: persist_exec_def worker_def run_task_def)
  have m: "dom ((mem s)(i := None)) = B - {i}" using r(9) by auto
  show ?thesis
  proof (cases "c = 0")
    case True
    obtain k2 where k2: "f_malloc K k1 = (True, k2)" "view k2 = view k1" using start_laws(1) [of K view k1] laws by blast
    let ?sB = "?s0\<lparr>kst := k2, brk := brk s + 2, mem := (mem s)(?a \<mapsto> Handle ?h, brk s + 2 \<mapsto> Text dir)\<rparr>"
    have gd: "getDirByID K i ?s0 = Inr (brk s + 2, ?sB)" "text_at (brk s + 2) ?sB = Inr dir"
      using t old k2(1) by (simp_all add: getDirByID_def name_of_session_def text_at_def sprintf_local_def new_cell_def s1_def sub_def)
    have "view (kst ?sB) = view (kst s)" using k1(2) k2(2) by simp
    then obtain k3 e3 where k3: "remove_here K dir ?sB = Some (?sB\<lparr>kst := k3, errno := e3\<rparr>)" "view k3 = cut dir (view (kst s))"
      using remove_here_cut [of K view ?sB dir] laws r(14,15) assms(3) by auto
    let ?sC = "?sB\<lparr>kst := k3, errno := e3\<rparr>"
    let ?sD = "?sC\<lparr>mem := (mem s)(?a \<mapsto> Handle ?h)\<rparr>"
    have "((mem s)(?a \<mapsto> Handle ?h))(brk s + 2 := None) = (mem s)(?a \<mapsto> Handle ?h)" using fresh(2) by auto
    then have "free_cell (brk s + 2) ?sC = Inr ?sD" by (simp add: free_cell_def)
    then have "run_StopTask K ?a ?s0 = Some (Inr (?sD\<lparr>mem := (mem s)(i := None)\<rparr>))"
      using a0(1) H gd k3(1) frees [of ?sD] True by (simp add: run_StopTask_def)
    from fin [OF this] show ?thesis using True k3(2) m r(1) by (simp add: s1_def)
  next
    case False
    obtain k2 where k2: "f_thread K k1 = (True, k2)" "view k2 = view k1" using laws by blast
    define s3 where "s3 = (if gPersistentCount s = 19 then ?s0\<lparr>kst := k2, uploads := uploads s @ [U_Start (gpDefaultPath s)]\<rparr> else ?s0)
      \<lparr>gPersistentCount := (gPersistentCount s + 1) mod 20\<rparr>"
    have up: "doCheckAndTriggerUpload K ?s0 = Inr s3"
      using k2(1) by (simp add: doCheckAndTriggerUpload_def checkUpload_def MAX_PERSISTENT_COUNT_def s3_def s1_def)
    have "mem s3 = (mem s)(?a \<mapsto> Handle ?h)" by (simp add: s3_def s1_def)
    from frees [OF this] have "run_StopTask K ?a ?s0 = Some (Inr (s3\<lparr>mem := (mem s)(i := None)\<rparr>))"
      using a0(1) H up False by (simp add: run_StopTask_def)
    from fin [OF this] show ?thesis using False k1(2) k2(2) m r(1) by (simp add: s3_def s1_def)
  qed
qed

text \<open>After a session the recorder is at rest again.\<close>

lemma default_apart:
  assumes "i < 4" and "j < 4" and "i \<noteq> j" and "under (gDefaultLocal ! i) p" and "under (gDefaultLocal ! j) q"
  shows "\<not> under p q"
proof
  have l: "length (gDefaultLocal ! k) = 13" if "k < 4" for k using default_dirs [OF that] by (auto simp: sub_def)
  have first: "take 13 q = gDefaultLocal ! k" if "under (gDefaultLocal ! k) q" "k < 4" for k q
    using that(1) l [OF that(2)] by (auto simp: under_def sub_def)
  assume "under p q"
  then have "take 13 q = gDefaultLocal ! i" by (rule first [OF under_trans [OF assms(4)] assms(1)])
  moreover have "take 13 q = gDefaultLocal ! j" by (rule first [OF assms(5,2)])
  moreover have "distinct gDefaultLocal" "length gDefaultLocal = 4" by (simp_all add: gDefaultLocal_def)
  ultimately show False using assms(1-3) nth_eq_iff_index_eq [of gDefaultLocal i j] by simp
qed

lemma under_session_dir: "under (gDefaultLocal ! nat n) (session_dir n dev tx)"
  using under_trans [OF under_sub under_trans [OF under_sub under_sub]] by (simp add: session_dir_def)

text \<open>The directories of the sessions, once the session \<open>tx\<close> has run in the \<open>n\<close>-th of the four.\<close>

lemma clear_way_after:
  assumes "nat n < 4" and "j < 4" and "clear_way v dev (gDefaultLocal ! j)" and "dir = session_dir n dev tx" and "leaf tx"
    and "\<forall>q. \<not> under q dir \<and> \<not> under dir q \<longrightarrow> v' q = v q" and "\<forall>q. under q dir \<and> q \<noteq> dir \<and> under (gDefaultLocal ! nat n) q \<longrightarrow> v' q = Some Dir"
    and "v' dir \<in> {None, Some Dir}" and "\<forall>ty. stored ty \<longrightarrow> v' (sub dir (file_name ty)) \<noteq> Some Dir"
  shows "clear_way v' dev (gDefaultLocal ! j)"
proof (cases "j = nat n")
  case True
  define d where "d = gDefaultLocal ! j"
  define home where "home = sub (sub d ''flying-pig'') dev"
  have dr: "dir = sub home tx" using assms(4) True by (simp add: session_dir_def home_def d_def)
  have same: "v' q = v q" if "leaf m" "m \<noteq> tx" "under (sub home m) q" for m q
  proof -
    have "\<not> under dir q" using siblings_apart [OF that(1) assms(5) that(2,3)] by (simp add: dr)
    moreover have "\<not> under q dir"
    proof
      assume "under q dir"
      from siblings_apart [OF that(1) assms(5) that(2) under_trans [OF that(3) this]] show False by (simp add: dr)
    qed
    ultimately show ?thesis using assms(6) by simp
  qed
  have up: "v' d = Some Dir" "v' (sub d ''flying-pig'') = Some Dir" "v' home = Some Dir"
  proof -
    have "under d dir" "under (sub d ''flying-pig'') dir" "under home dir"
      using under_trans [OF under_sub under_trans [OF under_sub under_sub]] under_trans [OF under_sub under_sub]
      by (simp_all add: dr home_def)
    moreover have "under d d" "under d (sub d ''flying-pig'')" "under d home"
      using under_trans [OF under_sub under_sub] by (simp_all add: home_def)
    moreover have "d \<noteq> dir" "sub d ''flying-pig'' \<noteq> dir" "home \<noteq> dir"
      using sub_longer [of d "''flying-pig''"] sub_longer [of "sub d ''flying-pig''" dev] sub_longer [of home tx]
      by (auto simp: dr home_def)
    ultimately show "v' d = Some Dir" "v' (sub d ''flying-pig'') = Some Dir" "v' home = Some Dir"
      using assms(7) True by (simp_all add: d_def)
  qed
  note c = assms(3) [folded d_def, unfolded clear_way_def, folded home_def]
  have "v' (sub home m) \<in> {None, Some Dir} \<and> (\<forall>ty. stored ty \<longrightarrow> v' (sub (sub home m) (file_name ty)) \<noteq> Some Dir)" if "leaf m" for m
  proof (cases "m = tx")
    case True
    then show ?thesis using assms(8,9) by (simp add: dr)
  next
    case False
    then show ?thesis using same [OF that False] c that by simp
  qed
  then show ?thesis using up by (simp add: clear_way_def d_def [symmetric] home_def [symmetric])
next
  case False
  have "v' q = v q" if "under (gDefaultLocal ! j) q" for q
    using default_apart [OF assms(2,1) False that under_session_dir] default_apart [OF assms(1,2) _ under_session_dir that]
      False assms(4,6) by metis
  moreover have "under (gDefaultLocal ! j) (sub (gDefaultLocal ! j) r)" "under (gDefaultLocal ! j) (sub (sub (gDefaultLocal ! j) r) u)"
    "under (gDefaultLocal ! j) (sub (sub (sub (gDefaultLocal ! j) r) u) w)"
    "under (gDefaultLocal ! j) (sub (sub (sub (sub (gDefaultLocal ! j) r) u) w) x)" for r u w x
    using under_trans [OF under_sub under_trans [OF under_sub under_trans [OF under_sub under_sub]]]
      under_trans [OF under_sub under_trans [OF under_sub under_sub]] under_trans [OF under_sub under_sub] by simp_all
  ultimately show ?thesis using assms(3) by (simp add: clear_way_def)
qed

lemma idle_again:
  assumes "idle view dev s" and "n = gnDefaultPathIndex s" and "dir = session_dir n dev tx" and "leaf tx"
    and "view (kst s1) dir = Some Dir" and "rooted (view (kst s1))" and "finite (dom (view (kst s1)))"
    and "view (kst s2) = view (kst s1) \<or> view (kst s2) = cut dir (view (kst s1))"
    and "gThreadPool s2 = Pool_up" and "pool_tasks s2 = []" and "gnDefaultPathIndex s2 = n" and "gSDId s2 = gSDId s"
    and "\<forall>a \<in> dom (mem s2). 0 < a \<and> a \<le> brk s2"
    and "\<forall>q. \<not> under q dir \<and> \<not> under dir q \<longrightarrow> view (kst s1) q = view (kst s) q"
    and "\<forall>ty. stored ty \<longrightarrow> view (kst s1) (sub dir (file_name ty)) \<noteq> Some Dir"
  shows "idle view dev s2"
proof -
  note idl = idleD [OF assms(1)]
  define d where "d = gDefaultLocal ! nat n"
  obtain dn where dn: "d = sub ''/data'' dn" "leaf dn" using default_dirs [OF idl(3)] assms(2) by (auto simp: d_def)
  have dr: "dir = sub (sub (sub d ''flying-pig'') dev) tx" using assms(3) by (simp add: session_dir_def d_def)
  have above: "view (kst s1) q = Some Dir" if "under q dir" for q
    using that assms(5) above_dir [OF assms(6)] by (auto simp: under_def)
  have kept: "view (kst s2) q = view (kst s1) q" if "\<not> under dir q" for q using that assms(8) by (auto simp: cut_def)
  have strict: "\<not> under dir q" if "under q dir" "q \<noteq> dir" for q
    using that not_under_longer under_trans by (metis under_def)
  have "under ''/data'' dir" unfolding dr dn(1)
    by (rule under_trans [OF under_sub under_trans [OF under_sub under_trans [OF under_sub under_sub]]])
  moreover have "''/data'' \<noteq> dir" by (simp add: dr dn(1) sub_def)
  moreover have "view (kst s1) ''/data'' = Some Dir" using above calculation by blast
  ultimately have "view (kst s2) ''/data'' = Some Dir" using kept strict by simp
  moreover have "\<forall>j < 4. clear_way (view (kst s2)) dev (gDefaultLocal ! j)"
  proof (intro allI impI)
    fix j :: nat assume j: "j < 4"
    show "clear_way (view (kst s2)) dev (gDefaultLocal ! j)"
    proof (rule clear_way_after [OF _ j _ assms(3,4)])
      show "\<forall>q. under q dir \<and> q \<noteq> dir \<and> under (gDefaultLocal ! nat n) q \<longrightarrow> view (kst s2) q = Some Dir"
        using above strict kept by simp
      show "view (kst s2) dir \<in> {None, Some Dir}" using assms(5,8) by (auto simp: cut_def)
    qed (use idl(3,16) j assms(2,8,14,15) kept in \<open>auto simp: cut_def\<close>)
  qed
  moreover have "rooted (view (kst s2))" "finite (dom (view (kst s2)))"
    using assms(6-8) rooted_cut finite_cut by metis+
  moreover have "getDeviceId s2 = Inr dev" using idl(4) assms(12) by (simp add: getDeviceId_def split: if_splits)
  moreover have "0 \<le> n" "n < 4" using assms(1,2) by (simp_all add: idle_def)
  ultimately show ?thesis using assms(9-11,13) idl(5,6) by (simp add: idle_def)
qed

lemma persist_run_append:
  "persist_run K (es @ fs) s = (case persist_run K es s of Next s1 \<Rightarrow> persist_run K fs s1 | other \<Rightarrow> other)"
  by (induction es arbitrary: s) (auto split: outcome.splits)

lemma session_whole:
  assumes "serves_session K view opn" and "idle view dev s" and "f_localtime K (snd (f_malloc K (kst s))) = (t, k')"
    and "dir = session_dir (gnDefaultPathIndex s) dev (time_text t)"
  shows "\<exists>i s0. speechStart K s = Next (int i, s0)
    \<and> (\<forall>es c. (\<forall>e \<in> set es. session_event i e) \<and> drains 0 es \<longrightarrow>
        (\<exists>s'. persist_run K (E_start # E_worker # es @ [E_stop i c, E_worker]) s = Next s' \<and> idle view dev s'
          \<and> (c \<noteq> 0 \<longrightarrow> (\<forall>ty. stored ty \<longrightarrow> content (view (kst s')) (sub dir (file_name ty))
                = content (view (kst s)) (sub dir (file_name ty)) @ chunks ty (handed_over es)))
          \<and> (c = 0 \<longrightarrow> (\<forall>q. under dir q \<longrightarrow> view (kst s') q = None))
          \<and> (\<forall>q. \<not> under q dir \<and> \<not> under dir q \<longrightarrow> view (kst s') q = view (kst s) q)
          \<and> gPreName s' \<notin> dom (mem s) \<and> dom (mem s') = dom (mem s) \<union> {gPreName s'}
          \<and> gPersistentCount s' = (if c = 0 then gPersistentCount s else (gPersistentCount s + 1) mod 20)
          \<and> uploads s' = uploads s @ (if c \<noteq> 0 \<and> gPersistentCount s = 19
                then [U_Start (Some (gDefaultLocal ! nat (gnDefaultPathIndex s)))] else [])))"
proof -
  note laws = assms(1) [unfolded serves_session_def]
  obtain k0 where k0: "f_malloc K (kst s) = (True, k0)" using start_laws(1) [of K view "kst s"] laws by blast
  then have tx: "leaf (time_text t)" using start_laws(2) [of K view k0] laws assms(3) by auto
  have pp: "plain_path dir" using plain_sub [OF tx] by (simp add: assms(4) session_dir_def)
  from session_starts [OF _ assms(2-4)] laws obtain i s1 s2 where
    st: "speechStart K s = Next (int i, s1)" "worker K s1 = Next (0, s2)"
      "recording view i dir (dom (mem s) \<union> {i, gPreName s2}) [] [] s2" "i \<notin> dom (mem s)" "gPreName s2 \<notin> dom (mem s)"
      "i \<noteq> gPreName s2" "gPersistentCount s2 = gPersistentCount s" "uploads s2 = uploads s" "gSDId s2 = gSDId s"
      "gnDefaultPathIndex s2 = gnDefaultPathIndex s" "gpDefaultPath s2 = Some (gDefaultLocal ! nat (gnDefaultPathIndex s))"
      "\<forall>q. \<not> under q dir \<longrightarrow> view (kst s2) q = view (kst s) q" by blast
  have "\<exists>s'. persist_run K (E_start # E_worker # es @ [E_stop i c, E_worker]) s = Next s' \<and> idle view dev s'
      \<and> (c \<noteq> 0 \<longrightarrow> (\<forall>ty. stored ty \<longrightarrow> content (view (kst s')) (sub dir (file_name ty))
            = content (view (kst s)) (sub dir (file_name ty)) @ chunks ty (handed_over es)))
      \<and> (c = 0 \<longrightarrow> (\<forall>q. under dir q \<longrightarrow> view (kst s') q = None))
      \<and> (\<forall>q. \<not> under q dir \<and> \<not> under dir q \<longrightarrow> view (kst s') q = view (kst s) q)
      \<and> gPreName s' \<notin> dom (mem s) \<and> dom (mem s') = dom (mem s) \<union> {gPreName s'}
      \<and> gPersistentCount s' = (if c = 0 then gPersistentCount s else (gPersistentCount s + 1) mod 20)
      \<and> uploads s' = uploads s @ (if c \<noteq> 0 \<and> gPersistentCount s = 19
            then [U_Start (Some (gDefaultLocal ! nat (gnDefaultPathIndex s)))] else [])"
    if es: "\<forall>e \<in> set es. session_event i e" "drains 0 es" for es c
  proof -
    from session_run [OF _ st(3) es(1)] laws es(2) obtain s3 ps where
      s3: "persist_run K es s2 = Next s3" "recording view i dir (dom (mem s) \<union> {i, gPreName s2}) [] ps s3" "keeps_rest view dir s2 s3"
        "\<forall>ty. stored ty \<longrightarrow> content (view (kst s3)) (sub dir (file_name ty)) @ chunks ty ps
            = content (view (kst s2)) (sub dir (file_name ty)) @ chunks ty (handed_over es)" by fastforce
    note r = recording_cases [OF s3(2)]
    have ps: "ps = []" using r(10) by simp
    note k = s3(3) [unfolded keeps_rest_def]
    from session_stops [OF s3(2) [unfolded ps] assms(1) pp, of c] obtain s' where
      s': "persist_run K [E_stop i c, E_worker] s3 = Next s'" "pool_tasks s' = []" "dom (mem s') = dom (mem s) \<union> {i, gPreName s2} - {i}"
        "gPreName s' = gPreName s3" "gThreadPool s' = Pool_up" "gSDId s' = gSDId s3" "gnDefaultPathIndex s' = gnDefaultPathIndex s3"
        "brk s3 \<le> brk s'" "view (kst s') = (if c = 0 then cut dir (view (kst s3)) else view (kst s3))"
        "gPersistentCount s' = (if c = 0 then gPersistentCount s3 else (gPersistentCount s3 + 1) mod 20)"
        "uploads s' = uploads s3 @ (if c \<noteq> 0 \<and> gPersistentCount s3 = 19 then [U_Start (gpDefaultPath s3)] else [])" by blast
    have run: "persist_run K (E_start # E_worker # es @ [E_stop i c, E_worker]) s = Next s'"
      using st(1,2) s3(1) s'(1) by (simp add: persist_exec_def persist_run_append del: persist_run.simps(2)
        add: persist_run.simps(2) [of K E_start] persist_run.simps(2) [of K E_worker "es @ _"])
    have "idle view dev s'"
    proof (rule idle_again [OF assms(2) refl assms(4) tx r(12,14,15)])
      show "\<forall>a\<in>dom (mem s'). 0 < a \<and> a \<le> brk s'"
      proof
        fix a assume "a \<in> dom (mem s')"
        then have "a \<in> dom (mem s3)" using s'(3) r(9) by auto
        then have "0 < a \<and> a \<le> brk s3" using r(11) by blast
        then show "0 < a \<and> a \<le> brk s'" using s'(8) by simp
      qed
    qed (use s'(2,5-7,9) k st(9,10,12) r(13) in simp_all)
    moreover have "content (view (kst s2)) (sub dir n) = content (view (kst s)) (sub dir n)" for n
      using st(12) not_under_longer by (simp add: content_def)
    moreover have "\<forall>q. \<not> under q dir \<and> \<not> under dir q \<longrightarrow> view (kst s') q = view (kst s) q"
      using s'(9) k st(12) by (simp add: cut_def)
    moreover have "dom (mem s') = dom (mem s) \<union> {gPreName s'}" using s'(3,4) k st(4,6) by auto
    moreover have "c \<noteq> 0 \<longrightarrow> (\<forall>ty. stored ty \<longrightarrow> content (view (kst s')) (sub dir (file_name ty))
        = content (view (kst s2)) (sub dir (file_name ty)) @ chunks ty (handed_over es))" using s3(4) ps s'(9) by simp
    moreover have "c = 0 \<longrightarrow> (\<forall>q. under dir q \<longrightarrow> view (kst s') q = None)" using s'(9) by (simp add: cut_def)
    moreover have "gPreName s' \<notin> dom (mem s)" using s'(4) k st(5) by simp
    moreover have "gPersistentCount s' = (if c = 0 then gPersistentCount s else (gPersistentCount s + 1) mod 20)"
      using s'(10) k st(7) by simp
    moreover have "uploads s' = uploads s @ (if c \<noteq> 0 \<and> gPersistentCount s = 19
        then [U_Start (Some (gDefaultLocal ! nat (gnDefaultPathIndex s)))] else [])" using s'(11) k st(7,8,11) by simp
    ultimately show ?thesis using run by (intro exI [of _ s'] conjI) simp_all
  qed
  then show ?thesis using st(1) by blast
qed


end
