(* ===== verification/Disk.thy ===== *)
theory Disk
  imports PersistSession "HOL-Library.AList"
begin

text \<open>
  A file system in memory that keeps the promises which the theorems of FileTree and PersistSession
  ask for, so that they hold of runs that can be computed. It models no code: it is the system that the
  witnesses of those theorems run on.
\<close>

section \<open>The file system\<close>

record disk =
  d_tree :: "(string \<times> entry) list"
  d_open :: "(int \<times> string) list"

definition disk_view :: "disk \<Rightarrow> tree" where
  "disk_view k = map_of (d_tree k)"

definition disk_opened :: "disk \<Rightarrow> int \<rightharpoonup> string" where
  "disk_opened k = map_of (d_open k)"

definition child_names :: "(string \<times> entry) list \<Rightarrow> string \<Rightarrow> string list" where
  "child_names t p =
     (let n = length p + 1 in remdups [drop n q. (q, e) \<leftarrow> t, take n q = p @ ''/'', leaf (drop n q)])"

definition disk_put :: "string \<Rightarrow> entry \<Rightarrow> disk \<Rightarrow> disk" where
  "disk_put p e k = k\<lparr>d_tree := AList.update p e (d_tree k)\<rparr>"

definition disk_drop :: "string \<Rightarrow> disk \<Rightarrow> sysret \<times> disk" where
  "disk_drop p k = (SysOk 0, k\<lparr>d_tree := AList.delete p (d_tree k)\<rparr>)"

definition disk_write :: "int \<Rightarrow> u8 list \<Rightarrow> disk \<Rightarrow> sysret \<times> disk" where
  "disk_write fd d k =
     (case disk_opened k fd of
        None \<Rightarrow> (SysErr 9, k)
      | Some q \<Rightarrow>
          (case disk_view k q of Some (File b) \<Rightarrow> (SysOk (length d), disk_put q (File (b @ d)) k) | _ \<Rightarrow> (SysErr 9, k)))"

definition disk_kernel :: "disk fs_kernel" where
  "disk_kernel = \<lparr>
     f_malloc = (\<lambda>k. (True, k)),
     f_pool = (\<lambda>k. (True, k)),
     f_thread = (\<lambda>k. (True, k)),
     f_localtime = (\<lambda>k. (\<lparr>tm_year = 117, tm_mon = 5, tm_mday = 24, tm_hour = 13, tm_min = 7, tm_sec = 9\<rparr>, k)),
     f_access = (\<lambda>p m k. (if disk_view k p = None then SysErr ENOENT else SysOk 0, k)),
     f_mkdir = (\<lambda>p m k. if disk_view k p = None then (SysOk 0, disk_put p Dir k) else (SysErr EEXIST, k)),
     f_open = (\<lambda>p m k. (SysOk 3, disk_put p (File (content (disk_view k) p)) (k\<lparr>d_open := AList.update 3 p (d_open k)\<rparr>))),
     f_write = disk_write,
     f_close = (\<lambda>fd k. (SysOk 0, k\<lparr>d_open := AList.delete fd (d_open k)\<rparr>)),
     f_lstat = (\<lambda>p k. (case disk_view k p of None \<Rightarrow> (SysErr ENOENT, Other_file) | Some e \<Rightarrow> (SysOk 0, kind_of e), k)),
     f_opendir = (\<lambda>p k. (if disk_view k p = Some Dir then Some (''.'' # ''..'' # child_names (d_tree k) p) else None, k)),
     f_closedir = (\<lambda>p k. (SysOk 0, k)),
     f_rmdir = disk_drop,
     f_unlink = disk_drop,
     f_remove = disk_drop,
     f_chdir = (\<lambda>p k. (SysOk 0, k))\<rparr>"

section \<open>Its promises\<close>

lemma view_put [simp]: "disk_view (disk_put p e k) = (disk_view k)(p \<mapsto> e)"
  by (simp add: disk_view_def disk_put_def update_conv')

lemma opened_put [simp]: "disk_opened (disk_put p e k) = disk_opened k"
  by (simp add: disk_opened_def disk_put_def)

lemma view_opened [simp]: "disk_view (k\<lparr>d_open := x\<rparr>) = disk_view k" "disk_opened (k\<lparr>d_open := x\<rparr>) = map_of x"
  by (simp_all add: disk_view_def disk_opened_def)

lemma disk_drop_view: "\<exists>k'. disk_drop p k = (SysOk 0, k') \<and> disk_view k' = (disk_view k)(p := None)"
  by (simp add: disk_view_def disk_drop_def delete_conv')

lemma set_child_names: "set (child_names t p) = children (map_of t) p"
proof -
  have "take (Suc (length p)) q = p @ ''/'' \<longleftrightarrow> (\<exists>r. q = sub p r)" for q
    by (metis (no_types, lifting) append.assoc append_Cons append_eq_conv_conj append_self_conv2 append_take_drop_id
        length_append_singleton self_append_conv2 sub_def)
  then show ?thesis
    by (force simp: child_names_def children_def Let_def sub_def map_of_eq_None_iff image_iff split: if_splits)
qed

lemma child_names_listed:
  "distinct (''.'' # ''..'' # child_names t p)" "set (''.'' # ''..'' # child_names t p) - {''.'', ''..''} = children (map_of t) p"
proof -
  have dots: "''.'' \<notin> children (map_of t) p" "''..'' \<notin> children (map_of t) p" using children_dots by blast+
  then show "distinct (''.'' # ''..'' # child_names t p)" using set_child_names [of t p] by (simp add: child_names_def Let_def)
  show "set (''.'' # ''..'' # child_names t p) - {''.'', ''..''} = children (map_of t) p"
    using dots set_child_names [of t p] by auto
qed

lemma disk_serves_removal: "serves_removal disk_kernel disk_view"
  unfolding serves_removal_def
  using child_names_listed disk_drop_view
  by (simp add: disk_kernel_def disk_view_def split: option.splits)

lemma disk_serves_recording: "serves_recording disk_kernel disk_view disk_opened"
  unfolding serves_recording_def
  by (intro conjI allI impI)
    (auto simp: disk_kernel_def disk_write_def update_conv' disk_opened_def disk_view_def [of "d_open_update _ _"] disk_view_def disk_put_def)

lemma disk_time:
  "time_text \<lparr>tm_year = 117, tm_mon = 5, tm_mday = 24, tm_hour = 13, tm_min = 7, tm_sec = 9\<rparr> = ''20170524130709''"
  by code_simp

lemma disk_serves_start: "serves_start disk_kernel disk_view"
  unfolding serves_start_def
  by (auto simp: disk_kernel_def disk_time leaf_def DOT_OR_DOTDOT_def)

lemma disk_serves_session: "serves_session disk_kernel disk_view disk_opened"
  using disk_serves_start disk_serves_recording disk_serves_removal
  by (simp add: serves_session_def disk_kernel_def)

section \<open>Trees that are given as lists\<close>

definition path_base :: "string \<Rightarrow> string" where
  "path_base q = rev (takeWhile (\<lambda>c. c \<noteq> CHR ''/'') (rev q))"

definition path_parent :: "string \<Rightarrow> string" where
  "path_parent q = rev (tl (dropWhile (\<lambda>c. c \<noteq> CHR ''/'') (rev q)))"

lemma path_split:
  assumes "CHR ''/'' \<in> set q"
  shows "q = sub (path_parent q) (path_base q)"
proof -
  let ?P = "\<lambda>c. c \<noteq> CHR ''/''"
  have "dropWhile ?P (rev q) \<noteq> []" using assms by (simp add: dropWhile_eq_Nil_conv)
  then obtain r where "dropWhile ?P (rev q) = CHR ''/'' # r" using hd_dropWhile [of ?P "rev q"] by (cases "dropWhile ?P (rev q)") auto
  then have "rev q = takeWhile ?P (rev q) @ CHR ''/'' # rev (path_parent q)"
    using takeWhile_dropWhile_id [of ?P "rev q"] by (simp add: path_parent_def)
  then have "rev (rev q) = rev (takeWhile ?P (rev q) @ CHR ''/'' # rev (path_parent q))" by (rule arg_cong)
  then show ?thesis by (simp add: sub_def path_base_def)
qed

definition rooted_list :: "(string \<times> entry) list \<Rightarrow> bool" where
  "rooted_list t \<longleftrightarrow> list_all (\<lambda>(q, e). q = [] \<or>
     CHR ''/'' \<in> set q \<and> leaf (path_base q) \<and> map_of t (path_parent q) = Some Dir) t"

lemma rooted_list: "rooted_list t \<Longrightarrow> rooted (map_of t)"
  unfolding rooted_def
proof
  fix q assume t: "rooted_list t" and "q \<in> dom (map_of t)"
  then obtain e where "(q, e) \<in> set t" by (auto dest: map_of_SomeD)
  then have "q = [] \<or> CHR ''/'' \<in> set q \<and> leaf (path_base q) \<and> map_of t (path_parent q) = Some Dir"
    using t by (auto simp: rooted_list_def list_all_iff)
  then show "q = [] \<or> (\<exists>p n. q = sub p n \<and> leaf n \<and> map_of t p = Some Dir)" using path_split by blast
qed

section \<open>Runs on it\<close>

definition small_disk :: disk where
  "small_disk = \<lparr>d_tree = [('''', Dir), (''/data'', Dir), (''/data/a'', Dir), (''/data/a/x'', File [1]), (''/data/b'', File [2])],
     d_open = []\<rparr>"

lemma small_disk_rooted: "rooted (disk_view small_disk)"
  unfolding disk_view_def
  by (rule rooted_list) (simp add: small_disk_def rooted_list_def path_base_def path_parent_def leaf_def DOT_OR_DOTDOT_def)


definition open_disk :: disk where
  "open_disk = \<lparr>d_tree = [('''', Dir), (''/p'', Dir), (''/p/x'', Dir), (''/p/x/outputasr.json'', File [6])], d_open = []\<rparr>"

definition open_session :: "disk persist" where
  "open_session = (program_start open_disk)\<lparr>mem := [1 \<mapsto> Text ''x'', 2 \<mapsto> Text ''/p''], brk := 2, gPreName := 2, gThreadPool := Pool_up\<rparr>"

lemma open_session_recording: "recording disk_view 1 ''/p/x'' {1, 2} [] [] open_session"
proof -
  have "rooted (disk_view open_disk)" unfolding disk_view_def
    by (rule rooted_list) (simp add: open_disk_def rooted_list_def path_base_def path_parent_def leaf_def DOT_OR_DOTDOT_def)
  moreover have "disk_view open_disk ''/p/x'' = Some Dir" by (simp add: disk_view_def open_disk_def)
  moreover have "disk_view open_disk (sub ''/p/x'' (file_name ty)) \<noteq> Some Dir" if "stored ty" for ty
    using that by (auto simp: stored_def sub_def disk_view_def open_disk_def)
  moreover have "finite (dom (disk_view open_disk))" by (simp add: disk_view_def finite_dom_map_of)
  ultimately show ?thesis
    by (auto simp: recording_def open_session_def program_start_def session_at_def sub_def)
qed


definition serial :: string where
  "serial = ''UBTUBT0123456789UBTUBT0123456789''"

definition data_disk :: disk where
  "data_disk = \<lparr>d_tree = [('''', Dir), (''/data'', Dir)], d_open = []\<rparr>"

text \<open>The state that \<^verbatim>\<open>Init(NULL)\<close> leaves.\<close>

definition recorder :: "disk persist" where
  "recorder = (program_start data_disk)\<lparr>gThreadPool := Pool_up, gSDId := serial @ [CHR 0x00]\<rparr>"

lemma serial_blit: "blit (replicate SN_LENGTH (CHR 0x00)) 0 serial = Inr (serial @ [CHR 0x00])"
  by code_simp

lemma Init_recorder: "Init disk_kernel None (program_start data_disk) = Next (0, recorder)"
proof -
  have "''UBTUBT0123456789UBTUBT0123456789'' = serial" by (simp add: serial_def)
  moreover have "CHR 0x00 \<in> set (serial @ [CHR 0x00])" by simp
  ultimately show ?thesis
    by (simp only: Init_def) (simp add: program_start_def serial_blit getDeviceId_def disk_kernel_def recorder_def)
qed

lemma recorder_idle: "idle disk_view serial recorder"
proof -
  have "rooted (disk_view data_disk)" unfolding disk_view_def
    by (rule rooted_list) (simp add: data_disk_def rooted_list_def path_base_def path_parent_def leaf_def DOT_OR_DOTDOT_def)
  moreover have "leaf serial" "length serial < 33" by (simp_all add: leaf_def serial_def DOT_OR_DOTDOT_def)
  moreover have "getDeviceId recorder = Inr serial" by (simp add: getDeviceId_def recorder_def serial_def)
  moreover have "disk_view data_disk ''/data'' = Some Dir" by (simp add: disk_view_def data_disk_def)
  moreover have "\<forall>j < 4. clear_way (disk_view data_disk) serial (gDefaultLocal ! j)"
  proof (intro allI impI)
    fix j :: nat assume "j < 4"
    then obtain n where "gDefaultLocal ! j = sub ''/data'' n" using default_dirs by blast
    moreover have "disk_view data_disk (sub ''/data'' x) = None" "disk_view data_disk (sub (sub ''/data'' x) y) = None" for x y
      by (simp_all add: disk_view_def data_disk_def sub_def)
    moreover have "disk_view data_disk (sub (sub (sub p x) y) z) = None" for p x y z
      by (auto simp: disk_view_def data_disk_def sub_def Cons_eq_append_conv append_eq_Cons_conv)
    ultimately show "clear_way (disk_view data_disk) serial (gDefaultLocal ! j)" by (simp add: clear_way_def)
  qed
  moreover have "finite (dom (disk_view data_disk))" by (simp add: disk_view_def finite_dom_map_of)
  ultimately show ?thesis by (simp add: idle_def recorder_def program_start_def)
qed


end
