(* ===== verification/PersistRuns.thy ===== *)
theory PersistRuns
  imports Disk
begin

text \<open>
  The recorder over many sessions: what they leave in memory, how often an upload is started and what
  it does between two sessions; then what goes wrong when an upload overtakes a session, when the
  serial number is not 32 bytes long, and when the recorder is shut down and started again.
\<close>

section \<open>Many sessions\<close>

text \<open>A session after the other, each with chunks and an order of steps of its own; the list says which were completed.\<close>

inductive sessions :: "'k fs_kernel \<Rightarrow> 'k persist \<Rightarrow> int list \<Rightarrow> 'k persist \<Rightarrow> bool" for K where
  no_session: "sessions K s [] s"
| session: "speechStart K s = Next (int i, s0) \<Longrightarrow> \<forall>e \<in> set es. session_event i e \<Longrightarrow> drains 0 es \<Longrightarrow>
    persist_run K (E_start # E_worker # es @ [E_stop i c, E_worker]) s = Next s1 \<Longrightarrow> sessions K s1 cs s' \<Longrightarrow>
    sessions K s (c # cs) s'"

inductive_cases sessions_NilE: "sessions K s [] s'"
inductive_cases sessions_ConsE: "sessions K s (c # cs) s'"

lemma idle_finite: "idle view dev s \<Longrightarrow> finite (dom (mem s))"
  using idleD(7) by (metis finite_nat_set_iff_bounded_le)

text \<open>One of them, in numbers.\<close>

lemma session_counts:
  assumes "serves_session K view opn" and "idle view dev s" and "speechStart K s = Next (int i, s0)"
    and "\<forall>e \<in> set es. session_event i e" and "drains 0 es"
  shows "\<exists>s1. persist_run K (E_start # E_worker # es @ [E_stop i c, E_worker]) s = Next s1 \<and> idle view dev s1 \<and> gPreName s1 \<in> dom (mem s1)
    \<and> card (dom (mem s1)) = card (dom (mem s)) + 1
    \<and> gPersistentCount s1 = (if c = 0 then gPersistentCount s else (gPersistentCount s + 1) mod 20)
    \<and> length (uploads s1) = length (uploads s) + (if c \<noteq> 0 \<and> gPersistentCount s = 19 then 1 else 0)"
proof -
  obtain t k' where "f_localtime K (snd (f_malloc K (kst s))) = (t, k')" by fastforce
  from session_whole [OF assms(1,2) this refl] show ?thesis
  proof (elim exE conjE, goal_cases)
    case (1 j u)
    have es: "(\<forall>e \<in> set es. session_event i e) \<and> drains 0 es" using assms(4,5) by simp
    have "j = i" using 1(1) assms(3) by simp
    from 1(2) [unfolded this, THEN spec, THEN spec, THEN mp, OF es, of c] show ?thesis
    proof (elim exE conjE, goal_cases)
      case (1 s1)
      then have "card (dom (mem s1)) = card (dom (mem s)) + 1" using idle_finite [OF assms(2)] by simp
      with 1 show ?case by (intro exI [of _ s1]) simp
    qed
  qed
qed

lemma sessions_run:
  assumes "serves_session K view opn"
  shows "idle view dev s \<Longrightarrow> \<exists>s'. sessions K s cs s'"
proof (induction cs arbitrary: s)
  case Nil
  then show ?case using no_session by blast
next
  case (Cons c cs)
  obtain t k' where "f_localtime K (snd (f_malloc K (kst s))) = (t, k')" by fastforce
  from session_whole [OF assms Cons.prems this refl] obtain i s0 where i: "speechStart K s = Next (int i, s0)" by blast
  have es: "\<forall>e \<in> set []. session_event i e" "drains 0 []" by simp_all
  from session_counts [OF assms Cons.prems i es, of c] obtain s1 where
    s1: "persist_run K (E_start # E_worker # [] @ [E_stop i c, E_worker]) s = Next s1" "idle view dev s1" by blast
  from Cons.IH [OF s1(2)] session [OF i es s1(1)] show ?case by blast
qed

lemma sessions_counts:
  assumes "serves_session K view opn"
  shows "sessions K s cs s' \<Longrightarrow> idle view dev s \<Longrightarrow> 0 \<le> gPersistentCount s \<and> gPersistentCount s < 20 \<Longrightarrow>
    idle view dev s' \<and> (gPreName s \<in> dom (mem s) \<or> cs \<noteq> [] \<longrightarrow> gPreName s' \<in> dom (mem s'))
    \<and> card (dom (mem s')) = card (dom (mem s)) + length cs
    \<and> gPersistentCount s' = (gPersistentCount s + int (length (filter (\<lambda>c. c \<noteq> 0) cs))) mod 20
    \<and> int (length (uploads s')) = int (length (uploads s)) + (gPersistentCount s + int (length (filter (\<lambda>c. c \<noteq> 0) cs))) div 20"
proof (induction rule: sessions.induct)
  case (no_session s)
  then show ?case by simp
next
  case (session s i s0 es c s1 cs s')
  from session_counts [OF assms session.prems(1) session.hyps(1-3), of c] session.hyps(4)
  have s1: "idle view dev s1" "gPreName s1 \<in> dom (mem s1)" "card (dom (mem s1)) = card (dom (mem s)) + 1"
    "gPersistentCount s1 = (if c = 0 then gPersistentCount s else (gPersistentCount s + 1) mod 20)"
    "length (uploads s1) = length (uploads s) + (if c \<noteq> 0 \<and> gPersistentCount s = 19 then 1 else 0)" by auto
  have "0 \<le> gPersistentCount s1 \<and> gPersistentCount s1 < 20" using s1(4) session.prems(2) by auto
  note IH = session.IH [OF s1(1) this]
  define n where "n = int (length (filter (\<lambda>c. c \<noteq> 0) cs))"
  show ?case
  proof (cases "c \<noteq> 0 \<and> gPersistentCount s = 19")
    case True
    then have "(19 + (1 + n)) div 20 = 1 + n div 20" "(19 + (1 + n)) mod 20 = n mod 20" by auto
    then show ?thesis using True IH s1 by (simp add: n_def [symmetric])
  next
    case False
    then have "gPersistentCount s1 = gPersistentCount s + (if c = 0 then 0 else 1)" using s1(4) session.prems(2) by auto
    then show ?thesis using False IH s1 by (simp add: ac_simps)
  qed
qed



section \<open>Uploads\<close>

text \<open>
  an upload that runs between two sessions takes three steps to remove the directory that was current
  when it was started; the next of the four becomes current, the name of the last session's directory is
  freed, and the recorder is at rest again.
\<close>

theorem upload_between_sessions:
  assumes "serves_removal K view" and "idle view dev s" and "j < length (uploads s)" and "m < 4"
    and "uploads s ! j = U_Start (Some (gDefaultLocal ! m))" and "gPreName s = 0 \<or> gPreName s \<in> dom (mem s)"
  shows "\<exists>s'. persist_run K [E_upload j, E_upload j, E_upload j] s = Next s' \<and> idle view dev s'
    \<and> view (kst s') = cut (gDefaultLocal ! m) (view (kst s)) \<and> gnDefaultPathIndex s' = (gnDefaultPathIndex s + 1) mod 4
    \<and> gPreName s' = 0 \<and> dom (mem s') = dom (mem s) - {gPreName s}
    \<and> uploads s' = take j (uploads s) @ drop (Suc j) (uploads s)"
proof -
  note idl = idleD [OF assms(2)]
  let ?p = "gDefaultLocal ! m"
  define n where "n = (gnDefaultPathIndex s + 1) mod 4"
  define s1 where "s1 = s\<lparr>gnDefaultPathIndex := n, gpDefaultPath := Some (gDefaultLocal ! nat n)\<rparr>"
  define s2 where "s2 = s1\<lparr>mem := (mem s)(gPreName s := None), uploads := (uploads s)[j := U_Null ?p]\<rparr>"
  define s3 where "s3 = s2\<lparr>gPreName := 0, uploads := (uploads s)[j := U_Remove ?p]\<rparr>"
  have zero: "mem s 0 = None" using idl(7) by (cases "mem s 0") auto
  then have "free_cell (gPreName s1) s1 = Inr (s1\<lparr>mem := (mem s)(gPreName s := None)\<rparr>)"
    using assms(6) by (auto simp: free_cell_def s1_def fun_upd_idem)
  then have 1: "UploadTask K j s = Next (0, s2)"
    using assms(3,5) by (simp add: UploadTask_def Let_def MAX_PATH_INDEX_def n_def [symmetric] s1_def s2_def)
  have 2: "UploadTask K j s2 = Next (0, s3)" using assms(3) by (simp add: UploadTask_def s2_def s3_def)
  obtain dn where dn: "?p = sub ''/data'' dn" "leaf dn" using default_dirs [OF assms(4)] by blast
  have v: "view (kst s3) = view (kst s)" by (simp add: s3_def s2_def s1_def)
  have "plain_path ?p" using plain_sub [OF dn(2)] by (simp add: dn(1))
  from remove_here_cut [OF assms(1), of s3, unfolded v, OF idl(12,13) this] obtain k e where
    k: "remove_here K ?p s3 = Some (s3\<lparr>kst := k, errno := e\<rparr>)" "view k = cut ?p (view (kst s))" by blast
  define s4 where "s4 = s3\<lparr>kst := k, errno := e, uploads := take j (uploads s) @ drop (Suc j) (uploads s)\<rparr>"
  have 3: "UploadTask K j s3 = Next (0, s4)"
    using assms(3) k(1) by (simp add: UploadTask_def s3_def s4_def)
  have "idle view dev s4"
  proof -
    have "view k ''/data'' = Some Dir" using idl(8) not_under_longer by (simp add: k(2) cut_def dn(1))
    moreover have "\<forall>j<4. clear_way (view k) dev (gDefaultLocal ! j)" using idl(16) clear_way_cut by (simp add: k(2))
    moreover have "rooted (view k)" "finite (dom (view k))" using rooted_cut [OF idl(12)] finite_cut [OF idl(13)] by (simp_all add: k(2))
    moreover have "getDeviceId s4 = Inr dev" using idl(4) by (simp add: getDeviceId_def s4_def s3_def s2_def s1_def split: if_splits)
    ultimately show ?thesis using idl(1,2,5-7) by (simp add: idle_def s4_def s3_def s2_def s1_def n_def)
  qed
  moreover have "persist_run K [E_upload j, E_upload j, E_upload j] s = Next s4" using 1 2 3 by (simp add: persist_exec_def)
  ultimately show ?thesis using k(2) by (intro exI [of _ s4]) (simp add: s4_def s3_def s2_def s1_def n_def dom_fun_upd)
qed

text \<open>
  an upload and a session share the name of the session's directory without a lock. When the first step
  of the upload comes between two steps of an open session, the next chunk's task reads a freed name; when
  the second one has come too, the task prints a \<^verbatim>\<open>NULL\<close> path.
\<close>

theorem upload_breaks_session:
  assumes "recording view i dir B ((a, d) # ads) (p # ps) s" and "i \<noteq> gPreName s" and "j < length (uploads s)"
    and "uploads s ! j = U_Start (Some path)"
  shows "persist_run K [E_upload j, E_worker] s = Fault UseAfterFree
    \<and> persist_run K [E_upload j, E_upload j, E_worker] s = Fault NullDeref"
proof -
  note r = recording_cases [OF assms(1)]
  let ?ty = "fst p" and ?b = "snd p"
  have c: "stored ?ty" "mem s a = Some (Handle (chunk_handle i ?ty d ?b))" using r(10) by (simp_all add: queued_chunk_def)
  have ne: "a \<noteq> gPreName s" "0 < a" using r(6,8,11) c(2) by auto
  obtain pre tx where t: "mem s (gPreName s) = Some (Text pre)" "mem s i = Some (Text tx)" "0 < gPreName s" "0 < i"
    using r(4) unfolding session_at_def by blast
  obtain s1 where s1: "UploadTask K j s = Next (0, s1)" "mem s1 = (mem s)(gPreName s := None)" "gPreName s1 = gPreName s"
    "pool_tasks s1 = pool_tasks s" "uploads s1 = (uploads s)[j := U_Null path]"
    using assms(3,4) t(1,3) by (simp add: UploadTask_def Let_def free_cell_def)
  have 2: "UploadTask K j s1 = Next (0, s1\<lparr>gPreName := 0, uploads := (uploads s)[j := U_Remove path]\<rparr>)"
    using s1(5) assms(3) by (simp add: UploadTask_def)
  have task: "worker K z = Fault f"
    if "mem z = (mem s)(gPreName s := None)" "pool_tasks z = pool_tasks s" "text_at (gPreName z) z = Inl f" for z f
  proof -
    have "handle_at a (z\<lparr>pool_tasks := x\<rparr>) = Inr (chunk_handle i ?ty d ?b)" for x
      using that(1) t(2,4) c(2) ne assms(2) by (simp_all add: text_at_def handle_at_def)
    moreover have "text_at (gPreName z) (z\<lparr>pool_tasks := x\<rparr>) = Inl f" for x using that(3) by (simp add: text_at_def split: if_splits)
    ultimately show ?thesis using that(2) r(2) ne(2) c(1)
      by (auto simp: worker_def run_task_def run_ProcessTask_def chunk_handle_def name_of_task_def stored_def getASRByID_def
          getNLPByID_def getNameByID_def name_of_session_def)
  qed
  have "worker K s1 = Fault UseAfterFree" by (rule task) (use s1 t(3) in \<open>simp_all add: text_at_def\<close>)
  moreover have "worker K (s1\<lparr>gPreName := 0, uploads := (uploads s)[j := U_Remove path]\<rparr>) = Fault NullDeref"
    by (rule task) (use s1 in \<open>simp_all add: text_at_def\<close>)
  ultimately show ?thesis using s1(1) 2 by (simp add: persist_exec_def)
qed

definition racing :: "disk persist" where
  "racing = open_session\<lparr>uploads := [U_Start (Some ''/data/speech0'')]\<rparr>"

theorem upload_breaks_session_witness:
  "\<exists>s. persist_run disk_kernel [E_process 1 (Some [7]) 1 TYPE_ASR] racing = Next s
    \<and> persist_run disk_kernel [E_upload 0, E_worker] s = Fault UseAfterFree
    \<and> persist_run disk_kernel [E_upload 0, E_upload 0, E_worker] s = Fault NullDeref"
proof -
  have "recording disk_view 1 ''/p/x'' {1, 2} [] [] racing"
    using open_session_recording by (simp add: recording_def racing_def session_at_def)
  moreover have "session_event 1 (E_process 1 (Some [7]) 1 TYPE_ASR)" by (simp add: stored_def MAX_NLP_BUFFER_LEN_def)
  ultimately obtain a d s where s: "speechProcess disk_kernel 1 (Some [7]) 1 TYPE_ASR racing = Next (0, s)"
    "keeps_rest disk_view ''/p/x'' racing s" "recording disk_view 1 ''/p/x'' {1, 2} [(a, d)] [(TYPE_ASR, payload TYPE_ASR (take (nat 1) [7]))] s"
    using process_step [OF _ disk_serves_recording, of 1 "''/p/x''" "{1, 2}" "[]" "[]" racing "[7]" 1 TYPE_ASR]
    by (auto simp: MAX_INDEX_def)
  have "1 \<noteq> gPreName s" "uploads s = [U_Start (Some ''/data/speech0'')]"
    using s(2) by (simp_all add: keeps_rest_def racing_def open_session_def program_start_def)
  then have "persist_run disk_kernel [E_upload 0, E_worker] s = Fault UseAfterFree
    \<and> persist_run disk_kernel [E_upload 0, E_upload 0, E_worker] s = Fault NullDeref"
    using upload_breaks_session [OF s(3), of 0 "''/data/speech0''" disk_kernel] by simp
  then show ?thesis using s(1) by (intro exI [of _ s]) (simp add: persist_exec_def)
qed

text \<open>A recorder at rest after its twentieth session.\<close>

definition uploading :: "disk persist" where
  "uploading = recorder\<lparr>mem := [1 \<mapsto> Text ''/data/speech0/flying-pig/x''], brk := 1, gPreName := 1,
     uploads := [U_Start (Some ''/data/speech0'')]\<rparr>"

theorem upload_between_sessions_witness:
  "\<exists>s'. persist_run disk_kernel [E_upload 0, E_upload 0, E_upload 0] uploading = Next s'
    \<and> gnDefaultPathIndex s' = 1 \<and> gPreName s' = 0 \<and> dom (mem s') = {} \<and> uploads s' = []"
proof -
  have "idle disk_view serial uploading" using recorder_idle by (simp add: idle_def uploading_def getDeviceId_def split: if_splits)
  moreover have "uploads uploading ! 0 = U_Start (Some (gDefaultLocal ! 0))" "0 < length (uploads uploading)"
    "gPreName uploading = 0 \<or> gPreName uploading \<in> dom (mem uploading)" by (simp_all add: uploading_def gDefaultLocal_def)
  ultimately show ?thesis
    using upload_between_sessions [OF disk_serves_removal, of serial uploading 0 0]
    by (auto simp: uploading_def recorder_def program_start_def)
qed

section \<open>The serial number\<close>

text \<open>
  \<^verbatim>\<open>Init\<close> copies the serial number without its end. One of up to 32 characters keeps the tail of the
  one before it; one of 33 leaves the buffer without an end, which the next session reads past;
  a longer one is written past the buffer.
\<close>

theorem Init_serial:
  assumes "gThreadPool s = No_pool" and "length (gSDId s) = SN_LENGTH" and "gSDId s ! 32 = CHR 0x00"
    and "CHR 0x00 \<notin> set p" and "f_pool K (kst s) = (True, k)"
    and "s' = s\<lparr>kst := k, gPersistentCount := 0, gnDefaultPathIndex := 0, gSDId := p @ drop (length p) (gSDId s),
            gThreadPool := Pool_up, pool_tasks := []\<rparr>"
  shows "Init K (Some p) s = (if length p \<le> SN_LENGTH then Next (0, s') else Fault OutOfBounds)
    \<and> (length p < SN_LENGTH \<longrightarrow> getDeviceId s' = Inr (p @ takeWhile (\<lambda>c. c \<noteq> CHR 0x00) (drop (length p) (gSDId s))))
    \<and> (length p = SN_LENGTH \<longrightarrow> getDeviceId s' = Inl OutOfBounds)"
proof -
  have e: "CHR 0x00 \<in> set (drop (length p) (gSDId s))" if "length p < SN_LENGTH"
  proof -
    have "drop (length p) (gSDId s) ! (32 - length p) = CHR 0x00" "32 - length p < length (drop (length p) (gSDId s))"
      using assms(2,3) that by (simp_all add: SN_LENGTH_def)
    then show ?thesis by (metis nth_mem)
  qed
  have p: "\<forall>c \<in> set p. c \<noteq> CHR 0x00" using assms(4) by metis
  consider "length p < SN_LENGTH" | "length p = SN_LENGTH" | "SN_LENGTH < length p" by linarith
  then show ?thesis
  proof cases
    case 1
    have "getDeviceId s' = Inr (p @ takeWhile (\<lambda>c. c \<noteq> CHR 0x00) (drop (length p) (gSDId s)))"
      using e [OF 1] p by (simp add: getDeviceId_def takeWhile_append2 assms(6))
    moreover have "Init K (Some p) s = Next (0, s')"
      using 1 e [OF 1] assms by (simp add: Init_def blit_def overwrite_def getDeviceId_def)
    ultimately show ?thesis using 1 by simp
  qed (use assms in \<open>simp_all add: Init_def blit_def overwrite_def getDeviceId_def\<close>)
qed

text \<open>A second serial number, shorter than the one of a first run that got no further than to fail to make its pool.\<close>

theorem Init_serial_witness:
  "\<exists>s'. Init disk_kernel (Some ''UBT1'') (recorder\<lparr>gThreadPool := No_pool\<rparr>) = Next (0, s')
    \<and> getDeviceId s' = Inr ''UBT1BT0123456789UBTUBT0123456789''"
proof -
  have "gSDId recorder = serial @ [CHR 0x00]" by (simp add: recorder_def)
  moreover have "f_pool disk_kernel k = (True, k)" for k by (simp add: disk_kernel_def)
  ultimately show ?thesis
    using Init_serial [of "recorder\<lparr>gThreadPool := No_pool\<rparr>" "''UBT1''" disk_kernel "kst recorder", OF _ _ _ _ _ refl]
    by (simp add: serial_def SN_LENGTH_def)
qed

section \<open>Shutting down\<close>

text \<open>
  \<^verbatim>\<open>unInit\<close> forgets the pool it destroys and the name it frees without clearing the pointers: a session
  that is then started adds its task to a freed pool, and a recorder that is initialised and shut down
  again, without a session in between, frees the name twice.
\<close>

theorem shut_down_dangles:
  assumes "gThreadPool s = Pool_up" and "0 < gPreName s" and "gPreName s \<in> dom (mem s)" and "length (gSDId s) = SN_LENGTH"
    and "serves_start K view" and "\<forall>k. fst (f_pool K k)"
  shows "\<exists>s1. persist_run K [E_uninit, E_uninit_end] s = Next s1 \<and> gPreName s1 = gPreName s \<and> gPreName s \<notin> dom (mem s1)
    \<and> persist_run K [E_start] s1 = Fault UseAfterFree
    \<and> persist_run K [E_init None, E_uninit, E_uninit_end] s1 = Fault DoubleFree"
proof -
  define s1 where "s1 = s\<lparr>gThreadPool := Pool_freed, pool_tasks := [], mem := (mem s)(gPreName s := None)\<rparr>"
  have "persist_run K [E_uninit, E_uninit_end] s = Next s1"
    using assms(1-3) by (auto simp: persist_exec_def unInit_begin_def unInit_end_def free_cell_def s1_def)
  moreover have "persist_run K [E_start] s1 = Fault UseAfterFree"
  proof -
    obtain k1 where k1: "f_malloc K (kst s1) = (True, k1)" using start_laws(1) [OF assms(5)] by blast
    obtain t k2 where k2: "f_localtime K k1 = (t, k2)" "length (time_text t) < 20" using start_laws(2) [OF assms(5)] by blast
    obtain k3 where k3: "f_malloc K k2 = (True, k3)" using start_laws(1) [OF assms(5)] by blast
    show ?thesis using k1 k2 k3
      by (simp add: persist_exec_def speechStart_def new_cell_def getIDbytime_def sprintf_local_def text_at_def
          submit_def add_task_def s1_def)
  qed
  moreover have "persist_run K [E_init None, E_uninit, E_uninit_end] s1 = Fault DoubleFree"
  proof -
    obtain k where k: "f_pool K (kst s1) = (True, k)" using assms(6) by (metis prod.collapse)
    define sn where "sn = ''UBTUBT0123456789UBTUBT0123456789''"
    define dev where "dev = overwrite (gSDId s) 0 sn"
    have len: "length sn = 32" by (simp add: sn_def)
    have b: "blit (gSDId s1) 0 sn = Inr dev" unfolding dev_def blit_def len using assms(4) by (simp add: s1_def SN_LENGTH_def)
    show ?thesis using k b [unfolded sn_def] assms(2)
      by (simp add: persist_exec_def Init_def unInit_begin_def unInit_end_def free_cell_def s1_def Let_def)
  qed
  ultimately show ?thesis by (intro exI [of _ s1]) (simp add: s1_def)
qed

theorem shut_down_dangles_witness:
  "\<exists>s1. persist_run disk_kernel [E_uninit, E_uninit_end] uploading = Next s1
    \<and> persist_run disk_kernel [E_start] s1 = Fault UseAfterFree
    \<and> persist_run disk_kernel [E_init None, E_uninit, E_uninit_end] s1 = Fault DoubleFree"
proof -
  have "gThreadPool uploading = Pool_up" "gPreName uploading = 1" "mem uploading = [1 \<mapsto> Text ''/data/speech0/flying-pig/x'']"
    "brk uploading = 1" "gSDId uploading = serial @ [CHR 0x00]" by (simp_all add: uploading_def recorder_def)
  moreover have "\<forall>k. fst (f_pool disk_kernel k)" by (simp add: disk_kernel_def)
  ultimately show ?thesis
    using shut_down_dangles [OF _ _ _ _ disk_serves_start, of uploading] by (auto simp: SN_LENGTH_def serial_def)
qed

end
