(* ===== verification/FindError.thy ===== *)
theory FindError
  imports Mixer Word_Memory
begin

text \<open>
  speech/test/findError.c: the tool that walks through a recording of the microphone array and counts the
  bytes of the frames whose words carry the tags 1 to 12 in their third nibble. The file is the list of
  its bytes; \<^verbatim>\<open>fread\<close> copies what is left of an incomplete word into the buffer, which keeps its old words
  behind it. The counters are \<^verbatim>\<open>int\<close>, and their overflow is a fault.
\<close>

section \<open>The tool\<close>

definition N_BYTES :: int where "N_BYTES = 4"
definition FRAM_SIZE :: int where "FRAM_SIZE = 12"

text \<open>The four lines that the tool prints.\<close>

datatype report = File_over | Cut_over | Lost_frame int int int | Lost_word int

record tally =
  readCount :: int
  sucCount :: int
  errCount :: int

text \<open>\<^verbatim>\<open>fread\<close> of \<open>n\<close> words to the word \<open>i\<close> of the buffer: the number of whole words, the buffer and the rest of the file.\<close>

definition fread_words :: "nat \<Rightarrow> nat \<Rightarrow> u8 list \<Rightarrow> u8 list \<Rightarrow> nat \<times> u8 list \<times> u8 list" where
  "fread_words i n buf rest =
     (let m = min (4 * n) (length rest) in (m div 4, overwrite buf (4 * i) (take m rest), drop m rest))"

definition tagged_word :: "u8 list \<Rightarrow> nat \<Rightarrow> bool" where
  "tagged_word buf i \<longleftrightarrow> words buf ! i AND 0xF00 = of_nat (0x100 * (i + 1))"

definition count_frame :: "bool \<Rightarrow> tally \<Rightarrow> tally res" where
  "count_frame good t =
     bindE (s32 ((if good then sucCount t else errCount t) + FRAM_SIZE * N_BYTES)) (\<lambda>n.
     bindE (s32 (readCount t + FRAM_SIZE * N_BYTES)) (\<lambda>r.
       Inr (if good then t\<lparr>sucCount := n, readCount := r\<rparr> else t\<lparr>errCount := n, readCount := r\<rparr>)))"

definition count_word :: "tally \<Rightarrow> tally res" where
  "count_word t =
     bindE (s32 (readCount t + 1 * N_BYTES)) (\<lambda>r.
     bindE (s32 (errCount t + N_BYTES)) (\<lambda>n. Inr (t\<lparr>readCount := r, errCount := n\<rparr>)))"

function find_loop :: "u8 list \<Rightarrow> u8 list \<Rightarrow> tally \<Rightarrow> report list \<Rightarrow> (report list \<times> tally) res" where
  "find_loop buf rest t out =
     (case fread_words 0 1 buf rest of
        (ret, buf1, rest1) \<Rightarrow>
          if ret = 0 then Inr (out @ [File_over], t)
          else if tagged_word buf1 0
          then (case fread_words 1 11 buf1 rest1 of
                  (ret2, buf2, rest2) \<Rightarrow>
                    if ret2 = 0 then Inr (out @ [Cut_over], t)
                    else (let good = list_all (tagged_word buf2) [1..<12]
                          in bindE (count_frame good t) (\<lambda>t1.
                               find_loop buf2 rest2 t1
                                 (out @ (if good then [] else [Lost_frame (readCount t) (sucCount t) (errCount t)])))))
          else bindE (count_word t) (\<lambda>t1. find_loop buf1 rest1 t1 (out @ [Lost_word (readCount t)])))"
  by pat_completeness auto

termination
  by (relation "measure (\<lambda>(buf, rest, t, out). length rest)") (auto simp: fread_words_def Let_def)

declare find_loop.simps [simp del]

definition find_error :: "u8 list \<Rightarrow> (report list \<times> tally) res" where
  "find_error bytes = find_loop (replicate 48 0) bytes \<lparr>readCount = 0, sucCount = 0, errCount = 0\<rparr> []"

section \<open>What it counts\<close>

definition frame_block :: "u32 list \<Rightarrow> u8 list" where
  "frame_block f = concat (map bytes_le32 f)"

text \<open>A frame as the array sends it.\<close>

definition tagged_frame :: "u32 list \<Rightarrow> bool" where
  "tagged_frame f \<longleftrightarrow> length f = 12 \<and> (\<forall>i < 12. f ! i AND 0xF00 = of_nat (0x100 * (i + 1)))"

lemma length_frame_block [simp]: "length (frame_block f) = 4 * length f"
  unfolding frame_block_def by (induction f) simp_all

lemma words_frame_block [simp]: "words (frame_block f) = f"
  by (simp add: frame_block_def words_bytes)

text \<open>The words of a buffer into which another frame is read from its start, wholly or in part.\<close>

lemma words_take_frame: "k \<le> length f \<Longrightarrow> take (4 * k) (frame_block f) = frame_block (take k f)"
  using take_words [of k "frame_block f"] by (simp add: frame_block_def [of "take k f"])

lemma overwrite_frame:
  assumes "length g = 12" and "k \<le> 12" and "length f = 12"
  shows "overwrite (frame_block g) 0 (take (4 * k) (frame_block f)) = frame_block (take k f @ drop k g)"
proof -
  have "drop (4 * k) (frame_block g) = frame_block (drop k g)"
  proof -
    have "frame_block g = frame_block (take k g) @ frame_block (drop k g)"
      unfolding frame_block_def by (metis append_take_drop_id concat_append map_append)
    moreover have "length (frame_block (take k g)) = 4 * k" using assms by simp
    ultimately show ?thesis by (metis append_eq_conv_conj)
  qed
  then show ?thesis using assms words_take_frame [of k f]
    by (simp add: overwrite_def) (simp add: frame_block_def)
qed

text \<open>One round on a frame of which the first \<open>k\<close> words are left, and nothing after them unless it is whole.\<close>

lemma find_round:
  assumes "length g = 12" and "length f = 12" and "2 \<le> k" and "k \<le> 12" and "k < 12 \<longrightarrow> rest = []"
    and "tagged_frame (take k f @ drop k g)"
  shows "find_loop (frame_block g) (take (4 * k) (frame_block f) @ rest) t out
    = bindE (count_frame True t) (\<lambda>t1. find_loop (frame_block (take k f @ drop k g)) rest t1 out)"
proof -
  let ?h = "take k f @ drop k g"
  let ?b = "take (4 * k) (frame_block f) @ rest"
  have len: "length (take (4 * k) (frame_block f)) = 4 * k" using assms(2,4) by simp
  have m1: "min (4 * 1) (length ?b) = 4" using assms(3) len by simp
  have t4: "take 4 ?b = take (4 * 1) (frame_block f)" using assms(3) len by (simp add: take_append min_def)
  define b1 where "b1 = overwrite (frame_block g) 0 (take (4 * 1) (frame_block f))"
  have b1: "b1 = frame_block (take 1 f @ drop 1 g)" unfolding b1_def using overwrite_frame [of g 1 f] assms(1,2) by simp
  have one: "fread_words 0 1 (frame_block g) ?b = (1, b1, drop 4 ?b)"
    unfolding fread_words_def Let_def m1 t4 b1_def by simp
  have "4 - 4 * k = 0" using assms(3) by simp
  then have d4: "drop 4 ?b = drop 4 (take (4 * k) (frame_block f)) @ rest" by (simp only: drop_append len drop_0)
  have m2: "min (4 * 11) (length (drop 4 ?b)) = 4 * k - 4"
    using assms(3-5) len by (cases "k = 12") (simp_all add: d4)
  have t44: "take (4 * k - 4) (drop 4 ?b) = drop 4 (take (4 * k) (frame_block f))" unfolding d4 using len by simp
  have d44: "drop (4 * k - 4) (drop 4 ?b) = rest" unfolding d4 using len by (simp del: drop_drop drop_take)
  have "overwrite b1 4 (drop 4 (take (4 * k) (frame_block f))) = overwrite (frame_block g) 0 (take (4 * k) (frame_block f))"
  proof -
    have "take (4 * k) (frame_block f) = take 4 (frame_block f) @ drop 4 (take (4 * k) (frame_block f))"
      using append_take_drop_id [of 4 "take (4 * k) (frame_block f)"] assms(3) by (simp add: take_take min_def)
    moreover have "overwrite (overwrite (frame_block g) 0 (take 4 (frame_block f))) (0 + length (take 4 (frame_block f)))
        (drop 4 (take (4 * k) (frame_block f)))
      = overwrite (frame_block g) 0 (take 4 (frame_block f) @ drop 4 (take (4 * k) (frame_block f)))"
      by (rule overwrite_twice) simp
    ultimately show ?thesis using assms(2) by (simp add: b1_def)
  qed
  then have two: "fread_words 1 11 b1 (drop 4 ?b) = (k - 1, frame_block ?h, rest)"
    unfolding fread_words_def Let_def m2 t44 d44 using overwrite_frame [OF assms(1,4,2)] assms(3)
    by (simp add: diff_mult_distrib2 [symmetric])
  have h: "?h ! i AND 0xF00 = of_nat (0x100 * (i + 1))" if "i < 12" for i
    using assms(6) that unfolding tagged_frame_def by blast
  have "(take 1 f @ drop 1 g) ! 0 = ?h ! 0" using assms(1-4) by (simp add: nth_append)
  then have t0: "tagged_word b1 0" using h [of 0] by (simp add: tagged_word_def b1)
  have "list_all (tagged_word (frame_block ?h)) [1..<12]" using h by (simp add: list_all_iff tagged_word_def)
  then show ?thesis using assms(3)
    unfolding find_loop.simps [of "frame_block g" ?b] one prod.case two by (simp add: t0)
qed

lemma count_frame_ok:
  "0 \<le> sucCount t \<Longrightarrow> sucCount t + 48 < 2 ^ 31 \<Longrightarrow> 0 \<le> readCount t \<Longrightarrow> readCount t + 48 < 2 ^ 31 \<Longrightarrow>
    count_frame True t = Inr (t\<lparr>sucCount := sucCount t + 48, readCount := readCount t + 48\<rparr>)"
  by (simp add: count_frame_def s32_def FRAM_SIZE_def N_BYTES_def)

definition clean_tally :: "nat \<Rightarrow> tally" where
  "clean_tally n = \<lparr>readCount = 48 * int n, sucCount = 48 * int n, errCount = 0\<rparr>"

lemma find_frames:
  assumes "length g = 12" and "\<forall>f \<in> set fs. tagged_frame f" and "48 * int (n + length fs) < 2 ^ 31"
  shows "\<exists>h. length h = 12 \<and> (fs \<noteq> [] \<longrightarrow> h = last fs) \<and> (fs = [] \<longrightarrow> h = g) \<and>
    find_loop (frame_block g) (concat (map frame_block fs) @ rest) (clean_tally n) out
    = find_loop (frame_block h) rest (clean_tally (n + length fs)) out"
  using assms
proof (induction fs arbitrary: g n)
  case Nil
  then show ?case by auto
next
  case (Cons f fs)
  have f: "tagged_frame f" "length f = 12" using Cons.prems(2) by (auto simp: tagged_frame_def)
  have "find_loop (frame_block g) (take (4 * 12) (frame_block f) @ concat (map frame_block fs) @ rest) (clean_tally n) out
    = bindE (count_frame True (clean_tally n)) (\<lambda>t1. find_loop (frame_block (take 12 f @ drop 12 g)) (concat (map frame_block fs) @ rest) t1 out)"
    by (rule find_round) (use f Cons.prems(1) in simp_all)
  moreover have "count_frame True (clean_tally n) = Inr (clean_tally (Suc n))"
    using Cons.prems(3) by (simp add: count_frame_ok clean_tally_def)
  ultimately have "find_loop (frame_block g) (concat (map frame_block (f # fs)) @ rest) (clean_tally n) out
    = find_loop (frame_block f) (concat (map frame_block fs) @ rest) (clean_tally (Suc n)) out"
    using f(2) Cons.prems(1) by simp
  moreover obtain h where "length h = 12" "fs \<noteq> [] \<longrightarrow> h = last fs" "fs = [] \<longrightarrow> h = f"
    "find_loop (frame_block f) (concat (map frame_block fs) @ rest) (clean_tally (Suc n)) out
    = find_loop (frame_block h) rest (clean_tally (Suc n + length fs)) out"
    using Cons.IH [OF f(2), of "Suc n"] Cons.prems(2,3) by auto
  ultimately show ?case by (intro exI [of _ h]) auto
qed

lemma find_loop_end: "length rest < 4 \<Longrightarrow> find_loop buf rest t out = Inr (out @ [File_over], t)"
  by (subst find_loop.simps) (simp add: fread_words_def)

lemma zero_buffer: "replicate 48 0 = frame_block (replicate 12 0)"
  by code_simp

text \<open>
  of a recording of complete frames that carry their tags the tool counts every byte as good and
  prints nothing but the end of the file.
\<close>

theorem find_error_accepts:
  assumes "\<forall>f \<in> set fs. tagged_frame f" and "48 * int (length fs) < 2 ^ 31"
  shows "find_error (concat (map frame_block fs)) = Inr ([File_over], clean_tally (length fs))"
proof -
  obtain h where "find_loop (frame_block (replicate 12 0)) (concat (map frame_block fs) @ []) (clean_tally 0) []
    = find_loop (frame_block h) [] (clean_tally (0 + length fs)) []"
    using find_frames [of "replicate 12 0" fs 0 "[]" "[]"] assms by auto
  then show ?thesis by (simp add: find_error_def zero_buffer find_loop_end clean_tally_def)
qed

text \<open>
  a recording whose last frame is cut off after two to eleven words is counted as if the frame were
  whole, because the buffer still holds the words of the frame before it: the tool reports no error and
  more good bytes than the file has.
\<close>

theorem find_error_accepts_cut:
  assumes "\<forall>f \<in> set fs. tagged_frame f" and "fs \<noteq> []" and "tagged_frame f" and "2 \<le> k" and "k < 12"
    and "48 * int (length fs + 1) < 2 ^ 31"
  shows "find_error (concat (map frame_block fs) @ take (4 * k) (frame_block f)) = Inr ([File_over], clean_tally (length fs + 1))"
proof -
  let ?last = "last fs"
  have l: "tagged_frame ?last" "length ?last = 12" "length f = 12" using assms(1-3) by (auto simp: tagged_frame_def)
  have mix: "tagged_frame (take k f @ drop k ?last)"
    using assms(3,5) l by (auto simp: tagged_frame_def nth_append)
  have "find_loop (frame_block (replicate 12 0)) (concat (map frame_block fs) @ take (4 * k) (frame_block f)) (clean_tally 0) []
    = find_loop (frame_block ?last) (take (4 * k) (frame_block f) @ []) (clean_tally (length fs)) []"
    using find_frames [of "replicate 12 0" fs 0 "take (4 * k) (frame_block f)" "[]"] assms(1,2,6) by auto
  also have "\<dots> = bindE (count_frame True (clean_tally (length fs))) (\<lambda>t1. find_loop (frame_block (take k f @ drop k ?last)) [] t1 [])"
    by (rule find_round) (use l assms(4,5) mix in simp_all)
  also have "count_frame True (clean_tally (length fs)) = Inr (clean_tally (length fs + 1))"
    using assms(6) by (simp add: count_frame_ok clean_tally_def)
  finally show ?thesis by (simp add: find_error_def zero_buffer find_loop_end clean_tally_def)
qed

section \<open>Its books\<close>

fun lost :: "report \<Rightarrow> int" where
  "lost (Lost_frame r s e) = 48"
| "lost (Lost_word r) = 4"
| "lost _ = 0"

definition balanced :: "report list \<Rightarrow> tally \<Rightarrow> bool" where
  "balanced out t \<longleftrightarrow> sucCount t + errCount t = readCount t \<and> errCount t = sum_list (map lost out) \<and> 0 \<le> sucCount t"

lemma lost_nonneg: "0 \<le> sum_list (map lost out)"
proof (induction out)
  case (Cons r out)
  then show ?case by (cases r) simp_all
qed simp

lemma count_frame_result:
  "count_frame good t = Inr t1 \<Longrightarrow> t1 = (if good then t\<lparr>sucCount := sucCount t + 48, readCount := readCount t + 48\<rparr>
     else t\<lparr>errCount := errCount t + 48, readCount := readCount t + 48\<rparr>)"
  by (auto simp: count_frame_def s32_def FRAM_SIZE_def N_BYTES_def res_simps split: if_splits)

lemma count_word_result: "count_word t = Inr t1 \<Longrightarrow> t1 = t\<lparr>errCount := errCount t + 4, readCount := readCount t + 4\<rparr>"
  by (auto simp: count_word_def s32_def N_BYTES_def res_simps split: if_splits)

lemma find_loop_books:
  assumes "balanced out t" and "readCount t + int (length rest) + 48 < 2 ^ 31"
  shows "\<exists>out' t'. find_loop buf rest t out = Inr (out', t') \<and> balanced out' t' \<and> readCount t' < readCount t + int (length rest) + 44"
  using assms
proof (induction buf rest t out rule: find_loop.induct)
  case (1 buf rest t out)
  obtain ret buf1 rest1 where 1: "fread_words 0 1 buf rest = (ret, buf1, rest1)" by (metis prod_cases3)
  have r1: "ret = min 4 (length rest) div 4" "length rest1 = length rest - min 4 (length rest)"
    using 1 by (auto simp: fread_words_def Let_def)
  obtain ret2 buf2 rest2 where 2: "fread_words 1 11 buf1 rest1 = (ret2, buf2, rest2)" by (metis prod_cases3)
  have r2: "ret2 = min 44 (length rest1) div 4" "length rest2 = length rest1 - min 44 (length rest1)"
    using 2 by (auto simp: fread_words_def Let_def)
  note b = "1.prems"(1) [unfolded balanced_def]
  have nn: "0 \<le> errCount t" "0 \<le> sucCount t" "0 \<le> readCount t" using b lost_nonneg [of out] by auto
  consider "ret = 0" | "ret \<noteq> 0" "\<not> tagged_word buf1 0" | "ret \<noteq> 0" "tagged_word buf1 0" "ret2 = 0"
    | "ret \<noteq> 0" "tagged_word buf1 0" "ret2 \<noteq> 0" by blast
  then show ?case
  proof cases
    case 1
    then have "find_loop buf rest t out = Inr (out @ [File_over], t)" using \<open>fread_words 0 1 buf rest = _\<close>
      by (subst find_loop.simps) simp
    then show ?thesis using b by (simp add: balanced_def)
  next
    case 2
    then have four: "4 \<le> length rest" using r1(1) by (auto simp: min_def split: if_splits)
    define t1 where "t1 = t\<lparr>errCount := errCount t + 4, readCount := readCount t + 4\<rparr>"
    have t1: "count_word t = Inr t1"
      using nn b "1.prems"(2) by (simp add: count_word_def s32_def N_BYTES_def t1_def)
    have "balanced (out @ [Lost_word (readCount t)]) t1" using b by (simp add: balanced_def t1_def)
    moreover have "readCount t1 + int (length rest1) = readCount t + int (length rest)" using r1(2) four by (simp add: t1_def)
    ultimately have "\<exists>out' t'. find_loop buf1 rest1 t1 (out @ [Lost_word (readCount t)]) = Inr (out', t') \<and> balanced out' t'
        \<and> readCount t' < readCount t + int (length rest) + 44"
      using "1.IH"(2) [OF 1 [symmetric] refl 2(1,2), of t1] "1.prems"(2) by simp
    then show ?thesis using 1 2 t1 by (subst find_loop.simps) simp
  next
    case 3
    then have "find_loop buf rest t out = Inr (out @ [Cut_over], t)"
      using \<open>fread_words 0 1 buf rest = _\<close> \<open>fread_words 1 11 buf1 rest1 = _\<close> by (subst find_loop.simps) simp
    then show ?thesis using b by (simp add: balanced_def)
  next
    case 4
    let ?good = "list_all (tagged_word buf2) [1..<12]"
    define t1 where "t1 = (if ?good then t\<lparr>sucCount := sucCount t + 48, readCount := readCount t + 48\<rparr>
        else t\<lparr>errCount := errCount t + 48, readCount := readCount t + 48\<rparr>)"
    define out1 where "out1 = out @ (if ?good then [] else [Lost_frame (readCount t) (sucCount t) (errCount t)])"
    have t1: "count_frame ?good t = Inr t1"
      using nn b "1.prems"(2) by (auto simp: count_frame_def s32_def N_BYTES_def FRAM_SIZE_def t1_def)
    have bal: "balanced out1 t1" using b by (simp add: balanced_def t1_def out1_def)
    have eight: "4 \<le> length rest" "4 \<le> length rest1" using 4(1,3) r1(1) r2(1) by (auto simp: min_def split: if_splits)
    have step: "find_loop buf rest t out = find_loop buf2 rest2 t1 out1"
      using 1 2 4 t1 by (subst find_loop.simps) (simp add: Let_def out1_def)
    show ?thesis
    proof (cases "44 \<le> length rest1")
      case True
      then have "readCount t1 + int (length rest2) = readCount t + int (length rest)"
        using r1(2) r2(2) eight by (simp add: t1_def)
      then show ?thesis
        using "1.IH"(1) [OF 1 [symmetric] refl 4(1,2) 2 [symmetric] refl 4(3) refl, of t1] bal "1.prems"(2) step
        by (simp add: out1_def)
    next
      case False
      then have "rest2 = []" using r2(2) by simp
      then have "find_loop buf rest t out = Inr (out1 @ [File_over], t1)" using step find_loop_end by simp
      moreover have "readCount t1 = readCount t + 48" by (simp add: t1_def)
      ultimately show ?thesis using bal eight r1(2) by (simp add: balanced_def)
    qed
  qed
qed

text \<open>
  C29: on every file of up to 2 GiB less 49 bytes the tool comes to its end without an overflow; what it counts as good and as bad adds up
  to what it counts as read, which is at most 43 bytes more than the file has; and the bytes it counts as bad are
  those of the losses that it reports.
\<close>

theorem find_error_books:
  assumes "int (length bytes) + 48 < 2 ^ 31"
  shows "\<exists>out t. find_error bytes = Inr (out, t) \<and> sucCount t + errCount t = readCount t
    \<and> errCount t = sum_list (map lost out) \<and> readCount t < int (length bytes) + 44"
proof -
  have "balanced [] \<lparr>readCount = 0, sucCount = 0, errCount = 0\<rparr>" by (simp add: balanced_def)
  from find_loop_books [OF this, where rest = bytes and buf = "replicate 48 0"] assms obtain out t where
    "find_loop (replicate 48 0) bytes \<lparr>readCount = 0, sucCount = 0, errCount = 0\<rparr> [] = Inr (out, t)" "balanced out t"
    "readCount t < int (length bytes) + 44" by auto
  then show ?thesis by (auto simp: find_error_def balanced_def)
qed

section \<open>Runs\<close>

definition sample_frame :: "u32 list" where
  "sample_frame = map (\<lambda>i. of_nat (0x100 * (i + 1)) + 0x5000) [0..<12]"

lemma sample_frame_tagged: "tagged_frame sample_frame"
proof -
  have "list_all (\<lambda>i. sample_frame ! i AND 0xF00 = of_nat (0x100 * (i + 1))) [0..<12]" by code_simp
  moreover have "length sample_frame = 12" by (simp add: sample_frame_def)
  ultimately show ?thesis by (auto simp: tagged_frame_def list_all_iff)
qed

theorem find_error_accepts_witness:
  "find_error (frame_block sample_frame @ frame_block sample_frame) = Inr ([File_over], clean_tally 2)"
  using find_error_accepts [of "[sample_frame, sample_frame]"] sample_frame_tagged by (simp add: numeral_eq_Suc)

theorem find_error_accepts_cut_witness:
  "find_error (frame_block sample_frame @ take 20 (frame_block sample_frame)) = Inr ([File_over], clean_tally 2)
    \<and> length (frame_block sample_frame @ take 20 (frame_block sample_frame)) = 68"
  using find_error_accepts_cut [of "[sample_frame]" sample_frame 5] sample_frame_tagged
  by (simp add: numeral_2_eq_2 sample_frame_def)

theorem find_error_books_witness:
  "\<exists>out t. find_error [1, 2, 3, 4, 0, 1, 0, 0, 0, 2, 0, 0, 7] = Inr (out, t) \<and> sucCount t + errCount t = readCount t \<and> readCount t < 57"
  using find_error_books [of "[1, 2, 3, 4, 0, 1, 0, 0, 0, 2, 0, 0, 7]"] by auto

end
