(* ===== verification/Dprintf.thy ===== *)
theory Dprintf
  imports Persist
begin

text \<open>
  The log of speech/src/dprintf.c, of which demo/SpeechPersistentDemo/dprintf.c is a copy: a time stamp
  in brackets and the formatted text behind it, in a buffer on the stack. What \<^verbatim>\<open>vsnprintf\<close> would print
  without a limit is an argument; the buffer starts with what the stack holds.
\<close>

section \<open>The log\<close>

definition DEBUG_ERR :: nat where "DEBUG_ERR = 3"
definition DEBUG_WARNING :: nat where "DEBUG_WARNING = 4"
definition DEBUG_INFO :: nat where "DEBUG_INFO = 6"
definition DEBUG_DEBUG :: nat where "DEBUG_DEBUG = 7"

text \<open>The level above which a line is compiled out; \<^verbatim>\<open>DEBUG_LIB\<close> is defined for the library and not for the demo.\<close>

definition DEBUGLEVEL :: "bool \<Rightarrow> nat" where
  "DEBUGLEVEL lib = (if lib then DEBUG_DEBUG else DEBUG_WARNING)"

definition Dprintf_prints :: "bool \<Rightarrow> nat \<Rightarrow> bool" where
  "Dprintf_prints lib level \<longleftrightarrow> level \<le> DEBUGLEVEL lib"

definition three_digits :: "nat \<Rightarrow> string" where
  "three_digits n = pad_left CHR ''0'' 3 (digits 10 n)"

text \<open>The text of a buffer up to its end; without one, the reader runs out of the buffer.\<close>

definition c_string :: "string \<Rightarrow> string res" where
  "c_string buf = (if CHR 0x00 \<in> set buf then Inr (takeWhile (\<lambda>c. c \<noteq> CHR 0x00) buf) else Inl OutOfBounds)"

text \<open>\<^verbatim>\<open>sysTimeStr\<close>; \<^term>\<open>None\<close> when \<^verbatim>\<open>strdup\<close> has no memory.\<close>

definition sysTimeStr :: "bool \<Rightarrow> tm \<Rightarrow> nat \<Rightarrow> string option res" where
  "sysTimeStr got t usec =
     bindE (blit (replicate 24 (CHR 0x00)) 0 (time_text t @ '':'' @ three_digits (usec div 1000) @ [CHR 0x00])) (\<lambda>buffer.
     bindE (st buffer 18 (CHR 0x00)) (\<lambda>buffer.
     bindE (c_string buffer) (\<lambda>s. Inr (if got then Some s else None))))"

definition vsnprintf :: "string \<Rightarrow> nat \<Rightarrow> nat \<Rightarrow> string \<Rightarrow> (nat \<times> string) res" where
  "vsnprintf buf p n text = bindE (blit buf p (take (n - 1) text @ [CHR 0x00])) (\<lambda>b. Inr (length text, b))"

text \<open>The answer and what is printed.\<close>

definition dprintf :: "bool \<Rightarrow> tm \<Rightarrow> nat \<Rightarrow> string \<Rightarrow> string \<Rightarrow> (nat \<times> string) res" where
  "dprintf got t usec ts_buf text =
     bindE (sysTimeStr got t usec) (\<lambda>now.
     bindE (blit ts_buf 0 (''['' @ (case now of None \<Rightarrow> ''(null)'' | Some s \<Rightarrow> s) @ '']'' @ '' '' @ [CHR 0x00])) (\<lambda>b.
       case now of
         None \<Rightarrow> Inl NullDeref
       | Some s \<Rightarrow>
           bindE (vsnprintf b (length s + 3) 4096 text) (\<lambda>(err, b).
           bindE (c_string b) (\<lambda>out. Inr (err, out)))))"

section \<open>What it prints\<close>

lemma c_string_prefix: "CHR 0x00 \<notin> set x \<Longrightarrow> c_string (x @ CHR 0x00 # y) = Inr x"
proof -
  assume "CHR 0x00 \<notin> set x"
  then have "\<forall>c \<in> set x. c \<noteq> CHR 0x00" by metis
  then show ?thesis by (simp add: c_string_def takeWhile_append2)
qed

lemma digits_printable: "CHR 0x00 \<notin> set (digits b n)"
proof (induction b n rule: digits.induct)
  case (1 b n)
  have "''0123456789abcdef'' ! m \<noteq> CHR 0x00" if "m < 16" for m
  proof -
    have "''0123456789abcdef'' ! m \<in> set ''0123456789abcdef''" by (rule nth_mem) (use that in simp)
    moreover have "CHR 0x00 \<notin> set ''0123456789abcdef''" by simp
    ultimately show ?thesis by auto
  qed
  then have "''0123456789abcdef'' ! (m mod 16) \<noteq> CHR 0x00" for m by simp
  then show ?case using 1 by (subst digits.simps) (auto simp: eq_commute [of "CHR 0x00"])
qed

lemma pad_printable: "CHR 0x00 \<notin> set s \<Longrightarrow> CHR 0x00 \<notin> set (pad_left CHR ''0'' n s)"
  by (auto simp: pad_left_def)

lemma time_printable: "CHR 0x00 \<notin> set (time_text t)"
  using digits_printable pad_printable by (simp add: time_text_def two_digits_def Let_def)

text \<open>
  with a clock of a four-digit year a line is printed with its stamp when its text has at most 4094
  characters; a longer text is cut to 4095 characters, whose end is written one byte past the buffer.
\<close>

theorem dprintf_line:
  assumes "length (time_text t) = 14" and "usec < 1000000" and "length (three_digits (usec div 1000)) = 3"
    and "length ts_buf = 4096 + 20" and "CHR 0x00 \<notin> set text"
  shows "dprintf True t usec ts_buf text =
    (if length text \<le> 4094 then Inr (length text, ''['' @ time_text t @ '':'' @ three_digits (usec div 1000) @ '']'' @ '' '' @ text)
     else Inl OutOfBounds)"
proof -
  define stamp where "stamp = time_text t @ '':'' @ three_digits (usec div 1000)"
  have len: "length stamp = 18" using assms(1,3) by (simp add: stamp_def)
  have z: "CHR 0x00 \<notin> set stamp"
    using time_printable digits_printable pad_printable by (simp add: stamp_def three_digits_def)
  have b1: "blit (replicate 24 (CHR 0x00)) 0 (stamp @ [CHR 0x00]) = Inr (stamp @ CHR 0x00 # replicate 5 (CHR 0x00))"
    using len by (simp add: blit_def overwrite_def drop_replicate)
  have b2: "st (stamp @ CHR 0x00 # replicate 5 (CHR 0x00)) 18 (CHR 0x00) = Inr (stamp @ CHR 0x00 # replicate 5 (CHR 0x00))"
    using len by (simp add: st_def list_update_append)
  have now: "sysTimeStr True t usec = Inr (Some stamp)"
    using b1 b2 c_string_prefix [OF z] by (simp add: sysTimeStr_def stamp_def)
  define b where "b = (''['' @ stamp @ '']'' @ '' '' @ [CHR 0x00]) @ drop 22 ts_buf"
  have l: "length (''['' @ stamp @ '']'' @ '' '' @ [CHR 0x00]) = 22" using len by simp
  have b3: "blit ts_buf 0 (''['' @ stamp @ '']'' @ '' '' @ [CHR 0x00]) = Inr b"
    unfolding blit_def overwrite_def l using assms(4) by (simp add: b_def)
  have pre: "take 21 b = ''['' @ stamp @ '']'' @ '' ''" "length b = 4116" using len assms(4) by (simp_all add: b_def)
  show ?thesis
  proof (cases "length text \<le> 4094")
    case True
    have "vsnprintf b (length stamp + 3) 4096 text
      = Inr (length text, (''['' @ stamp @ '']'' @ '' '' @ text) @ CHR 0x00 # drop (21 + length text + 1) b)"
      using True pre len by (simp add: vsnprintf_def blit_def overwrite_def)
    moreover have "c_string ((''['' @ stamp @ '']'' @ '' '' @ text) @ CHR 0x00 # x)
        = Inr (''['' @ stamp @ '']'' @ '' '' @ text)" for x
      using z assms(5) by (intro c_string_prefix) simp
    ultimately show ?thesis using True b3 by (simp add: dprintf_def now stamp_def)
  next
    case False
    then have "vsnprintf b (length stamp + 3) 4096 text = Inl OutOfBounds"
      using pre(2) len by (simp add: vsnprintf_def blit_def)
    then show ?thesis using False b3 by (simp add: dprintf_def now)
  qed
qed

theorem dprintf_line_witness:
  "dprintf True \<lparr>tm_year = 118, tm_mon = 10, tm_mday = 26, tm_hour = 9, tm_min = 5, tm_sec = 0\<rparr> 7000 (replicate 4116 CHR ''x'') ''in''
      = Inr (2, ''[20181026090500:007] in'')
    \<and> dprintf True \<lparr>tm_year = 118, tm_mon = 10, tm_mday = 26, tm_hour = 9, tm_min = 5, tm_sec = 0\<rparr> 7000 (replicate 4116 CHR ''x'')
        (replicate 4095 CHR ''y'') = Inl OutOfBounds"
proof -
  let ?t = "\<lparr>tm_year = 118, tm_mon = 10, tm_mday = 26, tm_hour = 9, tm_min = 5, tm_sec = 0\<rparr>"
  have t: "time_text ?t = ''20181026090500''" "three_digits (7000 div 1000) = ''007''" by code_simp+
  show ?thesis
    using dprintf_line [of ?t 7000 "replicate 4116 CHR ''x''" "''in''"]
      dprintf_line [of ?t 7000 "replicate 4116 CHR ''x''" "replicate 4095 CHR ''y''"] unfolding t by simp
qed

end
