(* ===== verification/SpeechDemo.thy ===== *)
theory SpeechDemo
  imports PersistRuns
begin

text \<open>
  demo/SpeechPersistentDemo/SpeechDemo.c: one session that is cancelled and 64 that are completed, fed
  from a device. What each \<^verbatim>\<open>read\<close> gives is an argument: \<^term>\<open>None\<close> for an error, and the bytes otherwise,
  of which there are at most as many as were asked for. The calls of a session are a list, which the
  worker's steps interleave; the pauses of the demo are the reason to let the worker catch up before the
  session is stopped. Uploads take no step while the demo runs.
\<close>

section \<open>The demo\<close>

text \<open>One \<^verbatim>\<open>read\<close> into the buffer, the end written behind it, and the call for what was read.\<close>

definition read_chunk :: "nat \<Rightarrow> PersistentType_t \<Rightarrow> nat \<Rightarrow> u8 list option \<Rightarrow> u8 list \<Rightarrow> (persist_event list \<times> u8 list) res" where
  "read_chunk n ty handle answer buffer =
     (let data = (case answer of None \<Rightarrow> [] | Some d \<Rightarrow> take n d)
      in bindE (blit buffer 0 data) (\<lambda>b.
         bindE (st b n 0) (\<lambda>b.
           Inr (if data = [] then [] else [E_process handle (Some b) (int (length data)) ty], b))))"

definition more_chunks :: "nat \<Rightarrow> PersistentType_t \<Rightarrow> nat \<Rightarrow> u8 list option \<Rightarrow> persist_event list \<times> u8 list
    \<Rightarrow> (persist_event list \<times> u8 list) res" where
  "more_chunks n ty handle answer = (\<lambda>(calls, b). bindE (read_chunk n ty handle answer b) (\<lambda>(c, b1). Inr (calls @ c, b1)))"

definition speechProcessInterrupt :: "nat \<Rightarrow> (nat \<Rightarrow> u8 list option) \<Rightarrow> u8 list \<Rightarrow> (persist_event list \<times> u8 list) res" where
  "speechProcessInterrupt handle input buffer = more_chunks 1024 TYPE_SEEPCH handle (input 0) ([], buffer)"

definition speechProcessSuccess :: "nat \<Rightarrow> (nat \<Rightarrow> u8 list option) \<Rightarrow> u8 list \<Rightarrow> (persist_event list \<times> u8 list) res" where
  "speechProcessSuccess handle input buffer =
     bindE (foldE (\<lambda>i. more_chunks 1024 TYPE_SEEPCH handle (input i)) [0..<33] ([], buffer)) (\<lambda>cb.
     bindE (more_chunks 2048 TYPE_ASR handle (input 33) cb) (\<lambda>cb.
       more_chunks 4096 TYPE_NLP handle (input 34) cb))"

text \<open>The sessions of the demo, each stopped with the number in the list; the worker's steps are anywhere between its calls.\<close>

inductive demo_sessions :: "'k fs_kernel \<Rightarrow> 'k persist \<Rightarrow> int list \<Rightarrow> 'k persist \<Rightarrow> bool" for K where
  no_demo: "demo_sessions K s [] s"
| demo_session: "speechStart K s = Next (int i, s0) \<Longrightarrow> length buffer = 4098 \<Longrightarrow>
    (if c = 0 then speechProcessInterrupt i input buffer else speechProcessSuccess i input buffer) = Inr (calls, buffer') \<Longrightarrow>
    filter (\<lambda>e. e \<noteq> E_worker) es = calls \<Longrightarrow> drains 0 es \<Longrightarrow>
    persist_run K (E_start # E_worker # es @ [E_stop i c, E_worker]) s = Next s1 \<Longrightarrow> demo_sessions K s1 cs s' \<Longrightarrow>
    demo_sessions K s (c # cs) s'"

section \<open>Its calls\<close>

definition good_calls :: "nat \<Rightarrow> persist_event list \<Rightarrow> bool" where
  "good_calls i calls \<longleftrightarrow> (\<forall>e \<in> set calls. e \<noteq> E_worker \<and> session_event i e)"

lemma more_chunks_good:
  assumes "n \<le> 4096" and "stored ty" and "length b = 4098" and "good_calls i calls"
  shows "\<exists>c1 b1. more_chunks n ty i answer (calls, b) = Inr (calls @ c1, b1) \<and> length b1 = 4098 \<and> good_calls i (calls @ c1)
    \<and> handed_over c1 = (case answer of Some d \<Rightarrow> if take n d = [] then [] else [(ty, payload ty (take n d))] | None \<Rightarrow> [])"
proof -
  define data where "data = (case answer of None \<Rightarrow> [] | Some d \<Rightarrow> take n d)"
  have l: "length data \<le> n" by (simp add: data_def split: option.splits)
  define b1 where "b1 = (overwrite b 0 data)[n := 0]"
  have lb: "length b1 = 4098" using l assms(1,3) by (simp add: b1_def)
  have r: "read_chunk n ty i answer b = Inr (if data = [] then [] else [E_process i (Some b1) (int (length data)) ty], b1)"
    using l assms(1,3) by (simp add: read_chunk_def data_def [symmetric] blit_def st_def b1_def)
  have "take (length data) b1 = data" using l assms(1,3) by (simp add: b1_def overwrite_def)
  moreover have "session_event i (E_process i (Some b1) (int (length data)) ty)" if "data \<noteq> []"
    using that l lb assms(1,2) by (simp add: MAX_NLP_BUFFER_LEN_def)
  ultimately show ?thesis using r lb assms(4)
    by (intro exI [of _ "if data = [] then [] else [E_process i (Some b1) (int (length data)) ty]"] exI [of _ b1])
      (auto simp: more_chunks_def good_calls_def data_def split: option.splits)
qed

definition read_data :: "u8 list option \<Rightarrow> nat \<Rightarrow> u8 list" where
  "read_data answer n = (case answer of None \<Rightarrow> [] | Some d \<Rightarrow> take n d)"

lemma handed_over_append: "handed_over (xs @ ys) = handed_over xs @ handed_over ys"
  by (induction xs rule: handed_over.induct) auto

lemma sound_chunks:
  "length b = 4098 \<Longrightarrow> \<exists>calls b1. foldE (\<lambda>j. more_chunks 1024 TYPE_SEEPCH i (input j)) [0..<n] ([], b) = Inr (calls, b1)
    \<and> length b1 = 4098 \<and> good_calls i calls
    \<and> chunks TYPE_SEEPCH (handed_over calls) = concat (map (\<lambda>j. read_data (input j) 1024) [0..<n])
    \<and> chunks TYPE_ASR (handed_over calls) = [] \<and> chunks TYPE_NLP (handed_over calls) = []"
proof (induction n)
  case 0
  then show ?case by (simp add: good_calls_def)
next
  case (Suc n)
  then obtain calls b1 where IH: "foldE (\<lambda>j. more_chunks 1024 TYPE_SEEPCH i (input j)) [0..<n] ([], b) = Inr (calls, b1)"
    "length b1 = 4098" "good_calls i calls"
    "chunks TYPE_SEEPCH (handed_over calls) = concat (map (\<lambda>j. read_data (input j) 1024) [0..<n])"
    "chunks TYPE_ASR (handed_over calls) = []" "chunks TYPE_NLP (handed_over calls) = []" by blast
  from more_chunks_good [of 1024 TYPE_SEEPCH, OF _ _ IH(2,3), of "input n"] obtain c1 b2 where
    m: "more_chunks 1024 TYPE_SEEPCH i (input n) (calls, b1) = Inr (calls @ c1, b2)" "length b2 = 4098" "good_calls i (calls @ c1)"
    "handed_over c1 = (case input n of Some d \<Rightarrow> if take 1024 d = [] then [] else [(TYPE_SEEPCH, payload TYPE_SEEPCH (take 1024 d))] | None \<Rightarrow> [])"
    by (auto simp: stored_def)
  have "chunks TYPE_SEEPCH (handed_over c1) = read_data (input n) 1024" "chunks TYPE_ASR (handed_over c1) = []"
    "chunks TYPE_NLP (handed_over c1) = []"
    using m(4) by (simp_all add: read_data_def payload_def split: option.splits)
  then show ?case using IH m by (intro exI [of _ "calls @ c1"] exI [of _ b2]) (simp add: foldE_append handed_over_append)
qed

definition result_text :: "u8 list \<Rightarrow> u8 list" where
  "result_text d = (if d = [] then [] else chars nlpHeader @ d @ chars nlpTail)"

lemma success_calls:
  assumes "length b = 4098"
  shows "\<exists>calls b1. speechProcessSuccess i input b = Inr (calls, b1) \<and> good_calls i calls
    \<and> chunks TYPE_SEEPCH (handed_over calls) = concat (map (\<lambda>j. read_data (input j) 1024) [0..<33])
    \<and> chunks TYPE_ASR (handed_over calls) = read_data (input 33) 2048
    \<and> chunks TYPE_NLP (handed_over calls) = result_text (read_data (input 34) 4096)"
proof -
  obtain calls b1 where 1: "foldE (\<lambda>j. more_chunks 1024 TYPE_SEEPCH i (input j)) [0..<33] ([], b) = Inr (calls, b1)"
    "length b1 = 4098" "good_calls i calls"
    "chunks TYPE_SEEPCH (handed_over calls) = concat (map (\<lambda>j. read_data (input j) 1024) [0..<33])"
    "chunks TYPE_ASR (handed_over calls) = []" "chunks TYPE_NLP (handed_over calls) = []" using sound_chunks [OF assms] by blast
  from more_chunks_good [of 2048 TYPE_ASR, OF _ _ 1(2,3), of "input 33"] obtain c2 b2 where
    2: "more_chunks 2048 TYPE_ASR i (input 33) (calls, b1) = Inr (calls @ c2, b2)" "length b2 = 4098" "good_calls i (calls @ c2)"
    "handed_over c2 = (case input 33 of Some d \<Rightarrow> if take 2048 d = [] then [] else [(TYPE_ASR, payload TYPE_ASR (take 2048 d))] | None \<Rightarrow> [])"
    by (auto simp: stored_def)
  from more_chunks_good [of 4096 TYPE_NLP, OF _ _ 2(2,3), of "input 34"] obtain c3 b3 where
    3: "more_chunks 4096 TYPE_NLP i (input 34) (calls @ c2, b2) = Inr ((calls @ c2) @ c3, b3)" "good_calls i ((calls @ c2) @ c3)"
    "handed_over c3 = (case input 34 of Some d \<Rightarrow> if take 4096 d = [] then [] else [(TYPE_NLP, payload TYPE_NLP (take 4096 d))] | None \<Rightarrow> [])"
    by (auto simp: stored_def)
  have "chunks TYPE_SEEPCH (handed_over c2) = []" "chunks TYPE_ASR (handed_over c2) = read_data (input 33) 2048"
    "chunks TYPE_NLP (handed_over c2) = []"
    using 2(4) by (simp_all add: read_data_def payload_def split: option.splits)
  moreover have "chunks TYPE_SEEPCH (handed_over c3) = []" "chunks TYPE_ASR (handed_over c3) = []"
    "chunks TYPE_NLP (handed_over c3) = result_text (read_data (input 34) 4096)"
    using 3(3) by (simp_all add: read_data_def payload_def result_text_def split: option.splits)
  moreover have "speechProcessSuccess i input b = Inr ((calls @ c2) @ c3, b3)"
    unfolding speechProcessSuccess_def 1(1) bindE_simps 2(1) 3(1) ..
  ultimately show ?thesis using 1(4-6) 3(2)
    by (intro exI [of _ "(calls @ c2) @ c3"] exI [of _ b3]) (simp add: handed_over_append)
qed

lemma session_events_of_calls:
  "good_calls i calls \<Longrightarrow> filter (\<lambda>e. e \<noteq> E_worker) es = calls \<Longrightarrow> \<forall>e \<in> set es. session_event i e"
  by (auto simp: good_calls_def)

lemma handed_over_workers: "handed_over (filter (\<lambda>e. e \<noteq> E_worker) es) = handed_over es"
  by (induction es rule: handed_over.induct) auto


lemma demo_sessions_are_sessions: "demo_sessions K s cs s' \<Longrightarrow> sessions K s cs s'"
proof (induction rule: demo_sessions.induct)
  case (no_demo s)
  then show ?case by (rule sessions.no_session)
next
  case (demo_session s i s0 buffer c input calls buffer' es s1 cs s')
  have "good_calls i calls"
  proof (cases "c = 0")
    case True
    have "good_calls i []" by (simp add: good_calls_def)
    from more_chunks_good [of 1024 TYPE_SEEPCH, OF _ _ demo_session.hyps(2) this, of "input 0"] show ?thesis
      using demo_session.hyps(3) True by (auto simp: speechProcessInterrupt_def stored_def)
  next
    case False
    then show ?thesis using success_calls [OF demo_session.hyps(2), of i input] demo_session.hyps(3) by auto
  qed
  from session_events_of_calls [OF this demo_session.hyps(4)] demo_session.hyps(1,5,6) demo_session.IH show ?case
    by (intro sessions.session)
qed

text \<open>Such a run exists: with a step of the worker after each call.\<close>

definition spaced :: "persist_event list \<Rightarrow> persist_event list" where
  "spaced calls = concat (map (\<lambda>e. [e, E_worker]) calls)"

lemma spaced_calls:
  assumes "good_calls i calls"
  shows "filter (\<lambda>e. e \<noteq> E_worker) (spaced calls) = calls \<and> drains 0 (spaced calls)"
  using assms
proof (induction calls)
  case (Cons e calls)
  then have "e \<noteq> E_worker" "good_calls i calls" by (simp_all add: good_calls_def)
  moreover have "drains 0 (e # E_worker # es) = drains 0 es" if "e \<noteq> E_worker" for es
    using that by (cases e) (simp_all add: MAX_INDEX_def)
  ultimately show ?case using Cons.IH by (simp add: spaced_def)
qed (simp add: spaced_def)

lemma demo_runs:
  assumes "serves_session K view opn"
  shows "idle view dev s \<Longrightarrow> \<exists>s'. demo_sessions K s cs s'"
proof (induction cs arbitrary: s)
  case Nil
  then show ?case using no_demo by blast
next
  case (Cons c cs)
  obtain t k' where "f_localtime K (snd (f_malloc K (kst s))) = (t, k')" by fastforce
  from session_whole [OF assms Cons.prems this refl] obtain i s0 where i: "speechStart K s = Next (int i, s0)" by blast
  let ?b = "replicate 4098 0 :: u8 list"
  have b: "length ?b = 4098" by simp
  have "\<exists>calls b1. (if c = 0 then speechProcessInterrupt i (\<lambda>j. Some [7]) ?b else speechProcessSuccess i (\<lambda>j. Some [7]) ?b) = Inr (calls, b1)
    \<and> good_calls i calls"
  proof (cases "c = 0")
    case True
    have "good_calls i []" by (simp add: good_calls_def)
    from more_chunks_good [of 1024 TYPE_SEEPCH, OF _ _ b this, of "Some [7]"] True show ?thesis
      by (auto simp: speechProcessInterrupt_def stored_def)
  next
    case False
    then show ?thesis using success_calls [OF b, of i "\<lambda>j. Some [7]"] by auto
  qed
  then obtain calls b1 where calls: "(if c = 0 then speechProcessInterrupt i (\<lambda>j. Some [7]) ?b
      else speechProcessSuccess i (\<lambda>j. Some [7]) ?b) = Inr (calls, b1)" "good_calls i calls" by blast
  have sp: "filter (\<lambda>e. e \<noteq> E_worker) (spaced calls) = calls" "drains 0 (spaced calls)" using spaced_calls [OF calls(2)] by auto
  from session_counts [OF assms Cons.prems i session_events_of_calls [OF calls(2) sp(1)] sp(2), of c] obtain s1 where
    s1: "persist_run K (E_start # E_worker # spaced calls @ [E_stop i c, E_worker]) s = Next s1" "idle view dev s1" by blast
  from Cons.IH [OF s1(2)] demo_session [OF i b calls(1) sp s1(1)] show ?case by blast
qed

text \<open>The program; \<open>fd\<close> is the descriptor of its input.\<close>

definition SpeechDemo_main :: "'k fs_kernel \<Rightarrow> int \<Rightarrow> 'k persist \<Rightarrow> 'k persist \<Rightarrow> bool" where
  "SpeechDemo_main K fd s s' \<longleftrightarrow>
     (if fd \<le> 0 then s' = s
      else \<exists>r s1 s2. Init K None s = Next (r, s1) \<and> demo_sessions K s1 (0 # replicate 64 1) s2
             \<and> persist_run K [E_uninit, E_uninit_end] s2 = Next s')"

text \<open>
  C2: the whole demo, when \<^verbatim>\<open>Init\<close> leaves a recorder at rest: one cancelled session, 64 completed ones
  and the shutdown. It can be run to its end, and every run of it ends with the pool freed, three uploads
  started and 64 directory names left in memory that nothing points to.
\<close>

theorem demo_accounted:
  assumes "serves_session K view opn" and "Init K None s = Next (r, s1)" and "idle view dev s1" and "0 < fd"
  shows "(\<exists>s'. SpeechDemo_main K fd s s')
    \<and> (\<forall>s'. SpeechDemo_main K fd s s' \<longrightarrow> gThreadPool s' = Pool_freed \<and> gPersistentCount s' = 4
        \<and> length (uploads s') = length (uploads s) + 3 \<and> card (dom (mem s')) = card (dom (mem s)) + 64)"
proof -
  have s1: "gPersistentCount s1 = 0" "uploads s1 = uploads s" "mem s1 = mem s"
    using assms(2) by (auto simp: Init_def Let_def split: if_splits sum.splits prod.splits)
  have off: "\<exists>s'. persist_run K [E_uninit, E_uninit_end] s2 = Next s' \<and> gThreadPool s' = Pool_freed \<and> gPersistentCount s' = 4
      \<and> length (uploads s') = length (uploads s) + 3 \<and> card (dom (mem s')) = card (dom (mem s)) + 64"
    if "demo_sessions K s1 (0 # replicate 64 1) s2" for s2
  proof -
    from sessions_counts [OF assms(1) demo_sessions_are_sessions [OF that] assms(3)] s1
    have s2: "idle view dev s2" "gPreName s2 \<in> dom (mem s2)" "gPersistentCount s2 = 4" "length (uploads s2) = length (uploads s) + 3"
      "card (dom (mem s2)) = card (dom (mem s)) + 65" by simp_all
    have "0 < gPreName s2" using idleD(7) [OF s2(1)] s2(2) by blast
    moreover have "card (dom (mem s2) - {gPreName s2}) = card (dom (mem s)) + 64"
      using s2(2,5) card_Diff_singleton [OF s2(2)] by simp
    moreover obtain c where "mem s2 (gPreName s2) = Some c" using s2(2) by blast
    ultimately show ?thesis using s2(3,4) idleD(1) [OF s2(1)]
      by (simp add: persist_exec_def unInit_begin_def unInit_end_def free_cell_def)
  qed
  obtain s2 where "demo_sessions K s1 (0 # replicate 64 1) s2" using demo_runs [OF assms(1,3)] by blast
  with off assms(2,4) have "\<exists>s'. SpeechDemo_main K fd s s'" by (fastforce simp: SpeechDemo_main_def)
  moreover have "gThreadPool s' = Pool_freed \<and> gPersistentCount s' = 4
        \<and> length (uploads s') = length (uploads s) + 3 \<and> card (dom (mem s')) = card (dom (mem s)) + 64"
    if m: "SpeechDemo_main K fd s s'" for s'
  proof -
    obtain s2 where "demo_sessions K s1 (0 # replicate 64 1) s2" "persist_run K [E_uninit, E_uninit_end] s2 = Next s'"
      using m assms(2,4) by (auto simp: SpeechDemo_main_def)
    with off show ?thesis by fastforce
  qed
  ultimately show ?thesis by blast
qed

theorem demo_accounted_witness:
  "\<exists>s'. SpeechDemo_main disk_kernel 3 (program_start data_disk) s' \<and> gPersistentCount s' = 4 \<and> length (uploads s') = 3
    \<and> card (dom (mem s')) = 64"
  using demo_accounted [OF disk_serves_session Init_recorder recorder_idle, of 3] by (auto simp: program_start_def)


end
