(* ===== verification/ToolArgs.thy ===== *)
theory ToolArgs
  imports Mixer "HOL-Library.Multiset"
begin

text \<open>
  What the command line tools of speech/test share: \<^verbatim>\<open>atoi\<close>, and the two ways in which they go through
  their options. tinycap and speecharraytest chain the comparisons with \<^verbatim>\<open>else\<close>; tinyplay and tinypcminfo do
  not, so the value of one option is compared with the names of the options after it, and the \<^verbatim>\<open>NULL\<close> at
  the end of \<^verbatim>\<open>argv\<close> too.
\<close>

section \<open>Numbers\<close>

definition is_space :: "char \<Rightarrow> bool" where
  "is_space c \<longleftrightarrow> c = CHR '' '' \<or> (9 \<le> (of_char c :: nat) \<and> (of_char c :: nat) \<le> 13)"

definition is_digit :: "char \<Rightarrow> bool" where
  "is_digit c \<longleftrightarrow> 48 \<le> (of_char c :: nat) \<and> (of_char c :: nat) \<le> 57"

definition decimal :: "string \<Rightarrow> int" where
  "decimal s = foldl (\<lambda>n c. 10 * n + (of_char c - 48)) 0 (takeWhile is_digit s)"

text \<open>A value that does not fit an \<^verbatim>\<open>int\<close> is a fault: \<^verbatim>\<open>atoi\<close> leaves it undefined.\<close>

definition atoi :: "string \<Rightarrow> int res" where
  "atoi s =
     (case dropWhile is_space s of
        [] \<Rightarrow> Inr 0
      | c # cs \<Rightarrow> s32 (if c = CHR ''-'' then - decimal cs else if c = CHR ''+'' then decimal cs else decimal (c # cs)))"

section \<open>Options\<close>

type_synonym 'c options = "(string \<times> (int \<Rightarrow> 'c \<Rightarrow> 'c)) list"

text \<open>The chained form.\<close>

fun parse_chained :: "'c options \<Rightarrow> string list \<Rightarrow> 'c \<Rightarrow> 'c res" where
  "parse_chained os [] c = Inr c"
| "parse_chained os (a # argv) c =
     (case map_of os a of
        None \<Rightarrow> parse_chained os argv c
      | Some set_it \<Rightarrow>
          (case argv of
             [] \<Rightarrow> Inr c
           | v # rest \<Rightarrow> bindE (atoi v) (\<lambda>n. parse_chained os rest (set_it n c))))"

text \<open>One round of the other form: each comparison, in order, with the argument that is current then.\<close>

fun try_options :: "'c options \<Rightarrow> string list \<Rightarrow> 'c \<Rightarrow> (string list \<times> 'c) res" where
  "try_options [] argv c = Inr (argv, c)"
| "try_options ((name, set_it) # os) argv c =
     (case argv of
        [] \<Rightarrow> Inl NullDeref
      | a # rest \<Rightarrow>
          if a = name
          then (case rest of
                  [] \<Rightarrow> try_options os [] c
                | v # vs \<Rightarrow> bindE (atoi v) (\<lambda>n. try_options os (v # vs) (set_it n c)))
          else try_options os (a # rest) c)"

lemma try_options_length: "try_options os argv c = Inr (argv', c') \<Longrightarrow> length argv' \<le> length argv"
proof (induction os argv c rule: try_options.induct)
  case (2 name set_it os argv c)
  then show ?case by (fastforce simp: res_simps split: list.splits if_splits)
qed simp

function parse_separate :: "'c options \<Rightarrow> string list \<Rightarrow> 'c \<Rightarrow> 'c res" where
  "parse_separate os argv c =
     (if argv = [] then Inr c
      else case try_options os argv c of
             Inl f \<Rightarrow> Inl f
           | Inr (argv', c') \<Rightarrow> (case argv' of [] \<Rightarrow> Inr c' | a # rest \<Rightarrow> parse_separate os rest c'))"
  by pat_completeness auto

termination
  by (relation "measure (\<lambda>(os, argv, c). length argv)") (auto dest!: try_options_length)

declare parse_separate.simps [simp del]

section \<open>What they do\<close>

text \<open>Arguments in pairs of a name and a value that is itself no name.\<close>

fun pairs_of :: "(string \<times> string) list \<Rightarrow> string list" where
  "pairs_of [] = []"
| "pairs_of ((a, v) # ps) = a # v # pairs_of ps"

definition good_pair :: "'c options \<Rightarrow> string \<times> string \<Rightarrow> bool" where
  "good_pair os p \<longleftrightarrow> fst p \<in> fst ` set os \<and> snd p \<notin> fst ` set os \<and> (\<exists>n. atoi (snd p) = Inr n)"

definition set_pair :: "'c options \<Rightarrow> string \<times> string \<Rightarrow> 'c \<Rightarrow> 'c" where
  "set_pair os p c = (case (map_of os (fst p), atoi (snd p)) of (Some set_it, Inr n) \<Rightarrow> set_it n c | _ \<Rightarrow> c)"

lemma option_of_name: "a \<in> fst ` set os \<Longrightarrow> \<exists>f. map_of os a = Some f"
  using map_of_eq_None_iff [of os a] by (cases "map_of os a") auto

lemma parse_chained_pairs:
  "list_all (good_pair os) ps \<Longrightarrow> parse_chained os (pairs_of ps) c = Inr (fold (set_pair os) ps c)"
proof (induction ps arbitrary: c)
  case (Cons p ps)
  obtain a v where p: "p = (a, v)" by (cases p)
  then have a: "a \<in> fst ` set os" and n: "\<exists>n. atoi v = Inr n" using Cons.prems by (auto simp: good_pair_def)
  obtain f where "map_of os a = Some f" using option_of_name [OF a] by (elim exE)
  with n p Cons show ?case by (auto simp: set_pair_def)
qed simp

lemma try_others: "a \<notin> fst ` set os \<Longrightarrow> try_options os (a # argv) c = Inr (a # argv, c)"
  by (induction os) auto

lemma try_pair:
  "distinct (map fst os) \<Longrightarrow> map_of os a = Some f \<Longrightarrow> v \<notin> fst ` set os \<Longrightarrow> atoi v = Inr n \<Longrightarrow>
    try_options os (a # v # argv) c = Inr (v # argv, f n c)"
proof (induction os)
  case (Cons o1 os)
  obtain name g where "o1 = (name, g)" by (cases o1)
  with Cons show ?case using try_others [of v os] by auto
qed simp

lemma parse_separate_pairs_then:
  assumes "distinct (map fst os)"
  shows "list_all (good_pair os) ps \<Longrightarrow>
    parse_separate os (pairs_of ps @ argv) c = parse_separate os argv (fold (set_pair os) ps c)"
proof (induction ps arbitrary: c)
  case (Cons p ps)
  obtain a v where p: "p = (a, v)" by (cases p)
  then have a: "a \<in> fst ` set os" "v \<notin> fst ` set os" and n: "\<exists>n. atoi v = Inr n" using Cons.prems by (auto simp: good_pair_def)
  obtain f where f1: "map_of os a = Some f" using option_of_name [OF a(1)] by (elim exE)
  obtain n where f2: "atoi v = Inr n" using n by (elim exE)
  note f = f1 f2
  have "set_pair os p c = f n c" using f p by (simp add: set_pair_def)
  with try_pair [OF assms f(1) a(2) f(2)] Cons p show ?case
    by (subst parse_separate.simps) simp
qed simp

lemma parse_separate_pairs:
  "distinct (map fst os) \<Longrightarrow> list_all (good_pair os) ps \<Longrightarrow> parse_separate os (pairs_of ps) c = Inr (fold (set_pair os) ps c)"
  using parse_separate_pairs_then [of os ps "[]" c] by (simp add: parse_separate.simps [of os "[]"])

text \<open>A name at the end of the command line: the chained form ignores it, the other one crashes unless it is the last name.\<close>

lemma try_last:
  "distinct (map fst os) \<Longrightarrow> os \<noteq> [] \<Longrightarrow> a \<in> fst ` set os \<Longrightarrow>
    try_options os [a] c = (if a = fst (last os) then Inr ([], c) else Inl NullDeref)"
proof (induction os)
  case (Cons o1 os)
  obtain name g where o1: "o1 = (name, g)" by (cases o1)
  show ?case
  proof (cases "a = name")
    case True
    then have "a \<notin> fst ` set os" using Cons.prems(1) o1 by auto
    then have "os \<noteq> [] \<longrightarrow> a \<noteq> fst (last os)" using last_in_set by blast
    then show ?thesis using True o1 by (cases os) auto
  next
    case False
    then have "a \<in> fst ` set os" using Cons.prems(3) o1 by auto
    then show ?thesis using Cons False o1 by (cases "os = []") auto
  qed
qed simp

section \<open>Tables of options\<close>

text \<open>
  What a tool promises about its table of options: the names differ, and two options set different values, so that
  it does not matter which comes first.
\<close>

locale option_table =
  fixes os :: "'c options"
  assumes names_differ: "distinct (map fst os)"
    and some_option: "os \<noteq> []"
    and values_apart: "(a, f) \<in> set os \<Longrightarrow> (b, g) \<in> set os \<Longrightarrow> a \<noteq> b \<Longrightarrow> f m (g n c) = g n (f m c)"
begin

lemma parsers_agree:
  "list_all (good_pair os) ps \<Longrightarrow> parse_separate os (pairs_of ps) c = parse_chained os (pairs_of ps) c"
  using parse_separate_pairs [OF names_differ] parse_chained_pairs by metis

lemma set_pair_commute:
  assumes "good_pair os p" and "good_pair os q" and "fst p \<noteq> fst q"
  shows "set_pair os p (set_pair os q c) = set_pair os q (set_pair os p c)"
proof -
  obtain f g where f: "map_of os (fst p) = Some f" "map_of os (fst q) = Some g"
    using assms option_of_name unfolding good_pair_def by metis
  then have "(fst p, f) \<in> set os" "(fst q, g) \<in> set os" by (simp_all add: map_of_SomeD)
  with values_apart assms(3) f show ?thesis
    by (cases "atoi (snd p)"; cases "atoi (snd q)") (simp_all add: set_pair_def)
qed

lemma any_order:
  assumes "list_all (good_pair os) ps" and "distinct (map fst ps)" and "mset ps = mset qs"
  shows "parse_chained os (pairs_of ps) c = parse_chained os (pairs_of qs) c"
proof -
  have qs: "list_all (good_pair os) qs" using assms(1,3) mset_eq_setD by (metis list_all_iff)
  have "fold (set_pair os) ps = fold (set_pair os) qs"
  proof (rule fold_multiset_equiv [OF _ assms(3)])
    fix p q assume "p \<in> set ps" "q \<in> set ps"
    then have "p = q \<or> fst p \<noteq> fst q" using assms(2) by (metis distinct_map inj_onD)
    then show "set_pair os p \<circ> set_pair os q = set_pair os q \<circ> set_pair os p"
      using set_pair_commute [of p q] \<open>p \<in> set ps\<close> \<open>q \<in> set ps\<close> assms(1) by (auto simp: fun_eq_iff list_all_iff)
  qed
  then show ?thesis using parse_chained_pairs [OF assms(1)] parse_chained_pairs [OF qs] by simp
qed

lemma parse_chained_last:
  assumes "list_all (good_pair os) ps" and "a \<in> fst ` set os"
  shows "parse_chained os (pairs_of ps @ [a]) c = Inr (fold (set_pair os) ps c)"
  using assms(1)
proof (induction ps arbitrary: c)
  case Nil
  show ?case using option_of_name [OF assms(2)] by auto
next
  case (Cons p ps)
  obtain b v where p: "p = (b, v)" by (cases p)
  then have b: "b \<in> fst ` set os" and n: "\<exists>n. atoi v = Inr n" using Cons.prems by (auto simp: good_pair_def)
  obtain f where "map_of os b = Some f" using option_of_name [OF b] by (elim exE)
  with n p Cons show ?case by (auto simp: set_pair_def)
qed

lemma parse_separate_last:
  assumes "list_all (good_pair os) ps" and "a \<in> fst ` set os"
  shows "parse_separate os (pairs_of ps @ [a]) c = (if a = fst (last os) then Inr (fold (set_pair os) ps c) else Inl NullDeref)"
  using parse_separate_pairs_then [OF names_differ assms(1), of "[a]" c] try_last [OF names_differ some_option assms(2)]
  by (simp add: parse_separate.simps [of os "[a]"])

end

end
