(* ===== verification/PcmInfo.thy ===== *)
theory PcmInfo
  imports ToolArgs Texts Pcm
begin

text \<open>
  speech/test/tinypcminfo.c: the tool that prints what a sound card can do, over the parameter functions of
  pcm.c. What it prints is a text.
\<close>

section \<open>The tool\<close>

definition pcminfo_lookup :: "string option list" where
  "pcminfo_lookup = map Some
     [''S8'', ''U8'', ''S16_LE'', ''S16_BE'', ''U16_LE'', ''U16_BE'', ''S24_LE'', ''S24_BE'', ''U24_LE'', ''U24_BE'',
      ''S32_LE'', ''S32_BE'', ''U32_LE'', ''U32_BE'', ''FLOAT_LE'', ''FLOAT_BE'', ''FLOAT64_LE'', ''FLOAT64_BE'',
      ''IEC958_SUBFRAME_LE'', ''IEC958_SUBFRAME_BE'', ''MU_LAW'', ''A_LAW'', ''IMA_ADPCM'', ''MPEG'', ''GSM'']
     @ replicate (31 - 25) None @ map Some
     [''SPECIAL'', ''S24_3LE'', ''S24_3BE'', ''U24_3LE'', ''U24_3BE'', ''S20_3LE'', ''S20_3BE'', ''U20_3LE'',
      ''U20_3BE'', ''S18_3LE'', ''S18_3BE'', ''U18_3LE'', ''U18_3BE'']"

definition pcm_get_format_name :: "nat \<Rightarrow> string option" where
  "pcm_get_format_name bit_index = (if bit_index < length pcminfo_lookup then pcminfo_lookup ! bit_index else None)"

text \<open>The two loops over the bits of the first two words; the state is the counter and what is printed.\<close>

definition print_bit :: "snd_mask \<Rightarrow> nat \<Rightarrow> nat \<Rightarrow> nat \<times> string \<Rightarrow> nat \<times> string" where
  "print_bit m k j = (\<lambda>(n, out).
     if bit (m ! k) j
     then (case pcm_get_format_name (j + k * 32) of
             None \<Rightarrow> (n, out)
           | Some name \<Rightarrow> (n + 1, out @ (if n = 0 then '' Format Name:'' @ tab else '', '') @ name))
     else (n, out))"

definition print_names :: "snd_mask \<Rightarrow> string" where
  "print_names m =
     (let (n, out) = fold (\<lambda>k. fold (print_bit m k) [0..<32]) [0..<2] (0, '''')
      in if n \<noteq> 0 then out @ nl else out)"

definition print_params :: "snd_pcm_hw_params option \<Rightarrow> string" where
  "print_params params =
     (case params of
        None \<Rightarrow> ''Device does not exist.'' @ nl
      | Some p \<Rightarrow>
          (case pcm_params_get_mask params PCM_PARAM_ACCESS of None \<Rightarrow> ''''
             | Some m \<Rightarrow> ''      Access:'' @ tab @ fmt_x8 (m ! 0) @ nl)
          @ (case pcm_params_get_mask params PCM_PARAM_FORMAT of None \<Rightarrow> ''''
               | Some m \<Rightarrow> ''   Format[0]:'' @ tab @ fmt_x8 (m ! 0) @ nl @ ''   Format[1]:'' @ tab @ fmt_x8 (m ! 1) @ nl @ print_names m)
          @ (case pcm_params_get_mask params PCM_PARAM_SUBFORMAT of None \<Rightarrow> ''''
               | Some m \<Rightarrow> ''   Subformat:'' @ tab @ fmt_x8 (m ! 0) @ nl)
          @ concat (range_lines params))"

definition print_direction :: "'k pcm_kernel \<Rightarrow> u32 \<Rightarrow> u32 \<Rightarrow> nat \<Rightarrow> string \<times> 'k world \<Rightarrow> string \<times> 'k world" where
  "print_direction K crd device i = (\<lambda>(out, w).
     (case pcm_params_get K crd device (if i = 0 then PCM_OUT else PCM_IN) w of
        (params, w1) \<Rightarrow> (out @ nl @ ''PCM '' @ (if i = 0 then ''out'' else ''in'') @ '':'' @ nl @ print_params params, w1)))"

record card_device =
  a_card :: u32
  a_device :: u32

definition pcminfo_options :: "card_device options" where
  "pcminfo_options = [(''-D'', \<lambda>n c. c\<lparr>a_card := of_int n\<rparr>), (''-d'', \<lambda>n c. c\<lparr>a_device := of_int n\<rparr>)]"

definition fmt_d :: "u32 \<Rightarrow> string" where
  "fmt_d w = fmt_int (sint w)"

text \<open>The exit code, what is written to the standard output, and the system after it; \<open>argv\<close> is without the name of the program.\<close>

definition tinypcminfo :: "'k pcm_kernel \<Rightarrow> string list \<Rightarrow> 'k world \<Rightarrow> (int \<times> string \<times> 'k world) res" where
  "tinypcminfo K argv w =
     (if length argv < 2 then Inr (1, '''', w)
      else bindE (parse_separate pcminfo_options argv \<lparr>a_card = 0, a_device = 0\<rparr>) (\<lambda>c.
           case fold (print_direction K (a_card c) (a_device c)) [0..<2]
                  (''Info for card '' @ fmt_d (a_card c) @ '', device '' @ fmt_d (a_device c) @ '':'' @ nl, w) of
             (out, w1) \<Rightarrow> Inr (0, out, w1)))"

section \<open>The formats of the kernel\<close>

text \<open>The numbers of speech/include/asound.h.\<close>

definition SNDRV_PCM_FORMATS :: "(string \<times> nat) list" where
  "SNDRV_PCM_FORMATS =
     [(''S8'', 0), (''U8'', 1), (''S16_LE'', 2), (''S16_BE'', 3), (''U16_LE'', 4), (''U16_BE'', 5), (''S24_LE'', 6), (''S24_BE'', 7),
      (''U24_LE'', 8), (''U24_BE'', 9), (''S32_LE'', 10), (''S32_BE'', 11), (''U32_LE'', 12), (''U32_BE'', 13), (''FLOAT_LE'', 14),
      (''FLOAT_BE'', 15), (''FLOAT64_LE'', 16), (''FLOAT64_BE'', 17), (''IEC958_SUBFRAME_LE'', 18), (''IEC958_SUBFRAME_BE'', 19),
      (''MU_LAW'', 20), (''A_LAW'', 21), (''IMA_ADPCM'', 22), (''MPEG'', 23), (''GSM'', 24), (''SPECIAL'', 31), (''S24_3LE'', 32),
      (''S24_3BE'', 33), (''U24_3LE'', 34), (''U24_3BE'', 35), (''S20_3LE'', 36), (''S20_3BE'', 37), (''U20_3LE'', 38), (''U20_3BE'', 39),
      (''S18_3LE'', 40), (''S18_3BE'', 41), (''U18_3LE'', 42), (''U18_3BE'', 43), (''G723_24'', 44), (''G723_24_1B'', 45),
      (''G723_40'', 46), (''G723_40_1B'', 47), (''DSD_U8'', 48), (''DSD_U16_LE'', 49), (''DSD_U32_LE'', 50), (''DSD_U16_BE'', 51),
      (''DSD_U32_BE'', 52)]"

text \<open>
  the names that tinypcminfo and pcm.c print are those of the kernel's header: each number up to 43 has its name of
  the header or, where the header has none, no name; the numbers from 44 on are not known to the tools.
\<close>

theorem format_names_match_header:
  "pcm_get_format_name n = (if n \<le> 43 then map_of (map prod.swap SNDRV_PCM_FORMATS) n else None)
    \<and> (n < length format_lookup \<longrightarrow> format_lookup ! n = pcm_get_format_name n)"
proof -
  have "list_all (\<lambda>n. pcm_get_format_name n = map_of (map prod.swap SNDRV_PCM_FORMATS) n) [0..<44]" by code_simp
  then have "pcm_get_format_name n = map_of (map prod.swap SNDRV_PCM_FORMATS) n" if "n \<le> 43"
    using that by (simp add: list_all_iff)
  moreover have len: "length pcminfo_lookup = 44" by (simp add: pcminfo_lookup_def)
  moreover have "format_lookup = pcminfo_lookup" by (simp add: format_lookup_def pcminfo_lookup_def)
  ultimately show ?thesis by (simp add: pcm_get_format_name_def)
qed

theorem format_names_match_header_witness:
  "pcm_get_format_name 32 = Some ''S24_3LE'' \<and> format_lookup ! 32 = pcm_get_format_name 32"
proof
  have "map_of (map prod.swap SNDRV_PCM_FORMATS) 32 = Some ''S24_3LE''" by code_simp
  then show "pcm_get_format_name 32 = Some ''S24_3LE''" using format_names_match_header [of 32] by simp
  have "32 < length format_lookup" by (simp add: format_lookup_def)
  then show "format_lookup ! 32 = pcm_get_format_name 32" using format_names_match_header [of 32] by blast
qed

section \<open>What it lists\<close>

definition listed :: "snd_mask \<Rightarrow> string list" where
  "listed m = [name. i \<leftarrow> [0..<64], bit (m ! (i div 32)) (i mod 32), name \<leftarrow> (case pcm_get_format_name i of None \<Rightarrow> [] | Some s \<Rightarrow> [s])]"

fun joined :: "string list \<Rightarrow> string" where
  "joined [] = ''''"
| "joined [s] = s"
| "joined (s # ss) = s @ '', '' @ joined ss"

definition names_line :: "string list \<Rightarrow> string" where
  "names_line ss = (if ss = [] then '''' else '' Format Name:'' @ tab @ joined ss)"

lemma joined_snoc: "joined (ss @ [s]) = (if ss = [] then s else joined ss @ '', '' @ s)"
  by (induction ss rule: joined.induct) auto

definition bit_name :: "snd_mask \<Rightarrow> nat \<Rightarrow> string list" where
  "bit_name m i = (if bit (m ! (i div 32)) (i mod 32) then (case pcm_get_format_name i of None \<Rightarrow> [] | Some s \<Rightarrow> [s]) else [])"

lemma listed_bits: "listed m = concat (map (bit_name m) [0..<64])"
  unfolding listed_def bit_name_def by (intro arg_cong [where f = concat] map_cong refl) (auto split: option.splits)

lemma in_listed: "s \<in> set (listed m) \<longleftrightarrow> (\<exists>x < 64. s \<in> set (bit_name m x))"
proof -
  have "s \<in> set (concat (map (bit_name m) [0..<n])) \<longleftrightarrow> (\<exists>x < n. s \<in> set (bit_name m x))" for n by auto
  then show ?thesis unfolding listed_bits .
qed

lemma of_bit_name: "s \<in> set (bit_name m i) \<Longrightarrow> bit (m ! (i div 32)) (i mod 32) \<and> pcm_get_format_name i = Some s"
  unfolding bit_name_def by (cases "bit (m ! (i div 32)) (i mod 32)"; cases "pcm_get_format_name i") auto

lemma print_bit_names:
  assumes "j < 32"
  shows "print_bit m k j (length ss, names_line ss) = (let ss' = ss @ bit_name m (j + k * 32) in (length ss', names_line ss'))"
  using assms joined_snoc by (auto simp: print_bit_def bit_name_def names_line_def Let_def split: option.splits)

lemma print_word_names:
  "n \<le> 32 \<Longrightarrow> fold (print_bit m k) [0..<n] (length ss, names_line ss)
    = (let ss' = ss @ concat (map (bit_name m) (map (\<lambda>j. j + k * 32) [0..<n])) in (length ss', names_line ss'))"
proof (induction n)
  case (Suc n)
  then have "fold (print_bit m k) [0..<n] (length ss, names_line ss)
    = (let ss' = ss @ concat (map (bit_name m) (map (\<lambda>j. j + k * 32) [0..<n])) in (length ss', names_line ss'))" by simp
  then show ?case using Suc.prems print_bit_names [of n m k "ss @ concat (map (bit_name m) (map (\<lambda>j. j + k * 32) [0..<n]))"]
    by (simp add: Let_def)
qed simp

text \<open>
  the line of format names lists, in the order of their numbers and separated by commas, the names of the
  formats whose bits are set in the first two words of the mask, and there is no line when there are none.
\<close>

theorem print_names_lists:
  "print_names m = (if listed m = [] then '''' else '' Format Name:'' @ tab @ joined (listed m) @ nl)"
proof -
  have split: "[0..<64] = map (\<lambda>j. j + 0 * 32) [0..<32] @ map (\<lambda>j. j + 1 * 32) [0..<32]" by code_simp
  have "fold (print_bit m 0) [0..<32] (0, '''') =
      (length (concat (map (bit_name m) (map (\<lambda>j. j + 0 * 32) [0..<32]))), names_line (concat (map (bit_name m) (map (\<lambda>j. j + 0 * 32) [0..<32]))))"
    using print_word_names [of 32 m 0 "[]"] by (simp add: names_line_def Let_def)
  moreover have "fold (print_bit m 1) [0..<32] (length ss, names_line ss)
      = (length (ss @ concat (map (bit_name m) (map (\<lambda>j. j + 1 * 32) [0..<32]))), names_line (ss @ concat (map (bit_name m) (map (\<lambda>j. j + 1 * 32) [0..<32]))))" for ss
    using print_word_names [of 32 m 1 ss] by (simp add: Let_def)
  ultimately have "fold (\<lambda>k. fold (print_bit m k) [0..<32]) [0..<2] (0, '''') = (length (listed m), names_line (listed m))"
    unfolding listed_bits split map_append concat_append by (simp add: numeral_2_eq_2 del: map_map)
  then show ?thesis by (simp add: print_names_def names_line_def)
qed

definition pcm_format_name :: "pcm_format \<Rightarrow> string" where
  "pcm_format_name f = (case f of PCM_FORMAT_S16_LE \<Rightarrow> ''S16_LE'' | PCM_FORMAT_S32_LE \<Rightarrow> ''S32_LE'' | PCM_FORMAT_S8 \<Rightarrow> ''S8''
     | PCM_FORMAT_S24_LE \<Rightarrow> ''S24_LE'' | PCM_FORMAT_S24_3LE \<Rightarrow> ''S24_3LE'' | _ \<Rightarrow> '''')"

lemma bit_of_mask_test:
  assumes "i < 64"
  shows "pcm_mask_test m (of_nat i) \<noteq> 0 \<longleftrightarrow> bit (m ! (i div 32)) (i mod 32)"
proof -
  have u: "unat (of_nat i :: u32) = i" using assms by (intro unat_of_nat_small) simp
  have e: "unat (drop_bit 5 (of_nat i :: u32)) = i div 32" by (subst unat_drop_bit_eq) (simp add: u drop_bit_eq_div)
  have "unat (of_nat i AND 31 :: u32) = i mod 32"
  proof -
    have "(of_nat i :: u32) AND 31 = of_nat i AND mask 5" by (simp add: mask_eq_exp_minus_1)
    also have "unat \<dots> = take_bit 5 (unat (of_nat i :: u32))" by (simp add: unsigned_take_bit_eq flip: take_bit_eq_mask)
    finally show ?thesis using u by (simp add: take_bit_eq_mod)
  qed
  moreover have "\<not> 8 \<le> drop_bit 5 (of_nat i :: u32)" using e assms by (simp add: word_le_nat_alt)
  moreover have "drop_bit k x AND (1 :: u32) \<noteq> 0 \<longleftrightarrow> bit x k" for k x
    by (simp add: and_one_eq odd_iff_mod_2_eq_one bit_iff_odd_drop_bit)
  ultimately show ?thesis using e by (simp add: pcm_mask_test_def Let_def)
qed



section \<open>Its options\<close>

interpretation info_table: option_table pcminfo_options
  by unfold_locales (auto simp: pcminfo_options_def)

text \<open>
  C4: tinypcminfo takes its two options in any order and number, the last of each counting; but the
  option \<^verbatim>\<open>-D\<close> without a card at the end of the command line makes it compare a null pointer.
\<close>

theorem pcminfo_options_parse:
  assumes "list_all (good_pair pcminfo_options) ps"
  shows "parse_separate pcminfo_options (pairs_of ps) c = Inr (fold (set_pair pcminfo_options) ps c)
    \<and> parse_separate pcminfo_options (pairs_of ps @ [''-D'']) c = Inl NullDeref
    \<and> parse_separate pcminfo_options (pairs_of ps @ [''-d'']) c = Inr (fold (set_pair pcminfo_options) ps c)"
proof -
  have d: "distinct (map fst pcminfo_options)" by (simp add: pcminfo_options_def)
  have n: "''-D'' \<in> fst ` set pcminfo_options" "''-d'' \<in> fst ` set pcminfo_options" "fst (last pcminfo_options) = ''-d''"
    by (simp_all add: pcminfo_options_def)
  from parse_separate_pairs [OF d assms] info_table.parse_separate_last [OF assms n(1)] info_table.parse_separate_last [OF assms n(2)] n(3)
  show ?thesis by simp
qed

theorem pcminfo_options_parse_witness:
  "parse_separate pcminfo_options [''-D'', ''1'', ''-d'', ''3'', ''-D''] \<lparr>a_card = 0, a_device = 0\<rparr> = Inl NullDeref"
proof -
  have "list_all (good_pair pcminfo_options) [(''-D'', ''1''), (''-d'', ''3'')]" 
    by (simp add: good_pair_def pcminfo_options_def atoi_def decimal_def is_space_def is_digit_def s32_def)
  from pcminfo_options_parse [OF this, of "\<lparr>a_card = 0, a_device = 0\<rparr>"] show ?thesis by simp
qed

end
