(* ===== verification/WavTools.thy ===== *)
theory WavTools
  imports ToolArgs PcmStream
begin

text \<open>
  speech/test/tinycap.c and speech/test/tinyplay.c: the recorder and the player of WAV files, over the
  streams of pcm.c. A file is the list of its bytes; what \<^verbatim>\<open>fread\<close> finds less than it was asked for, it copies,
  and the rest of the destination keeps its old bytes. Headers are blocks of bytes, so an uninitialised
  header is one with any content.
\<close>

section \<open>The header\<close>

definition ID_RIFF :: u32 where "ID_RIFF = 0x46464952"
definition ID_WAVE :: u32 where "ID_WAVE = 0x45564157"
definition ID_FMT :: u32 where "ID_FMT = 0x20746d66"
definition ID_DATA :: u32 where "ID_DATA = 0x61746164"
definition FORMAT_PCM :: u16 where "FORMAT_PCM = 1"

record wav_header =
  riff_id :: u32
  riff_sz :: u32
  riff_fmt :: u32
  fmt_id :: u32
  fmt_sz :: u32
  audio_format :: u16
  num_channels :: u16
  sample_rate :: u32
  byte_rate :: u32
  block_align :: u16
  bits_per_sample :: u16
  data_id :: u32
  data_sz :: u32

definition bytes_le16 :: "u16 \<Rightarrow> u8 list" where
  "bytes_le16 w = [ucast w, ucast (drop_bit 8 w)]"

definition word_le16 :: "u8 list \<Rightarrow> u16" where
  "word_le16 bs = foldr (\<lambda>b w. ucast b OR push_bit 8 w) bs 0"

text \<open>The struct as \<^verbatim>\<open>fwrite\<close> writes it; it has no padding.\<close>

definition header_bytes :: "wav_header \<Rightarrow> u8 list" where
  "header_bytes h = bytes_le32 (riff_id h) @ bytes_le32 (riff_sz h) @ bytes_le32 (riff_fmt h)
     @ bytes_le32 (fmt_id h) @ bytes_le32 (fmt_sz h) @ bytes_le16 (audio_format h) @ bytes_le16 (num_channels h)
     @ bytes_le32 (sample_rate h) @ bytes_le32 (byte_rate h) @ bytes_le16 (block_align h) @ bytes_le16 (bits_per_sample h)
     @ bytes_le32 (data_id h) @ bytes_le32 (data_sz h)"

text \<open>The header of a format: \<^verbatim>\<open>num_channels\<close> keeps 16 bits of the number of channels, the products wrap.\<close>

definition format_of_bits :: "u32 \<Rightarrow> pcm_format option" where
  "format_of_bits bits =
     (if bits = 32 then Some PCM_FORMAT_S32_LE else if bits = 24 then Some PCM_FORMAT_S24_LE
      else if bits = 16 then Some PCM_FORMAT_S16_LE else None)"

definition start_header :: "u32 \<Rightarrow> u32 \<Rightarrow> pcm_format \<Rightarrow> wav_header" where
  "start_header chans hz fmt =
     (let bps = ucast (pcm_format_to_bits fmt) :: u16
      in \<lparr>riff_id = ID_RIFF, riff_sz = 0, riff_fmt = ID_WAVE, fmt_id = ID_FMT, fmt_sz = 16, audio_format = FORMAT_PCM,
          num_channels = ucast chans, sample_rate = hz, byte_rate = ucast (bps div 8) * chans * hz,
          block_align = ucast (chans * ucast (bps div 8)), bits_per_sample = bps, data_id = ID_DATA, data_sz = 0\<rparr>)"

definition finish_header :: "u32 \<Rightarrow> wav_header \<Rightarrow> wav_header" where
  "finish_header frames h =
     (let sz = frames * ucast (block_align h) in h\<lparr>data_sz := sz, riff_sz := sz + 44 - 8\<rparr>)"

section \<open>tinycap\<close>

text \<open>What \<^verbatim>\<open>pcm_open\<close> gives the tools: \<^verbatim>\<open>&bad_pcm\<close>, a stream, or, after \<^verbatim>\<open>pcm_close\<close>, a pointer to freed memory.\<close>

datatype pcm_ptr = Bad_pcm | Open_pcm pcm | Freed_pcm

definition bad_pcm :: pcm where
  "bad_pcm = zero_pcm\<lparr>fd := -1\<rparr>"

definition load_pcm :: "pcm_ptr \<Rightarrow> pcm res" where
  "load_pcm q = (case q of Bad_pcm \<Rightarrow> Inr bad_pcm | Open_pcm p \<Rightarrow> Inr p | Freed_pcm \<Rightarrow> Inl UseAfterFree)"

definition close_pcm :: "'k pcm_kernel \<Rightarrow> pcm_ptr \<Rightarrow> 'k world \<Rightarrow> (pcm_ptr \<times> 'k world) res" where
  "close_pcm K q w =
     (case q of
        Bad_pcm \<Rightarrow> Inr (Bad_pcm, snd (pcm_close K None w))
      | Open_pcm p \<Rightarrow> Inr (Freed_pcm, snd (pcm_close K (Some p) w))
      | Freed_pcm \<Rightarrow> Inl UseAfterFree)"

text \<open>
  The rounds of a capture. The signal arrives after \<open>n\<close> of them; \<open>wr\<close> answers each \<^verbatim>\<open>fwrite\<close> with the number
  of bytes that it has taken. The result has the stream, the number of bytes counted and what was written.
\<close>

fun capture_loop ::
    "'k pcm_kernel \<Rightarrow> nat \<Rightarrow> (nat \<Rightarrow> nat) \<Rightarrow> u32 \<Rightarrow> u8 list \<Rightarrow> u32 \<Rightarrow> u8 list \<Rightarrow> pcm \<Rightarrow> 'k world
      \<Rightarrow> (pcm \<times> u32 \<times> u8 list \<times> 'k world) res option" where
  "capture_loop K 0 wr sz buf bytes_read out p w = Some (Inr (p, bytes_read, out, w))"
| "capture_loop K (Suc n) wr sz buf bytes_read out p w =
     (case pcm_read K buf sz p w of
        None \<Rightarrow> None
      | Some (Inl f) \<Rightarrow> Some (Inl f)
      | Some (Inr (r, buf1, p1, w1)) \<Rightarrow>
          if r \<noteq> 0 then Some (Inr (p1, bytes_read, out, w1))
          else (let taken = min (wr n) (unat sz); out1 = out @ take taken buf1
                in if taken \<noteq> unat sz then Some (Inr (p1, bytes_read, out1, w1))
                   else capture_loop K n wr sz buf1 (bytes_read + sz) out1 p1 w1))"

definition capture_config :: "u32 \<Rightarrow> u32 \<Rightarrow> pcm_format \<Rightarrow> u32 \<Rightarrow> u32 \<Rightarrow> pcm_config" where
  "capture_config chans hz fmt period periods =
     zero_config\<lparr>channels := chans, rate := hz, period_size := period, period_count := periods, format := fmt\<rparr>"

text \<open>
  \<open>alloc\<close> answers \<^verbatim>\<open>malloc\<close>: the old content of the block, or nothing. The periods of frames is taken from the
  stream after it is closed.
\<close>

definition capture_sample ::
    "'k pcm_kernel \<Rightarrow> (u64 \<Rightarrow> u8 list option) \<Rightarrow> (nat \<Rightarrow> nat) \<Rightarrow> nat \<Rightarrow> u32 \<Rightarrow> u32 \<Rightarrow> u32 \<Rightarrow> u32 \<Rightarrow> pcm_format \<Rightarrow> u32 \<Rightarrow> u32
      \<Rightarrow> 'k world \<Rightarrow> (u32 \<times> u8 list \<times> 'k world) res option" where
  "capture_sample K alloc wr n crd device chans hz fmt period periods w =
     (case pcm_open K crd device PCM_IN (Some (capture_config chans hz fmt period periods)) w of
        None \<Rightarrow> None
      | Some (None, conf, w1) \<Rightarrow> Some (Inr (0, [], w1))
      | Some (Some p, conf, w1) \<Rightarrow>
          if \<not> pcm_is_ready p then Some (Inr (0, [], w1))
          else (let sz = pcm_frames_to_bytes p (pcm_get_buffer_size p)
                in case alloc (ucast sz) of
                     None \<Rightarrow> Some (bindE (close_pcm K (Open_pcm p) w1) (\<lambda>(q, w2). Inr (0, [], w2)))
                   | Some buf \<Rightarrow>
                       (case capture_loop K n wr sz buf 0 [] p w1 of
                          None \<Rightarrow> None
                        | Some r \<Rightarrow>
                            Some (bindE r (\<lambda>(p2, bytes_read, out, w2).
                                  bindE (close_pcm K (Open_pcm p2) w2) (\<lambda>(q, w3).
                                  bindE (load_pcm q) (\<lambda>p3.
                                  bindE (pcm_bytes_to_frames p3 bytes_read) (\<lambda>frames. Inr (frames, out, w3)))))))))"

record cap_args =
  c_card :: u32
  c_device :: u32
  c_channels :: u32
  c_rate :: u32
  c_bits :: u32
  c_period_size :: u32
  c_period_count :: u32

definition cap_defaults :: cap_args where
  "cap_defaults = \<lparr>c_card = 0, c_device = 0, c_channels = 2, c_rate = 44100, c_bits = 16, c_period_size = 1024, c_period_count = 4\<rparr>"

definition cap_options :: "cap_args options" where
  "cap_options =
     [(''-d'', \<lambda>n c. c\<lparr>c_device := of_int n\<rparr>), (''-c'', \<lambda>n c. c\<lparr>c_channels := of_int n\<rparr>), (''-r'', \<lambda>n c. c\<lparr>c_rate := of_int n\<rparr>),
      (''-b'', \<lambda>n c. c\<lparr>c_bits := of_int n\<rparr>), (''-D'', \<lambda>n c. c\<lparr>c_card := of_int n\<rparr>), (''-p'', \<lambda>n c. c\<lparr>c_period_size := of_int n\<rparr>),
      (''-n'', \<lambda>n c. c\<lparr>c_period_count := of_int n\<rparr>)]"

text \<open>The whole tool: the exit code and the file, if there is one; \<open>argv\<close> is without the name of the program.\<close>

definition tinycap ::
    "'k pcm_kernel \<Rightarrow> (u64 \<Rightarrow> u8 list option) \<Rightarrow> (nat \<Rightarrow> nat) \<Rightarrow> nat \<Rightarrow> bool \<Rightarrow> string list \<Rightarrow> 'k world
      \<Rightarrow> (int \<times> u8 list option \<times> 'k world) res option" where
  "tinycap K alloc wr n creatable argv w =
     (if argv = [] then Some (Inr (1, None, w))
      else if \<not> creatable then Some (Inr (1, None, w))
      else case parse_chained cap_options (tl argv) cap_defaults of
             Inl f \<Rightarrow> Some (Inl f)
           | Inr c \<Rightarrow>
               (case format_of_bits (c_bits c) of
                  None \<Rightarrow> Some (Inr (1, Some [], w))
                | Some fmt \<Rightarrow>
                    let h = start_header (c_channels c) (c_rate c) fmt
                    in map_option (\<lambda>r. bindE r (\<lambda>(frames, out, w1). Inr (0, Some (header_bytes (finish_header frames h) @ out), w1)))
                         (capture_sample K alloc wr n (c_card c) (c_device c) (ucast (num_channels h)) (sample_rate h) fmt
                            (c_period_size c) (c_period_count c) w)))"

section \<open>tinyplay\<close>

text \<open>\<^verbatim>\<open>fread\<close> of \<open>n\<close> bytes at a position of the file into a block: the block and the new position.\<close>

definition fread_bytes :: "nat \<Rightarrow> u8 list \<Rightarrow> nat \<Rightarrow> u8 list \<Rightarrow> u8 list \<times> nat" where
  "fread_bytes n data pos block =
     (let got = take n (drop pos data) in (overwrite block 0 got, pos + length got))"

definition is_riff_wave :: "u8 list \<Rightarrow> bool" where
  "is_riff_wave h \<longleftrightarrow> word_le32 (take 4 h) = ID_RIFF \<and> word_le32 (take 4 (drop 8 h)) = ID_WAVE"

definition chunk_id :: "u8 list \<Rightarrow> u32" where "chunk_id h = word_le32 (take 4 h)"
definition chunk_sz :: "u8 list \<Rightarrow> u32" where "chunk_sz h = word_le32 (take 4 (drop 4 h))"

text \<open>The search for the samples: \<open>hdr\<close> is the header of the last chunk, \<open>fmt\<close> that of the format. It may run for ever.\<close>

partial_function (option) find_data :: "u8 list \<Rightarrow> nat \<Rightarrow> u8 list \<Rightarrow> u8 list \<Rightarrow> (nat \<times> u8 list) option" where
  "find_data data pos hdr fmt =
     (case fread_bytes 8 data pos hdr of
        (hdr1, pos1) \<Rightarrow>
          if chunk_id hdr1 = ID_FMT
          then (case fread_bytes 16 data pos1 fmt of
                  (fmt1, pos2) \<Rightarrow>
                    find_data data (if chunk_sz hdr1 > 16 then pos2 + (unat (chunk_sz hdr1) - 16) else pos2) hdr1 fmt1)
          else if chunk_id hdr1 = ID_DATA then Some (pos1, fmt)
          else find_data data (pos1 + unat (chunk_sz hdr1)) hdr1 fmt)"

text \<open>The fields of the format that the player uses.\<close>

definition fmt_channels :: "u8 list \<Rightarrow> u16" where "fmt_channels f = word_le16 (take 2 (drop 2 f))"
definition fmt_rate :: "u8 list \<Rightarrow> u32" where "fmt_rate f = word_le32 (take 4 (drop 4 f))"
definition fmt_bits :: "u8 list \<Rightarrow> u16" where "fmt_bits f = word_le16 (take 2 (drop 14 f))"

definition check_param :: "snd_pcm_hw_params option \<Rightarrow> pcm_param \<Rightarrow> u32 \<Rightarrow> int" where
  "check_param params param v =
     (let ok = (if v < pcm_params_get_min params param then 0 else 1)
      in if v > pcm_params_get_max params param then 0 else ok)"

definition sample_is_playable ::
    "'k pcm_kernel \<Rightarrow> u32 \<Rightarrow> u32 \<Rightarrow> u32 \<Rightarrow> u32 \<Rightarrow> u32 \<Rightarrow> u32 \<Rightarrow> u32 \<Rightarrow> 'k world \<Rightarrow> bool \<times> 'k world" where
  "sample_is_playable K crd device chans hz bits period periods w =
     (case pcm_params_get K crd device PCM_OUT w of
        (None, w1) \<Rightarrow> (False, w1)
      | (params, w1) \<Rightarrow>
          (list_all (\<lambda>(param, v). check_param params param v = 1)
             [(PCM_PARAM_RATE, hz), (PCM_PARAM_CHANNELS, chans), (PCM_PARAM_SAMPLE_BITS, bits),
              (PCM_PARAM_PERIOD_SIZE, period), (PCM_PARAM_PERIODS, periods)], w1))"

text \<open>A width other than 32 and 16 leaves the format of the zeroed configuration.\<close>

definition play_config :: "u32 \<Rightarrow> u32 \<Rightarrow> u32 \<Rightarrow> u32 \<Rightarrow> u32 \<Rightarrow> pcm_config" where
  "play_config chans hz bits period periods =
     (let c = zero_config\<lparr>channels := chans, rate := hz, period_size := period, period_count := periods\<rparr>
      in if bits = 32 then c\<lparr>format := PCM_FORMAT_S32_LE\<rparr> else if bits = 16 then c\<lparr>format := PCM_FORMAT_S16_LE\<rparr> else c)"

text \<open>
  The rounds of the player: \<open>n\<close> of them before the signal arrives, and one in any case. The answers of
  \<^verbatim>\<open>fread\<close> are converted to \<^verbatim>\<open>int\<close>, and \<open>sent\<close> collects what \<^verbatim>\<open>pcm_write\<close> was given.
\<close>

function play_loop ::
    "'k pcm_kernel \<Rightarrow> nat \<Rightarrow> nat \<Rightarrow> u8 list \<Rightarrow> nat \<Rightarrow> u8 list \<Rightarrow> u8 list list \<Rightarrow> pcm \<Rightarrow> 'k world
      \<Rightarrow> (u8 list list \<times> pcm \<times> 'k world) res" where
  "play_loop K n sz data pos buf sent p w =
     (case fread_bytes sz data pos buf of
        (buf1, pos1) \<Rightarrow>
          let num_read = to_int (int (pos1 - pos))
          in if num_read > 0
             then (case pcm_write K buf1 (of_int num_read) p w of
                     Inl f \<Rightarrow> Inl f
                   | Inr (r, p1, w1) \<Rightarrow>
                       let sent1 = sent @ [take (nat num_read) buf1]
                       in if r \<noteq> 0 \<or> n = 0 then Inr (sent1, p1, w1)
                          else play_loop K (n - 1) sz data pos1 buf1 sent1 p1 w1)
             else Inr (sent, p, w))"
  by pat_completeness auto
termination by (relation "measure (\<lambda>(K, n, sz, data, pos, buf, sent, p, w). n)") auto

declare play_loop.simps [simp del]

definition play_sample ::
    "'k pcm_kernel \<Rightarrow> (u64 \<Rightarrow> u8 list option) \<Rightarrow> nat \<Rightarrow> u8 list \<Rightarrow> nat \<Rightarrow> u32 \<Rightarrow> u32 \<Rightarrow> u32 \<Rightarrow> u32 \<Rightarrow> u32 \<Rightarrow> u32 \<Rightarrow> u32
      \<Rightarrow> 'k world \<Rightarrow> (u8 list list \<times> 'k world) res option" where
  "play_sample K alloc n data pos crd device chans hz bits period periods w =
     (case sample_is_playable K crd device chans hz bits period periods w of
        (False, w1) \<Rightarrow> Some (Inr ([], w1))
      | (True, w1) \<Rightarrow>
          (case pcm_open K crd device PCM_OUT (Some (play_config chans hz bits period periods)) w1 of
             None \<Rightarrow> None
           | Some (None, conf, w2) \<Rightarrow> Some (Inr ([], w2))
           | Some (Some p, conf, w2) \<Rightarrow>
               if \<not> pcm_is_ready p then Some (Inr ([], w2))
               else (let sz = scast (pcm_frames_to_bytes p (pcm_get_buffer_size p)) :: u64
                     in case alloc sz of
                          None \<Rightarrow> Some (bindE (close_pcm K (Open_pcm p) w2) (\<lambda>(q, w3). Inr ([], w3)))
                        | Some buf \<Rightarrow>
                            Some (bindE (play_loop K n (unat sz) data pos buf [] p w2) (\<lambda>(sent, p1, w3).
                                  bindE (close_pcm K (Open_pcm p1) w3) (\<lambda>(q, w4). Inr (sent, w4)))))))"

record play_args =
  p_card :: u32
  p_device :: u32
  p_period_size :: u32
  p_period_count :: u32

definition play_defaults :: play_args where
  "play_defaults = \<lparr>p_card = 0, p_device = 0, p_period_size = 1024, p_period_count = 4\<rparr>"

definition play_options :: "play_args options" where
  "play_options =
     [(''-d'', \<lambda>n c. c\<lparr>p_device := of_int n\<rparr>), (''-p'', \<lambda>n c. c\<lparr>p_period_size := of_int n\<rparr>),
      (''-n'', \<lambda>n c. c\<lparr>p_period_count := of_int n\<rparr>), (''-D'', \<lambda>n c. c\<lparr>p_card := of_int n\<rparr>)]"

text \<open>
  The whole tool: the exit code and what the stream was given; the three blocks are the headers on its stack, which
  it does not initialise, and the file is \<^term>\<open>None\<close> when it cannot be opened.
\<close>

definition tinyplay ::
    "'k pcm_kernel \<Rightarrow> (u64 \<Rightarrow> u8 list option) \<Rightarrow> nat \<Rightarrow> u8 list \<times> u8 list \<times> u8 list \<Rightarrow> u8 list option \<Rightarrow> string list \<Rightarrow> 'k world
      \<Rightarrow> (int \<times> u8 list list \<times> 'k world) res option" where
  "tinyplay K alloc n stack data argv w =
     (if argv = [] then Some (Inr (1, [], w))
      else case (data, stack) of
             (None, _) \<Rightarrow> Some (Inr (1, [], w))
           | (Some d, riff, hdr, fmt) \<Rightarrow>
               (case fread_bytes 12 d 0 riff of
                  (riff1, pos) \<Rightarrow>
                    if \<not> is_riff_wave riff1 then Some (Inr (1, [], w))
                    else (case find_data d pos hdr fmt of
                            None \<Rightarrow> None
                          | Some (pos1, fmt1) \<Rightarrow>
                              (case parse_separate play_options (tl argv) play_defaults of
                                 Inl f \<Rightarrow> Some (Inl f)
                               | Inr c \<Rightarrow>
                                   map_option (\<lambda>r. bindE r (\<lambda>(sent, w1). Inr (0, sent, w1)))
                                     (play_sample K alloc n d pos1 (p_card c) (p_device c) (ucast (fmt_channels fmt1))
                                        (fmt_rate fmt1) (ucast (fmt_bits fmt1)) (p_period_size c) (p_period_count c) w)))))"

section \<open>Reading words\<close>

lemma length_bytes_le16 [simp]: "length (bytes_le16 w) = 2"
  by (simp add: bytes_le16_def)

lemma word_bytes_le16 [simp]: "word_le16 (bytes_le16 w) = w"
  unfolding bytes_le16_def word_le16_def by (rule bit_word_eqI) (auto simp: bit_simps)

lemma fread_next:
  assumes "length xs = n" and "length block = n"
  shows "fread_bytes n (pre @ xs @ rest) (length pre) block = (xs, length pre + n)"
  using assms by (simp add: fread_bytes_def overwrite_def)

lemma fread_end: "length data \<le> pos \<Longrightarrow> fread_bytes n data pos block = (block, pos)"
  by (simp add: fread_bytes_def)

section \<open>Finding the samples\<close>

text \<open>A chunk as it is in a file, and the format that a list of chunks leaves.\<close>

definition chunk_bytes :: "u32 \<times> u8 list \<Rightarrow> u8 list" where
  "chunk_bytes c = bytes_le32 (fst c) @ bytes_le32 (of_nat (length (snd c))) @ snd c"

definition plain_chunk :: "u32 \<times> u8 list \<Rightarrow> bool" where
  "plain_chunk c \<longleftrightarrow> fst c \<noteq> ID_DATA \<and> length (snd c) < 2 ^ 32 \<and> (fst c = ID_FMT \<longrightarrow> 16 \<le> length (snd c))"

definition format_after :: "u32 \<times> u8 list \<Rightarrow> u8 list \<Rightarrow> u8 list" where
  "format_after c f = (if fst c = ID_FMT then take 16 (snd c) else f)"

definition header_of :: "u32 \<times> u8 list \<Rightarrow> u8 list" where
  "header_of c = bytes_le32 (fst c) @ bytes_le32 (of_nat (length (snd c)))"

lemma chunk_header [simp]:
  "chunk_id (header_of c) = fst c" "chunk_sz (header_of c) = of_nat (length (snd c))" "length (header_of c) = 8"
  by (simp_all add: chunk_id_def chunk_sz_def header_of_def)

lemma length_format_after: "plain_chunk c \<Longrightarrow> length f = 16 \<Longrightarrow> length (format_after c f) = 16"
  by (simp add: plain_chunk_def format_after_def)

lemma ids_differ [simp]: "ID_FMT \<noteq> ID_DATA" "ID_DATA \<noteq> ID_FMT"
  by (simp_all add: ID_FMT_def ID_DATA_def)

lemma find_data_chunk:
  assumes "plain_chunk c" and "length hdr = 8" and "length fmt = 16"
  shows "find_data (pre @ chunk_bytes c @ rest) (length pre) hdr fmt
    = find_data (pre @ chunk_bytes c @ rest) (length (pre @ chunk_bytes c)) (header_of c) (format_after c fmt)"
proof -
  have split: "pre @ chunk_bytes c @ rest = pre @ header_of c @ (snd c @ rest)"
    by (simp add: chunk_bytes_def header_of_def)
  have r1: "fread_bytes 8 (pre @ chunk_bytes c @ rest) (length pre) hdr = (header_of c, length pre + 8)"
    unfolding split by (rule fread_next) (use assms in simp_all)
  have sz: "unat (of_nat (length (snd c)) :: u32) = length (snd c)"
    using assms(1) by (intro unat_of_nat_small) (simp add: plain_chunk_def)
  have len: "length (pre @ chunk_bytes c) = length pre + 8 + length (snd c)" by (simp add: chunk_bytes_def)
  show ?thesis
  proof (cases "fst c = ID_FMT")
    case True
    then have l: "16 \<le> length (snd c)" using assms(1) by (simp add: plain_chunk_def)
    then have split2: "pre @ chunk_bytes c @ rest = (pre @ header_of c) @ take 16 (snd c) @ (drop 16 (snd c) @ rest)"
      by (simp add: split)
    have "fread_bytes 16 ((pre @ header_of c) @ take 16 (snd c) @ (drop 16 (snd c) @ rest)) (length (pre @ header_of c)) fmt
        = (take 16 (snd c), length (pre @ header_of c) + 16)" 
      by (rule fread_next) (use l assms in simp_all)
    then have r2: "fread_bytes 16 (pre @ chunk_bytes c @ rest) (length pre + 8) fmt = (take 16 (snd c), length pre + 24)"
      unfolding split2 [symmetric] by simp
    have "16 < (of_nat (length (snd c)) :: u32) \<longleftrightarrow> 16 < length (snd c)"
      using sz by (simp add: word_less_nat_alt)
    then show ?thesis using l True len
      by (subst find_data.simps) (simp add: r1 r2 sz format_after_def ac_simps)
  next
    case False
    then show ?thesis using len assms(1)
      by (subst find_data.simps) (simp add: r1 sz format_after_def plain_chunk_def ac_simps)
  qed
qed

lemma find_data_chunks:
  assumes "list_all plain_chunk cs"
  shows "length hdr = 8 \<Longrightarrow> length fmt = 16 \<Longrightarrow>
    find_data (pre @ concat (map chunk_bytes cs) @ rest) (length pre) hdr fmt
      = find_data (pre @ concat (map chunk_bytes cs) @ rest) (length (pre @ concat (map chunk_bytes cs)))
          (if cs = [] then hdr else header_of (last cs)) (fold format_after cs fmt)"
  using assms
proof (induction cs arbitrary: pre hdr fmt)
  case (Cons c cs)
  then have c: "plain_chunk c" by simp
  have "length (format_after c fmt) = 16" using length_format_after [OF c] Cons.prems by simp
  then have IH: "find_data ((pre @ chunk_bytes c) @ concat (map chunk_bytes cs) @ rest) (length (pre @ chunk_bytes c)) (header_of c) (format_after c fmt)
      = find_data ((pre @ chunk_bytes c) @ concat (map chunk_bytes cs) @ rest) (length ((pre @ chunk_bytes c) @ concat (map chunk_bytes cs)))
          (if cs = [] then header_of c else header_of (last cs)) (fold format_after cs (format_after c fmt))"
    using Cons.IH [of "header_of c" "format_after c fmt" "pre @ chunk_bytes c"] Cons.prems by simp
  have "find_data (pre @ concat (map chunk_bytes (c # cs)) @ rest) (length pre) hdr fmt
      = find_data ((pre @ chunk_bytes c) @ concat (map chunk_bytes cs) @ rest) (length (pre @ chunk_bytes c)) (header_of c) (format_after c fmt)"
    using find_data_chunk [OF c Cons.prems(1,2), of pre "concat (map chunk_bytes cs) @ rest"] by simp
  then show ?case unfolding IH by simp
qed simp

lemma length_format_fold: "list_all plain_chunk cs \<Longrightarrow> length f = 16 \<Longrightarrow> length (fold format_after cs f) = 16"
  by (induction cs arbitrary: f) (simp_all add: length_format_after)

lemma find_data_samples:
  assumes "list_all plain_chunk cs" and "length hdr = 8" and "length fmt = 16"
  shows "find_data (pre @ concat (map chunk_bytes cs) @ bytes_le32 ID_DATA @ bytes_le32 sz @ samples) (length pre) hdr fmt
    = Some (length pre + length (concat (map chunk_bytes cs)) + 8, fold format_after cs fmt)"
proof -
  let ?h = "bytes_le32 ID_DATA @ bytes_le32 sz"
  let ?pre = "pre @ concat (map chunk_bytes cs)"
  have "find_data (pre @ concat (map chunk_bytes cs) @ ?h @ samples) (length pre) hdr fmt
      = find_data (?pre @ ?h @ samples) (length ?pre) (if cs = [] then hdr else header_of (last cs)) (fold format_after cs fmt)"
    using find_data_chunks [OF assms, of pre "?h @ samples"] by simp
  moreover have "fread_bytes 8 (?pre @ ?h @ samples) (length ?pre) (if cs = [] then hdr else header_of (last cs)) = (?h, length ?pre + 8)"
    by (rule fread_next) (use assms(2) in simp_all)
  moreover have "chunk_id ?h = ID_DATA" by (simp add: chunk_id_def)
  ultimately show ?thesis by (subst (asm) (2) find_data.simps) simp
qed

text \<open>
  C24: the player finds the samples behind any chunks that it does not know, in any order and of any
  length, and takes the format from the last format chunk before them, however long that chunk is.
\<close>

theorem find_data_skips:
  assumes "list_all plain_chunk cs" and "length hdr = 8" and "length fmt = 16"
  shows "find_data (pre @ concat (map chunk_bytes cs) @ bytes_le32 ID_DATA @ bytes_le32 sz @ samples) (length pre) hdr fmt
    = Some (length pre + length (concat (map chunk_bytes cs)) + 8, fold format_after cs fmt)"
  by (rule find_data_samples [OF assms])

theorem find_data_skips_witness:
  "find_data (concat (map chunk_bytes [(0x5453494C, [1, 2, 3]), (ID_FMT, replicate 18 7)]) @ bytes_le32 ID_DATA @ bytes_le32 2 @ [9, 9])
     0 (replicate 8 0) (replicate 16 0) = Some (45, replicate 16 7)"
proof -
  have "list_all plain_chunk [(0x5453494C, [1, 2, 3]), (ID_FMT, replicate 18 7)]"
    by (simp add: plain_chunk_def ID_DATA_def ID_FMT_def)
  from find_data_skips [OF this, of "replicate 8 0" "replicate 16 0" "[]" 2 "[9, 9]"]
  show ?thesis by (simp add: chunk_bytes_def format_after_def ID_FMT_def ID_DATA_def)
qed

section \<open>Files without samples\<close>

lemma find_data_at_end:
  assumes "length data \<le> pos" and "chunk_id hdr \<noteq> ID_DATA"
  shows "find_data data pos hdr fmt = None"
proof (rule ccontr)
  assume "find_data data pos hdr fmt \<noteq> None"
  then obtain y where y: "find_data data pos hdr fmt = Some y" by blast
  let ?P = "\<lambda>data pos hdr fmt (y :: nat \<times> u8 list). length data \<le> pos \<longrightarrow> chunk_id hdr = ID_DATA"
  have "?P data pos hdr fmt y"
  proof (rule find_data.raw_induct [of ?P, OF _ y])
    fix loop data pos hdr fmt y
    assume IH: "\<And>data pos hdr fmt y. loop data pos hdr fmt = Some y \<Longrightarrow> ?P data pos hdr fmt y"
      and eq: "(case fread_bytes 8 data pos hdr of
        (hdr1, pos1) \<Rightarrow>
          if chunk_id hdr1 = ID_FMT
          then (case fread_bytes 16 data pos1 fmt of
                  (fmt1, pos2) \<Rightarrow>
                    loop data (if chunk_sz hdr1 > 16 then pos2 + (unat (chunk_sz hdr1) - 16) else pos2) hdr1 fmt1)
          else if chunk_id hdr1 = ID_DATA then Some (pos1, fmt)
          else loop data (pos1 + unat (chunk_sz hdr1)) hdr1 fmt) = Some y"
    show "?P data pos hdr fmt y"
    proof
      assume "length data \<le> pos"
      with eq IH show "chunk_id hdr = ID_DATA" by (auto simp: fread_end split: if_splits dest!: IH)
    qed
  qed
  with assms show False by simp
qed

lemma find_data_none:
  assumes "list_all plain_chunk cs" and "cs \<noteq> []" and "length hdr = 8" and "length fmt = 16"
  shows "find_data (pre @ concat (map chunk_bytes cs)) (length pre) hdr fmt = None"
proof -
  have "fst (last cs) \<noteq> ID_DATA" using assms(1,2) last_in_set by (fastforce simp: list_all_iff plain_chunk_def)
  then show ?thesis using find_data_chunks [OF assms(1,3,4), of pre "[]"] assms(2)
    find_data_at_end [of "pre @ concat (map chunk_bytes cs)" "length (pre @ concat (map chunk_bytes cs))" "header_of (last cs)"]
    by simp
qed

text \<open>
  C25: a WAV file that ends before its samples, after one chunk or more, keeps tinyplay in its search for
  ever: the header that it has read last stays in place when nothing more can be read.
\<close>

theorem truncated_file_hangs:
  assumes "list_all plain_chunk cs" and "cs \<noteq> []" and "length riff = 12" and "length hdr = 8" and "length fmt = 16"
    and "argv \<noteq> []"
  shows "tinyplay K alloc n (riff, hdr, fmt) (Some (bytes_le32 ID_RIFF @ bytes_le32 sz @ bytes_le32 ID_WAVE @ concat (map chunk_bytes cs)))
    argv w = None"
proof -
  let ?r = "bytes_le32 ID_RIFF @ bytes_le32 sz @ bytes_le32 ID_WAVE"
  have "fread_bytes 12 ([] @ ?r @ concat (map chunk_bytes cs)) (length ([] :: u8 list)) riff = (?r, length ([] :: u8 list) + 12)"
    by (rule fread_next) (use assms(3) in simp_all)
  moreover have "is_riff_wave ?r" by (simp add: is_riff_wave_def)
  moreover have "find_data (?r @ concat (map chunk_bytes cs)) 12 hdr fmt = None"
    using find_data_none [OF assms(1,2,4,5), of ?r] by simp
  ultimately show ?thesis using assms(6) by (simp add: tinyplay_def)
qed

theorem truncated_file_hangs_witness:
  "tinyplay demo_kernel (\<lambda>_. None) 0 (replicate 12 0, replicate 8 0, replicate 16 0)
    (Some (bytes_le32 ID_RIFF @ bytes_le32 28 @ bytes_le32 ID_WAVE @ concat (map chunk_bytes [(ID_FMT, replicate 16 0)])))
    [''cut.wav''] (demo_world []) = None"
  by (rule truncated_file_hangs) (simp_all add: plain_chunk_def)

section \<open>From the recorder to the player\<close>

definition fmt_body :: "wav_header \<Rightarrow> u8 list" where
  "fmt_body h = bytes_le16 (audio_format h) @ bytes_le16 (num_channels h) @ bytes_le32 (sample_rate h) @ bytes_le32 (byte_rate h)
     @ bytes_le16 (block_align h) @ bytes_le16 (bits_per_sample h)"

lemma header_bytes_chunks:
  assumes "fmt_id h = ID_FMT" and "fmt_sz h = 16" and "data_id h = ID_DATA"
  shows "header_bytes h = bytes_le32 (riff_id h) @ bytes_le32 (riff_sz h) @ bytes_le32 (riff_fmt h)
    @ concat (map chunk_bytes [(ID_FMT, fmt_body h)]) @ bytes_le32 ID_DATA @ bytes_le32 (data_sz h)"
  using assms by (simp add: header_bytes_def chunk_bytes_def fmt_body_def)

lemma length_header_bytes [simp]: "length (header_bytes h) = 44"
  by (simp add: header_bytes_def)

lemma fmt_body_fields [simp]:
  "length (fmt_body h) = 16" "fmt_channels (fmt_body h) = num_channels h" "fmt_rate (fmt_body h) = sample_rate h"
  "fmt_bits (fmt_body h) = bits_per_sample h"
  by (simp_all add: fmt_body_def fmt_channels_def fmt_rate_def fmt_bits_def)

lemma bits_of_format:
  assumes "format_of_bits bits = Some pf"
  shows "ucast (ucast (pcm_format_to_bits pf) :: u16) = pcm_format_to_bits pf"
  using assms by (auto simp: format_of_bits_def pcm_format_to_bits_def split: if_splits)

text \<open>
  C10: tinyplay understands what tinycap writes: it finds the samples right behind the 44 bytes of the header,
  and plays them with the rate of the recording, its number of channels (of which the header keeps 16 bits), and
  the width of its samples.
\<close>

theorem recording_is_played:
  assumes "format_of_bits bits = Some pf" and "length riff = 12" and "length hdr = 8" and "length fmt = 16" and "argv \<noteq> []"
  shows "tinyplay K alloc n (riff, hdr, fmt) (Some (header_bytes (finish_header frames (start_header chans hz pf)) @ samples)) argv w
    = (case parse_separate play_options (tl argv) play_defaults of
         Inl f \<Rightarrow> Some (Inl f)
       | Inr c \<Rightarrow>
           map_option (\<lambda>r. bindE r (\<lambda>(sent, w1). Inr (0, sent, w1)))
             (play_sample K alloc n (header_bytes (finish_header frames (start_header chans hz pf)) @ samples) 44 (p_card c) (p_device c)
                (ucast (ucast chans :: u16)) hz (pcm_format_to_bits pf) (p_period_size c) (p_period_count c) w))"
proof -
  define h where "h = finish_header frames (start_header chans hz pf)"
  have ids: "fmt_id h = ID_FMT" "fmt_sz h = 16" "data_id h = ID_DATA" "riff_id h = ID_RIFF" "riff_fmt h = ID_WAVE"
    and vals: "num_channels h = ucast chans" "sample_rate h = hz" "bits_per_sample h = ucast (pcm_format_to_bits pf)"
    by (simp_all add: h_def finish_header_def start_header_def Let_def)
  let ?r = "bytes_le32 ID_RIFF @ bytes_le32 (riff_sz h) @ bytes_le32 ID_WAVE"
  let ?cs = "[(ID_FMT, fmt_body h)]"
  have split: "header_bytes h @ samples = ?r @ concat (map chunk_bytes ?cs) @ bytes_le32 ID_DATA @ bytes_le32 (data_sz h) @ samples"
    using ids by (simp add: header_bytes_chunks)
  have "fread_bytes 12 ([] @ ?r @ concat (map chunk_bytes ?cs) @ bytes_le32 ID_DATA @ bytes_le32 (data_sz h) @ samples)
      (length ([] :: u8 list)) riff = (?r, length ([] :: u8 list) + 12)"
    by (rule fread_next) (use assms(2) in simp_all)
  then have 1: "fread_bytes 12 (header_bytes h @ samples) 0 riff = (?r, 12)" unfolding split by simp
  have 2: "is_riff_wave ?r" by (simp add: is_riff_wave_def)
  have "list_all plain_chunk ?cs" by (simp add: plain_chunk_def)
  from find_data_samples [OF this assms(3,4), of ?r "data_sz h" samples]
  have 3: "find_data (header_bytes h @ samples) 12 hdr fmt = Some (44, fmt_body h)"
    unfolding split by (simp add: format_after_def chunk_bytes_def)
  show ?thesis using assms(5) bits_of_format [OF assms(1)] vals
    by (simp add: tinyplay_def 1 2 3 h_def [symmetric] split: sum.splits)
qed

theorem recording_is_played_witness:
  "tinyplay demo_kernel (\<lambda>_. None) 5 (replicate 12 1, replicate 8 2, replicate 16 3)
     (Some (header_bytes (finish_header 1 (start_header 2 16000 PCM_FORMAT_S16_LE)) @ [1, 2, 3, 4])) [''a.wav''] (demo_world [])
   = map_option (\<lambda>r. bindE r (\<lambda>(sent, w1). Inr (0, sent, w1)))
       (play_sample demo_kernel (\<lambda>_. None) 5 (header_bytes (finish_header 1 (start_header 2 16000 PCM_FORMAT_S16_LE)) @ [1, 2, 3, 4]) 44 0 0
          2 16000 16 1024 4 (demo_world []))"
proof -
  have "format_of_bits 16 = Some PCM_FORMAT_S16_LE" by (simp add: format_of_bits_def)
  from recording_is_played [OF this, of "replicate 12 1" "replicate 8 2" "replicate 16 3" "[''a.wav'']" demo_kernel "\<lambda>_. None" 5 1 2 16000 "[1, 2, 3, 4]"
    "demo_world []"]
  show ?thesis by (simp add: parse_separate.simps [of play_options "[]"] play_defaults_def pcm_format_to_bits_def)
qed

section \<open>What the player hands over\<close>

text \<open>A card that takes every write.\<close>

definition accepts :: "'k pcm_kernel \<Rightarrow> bool" where
  "accepts K \<longleftrightarrow> (\<forall>d b m k. fst (k_writei K d b m k) = SysOk 0) \<and> (\<forall>d k. fst (k_prepare K d k) = SysOk 0)"

lemma accepts_write:
  assumes "accepts K" and "\<not> has (flags p) PCM_IN" and "pcm_write K buf periods p w = Inr (r, p', w')"
  shows "r = 0 \<and> flags p' = flags p"
proof -
  obtain m where m: "pcm_write_loop K buf m p w = (r, p', w')"
    using assms(2,3) by (auto simp: pcm_write_def res_simps)
  have "fst (sys (k_writei K d b m (kst v)) v) = 0" for d b and m :: u64 and v
    using assms(1) by (simp add: sys_def accepts_def)
  moreover have "fst (sys (k_prepare K d (kst v)) v) = 0" for d and v
    using assms(1) by (simp add: sys_def accepts_def)
  ultimately have "r = 0" using m
    by (subst (asm) pcm_write_loop.simps) (auto simp: pcm_prepare_def Let_def split: if_splits prod.splits dest: arg_cong [where f = fst])
  then show ?thesis using pcm_write_cases [OF m] by (simp add: stable_def)
qed

lemma small_to_int: "k < 2 ^ 31 \<Longrightarrow> to_int (int k) = int k"
  unfolding to_int_def by (simp add: sint_uint signed_take_bit_int_eq_self unsigned_of_nat take_bit_nat_eq_self)

text \<open>
  what tinyplay hands to the stream are the bytes of the file from the start of the samples on, in their order
  and without a gap; and it hands over all of them when it is not interrupted and the card takes them.
\<close>

theorem play_loop_sends:
  assumes "length data < 2 ^ 31" and "length buf = sz" and "play_loop K n sz data pos buf sent p w = Inr (sent', p', w')"
  shows "(\<exists>m. concat sent' = concat sent @ take m (drop pos data))
    \<and> (accepts K \<and> \<not> has (flags p) PCM_IN \<and> 0 < sz \<and> length data \<le> n + pos \<longrightarrow> concat sent' = concat sent @ drop pos data)"
  using assms
proof (induction K n sz data pos buf sent p w rule: play_loop.induct)
  case (1 K n sz data pos buf sent p w)
  define got where "got = take sz (drop pos data)"
  define buf1 where "buf1 = overwrite buf 0 got"
  define k where "k = length got"
  have fr: "fread_bytes sz data pos buf = (buf1, pos + k)" by (simp add: fread_bytes_def got_def buf1_def k_def)
  have k: "k \<le> sz" "k \<le> length data - pos" "got = take k (drop pos data)"
    unfolding k_def got_def by (simp_all add: min_def)
  have num: "to_int (int (pos + k - pos)) = int k"
  proof -
    have "k \<le> length data" using k(2) by (rule order_trans) simp
    then have "k < 2 ^ 31" using "1.prems"(1) by (rule le_less_trans)
    then show ?thesis using small_to_int by simp
  qed
  have buf1: "take k buf1 = got" "length buf1 = sz" using k(1) "1.prems"(2) by (simp_all add: buf1_def overwrite_def k_def)
  note step = "1.prems"(3) [unfolded play_loop.simps [of K n sz data pos buf sent p w] fr prod.case Let_def num nat_int buf1(1)]
  show ?case
  proof (cases "k = 0")
    case True
    then have "sent' = sent" using step by simp
    moreover have "drop pos data = []" if "0 < sz" using that True k_def got_def by simp
    ultimately show ?thesis by (auto intro: exI [of _ 0])
  next
    case False
    then obtain r p1 w1 where wr: "pcm_write K buf1 (of_int (int k)) p w = Inr (r, p1, w1)"
      using step by (auto split: sum.splits)
    have 2: "(if r \<noteq> 0 \<or> n = 0 then Inr (sent @ [got], p1, w1) else play_loop K (n - 1) sz data (pos + k) buf1 (sent @ [got]) p1 w1)
        = Inr (sent', p', w')"
      using step False wr buf1(1) by simp
    show ?thesis
    proof (cases "r \<noteq> 0 \<or> n = 0")
      case True
      then have s: "sent' = sent @ [got]" using 2 by auto
      have "r = 0" if "accepts K" "\<not> has (flags p) PCM_IN" using accepts_write [OF that wr] by simp
      then have "got = drop pos data" if "accepts K" "\<not> has (flags p) PCM_IN" "length data \<le> n + pos" 
        using True that False k(2) by auto
      then show ?thesis using s k(3) by auto
    next
      case c: False
      have IH: "(\<exists>m. concat sent' = concat (sent @ [got]) @ take m (drop (pos + k) data))
          \<and> (accepts K \<and> \<not> has (flags p1) PCM_IN \<and> 0 < sz \<and> length data \<le> n - 1 + (pos + k)
              \<longrightarrow> concat sent' = concat (sent @ [got]) @ drop (pos + k) data)"
        using "1.IH" [OF fr [symmetric] refl] num False wr c 2 buf1 "1.prems"(1) by simp
      have "got @ take m (drop (pos + k) data) = take (k + m) (drop pos data)" for m
        unfolding k(3) by (simp add: take_add add.commute)
      moreover have "got @ drop (pos + k) data = drop pos data"
        unfolding k(3) by (metis append_take_drop_id drop_drop add.commute)
      moreover have "flags p1 = flags p" if "accepts K" "\<not> has (flags p) PCM_IN" using accepts_write [OF that wr] by simp
      moreover have "length data \<le> n - 1 + (pos + k)" if "length data \<le> n + pos" using that False by simp
      ultimately show ?thesis using IH by (metis append.assoc concat.simps concat_append append_Nil2)
    qed
  qed
qed

theorem play_loop_sends_witness:
  "\<exists>sent p w. play_loop (demo_kernel\<lparr>k_writei := \<lambda>d b m k. (SysOk 0, k)\<rparr>) 20 8 [9, 1, 2, 3, 4, 5, 6, 7, 8, 1, 2, 3, 4] 1 (replicate 8 0) []
      (demo_stream 0 True) (demo_world []) = Inr (sent, p, w)
    \<and> concat sent = [1, 2, 3, 4, 5, 6, 7, 8, 1, 2, 3, 4]"
proof -
  let ?d = "[9, 1, 2, 3, 4, 5, 6, 7, 8, 1, 2, 3, 4] :: u8 list"
  let ?K = "demo_kernel\<lparr>k_writei := \<lambda>d b m k. (SysOk 0, k)\<rparr>"
  have "(case play_loop ?K 20 8 ?d 1 (replicate 8 0) [] (demo_stream 0 True) (demo_world []) of Inl _ \<Rightarrow> False | Inr _ \<Rightarrow> True)" 
    by code_simp
  then obtain sent p w where 1: "play_loop ?K 20 8 ?d 1 (replicate 8 0) [] (demo_stream 0 True) (demo_world []) = Inr (sent, p, w)"
    by (auto split: sum.splits)
  have "accepts ?K" by (simp add: accepts_def demo_kernel_def)
  moreover have "\<not> has (flags (demo_stream 0 True)) PCM_IN" by (simp add: has_def)
  ultimately have "concat sent = concat [] @ drop 1 ?d" by (intro play_loop_sends [OF _ _ 1, THEN conjunct2, rule_format] conjI) simp_all
  with 1 show ?thesis by auto
qed

section \<open>Counting a capture\<close>

lemma capture_faults:
  assumes "pcm_open K crd device PCM_IN (Some (capture_config chans hz fmt period periods)) w = Some (Some p, conf, w1)"
    and "pcm_is_ready p" and "alloc (ucast (pcm_frames_to_bytes p (pcm_get_buffer_size p))) = Some buf"
  shows "capture_sample K alloc wr n crd device chans hz fmt period periods w
    = (case capture_loop K n wr (pcm_frames_to_bytes p (pcm_get_buffer_size p)) buf 0 [] p w1 of
         None \<Rightarrow> None
       | Some (Inl f) \<Rightarrow> Some (Inl f)
       | Some (Inr _) \<Rightarrow> Some (Inl UseAfterFree))"
  using assms by (auto simp: capture_sample_def Let_def close_pcm_def load_pcm_def split: option.splits sum.splits)

text \<open>
  C36: tinycap counts the frames of a capture with a stream that it has closed: whatever the card does, a
  run that comes to its end without touching freed memory has captured nothing, and its file is a header without samples.
\<close>

theorem tinycap_counts_freed_stream:
  assumes "tinycap K alloc wr n creatable argv w = Some (Inr (0, file, w'))"
  shows "\<exists>h. file = Some (header_bytes h) \<and> data_sz h = 0 \<and> riff_sz h = 36"
proof -
  obtain c fmt where c: "argv \<noteq> []" "creatable" "parse_chained cap_options (tl argv) cap_defaults = Inr c" "format_of_bits (c_bits c) = Some fmt"
    using assms by (auto simp: tinycap_def split: if_splits sum.splits option.splits)
  define h where "h = start_header (c_channels c) (c_rate c) fmt"
  obtain frames out where r: "capture_sample K alloc wr n (c_card c) (c_device c) (ucast (num_channels h)) (sample_rate h) fmt
      (c_period_size c) (c_period_count c) w = Some (Inr (frames, out, w'))" "file = Some (header_bytes (finish_header frames h) @ out)"
    using assms c by (auto simp: tinycap_def h_def Let_def res_simps)
  have "frames = 0 \<and> out = []"
    using r(1) unfolding capture_sample_def
    by (auto simp: Let_def close_pcm_def load_pcm_def res_simps split: option.splits sum.splits if_splits)
  then show ?thesis using r(2) by (intro exI [of _ "finish_header 0 h"]) (simp add: finish_header_def Let_def)
qed

theorem tinycap_counts_freed_stream_witness:
  "\<exists>file w h. tinycap (demo_kernel\<lparr>k_calloc := \<lambda>k. (False, k)\<rparr>) (\<lambda>_. None) (\<lambda>_. 0) 1 True [''a.wav''] (demo_world []) = Some (Inr (0, file, w))
    \<and> file = Some (header_bytes h) \<and> data_sz h = 0"
proof -
  have "format_of_bits 16 = Some PCM_FORMAT_S16_LE" by (simp add: format_of_bits_def)
  then obtain f w where 1: "tinycap (demo_kernel\<lparr>k_calloc := \<lambda>k. (False, k)\<rparr>) (\<lambda>_. None) (\<lambda>_. 0) 1 True [''a.wav''] (demo_world []) = Some (Inr (0, f, w))"
    by (simp add: tinycap_def cap_defaults_def capture_sample_def pcm_open_def Let_def)
  with tinycap_counts_freed_stream [OF 1] show ?thesis by blast
qed

section \<open>The sizes in the header\<close>

text \<open>
  when the number of frames is that of the samples and nothing wraps, the sizes in the header are those of the file:
  the one of the samples, the one of everything behind the first eight bytes, and the bytes of a second.
\<close>

theorem header_sizes:
  assumes "format_of_bits bits = Some pf" and "b = unat (pcm_format_to_bits pf) div 8"
    and "unat chans * b < 2 ^ 16" and "unat frames * (unat chans * b) = length samples" and "length samples + 36 < 2 ^ 32"
    and "unat hz * (unat chans * b) < 2 ^ 32" and "h = finish_header frames (start_header chans hz pf)"
  shows "unat (data_sz h) = length samples \<and> unat (riff_sz h) + 8 = length (header_bytes h @ samples)
    \<and> unat (block_align h) = unat chans * b \<and> unat (byte_rate h) = unat hz * (unat chans * b)"
proof -
  define x where "x = (ucast (ucast (pcm_format_to_bits pf) div 8 :: u16) :: u32)"
  have x: "unat x = b" using assms(1,2)
    by (auto simp: x_def format_of_bits_def pcm_format_to_bits_def split: if_splits)
  have cx: "unat (chans * x) = unat chans * b" using assms(3) x by (subst unat_mult_lem [THEN iffD1]) simp_all
  then have ba: "unat (ucast (chans * x) :: u16) = unat chans * b"
    using assms(3) by (simp add: unsigned_ucast_eq take_bit_nat_eq_self)
  have ba2: "unat (ucast (ucast (chans * x) :: u16) :: u32) = unat chans * b"
    using ba assms(3) by (subst unsigned_ucast_eq) (simp add: take_bit_nat_eq_self)
  have "unat (x * chans * hz) = unat hz * (unat chans * b)"
  proof -
    have "x * chans * hz = (chans * x) * hz" by (simp add: mult.commute)
    then show ?thesis using assms(6) cx by (simp add: unat_mult_lem [THEN iffD1] mult.commute)
  qed
  moreover have d: "unat (frames * ucast (ucast (chans * x) :: u16)) = length samples"
    using assms(4,5) ba2 by (subst unat_mult_lem [THEN iffD1]) simp_all
  moreover have "unat (frames * ucast (ucast (chans * x) :: u16) + 44 - 8) = length samples + 36"
  proof -
    have "frames * ucast (ucast (chans * x) :: u16) + 44 - 8 = frames * ucast (ucast (chans * x) :: u16) + 36" by simp
    then show ?thesis using d assms(5) by (simp add: unat_add_lem [THEN iffD1])
  qed
  ultimately show ?thesis using ba assms(7)
    by (simp add: finish_header_def start_header_def Let_def x_def)
qed

theorem header_sizes_witness:
  "unat (data_sz (finish_header 2 (start_header 2 44100 PCM_FORMAT_S16_LE))) = 8"
proof -
  have "format_of_bits 16 = Some PCM_FORMAT_S16_LE" by (simp add: format_of_bits_def)
  from header_sizes [OF this, of 2 2 2 "replicate 8 0" 44100, OF _ _ _ _ _ refl] show ?thesis
    by (simp add: pcm_format_to_bits_def)
qed

section \<open>Their options\<close>

interpretation cap_table: option_table cap_options
  by unfold_locales (auto simp: cap_options_def)

interpretation play_table: option_table play_options
  by unfold_locales (auto simp: play_options_def)

text \<open>
  tinycap understands its options in any order, and a name at the end of its arguments, without a value, changes
  nothing.
\<close>

theorem tinycap_options_any_order:
  assumes "list_all (good_pair cap_options) ps" and "distinct (map fst ps)" and "mset ps = mset qs" and "a \<in> fst ` set cap_options"
  shows "tinycap K alloc wr n creatable (name # pairs_of ps) w = tinycap K alloc wr n creatable (name # pairs_of qs) w
    \<and> tinycap K alloc wr n creatable (name # pairs_of ps @ [a]) w = tinycap K alloc wr n creatable (name # pairs_of ps) w"
  using cap_table.any_order [OF assms(1-3)] cap_table.parse_chained_last [OF assms(1,4)] parse_chained_pairs [OF assms(1)]
  by (simp add: tinycap_def)

theorem tinycap_options_any_order_witness:
  "tinycap K alloc wr n creatable [''a.wav'', ''-r'', ''8000'', ''-c'', ''1''] w
    = tinycap K alloc wr n creatable [''a.wav'', ''-c'', ''1'', ''-r'', ''8000''] w"
proof -
  have g: "list_all (good_pair cap_options) [(''-r'', ''8000''), (''-c'', ''1'')]"
    by (simp add: good_pair_def cap_options_def atoi_def decimal_def is_space_def is_digit_def s32_def)
  from tinycap_options_any_order [OF g, of "[(''-c'', ''1''), (''-r'', ''8000'')]" "''-r''" K alloc wr n creatable "''a.wav''" w]
  show ?thesis by (simp add: cap_options_def add_mset_commute)
qed

text \<open>
  tinyplay, on a file in which it finds the samples, ignores the name \<^verbatim>\<open>-D\<close> at the end of its arguments, and
  crashes on any other: it compares the \<^verbatim>\<open>NULL\<close> behind the arguments with the names that it tries next.
\<close>

theorem tinyplay_trailing_option:
  assumes "fread_bytes 12 d 0 riff = (riff1, pos)" and "is_riff_wave riff1" and "find_data d pos hdr fmt = Some (pos1, fmt1)"
    and "list_all (good_pair play_options) ps" and "a \<in> fst ` set play_options"
  shows "tinyplay K alloc n (riff, hdr, fmt) (Some d) (name # pairs_of ps @ [a]) w
    = (if a = ''-D'' then tinyplay K alloc n (riff, hdr, fmt) (Some d) (name # pairs_of ps) w else Some (Inl NullDeref))"
proof -
  have "fst (last play_options) = ''-D''" by (simp add: play_options_def)
  with play_table.parse_separate_last [OF assms(4,5)] parse_separate_pairs [OF play_table.names_differ assms(4)]
  show ?thesis by (simp add: tinyplay_def assms(1-3))
qed

theorem tinyplay_trailing_option_witness:
  "tinyplay K alloc n (replicate 12 0, replicate 8 0, replicate 16 0)
     (Some (bytes_le32 ID_RIFF @ bytes_le32 12 @ bytes_le32 ID_WAVE @ bytes_le32 ID_DATA @ bytes_le32 0))
     [''a.wav'', ''-D'', ''1'', ''-p''] w = Some (Inl NullDeref)"
proof -
  let ?d = "bytes_le32 ID_RIFF @ bytes_le32 12 @ bytes_le32 ID_WAVE @ bytes_le32 ID_DATA @ bytes_le32 0"
  have f: "fread_bytes 12 ?d 0 (replicate 12 0) = (bytes_le32 ID_RIFF @ bytes_le32 12 @ bytes_le32 ID_WAVE, 12)"
    using fread_next [of "bytes_le32 ID_RIFF @ bytes_le32 12 @ bytes_le32 ID_WAVE" 12 "replicate 12 0" "[]" "bytes_le32 ID_DATA @ bytes_le32 0"] by simp
  have r: "is_riff_wave (bytes_le32 ID_RIFF @ bytes_le32 12 @ bytes_le32 ID_WAVE)" by (simp add: is_riff_wave_def)
  have h: "fread_bytes 8 ?d 12 (replicate 8 0) = (bytes_le32 ID_DATA @ bytes_le32 0, 20)"
    using fread_next [of "bytes_le32 ID_DATA @ bytes_le32 0" 8 "replicate 8 0" "bytes_le32 ID_RIFF @ bytes_le32 12 @ bytes_le32 ID_WAVE" "[]"] by simp
  have fd: "find_data ?d 12 (replicate 8 0) (replicate 16 0) = Some (20, replicate 16 0)"
    by (subst find_data.simps) (simp only: h prod.case, simp add: chunk_id_def ID_DATA_def ID_FMT_def)
  have g: "list_all (good_pair play_options) [(''-D'', ''1'')]"
    by (simp add: good_pair_def play_options_def atoi_def decimal_def is_space_def is_digit_def s32_def)
  have a: "''-p'' \<in> fst ` set play_options" by (simp add: play_options_def)
  from tinyplay_trailing_option [OF f r fd g a, of K alloc n "''a.wav''" w] show ?thesis by simp
qed

end
