(* ===== verification/SpeechRecord.thy ===== *)
theory SpeechRecord
  imports WavTools SpeechFaults
begin

text \<open>
  speech/test/speecharraytest.c: the recorder of the microphone array. It reads with \<^verbatim>\<open>SpeechArrayRead\<close> into a
  buffer of 19200 bytes, writes what it read to a WAV file, and stops at the deadline or at a signal.
\<close>

section \<open>The recorder\<close>

definition BUFFER_SIZE :: nat where "BUFFER_SIZE = 4 * 6 * 16000 div 20"

text \<open>
  The rounds of the recorder; \<open>n\<close> rounds after the first one, the deadline has passed or the signal has come. \<open>wr\<close>
  answers \<^verbatim>\<open>fwrite\<close>. The result has the handle, the bytes counted and those written.
\<close>

fun record_loop ::
    "'k pcm_kernel \<Rightarrow> copier \<Rightarrow> nat \<Rightarrow> (nat \<Rightarrow> nat) \<Rightarrow> int \<Rightarrow> SpeechArrayHandle_t option \<Rightarrow> u8 list \<Rightarrow> int \<Rightarrow> u8 list \<Rightarrow> 'k sound
      \<Rightarrow> (SpeechArrayHandle_t option \<times> int \<times> u8 list \<times> 'k sound) res option" where
  "record_loop K C n wr sz ho buff bytes_write out w =
     (case SpeechArrayRead K C ho (Some buff) sz w of
        None \<Rightarrow> None
      | Some (Inl f) \<Rightarrow> Some (Inl f)
      | Some (Inr (len, h, bo, w1)) \<Rightarrow>
          if len \<le> 0 then Some (Inr (Some h, bytes_write, out, w1))
          else (let buff1 = (case bo of None \<Rightarrow> buff | Some b \<Rightarrow> b); taken = min (wr n) (nat len)
                in case slice buff1 0 taken of
                     Inl f \<Rightarrow> Some (Inl f)
                   | Inr d \<Rightarrow>
                       if int taken \<noteq> len then Some (Inr (Some h, bytes_write, out @ d, w1))
                       else (case s32 (bytes_write + len) of
                               Inl f \<Rightarrow> Some (Inl f)
                             | Inr bw \<Rightarrow>
                                 (case n of
                                    0 \<Rightarrow> Some (Inr (Some h, bw, out @ d, w1))
                                  | Suc m \<Rightarrow> record_loop K C m wr sz (Some h) buff1 bw (out @ d) w1))))"

declare record_loop.simps [simp del]

record rec_args =
  r_card :: u32
  r_device :: u32
  r_channels :: u32
  r_rate :: u32
  r_bits :: u32
  r_period_size :: u32
  r_period_count :: u32
  r_cap_time :: u32

definition rec_defaults :: rec_args where
  "rec_defaults = \<lparr>r_card = 0, r_device = 0, r_channels = 2, r_rate = 48000, r_bits = 16, r_period_size = 9600, r_period_count = 2,
     r_cap_time = 0\<rparr>"

definition rec_options :: "rec_args options" where
  "rec_options =
     [(''-d'', \<lambda>n c. c\<lparr>r_device := of_int n\<rparr>), (''-c'', \<lambda>n c. c\<lparr>r_channels := of_int n\<rparr>), (''-r'', \<lambda>n c. c\<lparr>r_rate := of_int n\<rparr>),
      (''-b'', \<lambda>n c. c\<lparr>r_bits := of_int n\<rparr>), (''-D'', \<lambda>n c. c\<lparr>r_card := of_int n\<rparr>), (''-p'', \<lambda>n c. c\<lparr>r_period_size := of_int n\<rparr>),
      (''-n'', \<lambda>n c. c\<lparr>r_period_count := of_int n\<rparr>), (''-T'', \<lambda>n c. c\<lparr>r_cap_time := of_int n\<rparr>)]"

text \<open>The block alignment is taken from the 16 bits of \<^verbatim>\<open>num_channels\<close>; the size is unsigned arithmetic, read as an \<^verbatim>\<open>int\<close>.\<close>

definition record_header :: "u32 \<Rightarrow> u32 \<Rightarrow> pcm_format \<Rightarrow> wav_header" where
  "record_header chans hz fmt =
     (let h = start_header chans hz fmt
      in h\<lparr>block_align := of_int (uint (num_channels h) * (uint (bits_per_sample h) div 8))\<rparr>)"

definition record_size :: "rec_args \<Rightarrow> int" where
  "record_size c = sint (r_bits c * r_channels c * r_period_count c * r_period_size c div 8)"

definition record_config :: "rec_args \<Rightarrow> pcm_format \<Rightarrow> SpeechArray_t \<Rightarrow> SpeechArray_t" where
  "record_config c fmt sc = sc\<lparr>sa_card := r_card c, sa_device := r_device c, sa_channels := r_channels c, sa_rate := r_rate c,
     sa_format := fmt, sa_period_count := r_period_count c, sa_period_size := r_period_size c\<rparr>"

text \<open>
  The whole tool; \<open>sc\<close> is what its stack has in the fields of the configuration that it leaves alone. A handle that is
  null is used all the same.
\<close>

definition speecharraytest ::
    "'k pcm_kernel \<Rightarrow> copier \<Rightarrow> allocations \<Rightarrow> (nat \<Rightarrow> nat) \<Rightarrow> nat \<Rightarrow> SpeechArray_t \<Rightarrow> bool \<Rightarrow> string list \<Rightarrow> 'k sound
      \<Rightarrow> (int \<times> u8 list option \<times> 'k sound) res option" where
  "speecharraytest K C E wr n sc creatable argv w =
     (if argv = [] then Some (Inr (1, None, w))
      else if \<not> creatable then Some (Inr (1, None, w))
      else case parse_chained rec_options (tl argv) rec_defaults of
             Inl f \<Rightarrow> Some (Inl f)
           | Inr c \<Rightarrow>
               (case format_of_bits (r_bits c) of
                  None \<Rightarrow> Some (Inr (1, Some [], w))
                | Some fmt \<Rightarrow>
                    (case speechArrayOpen K E (Some (record_config c fmt sc)) (snd (speechArrayInit K w)) of
                       None \<Rightarrow> None
                     | Some (ho, w1) \<Rightarrow>
                         map_option (\<lambda>r. bindE r (\<lambda>(h, bytes_write, out, w2).
                             Inr (0, Some (header_bytes (finish_header (of_int (bytes_write sdiv 12)) (record_header (r_channels c) (r_rate c) fmt)) @ out),
                               snd (speechArrayUninit K (snd (speechArrayClose K h w2))))))
                           (record_loop K C n wr (record_size c) ho (replicate BUFFER_SIZE 0) 0 [] w1))))"

section \<open>A recording\<close>

lemma record_round:
  assumes "SpeechArrayRead K C ho (Some buff) sz w = Some (Inr (int len, h, Some b, w1))" and "0 < len" and "len \<le> length b"
    and "len \<le> wr n" and "bw + len < 2 ^ 31"
  shows "record_loop K C n wr sz ho buff (int bw) out w
    = (case n of
         0 \<Rightarrow> Some (Inr (Some h, int (bw + len), out @ take len b, w1))
       | Suc m \<Rightarrow> record_loop K C m wr sz (Some h) b (int (bw + len)) (out @ take len b) w1)"
proof -
  have "min (wr n) (nat (int len)) = len" using assms(4) by simp
  moreover have "s32 (int bw + int len) = Inr (int (bw + len))" using assms(5) by (simp add: s32_def)
  ultimately show ?thesis using assms(1-3) by (cases n; subst record_loop.simps) (simp_all add: Let_def slice_def)
qed

lemma sequence_loud:
  assumes "pours K src" and "src fs p w" and "buffered m h frs"
  shows "\<forall>fr \<in> set (map (sequence frs fs) xs). loud fr"
  using assms by (auto simp: sequence_def buffered_def pours_def)



section \<open>A request that is too long\<close>

lemma deliver_short_buffer:
  assumes "length (buffer h1) = 96 * m" and "96 * m < 2 ^ 31" and "take (48 * length frs) (buffer h1) = raw frs"
    and "\<forall>fr \<in> set frs. loud fr" and "length frs \<le> 2 * m" and "frs \<noteq> []" and "length buff < 12 * length frs"
  shows "deliver C h1 (int (12 * length frs)) (int (48 * length frs)) buff = Inl OutOfBounds"
proof -
  note B = assms(1,2)
  have all: "48 * length frs \<le> length (buffer h1)" using assms(5) B by simp
  from parse_loud [OF words_of_frames [OF assms(3) all assms(4)] assms(4,6)] B obtain b1 where
    b1: "parseData_INT32 (buffer h1) (int (48 * length frs)) = Inr (int (12 * length frs), b1)" "length b1 = 96 * m"
      "take (12 * length frs) b1 = samples frs" by (auto simp: dvd_def)
  have "12 * length frs < 2 ^ 31" "12 * length frs \<le> length b1" using assms(5) B b1(2) by linarith+
  then have "slice b1 0 (size_of (int (12 * length frs))) = Inr (samples frs)"
    using b1(3) by (simp add: size_of_nat mem_simps del: of_nat_mult)
  moreover have "blit buff 0 (samples frs) = Inl OutOfBounds"
    using length_samples [OF assms(4)] assms(7) by (simp add: blit_def)
  moreover have "(if int (12 * length frs) * HW_OUT_DATA_RATIO < int (48 * length frs) then int (12 * length frs) * HW_OUT_DATA_RATIO
      else int (48 * length frs)) = int (48 * length frs)" by (simp add: HW_OUT_DATA_RATIO_def)
  ultimately show ?thesis unfolding deliver_def Let_def by (simp only: b1(1) bindE_simps prod.case)
qed

text \<open>One call for at least all that the buffer can hold, into a block that is shorter than that.\<close>

lemma read_short_buffer:
  assumes "pours K src" and "src fs p (sw w)" and "pcm_handle h = Some p" and "array_ok m (h\<lparr>out_align := 12\<rparr>)"
    and "data_size h = 0" and "out_align h = int a" and "0 < a" and "a dvd len" and "24 * m \<le> len" and "length buff < 24 * m"
  shows "SpeechArrayRead K C (Some h) (Some buff) (int len) w = Some (Inl OutOfBounds)"
proof -
  have h: "ratio h = 4" "hw_align h = 8" "buff_size h = int (96 * m)" "0 < m" "96 * m < 2 ^ 31" "length (buffer h) = 96 * m"
    using assms(4) by (simp_all add: array_ok_def)
  have "int len smod int a = 0" using assms(8) smod_nat [of len a] by (simp add: mod_eq_0_iff_dvd)
  then have 1: "read_refused h (Some buff) (int len) = Inr False"
    using assms(6,7,9) h(4) by (simp add: read_refused_def c_rem_def)
  have 2: "clamp_len h (int len) = Inr (int (24 * m))"
    using h assms(9) sdiv_nat [of "96 * m" 4] by (simp add: clamp_len_def)
  have half: "half_buffer h = int (48 * m)" using h sdiv_nat [of "96 * m" 2] by (simp add: half_buffer_def HW_BUFFER_COUNT_def)
  have "round_up (int (96 * m)) 8 = Inr (int (96 * m))" using round_up_nat [of 8 "96 * m"] by simp
  then have 3: "first_read h (int (24 * m)) = Inr (int (96 * m))"
    using h assms(5) half by (simp add: first_read_def HW_OUT_DATA_RATIO_def)
  have fits: "48 * 0 + 48 * (2 * m) \<le> length (buffer h)" "length (buffer h) < 2 ^ 31" "take (48 * 0) (buffer h) = raw []" "0 < 2 * m"
    using h by simp_all
  obtain b p' w1 where r: "read_into K h (int (48 * 0)) (int (48 * (2 * m))) (sw w) = Some (Inr (0, h\<lparr>buffer := b, pcm_handle := Some p'\<rparr>, w1))"
    "length b = 96 * m" "take (48 * (2 * m)) b = raw (map fs [0..<2 * m])"
    using read_into_frames [OF assms(1-3) fits(4,1,2,3)] h(6) by auto
  let ?h1 = "h\<lparr>buffer := b, pcm_handle := Some p'\<rparr>" and ?all = "map fs [0..<2 * m]"
  have l: "\<forall>fr \<in> set ?all. loud fr" "?all \<noteq> []" using loud_map [OF assms(1,2), of "[0..<2 * m]"] h(4) by auto
  have "words b = concat ?all @ drop (12 * length ?all) (words b)" by (rule words_of_frames) (use r l in simp_all)
  from skip_loud [OF this l] have sk: "skip_pass C ?h1 (int (24 * m)) (int (48 * (2 * m))) (int (48 * 0)) (int (48 * 0) + int (48 * (2 * m))) False
      = Inr (Deliver ?h1 (int (48 * (2 * m))))" by (simp add: skip_pass_def)
  obtain w2 where w2: "dump ?h1 (int (48 * 0)) (int (48 * (2 * m))) (w\<lparr>sw := w1\<rparr>) = Inr w2"
    using dump_fits [of "48 * (2 * m)" "48 * 0" ?h1 "w\<lparr>sw := w1\<rparr>"] h r(2) by auto
  have "deliver C ?h1 (int (12 * length ?all)) (int (48 * length ?all)) buff = Inl OutOfBounds"
    by (rule deliver_short_buffer [of _ m]) (use assms(10) r l h(5) in simp_all)
  moreover have "12 * length ?all = 24 * m" "48 * length ?all = 48 * (2 * m)" by simp_all
  ultimately have d: "deliver C ?h1 (int (24 * m)) (int (48 * (2 * m))) buff = Inl OutOfBounds" by (simp only:)
  have n: "int (48 * (2 * m)) \<noteq> 0" using h(4) by simp
  have e: "int (96 * m) = int (48 * (2 * m))" by simp
  have "read_loop K C (int (24 * m)) (int (48 * (2 * m))) (int (48 * 0)) (int (48 * 0)) (int (48 * (2 * m))) False h buff w = Some (Inl OutOfBounds)"
    by (subst read_loop.simps) (simp only: n r(1) sk w2 d option.case sum.case prod.case bindE_simps pass.case if_True if_False
        refl simp_thms)
  then show ?thesis unfolding e [symmetric]
    by (simp add: SpeechArrayRead_def 1 2 3 assms(5) del: of_nat_mult)
qed

text \<open>
  with the default options the recorder asks for 76800 bytes, and the call hands out as much as
  a quarter of the microphones' buffer: when that is more than the 19200 bytes of the recorder, the first round writes
  past its end.
\<close>

theorem default_recording_overflows:
  assumes "pours K src" and "src fs p w1" and "got_handle E" and "got_lock E" and "got_cond E" and "got_buffer E" and "pcm_is_ready p"
    and "pcm_open K 0 0 PCM_IN (Some hw_config) (sw (snd (speechArrayInit K w))) = Some (Some p, Some conf, w1)"
    and "buffer_size p = of_nat (6 * m)" and "channels conf = 2" and "format conf = PCM_FORMAT_S32_LE"
    and "BUFFER_SIZE < 24 * m" and "24 * m \<le> 76800"
  shows "speecharraytest K C E wr n sc True [name] w = Some (Inl OutOfBounds)"
proof -
  define c where "c = record_config rec_defaults PCM_FORMAT_S16_LE sc"
  have c: "sa_card c = 0" "sa_device c = 0" "sa_channels c = 2" "sa_format c = PCM_FORMAT_S16_LE"
    by (simp_all add: c_def record_config_def rec_defaults_def)
  have m: "0 < m" "96 * m < 2 ^ 31" using assms(12,13) by (auto simp: BUFFER_SIZE_def)
  have p: "channels (config p) = 2" "format (config p) = PCM_FORMAT_S32_LE" using assms(1,2) by (auto simp: pours_def)
  define h where "h = ready_handle E c p conf"
  have "ready_handle E c p conf\<lparr>out_align := 12\<rparr> = ready_handle E (c\<lparr>sa_channels := 6\<rparr>) p conf\<lparr>array_config := c\<rparr>"
    using c by (simp add: ready_handle_def new_handle_def Let_def pcm_format_to_bits_def)
  then have ok: "array_ok m (h\<lparr>out_align := 12\<rparr>)"
    using ready_handle_ok [OF p assms(9) m _ _ assms(10,11), of "c\<lparr>sa_channels := 6\<rparr>" E] c by (simp add: h_def array_ok_def)
  have h: "out_align h = int 4" "pcm_handle h = Some p" "data_size h = 0"
    using c by (simp_all add: h_def ready_handle_def new_handle_def Let_def pcm_format_to_bits_def)
  have "0 \<le> buff_size h" using ok by (simp add: array_ok_def)
  then have open_h: "speechArrayOpen K E (Some c) (snd (speechArrayInit K w)) = Some (Some h, snd (speechArrayInit K w)\<lparr>sw := w1\<rparr>)"
    using assms(3-8) c by (simp add: speechArrayOpen_def DEFAULT_PCM_FLAGS_def h_def Let_def)
  let ?w = "snd (speechArrayInit K w)\<lparr>sw := w1\<rparr>"
  have "record_size rec_defaults = int 76800" by (simp add: record_size_def rec_defaults_def)
  moreover have "SpeechArrayRead K C (Some h) (Some (replicate BUFFER_SIZE 0)) (int 76800) ?w = Some (Inl OutOfBounds)"
    by (rule read_short_buffer [of K src fs p ?w h m 4]) (use assms ok h in simp_all)
  ultimately have "record_loop K C n wr (record_size rec_defaults) (Some h) (replicate BUFFER_SIZE 0) 0 [] ?w = Some (Inl OutOfBounds)"
    by (subst record_loop.simps) (simp del: of_nat_numeral)
  moreover have "format_of_bits (r_bits rec_defaults) = Some PCM_FORMAT_S16_LE" by (simp add: format_of_bits_def rec_defaults_def)
  ultimately show ?thesis using open_h by (simp add: speecharraytest_def c_def)
qed

text \<open>A stream that always delivers the same frame, once it is open.\<close>

definition ringing :: "(nat \<Rightarrow> u32 list) \<Rightarrow> pcm \<Rightarrow> demo world \<Rightarrow> bool" where
  "ringing fs p w \<longleftrightarrow> fs = (\<lambda>i. demo_frame 0x40) \<and> channels (config p) = 2 \<and> format (config p) = PCM_FORMAT_S32_LE
     \<and> has (flags p) PCM_IN \<and> \<not> has (flags p) PCM_MMAP"

lemma ringing_read:
  assumes "ringing fs p w" and "48 * n < 2 ^ 31"
  shows "\<exists>p' w'. pcm_read tone_kernel buf (of_nat (48 * n)) p w = Some (Inr (0, overwrite buf 0 (raw (map fs [0..<n])), p', w'))
    \<and> ringing fs p' w'"
proof -
  have c: "channels (config p) = 2" "format (config p) = PCM_FORMAT_S32_LE" "has (flags p) PCM_IN" "\<not> has (flags p) PCM_MMAP"
    using assms(1) by (simp_all add: ringing_def)
  obtain p1 w1 where s: "(if running p then (0, p, w) else pcm_start tone_kernel p w) = (0, p1, w1)"
      and f: "config p1 = config p" "flags p1 = flags p"
    using c(4) by (cases "running p"; cases "prepared p")
      (auto simp: pcm_start_def pcm_prepare_def tone_kernel_def demo_kernel_def sys_def Let_def)
  have "unat (of_nat (6 * n) :: u64) = 6 * n" using assms(2) by (intro unat_of_nat_small) simp
  then have "\<exists>w2. pcm_read_loop tone_kernel (of_nat (6 * n)) buf p w = Some (0, overwrite buf 0 (raw (replicate n (demo_frame 0x40))), p1, w2)"
    using s by (subst pcm_read_loop.simps) (simp add: tone_kernel_def sys_def del: of_nat_mult)
  then show ?thesis using frame_sizes(1) [OF c(1,2) assms(2)] c f assms(1)
    by (auto simp: pcm_read_def map_replicate_const ringing_def simp del: of_nat_mult)
qed

lemma ringing_pours: "pours tone_kernel ringing"
proof -
  have "loud (demo_frame 0x40)" using demo_frame_ok by (simp add: loud_def)
  moreover have "(\<lambda>i. fs (i + n)) = fs" if "ringing fs p w" for fs p w n using that by (simp add: ringing_def)
  ultimately show ?thesis unfolding pours_def using ringing_read by (auto simp: ringing_def)
qed

theorem default_recording_overflows_witness:
  "speecharraytest tone_kernel move_bytes all_granted (\<lambda>_. 100000) 3 (array_config tone_handle) True [''a.wav''] tone_world
    = Some (Inl OutOfBounds)"
proof -
  let ?v = "sw (snd (speechArrayInit tone_kernel tone_world))"
  obtain p c w1 where o: "pcm_open tone_kernel 0 0 PCM_IN (Some hw_config) ?v = Some (Some p, Some c, w1)"
    "fd p = int (d_fresh (kst ?v))" "flags p = PCM_IN" "channels (config p) = 2" "format (config p) = PCM_FORMAT_S32_LE"
    "buffer_size p = 6144" "channels c = 2" "format c = PCM_FORMAT_S32_LE" using demo_open_array [OF tone_kernel_def] by blast
  have "ringing (\<lambda>i. demo_frame 0x40) p w1" using o(3-5) by (simp add: ringing_def has_def PCM_IN_def PCM_MMAP_def)
  moreover have "buffer_size p = of_nat (6 * 1024)" using o(6) by simp
  moreover have "pcm_is_ready p" using o(2) by (simp add: pcm_is_ready_def)
  ultimately show ?thesis
    using default_recording_overflows [OF ringing_pours, of "\<lambda>i. demo_frame 0x40" p w1 all_granted tone_world c 1024] o(1,7,8)
    by (simp add: all_granted_def BUFFER_SIZE_def)
qed

section \<open>Its options\<close>

interpretation rec_table: option_table rec_options
  by unfold_locales (auto simp: rec_options_def)

text \<open>
  The recorder understands its options in any order, and a name at the end of its arguments, without a value, changes
  nothing.
\<close>

theorem recorder_options_any_order:
  assumes "list_all (good_pair rec_options) ps" and "distinct (map fst ps)" and "mset ps = mset qs" and "a \<in> fst ` set rec_options"
  shows "speecharraytest K C E wr n sc creatable (name # pairs_of ps) w = speecharraytest K C E wr n sc creatable (name # pairs_of qs) w
    \<and> speecharraytest K C E wr n sc creatable (name # pairs_of ps @ [a]) w = speecharraytest K C E wr n sc creatable (name # pairs_of ps) w"
  using rec_table.any_order [OF assms(1-3)] rec_table.parse_chained_last [OF assms(1,4)] parse_chained_pairs [OF assms(1)]
  by (simp add: speecharraytest_def)

theorem recorder_options_any_order_witness:
  "speecharraytest K C E wr n sc creatable [''a.wav'', ''-T'', ''10'', ''-p'', ''1024''] w
    = speecharraytest K C E wr n sc creatable [''a.wav'', ''-p'', ''1024'', ''-T'', ''10''] w"
proof -
  have g: "list_all (good_pair rec_options) [(''-T'', ''10''), (''-p'', ''1024'')]"
    by (simp add: good_pair_def rec_options_def atoi_def decimal_def is_space_def is_digit_def s32_def)
  from recorder_options_any_order [OF g, of "[(''-p'', ''1024''), (''-T'', ''10'')]" "''-T''" K C E wr n sc creatable "''a.wav''" w]
  show ?thesis by (simp add: rec_options_def add_mset_commute)
qed

end
