(* ===== verification/Tinymix.thy ===== *)
theory Tinymix
  imports ToolArgs Texts MixerValues
begin

text \<open>
  speech/test/tinymix.c: the tool that lists, shows and sets the controls of a mixer, over the functions of
  mixer.c. What it prints on its standard output is a text, what it complains about a value. The bytes of a
  control are printed as plain \<^verbatim>\<open>char\<close>, which is unsigned on the ARM targets of the library.
\<close>

section \<open>Texts and numbers\<close>


text \<open>\<^verbatim>\<open>strtol\<close> in any base up to 16: the number, what is left, and whether the number was out of range.\<close>

definition digit_value :: "char \<Rightarrow> int" where
  "digit_value c =
     (let n = of_char c in if 48 \<le> n \<and> n \<le> 57 then n - 48 else if 97 \<le> n \<and> n \<le> 102 then n - 87
      else if 65 \<le> n \<and> n \<le> 70 then n - 55 else 99)"

definition number_in :: "int \<Rightarrow> string \<Rightarrow> int" where
  "number_in b ds = foldl (\<lambda>n c. b * n + digit_value c) 0 ds"

definition prefix_base :: "string \<Rightarrow> int \<times> string" where
  "prefix_base s =
     (if 3 \<le> length s \<and> s ! 0 = CHR ''0'' \<and> (s ! 1 = CHR ''x'' \<or> s ! 1 = CHR ''X'') \<and> digit_value (s ! 2) < 16 then (16, drop 2 s)
      else if s \<noteq> [] \<and> s ! 0 = CHR ''0'' then (8, s) else (10, s))"

definition strtol :: "string \<Rightarrow> int \<times> string \<times> bool" where
  "strtol s =
     (let t = dropWhile is_space s; minus = (t \<noteq> [] \<and> hd t = CHR ''-'');
          (b, u) = prefix_base (if t \<noteq> [] \<and> (hd t = CHR ''-'' \<or> hd t = CHR ''+'') then tl t else t);
          ds = takeWhile (\<lambda>c. digit_value c < b) u;
          n = (if minus then - number_in b ds else number_in b ds)
      in if ds = [] then (0, s, False)
         else (max (- (2 ^ 63)) (min (2 ^ 63 - 1) n), dropWhile (\<lambda>c. digit_value c < b) u, n < - (2 ^ 63) \<or> 2 ^ 63 \<le> n))"

section \<open>Showing\<close>

text \<open>A control is named by its number, if the argument starts with a digit, or by its name.\<close>

definition find_control :: "mixer \<Rightarrow> string \<Rightarrow> nat option res" where
  "find_control m control =
     (if control \<noteq> [] \<and> is_digit (hd control) then bindE (atoi control) (\<lambda>n. Inr (mixer_get_ctl (Some m) (of_int n)))
      else mixer_get_ctl_by_name (Some m) control)"

definition print_enum_item ::
    "'k mixer_kernel \<Rightarrow> mixer \<Rightarrow> nat option \<Rightarrow> bool \<Rightarrow> nat \<Rightarrow> string \<times> 'k mstate \<Rightarrow> (string \<times> 'k mstate) res" where
  "print_enum_item K m co print_all i = (\<lambda>(out, s).
     bindE (mixer_ctl_get_enum_string m co (of_nat i)) (\<lambda>so.
     bindE (mixer_ctl_get_value K m co 0 s) (\<lambda>(v, s1).
       let here = (v = to_int (int i))
       in if \<not> print_all \<and> \<not> here then Inr (out, s1)
          else (case so of
                  None \<Rightarrow> Inl NullDeref
                | Some str \<Rightarrow> Inr (out @ (if print_all then tab @ (if here then ''>'' else '''') else '' '') @ str, s1)))))"

definition tinymix_print_enum ::
    "'k mixer_kernel \<Rightarrow> mixer \<Rightarrow> nat option \<Rightarrow> bool \<Rightarrow> string \<times> 'k mstate \<Rightarrow> (string \<times> 'k mstate) res" where
  "tinymix_print_enum K m co print_all os =
     bindE (mixer_ctl_get_num_enums m co) (\<lambda>n. foldE (print_enum_item K m co print_all) [0..<unat n] os)"

definition print_value ::
    "'k mixer_kernel \<Rightarrow> mixer \<Rightarrow> nat option \<Rightarrow> bool \<Rightarrow> mixer_ctl_type \<Rightarrow> u8 list \<Rightarrow> nat \<Rightarrow> string \<times> 'k mstate \<Rightarrow> (string \<times> 'k mstate) res" where
  "print_value K m co print_all ty buf i = (\<lambda>(out, s).
     case ty of
       MIXER_CTL_TYPE_INT \<Rightarrow> bindE (mixer_ctl_get_value K m co (of_nat i) s) (\<lambda>(v, s1). Inr (out @ '' '' @ fmt_int v, s1))
     | MIXER_CTL_TYPE_BOOL \<Rightarrow>
         bindE (mixer_ctl_get_value K m co (of_nat i) s) (\<lambda>(v, s1). Inr (out @ '' '' @ (if v \<noteq> 0 then ''On'' else ''Off''), s1))
     | MIXER_CTL_TYPE_ENUM \<Rightarrow> tinymix_print_enum K m co print_all (out, s)
     | MIXER_CTL_TYPE_BYTE \<Rightarrow> bindE (ld buf i) (\<lambda>b. Inr (out @ fmt_02x b, s))
     | _ \<Rightarrow> Inr (out @ '' unknown'', s))"

definition print_control ::
    "'k mixer_kernel \<Rightarrow> mixer \<Rightarrow> nat option \<Rightarrow> bool \<Rightarrow> mixer_ctl_type \<Rightarrow> u32 \<Rightarrow> u8 list \<Rightarrow> string \<times> 'k mstate \<Rightarrow> (string \<times> 'k mstate) res" where
  "print_control K m co print_all ty n buf = (\<lambda>(out, s).
     bindE (mixer_ctl_get_name m co) (\<lambda>nm.
     bindE (if \<not> print_all then Inr out else case nm of None \<Rightarrow> Inl NullDeref | Some x \<Rightarrow> Inr (out @ x @ '':'')) (\<lambda>out1.
     bindE (foldE (print_value K m co print_all ty buf) [0..<unat n] (out1, s)) (\<lambda>(out2, s1).
     bindE (mixer_ctl_get_range_min m co) (\<lambda>lo.
     bindE (mixer_ctl_get_range_max m co) (\<lambda>hi.
       Inr (out2 @ (if print_all \<and> ty = MIXER_CTL_TYPE_INT then '' (range '' @ fmt_int lo @ ''->'' @ fmt_int hi @ '')'' else '''') @ nl, s1)))))))"

definition tinymix_detail_control ::
    "'k mixer_kernel \<Rightarrow> mixer \<Rightarrow> string \<Rightarrow> bool \<Rightarrow> string \<times> 'k mstate \<Rightarrow> (string \<times> 'k mstate) res" where
  "tinymix_detail_control K m control print_all = (\<lambda>(out, s).
     bindE (find_control m control) (\<lambda>co.
       if co = None then Inr (out, s)
       else bindE (mixer_ctl_get_type m co) (\<lambda>ty.
            bindE (mixer_ctl_get_num_values m co) (\<lambda>n.
              if ty \<noteq> MIXER_CTL_TYPE_BYTE then print_control K m co print_all ty n [] (out, s)
              else (case heap_alloc K s of
                      (None, s1) \<Rightarrow> Inr (out, s1)
                    | (Some a, s1) \<Rightarrow>
                        bindE (mixer_ctl_get_array K m co (Some (replicate (unat n) 0)) (ucast n) s1) (\<lambda>(ret, bo, s2).
                          if ret < 0 then bindE (heap_free a s2) (\<lambda>s3. Inr (out, s3))
                          else bindE (print_control K m co print_all ty n (the bo) (out, s2)) (\<lambda>(out1, s3).
                               bindE (heap_free a s3) (\<lambda>s4. Inr (out1, s4)))))))))"

definition list_control ::
    "'k mixer_kernel \<Rightarrow> mixer \<Rightarrow> nat \<Rightarrow> string \<times> 'k mstate \<Rightarrow> (string \<times> 'k mstate) res" where
  "list_control K m i = (\<lambda>(out, s).
     let co = mixer_get_ctl (Some m) (of_nat i)
     in bindE (mixer_ctl_get_name m co) (\<lambda>nm.
        bindE (mixer_ctl_get_type_string m co) (\<lambda>ty.
        bindE (mixer_ctl_get_num_values m co) (\<lambda>n.
          case nm of
            None \<Rightarrow> Inl NullDeref
          | Some name \<Rightarrow> tinymix_detail_control K m name False
              (out @ fmt_int (to_int (int i)) @ tab @ ty @ tab @ fmt_int (sint n) @ tab @ pad_right 40 name, s)))))"

definition tinymix_list_controls :: "'k mixer_kernel \<Rightarrow> mixer \<Rightarrow> string \<times> 'k mstate \<Rightarrow> (string \<times> 'k mstate) res" where
  "tinymix_list_controls K m = (\<lambda>(out, s).
     let n = mixer_get_num_ctls (Some m)
     in foldE (list_control K m) [0..<unat n]
          (out @ ''Number of controls: '' @ fmt_int (sint n) @ nl
             @ ''ctl'' @ tab @ ''type'' @ tab @ ''num'' @ tab @ pad_right 40 ''name'' @ '' value'' @ nl, s))"

section \<open>Setting\<close>

text \<open>How a setting ends: done, with a complaint, or with the end of the program.\<close>

datatype setting = Set_done | Invalid_control | Invalid_value | Too_many_values | Needs_quotes | Not_an_enum | Exits

fun byte_values :: "string list \<Rightarrow> u8 list option" where
  "byte_values [] = Some []"
| "byte_values (v # vs) =
     (case strtol v of
        (n, left, erange) \<Rightarrow>
          if left \<noteq> [] \<or> erange \<or> n < 0 \<or> n > 0xff then None
          else map_option ((#) (of_int n)) (byte_values vs))"

definition tinymix_set_byte_ctl ::
    "'k mixer_kernel \<Rightarrow> mixer \<Rightarrow> nat option \<Rightarrow> string list \<Rightarrow> 'k mstate \<Rightarrow> (setting \<times> 'k mstate) res" where
  "tinymix_set_byte_ctl K m co values s =
     (case heap_alloc K s of
        (None, s1) \<Rightarrow> Inr (Exits, s1)
      | (Some a, s1) \<Rightarrow>
          (case byte_values values of
             None \<Rightarrow> bindE (heap_free a s1) (\<lambda>s2. Inr (Exits, s2))
           | Some buf \<Rightarrow>
               bindE (mixer_ctl_set_array K m co (Some buf) (of_nat (length values)) s1) (\<lambda>(ret, s2).
               bindE (heap_free a s2) (\<lambda>s3. Inr (if ret < 0 then Exits else Set_done, s3)))))"

fun set_loop ::
    "'k mixer_kernel \<Rightarrow> mixer \<Rightarrow> nat option \<Rightarrow> (nat \<times> int res) list \<Rightarrow> 'k mstate \<Rightarrow> (setting \<times> 'k mstate) res" where
  "set_loop K m co [] s = Inr (Set_done, s)"
| "set_loop K m co ((i, v) # ivs) s =
     bindE v (\<lambda>x. bindE (mixer_ctl_set_value K m co (of_nat i) x s) (\<lambda>(r, s1).
       if r \<noteq> 0 then Inr (Invalid_value, s1) else set_loop K m co ivs s1))"

definition tinymix_set_value ::
    "'k mixer_kernel \<Rightarrow> mixer \<Rightarrow> string \<Rightarrow> string list \<Rightarrow> 'k mstate \<Rightarrow> (setting \<times> 'k mstate) res" where
  "tinymix_set_value K m control values s =
     bindE (find_control m control) (\<lambda>co.
       if co = None then Inr (Invalid_control, s)
       else bindE (mixer_ctl_get_type m co) (\<lambda>ty.
            bindE (mixer_ctl_get_num_values m co) (\<lambda>n.
              if ty = MIXER_CTL_TYPE_BYTE then tinymix_set_byte_ctl K m co values s
              else if hd values \<noteq> [] \<and> is_digit (hd (hd values))
              then (if length values = 1
                    then bindE (atoi (hd values)) (\<lambda>v. set_loop K m co (map (\<lambda>i. (i, Inr v)) [0..<unat n]) s)
                    else if unat n < length values then Inr (Too_many_values, s)
                    else set_loop K m co (enumerate 0 (map atoi values)) s)
              else if ty = MIXER_CTL_TYPE_ENUM
              then (if length values \<noteq> 1 then Inr (Needs_quotes, s)
                    else bindE (mixer_ctl_set_enum_by_string K m co (hd values) s) (\<lambda>(r, s1).
                           Inr (if r \<noteq> 0 then Invalid_value else Set_done, s1)))
              else Inr (Not_an_enum, s))))"

text \<open>The whole tool: the exit code and the text; \<open>argv\<close> is without the name of the program.\<close>

definition tinymix :: "'k mixer_kernel \<Rightarrow> string list \<Rightarrow> 'k mstate \<Rightarrow> (int \<times> string \<times> 'k mstate) res" where
  "tinymix K argv s =
     (let chosen = (2 \<le> length argv \<and> hd argv = ''-D''); args = (if chosen then drop 2 argv else argv)
      in bindE (if chosen then atoi (argv ! 1) else Inr 0) (\<lambda>crd.
         bindE (mixer_open K (of_int crd) s) (\<lambda>(mo, s1).
           case mo of
             None \<Rightarrow> Inr (1, '''', s1)
           | Some m \<Rightarrow>
               bindE (case args of
                        [] \<Rightarrow> bindE (tinymix_list_controls K m (''Mixer name: '' @ [CHR 0x27] @ mixer_get_name m @ [CHR 0x27] @ nl, s1))
                                (\<lambda>(out, s2). Inr (False, out, s2))
                      | [control] \<Rightarrow> bindE (tinymix_detail_control K m control True ('''', s1)) (\<lambda>(out, s2). Inr (False, out, s2))
                      | control # values \<Rightarrow>
                          bindE (tinymix_set_value K m control values s1) (\<lambda>(r, s2). Inr (r = Exits, '''', s2)))
                 (\<lambda>(exits, out, s2).
                    if exits then Inr (1, out, s2) else bindE (mixer_close K (Some m) s2) (\<lambda>s3. Inr (0, out, s3))))))"

section \<open>Which control is meant\<close>

lemma digit_word: "0 \<le> x \<Longrightarrow> x < 2 ^ 31 \<Longrightarrow> unat (of_int x :: u32) = nat x"
  by (simp add: unsigned_of_int take_bit_int_eq_self)

lemma decimal_nonneg: "0 \<le> decimal s"
proof -
  have step: "0 \<le> foldl (\<lambda>n c. 10 * n + (of_char c - 48)) n ds" if "0 \<le> n" "\<forall>c \<in> set ds. is_digit c" for n :: int and ds
    using that
  proof (induction ds arbitrary: n)
    case (Cons c ds)
    have "48 \<le> (of_char c :: nat)" using Cons.prems(2) by (simp add: is_digit_def)
    then have "(48 :: int) \<le> of_char c" using of_nat_of_char [of c, where 'a = int] by linarith
    then have "0 \<le> 10 * n + (of_char c - 48)" using Cons.prems(1) by linarith
    then show ?case using Cons.IH Cons.prems(2) by simp
  qed simp
  show ?thesis unfolding decimal_def by (rule step) (auto dest: set_takeWhileD)
qed

lemma digit_no_space: "is_digit c \<Longrightarrow> \<not> is_space c \<and> c \<noteq> CHR ''-'' \<and> c \<noteq> CHR ''+''"
  by (auto simp: is_digit_def is_space_def)

lemma atoi_of_digits:
  assumes "s \<noteq> []" and "is_digit (hd s)" and "atoi s = Inr x"
  shows "0 \<le> x \<and> x < 2 ^ 31"
proof -
  obtain c cs where s: "s = c # cs" using assms(1) by (cases s) auto
  have "atoi s = s32 (decimal s)" using digit_no_space [of c] assms(2) by (simp add: atoi_def s)
  then show ?thesis using assms(3) decimal_nonneg [of s] by (auto simp: s32_def split: if_splits)
qed

text \<open>
  a name stands for the first control that has it, unless it starts with a digit: then tinymix takes
  the number that it starts with, and the row of that control in the list shows another control.
\<close>

theorem find_control_by_name:
  assumes "unat (m_count m) \<le> length (m_infos m)" and "i < unat (m_count m)" and "ei_name (m_infos m ! i) = nm"
  shows "if nm \<noteq> [] \<and> is_digit (hd nm)
    then \<forall>x. atoi nm = Inr x \<longrightarrow> find_control m nm = Inr (if nat x < unat (m_count m) then Some (nat x) else None)
    else \<exists>j \<le> i. find_control m nm = Inr (Some j) \<and> ei_name (m_infos m ! j) = nm \<and> (\<forall>k < j. ei_name (m_infos m ! k) \<noteq> nm)"
proof (cases "nm \<noteq> [] \<and> is_digit (hd nm)")
  case True
  have "find_control m nm = Inr (if nat x < unat (m_count m) then Some (nat x) else None)" if "atoi nm = Inr x" for x
    using True that digit_word [of x] atoi_of_digits [of nm x]
    by (simp add: find_control_def mixer_get_ctl_def word_less_nat_alt)
  with True show ?thesis by simp
next
  case False
  have "mixer_get_ctl_by_name (Some m) nm = Inr (find (\<lambda>n. ei_name (m_infos m ! n) = nm) [0..<unat (m_count m)])"
    using assms(1) by (simp add: mixer_get_ctl_by_name_def name_loop_find)
  then have fc: "find_control m nm = Inr (find (\<lambda>n. ei_name (m_infos m ! n) = nm) [0..<unat (m_count m)])"
    using False unfolding find_control_def by (simp only: if_False)
  obtain j where j: "find (\<lambda>n. ei_name (m_infos m ! n) = nm) [0..<unat (m_count m)] = Some j"
    using assms(2,3) by (cases "find (\<lambda>n. ei_name (m_infos m ! n) = nm) [0..<unat (m_count m)]") (auto simp: find_None_iff)
  then have f: "ei_name (m_infos m ! j) = nm" "\<forall>k < j. ei_name (m_infos m ! k) \<noteq> nm" unfolding find_upt_Some by auto
  then have "\<not> i < j" using assms(3) by blast
  then have "j \<le> i" by simp
  moreover have "find_control m nm = Inr (Some j)" unfolding fc j ..
  ultimately show ?thesis using f False by (simp only: if_False) blast
qed

theorem find_control_by_name_witness:
  "find_control (zero_mixer 1\<lparr>m_count := 2, m_infos := [volume_info, volume_info\<lparr>ei_name := ''1 kHz''\<rparr>]\<rparr>) ''1 kHz'' = Inr (Some 1)
    \<and> find_control (zero_mixer 1\<lparr>m_count := 2, m_infos := [volume_info\<lparr>ei_name := ''1 kHz''\<rparr>, volume_info]\<rparr>) ''1 kHz'' = Inr (Some 1)"
proof -
  have "atoi ''1 kHz'' = Inr 1" "is_digit (hd ''1 kHz'')"
    by (simp_all add: atoi_def decimal_def is_space_def is_digit_def s32_def)
  then show ?thesis
    using find_control_by_name [of "zero_mixer 1\<lparr>m_count := 2, m_infos := [volume_info, volume_info\<lparr>ei_name := ''1 kHz''\<rparr>]\<rparr>" 1 "''1 kHz''"]
      find_control_by_name [of "zero_mixer 1\<lparr>m_count := 2, m_infos := [volume_info\<lparr>ei_name := ''1 kHz''\<rparr>, volume_info]\<rparr>" 0 "''1 kHz''"]
    by simp
qed

section \<open>Setting and showing\<close>

text \<open>Reading a control leaves the card as it is.\<close>

definition reads_keep :: "'k mixer_kernel \<Rightarrow> int \<Rightarrow> bool" where
  "reads_keep K d \<longleftrightarrow> (\<forall>q k. snd (snd (x_elem_read K d q k)) = k)"

lemma elem_read_keeps: "reads_keep K (m_fd m) \<Longrightarrow> snd (snd (elem_read K m ei s)) = s"
  by (auto simp: elem_read_def call_def reads_keep_def Let_def split_beta)

lemma get_value_keeps:
  assumes "reads_keep K (m_fd m)" and "mixer_ctl_get_value K m co i s = Inr (v, s')"
  shows "s' = s"
proof (cases co)
  case (Some c)
  obtain ei where ei: "ctl_info m c = Inr ei" using assms(2) Some by (auto simp: mixer_ctl_get_value_def res_simps)
  obtain ret ev s1 where er: "elem_read K m ei s = (ret, ev, s1)" by (rule prod_cases3)
  then have "s1 = s" using elem_read_keeps [OF assms(1), of ei s] by simp
  then show ?thesis using assms(2) Some ei er by (auto simp: mixer_ctl_get_value_def res_simps split: if_splits)
qed (use assms(2) in \<open>simp add: mixer_ctl_get_value_def\<close>)

definition shows_value :: "'k mixer_kernel \<Rightarrow> mixer \<Rightarrow> nat \<Rightarrow> int \<Rightarrow> 'k mstate \<Rightarrow> nat \<Rightarrow> bool" where
  "shows_value K m c x s i \<longleftrightarrow> map_sum id fst (mixer_ctl_get_value K m (Some c) (of_nat i) s) = Inr x"

lemma atoi_bounds: "atoi s = Inr x \<Longrightarrow> - (2 ^ 31) \<le> x \<and> x < 2 ^ 31"
  by (auto simp: atoi_def s32_def split: list.splits if_splits)

lemma small_index: "i < 128 \<Longrightarrow> unat (of_nat i :: u32) = i"
  by (intro unat_of_nat_small) simp

text \<open>A round of settings that ends well: every value set reads so, and the others that did still do.\<close>

lemma set_loop_shows:
  assumes "ctl_info m c = Inr ei" and "ei_type ei = SNDRV_CTL_ELEM_TYPE_INTEGER" and "keeps_values K (m_fd m)"
    and "unat (ei_count ei) \<le> 128" and "- (2 ^ 31) \<le> x" and "x < 2 ^ 31"
  shows "\<forall>i \<in> set is. i < unat (ei_count ei) \<Longrightarrow> \<forall>j < unat (ei_count ei). j \<in> J \<longrightarrow> shows_value K m c x s j \<Longrightarrow>
    set_loop K m (Some c) (map (\<lambda>i. (i, Inr x)) is) s = Inr (Set_done, s1) \<Longrightarrow>
    \<forall>j < unat (ei_count ei). j \<in> J \<union> set is \<longrightarrow> shows_value K m c x s1 j"
proof (induction "is" arbitrary: s J)
  case (Cons i js)
  obtain r s2 where r: "mixer_ctl_set_value K m (Some c) (of_nat i) x s = Inr (r, s2)" "r = 0"
    "set_loop K m (Some c) (map (\<lambda>i. (i, Inr x)) js) s2 = Inr (Set_done, s1)"
    using Cons.prems(3) by (auto simp: res_simps split: if_splits)
  have i: "i < unat (ei_count ei)" "i < 128" using Cons.prems(1) assms(4) by auto
  then have lt: "(of_nat i :: u32) < ei_count ei" by (simp add: word_less_nat_alt small_index)
  have slot: "unat (of_nat i :: u32) < slots (ei_type ei)" using i(2) assms(2) by (simp add: small_index slots_def elem_type_defs)
  have st: "stored (ei_type ei) x = x" using assms(2) by (simp add: stored_def elem_type_defs)
  from value_roundtrip [OF assms(1,3) lt slot assms(5,6) r(1)] r(2)
  have rt: "\<exists>s3. mixer_ctl_get_value K m (Some c) (of_nat i) s2 = Inr (x, s3)"
    "\<forall>j. j \<noteq> of_nat i \<longrightarrow> map_sum id fst (mixer_ctl_get_value K m (Some c) j s2) = map_sum id fst (mixer_ctl_get_value K m (Some c) j s)"
    unfolding st by simp_all
  have "shows_value K m c x s2 j" if "j < unat (ei_count ei)" "j \<in> insert i J" for j
  proof (cases "j = i")
    case True
    then show ?thesis using rt(1) by (auto simp: shows_value_def)
  next
    case False
    have "j < 128" using that(1) assms(4) by simp
    then have "(of_nat j :: u32) \<noteq> of_nat i" using False i(2) small_index by metis
    then show ?thesis using rt(2) that Cons.prems(2) False unfolding shows_value_def by auto
  qed
  then have "\<forall>j < unat (ei_count ei). j \<in> insert i J \<longrightarrow> shows_value K m c x s2 j" by blast
  from Cons.IH [OF _ this r(3)] Cons.prems(1) show ?case by simp
qed simp

lemma show_values:
  assumes "reads_keep K (m_fd m)" and "\<forall>i \<in> set is. shows_value K m c x s i"
  shows "foldE (print_value K m (Some c) b MIXER_CTL_TYPE_INT buf) is (out, s) = Inr (out @ concat (map (\<lambda>i. '' '' @ fmt_int x) is), s)"
  using assms(2)
proof (induction "is" arbitrary: out)
  case (Cons i js)
  have "shows_value K m c x s i" using Cons.prems by simp
  then obtain s1 where s1: "mixer_ctl_get_value K m (Some c) (of_nat i) s = Inr (x, s1)"
    unfolding shows_value_def by (cases "mixer_ctl_get_value K m (Some c) (of_nat i) s") auto
  moreover have "s1 = s" by (rule get_value_keeps [OF assms(1) s1])
  ultimately show ?case using Cons by (simp add: print_value_def)
qed simp

text \<open>
  C32: when one number has been set on an integer control without a complaint, tinymix shows that number
  for each of the control's values, with the range of the control behind them.
\<close>

theorem set_then_show:
  assumes "find_control m control = Inr (Some c)" and "ctl_info m c = Inr ei" and "ei_type ei = SNDRV_CTL_ELEM_TYPE_INTEGER"
    and "unat (ei_count ei) \<le> 128" and "keeps_values K (m_fd m)" and "reads_keep K (m_fd m)"
    and "v \<noteq> []" and "is_digit (hd v)" and "atoi v = Inr x" and "tinymix_set_value K m control [v] s = Inr (Set_done, s1)"
  shows "tinymix_detail_control K m control True ('''', s1)
    = Inr (ei_name ei @ '':'' @ concat (replicate (unat (ei_count ei)) ('' '' @ fmt_int x))
        @ '' (range '' @ fmt_int (to_int (sint (ei_min ei))) @ ''->'' @ fmt_int (to_int (sint (ei_max ei))) @ '')'' @ nl, s1)"
proof -
  have ty: "mixer_ctl_get_type m (Some c) = Inr MIXER_CTL_TYPE_INT" and n: "mixer_ctl_get_num_values m (Some c) = Inr (ei_count ei)"
    and nm: "mixer_ctl_get_name m (Some c) = Inr (Some (ei_name ei))"
    and lo: "mixer_ctl_get_range_min m (Some c) = Inr (to_int (sint (ei_min ei)))"
    and hi: "mixer_ctl_get_range_max m (Some c) = Inr (to_int (sint (ei_max ei)))"
    using assms(2,3) by (simp_all add: mixer_ctl_get_type_def mixer_ctl_get_num_values_def mixer_ctl_get_name_def
        mixer_ctl_get_range_min_def mixer_ctl_get_range_max_def with_info_def elem_type_defs)
  have loop: "set_loop K m (Some c) (map (\<lambda>i. (i, Inr x)) [0..<unat (ei_count ei)]) s = Inr (Set_done, s1)"
    using assms(1,7-10) ty n by (simp add: tinymix_set_value_def)
  have "\<forall>j < unat (ei_count ei). j \<in> {} \<union> set [0..<unat (ei_count ei)] \<longrightarrow> shows_value K m c x s1 j"
    by (rule set_loop_shows [OF assms(2,3,5,4) _ _ _ _ loop]) (use atoi_bounds [OF assms(9)] in simp_all)
  then have sh: "\<forall>i \<in> set [0..<unat (ei_count ei)]. shows_value K m c x s1 i" by simp
  have rep: "map (\<lambda>i. '' '' @ fmt_int x) [0..<unat (ei_count ei)] = replicate (unat (ei_count ei)) ('' '' @ fmt_int x)"
    by (simp add: map_replicate_const)
  show ?thesis
    unfolding tinymix_detail_control_def print_control_def prod.case assms(1) bindE_simps ty n nm lo hi option.case
    using show_values [OF assms(6) sh, of True "[]"] rep by simp
qed

theorem set_then_show_witness:
  "\<exists>s1. tinymix_detail_control (desk_kernel (SysOk 0)) desk_mixer ''0'' True ('''', s1)
    = Inr (''Volume: 42 42 (range 0->100)'' @ nl, s1)"
proof -
  have a: "atoi ''0'' = Inr 0" "atoi ''42'' = Inr 42" "is_digit (hd ''42'')" "is_digit (hd ''0'')"
    by (simp_all add: atoi_def decimal_def is_space_def is_digit_def s32_def)
  have f: "find_control desk_mixer ''0'' = Inr (Some 0)"
    using a by (simp add: find_control_def mixer_get_ctl_def desk_mixer_def)
  let ?ei = "volume_info\<lparr>ei_numid := 1\<rparr>"
  have ei: "ei_type ?ei = SNDRV_CTL_ELEM_TYPE_INTEGER" "ei_count ?ei = 2" "ei_name ?ei = ''Volume''" "ei_min ?ei = 0" "ei_max ?ei = 100"
    by (simp_all add: volume_info_def zero_info_def)
  have one: "\<exists>s'. mixer_ctl_set_value (desk_kernel (SysOk 0)) desk_mixer (Some 0) i 42 s = Inr (0, s')" if "i < 2" for i s
  proof -
    have "unat i < slots (ei_type ?ei)" using that ei(1) by (simp add: slots_def elem_type_defs word_less_nat_alt)
    moreover define V where "V = take 1024 (o_vals (kern s) 1 @ replicate 1024 0)"
    moreover have "length V = 1024" by (simp add: V_def)
    ultimately obtain v' where "value_put (ei_type ?ei) i 42 V = Inr (Some v')" using value_put_at [of i "ei_type ?ei" V 42] by auto
    then show ?thesis using that ei(2)
      by (simp add: mixer_ctl_set_value_def desk_info elem_read_def desk_kernel_def call_def zero_value_def not_le V_def)
  qed
  have "\<exists>s1. set_loop (desk_kernel (SysOk 0)) desk_mixer (Some 0) [(0, Inr 42), (1, Inr 42)] desk_state = Inr (Set_done, s1)"
  proof -
    obtain s' where s': "mixer_ctl_set_value (desk_kernel (SysOk 0)) desk_mixer (Some 0) 0 42 desk_state = Inr (0, s')" using one [of 0] by auto
    have "(1 :: u32) < 2" by simp
    then obtain s'' where "mixer_ctl_set_value (desk_kernel (SysOk 0)) desk_mixer (Some 0) 1 42 s' = Inr (0, s'')" using one [of 1 s'] by blast
    with s' show ?thesis by simp
  qed
  then obtain s1 where "set_loop (desk_kernel (SysOk 0)) desk_mixer (Some 0) [(0, Inr 42), (1, Inr 42)] desk_state = Inr (Set_done, s1)"
    by (elim exE)
  then have s1: "tinymix_set_value (desk_kernel (SysOk 0)) desk_mixer ''0'' [''42''] desk_state = Inr (Set_done, s1)"
    using f a ei by (simp add: tinymix_set_value_def mixer_ctl_get_type_def mixer_ctl_get_num_values_def with_info_def desk_info elem_type_defs upt_rec)
  have c: "unat (ei_count ?ei) \<le> 128" using ei(2) by simp
  have rk: "reads_keep (desk_kernel (SysOk 0)) (m_fd desk_mixer)" by (simp add: reads_keep_def desk_kernel_def)
  have d: "digits 10 42 = ''42''" "digits 10 0 = ''0''" "digits 10 100 = ''100''" by code_simp+
  have two: "replicate 2 w = [w, w]" for w :: string by (simp add: numeral_2_eq_2)
  from set_then_show [OF f desk_info ei(1) c desk_keeps rk _ a(3,2) s1] show ?thesis
    by (intro exI [of _ s1]) (simp add: ei fmt_int_def d to_int_def two)
qed

section \<open>Bytes\<close>

lemma heap_alloc_ok:
  assumes "\<forall>k. x_calloc K k = (True, k)"
  shows "\<exists>a. heap_alloc K s = (Some a, s\<lparr>blocks := a # blocks s\<rparr>)"
  using assms by (simp add: heap_alloc_def Let_def)

lemma heap_free_top: "heap_free a (s\<lparr>blocks := a # bs\<rparr>) = Inr (s\<lparr>blocks := bs\<rparr>)"
  by (simp add: heap_free_def)

lemma byte_values_length: "byte_values vs = Some bs \<Longrightarrow> length bs = length vs"
  by (induction vs arbitrary: bs) (auto split: prod.splits if_splits)

lemma show_bytes:
  "\<forall>i \<in> set is. i < length buf \<Longrightarrow>
    foldE (print_value K m co b MIXER_CTL_TYPE_BYTE buf) is (out, s) = Inr (out @ concat (map (\<lambda>i. fmt_02x (buf ! i)) is), s)"
  by (induction "is" arbitrary: out) (simp_all add: print_value_def ld_ok)

lemma ucast_count: "unat (ucast (n :: u32) :: u64) = unat n"
  using unsigned_less [of n, where 'a = nat] by (simp add: unsigned_ucast_eq take_bit_nat_eq_self)

lemma keeps_read:
  assumes "keeps_values K d" and "length (ev_value ev) = 1024" and "x_elem_write K d ev k = (SysOk n, k')"
  shows "\<exists>k''. x_elem_read K d (zero_value (ev_numid ev)) k' = (SysOk 0, ev, k'')"
  using assms unfolding keeps_values_def by blast

text \<open>What the setting of bytes leaves in the kernel: the bytes and behind them zeros.\<close>

lemma set_bytes_stored:
  assumes "find_control m control = Inr (Some c)" and "ctl_info m c = Inr ei" and "ei_type ei = SNDRV_CTL_ELEM_TYPE_BYTES"
    and "\<not> has_tlv ei" and "unat (ei_count ei) \<le> 512" and "byte_values values = Some bs" and "values \<noteq> []"
    and "length values \<le> unat (ei_count ei)" and "\<forall>k. x_calloc K k = (True, k)" and "keeps_values K (m_fd m)" and "reads_keep K (m_fd m)"
    and "tinymix_set_value K m control values s = Inr (Set_done, s1)"
  shows "\<exists>v. length v = 1024 \<and> take (unat (ei_count ei)) v = bs @ replicate (unat (ei_count ei) - length bs) 0
    \<and> x_elem_read K (m_fd m) (zero_value (ei_numid ei)) (kern s1) = (SysOk 0, \<lparr>ev_numid = ei_numid ei, ev_value = v\<rparr>, kern s1)"
proof -
  have ty: "mixer_ctl_get_type m (Some c) = Inr MIXER_CTL_TYPE_BYTE" and n: "mixer_ctl_get_num_values m (Some c) = Inr (ei_count ei)"
    using assms(2,3) by (simp_all add: mixer_ctl_get_type_def mixer_ctl_get_num_values_def with_info_def elem_type_defs)
  have len: "length bs = length values" "0 < length bs" "length bs \<le> unat (ei_count ei)"
    using byte_values_length [OF assms(6)] assms(7,8) by auto
  then have l512: "length bs \<le> 512" using assms(5) by linarith
  then have ul: "unat (of_nat (length bs) :: u64) = length bs" by (intro unat_of_nat_small) simp
  define v where "v = overwrite (replicate 1024 0) 0 bs"
  have v: "length v = 1024" "take (unat (ei_count ei)) v = bs @ replicate (unat (ei_count ei) - length bs) 0"
    using len l512 assms(5) by (simp_all add: v_def overwrite_def min_def)
  obtain a where a: "heap_alloc K s = (Some a, s\<lparr>blocks := a # blocks s\<rparr>)" using heap_alloc_ok [OF assms(9)] by blast
  obtain wr k1 where w: "x_elem_write K (m_fd m) \<lparr>ev_numid = ei_numid ei, ev_value = v\<rparr> (kern s) = (wr, k1)" by (rule prod.exhaust)
  have acc: "\<not> array_refused (Some c) (of_nat (length bs)) ei (Some bs)"
    using ul ucast_count [of "ei_count ei"] len by (auto simp: array_refused_def word_less_nat_alt word_le_nat_alt unat_eq_0 [symmetric])
  have cp: "copy_out bs (1 * unat (of_nat (length bs) :: u64)) (replicate 1024 0) = Inr v"
    using ul l512 by (simp add: copy_out_def v_def mem_simps)
  have "mixer_ctl_set_array K m (Some c) (Some bs) (of_nat (length bs)) (s\<lparr>blocks := a # blocks s\<rparr>)
      = Inr (call (wr, k1) (s\<lparr>blocks := a # blocks s\<rparr>))"
    using assms(2-4) acc cp w by (simp add: mixer_ctl_set_array_def elem_type_defs zero_value_def)
  then have "tinymix_set_value K m control values s
      = bindE (heap_free a (snd (call (wr, k1) (s\<lparr>blocks := a # blocks s\<rparr>)))) (\<lambda>s3. Inr (if ret_of wr < 0 then Exits else Set_done, s3))"
    using assms(1,6) ty n a len(1) by (simp add: tinymix_set_value_def tinymix_set_byte_ctl_def call_def)
  then have s1: "s1 = s\<lparr>kern := k1\<rparr>" "\<not> ret_of wr < 0"
    using assms(12) by (auto simp: call_def heap_free_def split: if_splits)
  then obtain j where "wr = SysOk j" by (cases wr) auto
  then obtain k2 where rd: "x_elem_read K (m_fd m) (zero_value (ei_numid ei)) k1 = (SysOk 0, \<lparr>ev_numid = ei_numid ei, ev_value = v\<rparr>, k2)"
    using keeps_read [OF assms(10) _ w [unfolded \<open>wr = SysOk j\<close>]] v(1) by auto
  then have "k2 = k1" using assms(11) unfolding reads_keep_def by (metis snd_conv)
  with rd v s1(1) show ?thesis by auto
qed

lemma stored_bytes_show:
  assumes "find_control m control = Inr (Some c)" and "ctl_info m c = Inr ei" and "ei_type ei = SNDRV_CTL_ELEM_TYPE_BYTES"
    and "\<not> has_tlv ei" and "0 < unat (ei_count ei)" and "unat (ei_count ei) \<le> 1024" and "\<forall>k. x_calloc K k = (True, k)"
    and "x_elem_read K (m_fd m) (zero_value (ei_numid ei)) (kern s1) = (SysOk 0, \<lparr>ev_numid = ei_numid ei, ev_value = v\<rparr>, kern s1)"
    and "length v = 1024"
  shows "tinymix_detail_control K m control True ('''', s1)
    = Inr (ei_name ei @ '':'' @ concat (map fmt_02x (take (unat (ei_count ei)) v)) @ nl, s1)"
proof -
  let ?n = "unat (ei_count ei)"
  have ty: "mixer_ctl_get_type m (Some c) = Inr MIXER_CTL_TYPE_BYTE" and n: "mixer_ctl_get_num_values m (Some c) = Inr (ei_count ei)"
    and nm: "mixer_ctl_get_name m (Some c) = Inr (Some (ei_name ei))"
    and lo: "mixer_ctl_get_range_min m (Some c) = Inr (- EINVAL)" and hi: "mixer_ctl_get_range_max m (Some c) = Inr (- EINVAL)"
    using assms(2,3) by (simp_all add: mixer_ctl_get_type_def mixer_ctl_get_num_values_def mixer_ctl_get_name_def
        mixer_ctl_get_range_min_def mixer_ctl_get_range_max_def with_info_def elem_type_defs)
  obtain a' where a': "heap_alloc K s1 = (Some a', s1\<lparr>blocks := a' # blocks s1\<rparr>)" using heap_alloc_ok [OF assms(7)] by blast
  have er: "elem_read K m ei (s1\<lparr>blocks := a' # blocks s1\<rparr>) = (0, \<lparr>ev_numid = ei_numid ei, ev_value = v\<rparr>, s1\<lparr>blocks := a' # blocks s1\<rparr>)"
    using assms(8) by (simp add: elem_read_def call_def)
  have acc2: "\<not> array_refused (Some c) (ucast (ei_count ei)) ei (Some (replicate ?n 0))"
    using ucast_count [of "ei_count ei"] assms(5) by (auto simp: array_refused_def unat_eq_0 [symmetric])
  have cp2: "copy_out v (1 * unat (ucast (ei_count ei) :: u64)) (replicate ?n 0) = Inr (take ?n v)"
    unfolding ucast_count using assms(6,9) by (simp add: copy_out_def mem_simps overwrite_def)
  have ga: "mixer_ctl_get_array K m (Some c) (Some (replicate ?n 0)) (ucast (ei_count ei)) (s1\<lparr>blocks := a' # blocks s1\<rparr>)
      = Inr (0, Some (take ?n v), s1\<lparr>blocks := a' # blocks s1\<rparr>)"
    using assms(2-4) acc2 cp2 er by (simp add: mixer_ctl_get_array_def elem_type_defs)
  have ln: "length (take ?n v) = ?n" using assms(6,9) by simp
  then have ix: "\<forall>i \<in> set [0..<?n]. i < length (take ?n v)" by (simp only: set_upt atLeastLessThan_iff) simp
  have "map (\<lambda>i. fmt_02x (take ?n v ! i)) [0..<?n] = map fmt_02x (take ?n v)"
    by (rule nth_equalityI) (use ln in simp_all)
  then have pc: "print_control K m (Some c) True MIXER_CTL_TYPE_BYTE (ei_count ei) (take ?n v) ('''', s1\<lparr>blocks := a' # blocks s1\<rparr>)
      = Inr (ei_name ei @ '':'' @ concat (map fmt_02x (take ?n v)) @ nl, s1\<lparr>blocks := a' # blocks s1\<rparr>)"
    unfolding print_control_def prod.case nm lo hi bindE_simps option.case
    using show_bytes [OF ix, of K m "Some c" True] by simp
  show ?thesis
    unfolding tinymix_detail_control_def prod.case assms(1) bindE_simps ty n
    using a' ga pc heap_free_top [of a' "blocks s1" s1] by simp
qed

text \<open>
  bytes that tinymix has set on a control of bytes are the bytes that it shows, in their order, and behind
  them zeros up to the size of the control, whatever the control held before.
\<close>

theorem set_bytes_then_show:
  assumes "find_control m control = Inr (Some c)" and "ctl_info m c = Inr ei" and "ei_type ei = SNDRV_CTL_ELEM_TYPE_BYTES"
    and "\<not> has_tlv ei" and "unat (ei_count ei) \<le> 512" and "byte_values values = Some bs" and "values \<noteq> []"
    and "length values \<le> unat (ei_count ei)" and "\<forall>k. x_calloc K k = (True, k)" and "keeps_values K (m_fd m)" and "reads_keep K (m_fd m)"
    and "tinymix_set_value K m control values s = Inr (Set_done, s1)"
  shows "tinymix_detail_control K m control True ('''', s1)
    = Inr (ei_name ei @ '':'' @ concat (map fmt_02x (bs @ replicate (unat (ei_count ei) - length bs) 0)) @ nl, s1)"
proof -
  obtain v where v: "length v = 1024" "take (unat (ei_count ei)) v = bs @ replicate (unat (ei_count ei) - length bs) 0"
    "x_elem_read K (m_fd m) (zero_value (ei_numid ei)) (kern s1) = (SysOk 0, \<lparr>ev_numid = ei_numid ei, ev_value = v\<rparr>, kern s1)"
    using set_bytes_stored [OF assms] by blast
  have "0 < unat (ei_count ei)" "unat (ei_count ei) \<le> 1024" using assms(5,7,8) by (auto simp: length_greater_0_conv [symmetric] simp del: length_greater_0_conv)
  from stored_bytes_show [OF assms(1-4) this assms(9) v(3,1)] show ?thesis unfolding v(2) .
qed

text \<open>A control of three bytes of an equaliser, set by \<open>tinymix 0 0xff 020\<close>.\<close>

definition equaliser :: snd_ctl_elem_info where
  "equaliser = zero_info\<lparr>ei_numid := 1, ei_name := ''EQ'', ei_type := SNDRV_CTL_ELEM_TYPE_BYTES, ei_count := 3\<rparr>"

theorem set_bytes_then_show_witness:
  "\<exists>s1. tinymix_detail_control (desk_kernel (SysOk 0)) (desk_mixer\<lparr>m_infos := [equaliser]\<rparr>) ''0'' True ('''', s1)
    = Inr (''EQ:ff1000'' @ nl, s1)"
proof -
  let ?K = "desk_kernel (SysOk 0)" and ?m = "desk_mixer\<lparr>m_infos := [equaliser]\<rparr>"
  have a: "atoi ''0'' = Inr 0" "is_digit (hd ''0'')"
    by (simp_all add: atoi_def decimal_def is_space_def is_digit_def s32_def)
  have f: "find_control ?m ''0'' = Inr (Some 0)"
    using a by (simp add: find_control_def mixer_get_ctl_def desk_mixer_def)
  have ci: "ctl_info ?m 0 = Inr equaliser" by (simp add: ctl_info_def desk_mixer_def ld_def)
  have ei: "ei_type equaliser = SNDRV_CTL_ELEM_TYPE_BYTES" "\<not> has_tlv equaliser" "ei_count equaliser = 3" "ei_name equaliser = ''EQ''"
    "ei_numid equaliser = 1"
    by (simp_all add: equaliser_def zero_info_def has_tlv_def)
  have bv: "byte_values [''0xff'', ''020''] = Some [255, 16]" by code_simp
  have ca: "\<forall>k. x_calloc ?K k = (True, k)" by (simp add: desk_kernel_def)
  have rk: "reads_keep ?K (m_fd ?m)" by (simp add: reads_keep_def desk_kernel_def)
  have kv: "keeps_values ?K (m_fd ?m)" using desk_keeps by simp
  have c3: "unat (ei_count equaliser) = 3" using ei(3) by simp
  have ty: "mixer_ctl_get_type ?m (Some 0) = Inr MIXER_CTL_TYPE_BYTE" "mixer_ctl_get_num_values ?m (Some 0) = Inr 3"
    using ei by (simp_all add: mixer_ctl_get_type_def mixer_ctl_get_num_values_def with_info_def ci elem_type_defs)
  have acc: "\<not> array_refused (Some 0) 2 equaliser (Some [255, 16])"
    using ei(3) by (simp add: array_refused_def word_less_nat_alt)
  have "\<exists>V. copy_out [255 :: u8, 16] (1 * unat (2 :: u64)) (replicate 1024 0) = Inr V" by (simp add: copy_out_def mem_simps)
  then obtain V where V: "copy_out [255 :: u8, 16] (1 * unat (2 :: u64)) (replicate 1024 0) = Inr V" by blast
  have "\<exists>s1. tinymix_set_value ?K ?m ''0'' [''0xff'', ''020''] desk_state = Inr (Set_done, s1)"
    using f ty bv acc V ci ei(1,2)
    by (simp add: tinymix_set_value_def tinymix_set_byte_ctl_def heap_alloc_def heap_free_def Let_def ca mixer_ctl_set_array_def
        elem_type_defs zero_value_def desk_write call_def)
  then obtain s1 where s1: "tinymix_set_value ?K ?m ''0'' [''0xff'', ''020''] desk_state = Inr (Set_done, s1)" by blast
  have d: "fmt_02x 255 = ''ff''" "fmt_02x 16 = ''10''" "fmt_02x 0 = ''00''" by code_simp+
  from set_bytes_then_show [OF f ci ei(1,2) _ bv _ _ ca kv rk s1] c3 show ?thesis
    by (intro exI [of _ s1]) (simp add: ei(4) d)
qed

end
