(* ===== verification/KernelAbi.thy ===== *)
theory KernelAbi
  imports PcmParams MixerValues
begin

text \<open>
  speech/include/asound.h: the structures that the library and the kernel exchange, as members with their types, and the
  numbers of the requests. Sizes and offsets follow the rules of C for a target: the sizes of \<^verbatim>\<open>long\<close> and of a
  pointer, and the alignment of \<^verbatim>\<open>long long\<close>. The encoding of a request is that of the \<^verbatim>\<open>_IOC\<close> macros of Linux
  on ARM and x86. The annotation \<^verbatim>\<open>__user\<close> of pointers has no effect on a layout.
\<close>

section \<open>Types of C\<close>

record target =
  long_size :: nat
  llong_align :: nat

definition lp64 :: target where "lp64 = \<lparr>long_size = 8, llong_align = 8\<rparr>"
definition arm32 :: target where "arm32 = \<lparr>long_size = 4, llong_align = 8\<rparr>"
definition i386 :: target where "i386 = \<lparr>long_size = 4, llong_align = 4\<rparr>"

text \<open>\<^term>\<open>Bits n\<close> is a group of \<open>n\<close> adjacent one-bit fields of an \<^verbatim>\<open>unsigned int\<close>.\<close>

datatype ctype = Scalar nat nat | Bits nat | Array nat ctype | Struct members | Union members
  and members = No_member | Member string ctype members

fun fields :: "(string \<times> ctype) list \<Rightarrow> members" where
  "fields [] = No_member"
| "fields ((n, t) # nts) = Member n t (fields nts)"

definition round_up :: "nat \<Rightarrow> nat \<Rightarrow> nat" where
  "round_up n a = (n + a - 1) div a * a"

primrec align_of :: "ctype \<Rightarrow> nat" and align_members :: "members \<Rightarrow> nat" where
  "align_of (Scalar s a) = a"
| "align_of (Bits n) = 4"
| "align_of (Array n t) = align_of t"
| "align_of (Struct ms) = align_members ms"
| "align_of (Union ms) = align_members ms"
| "align_members No_member = 1"
| "align_members (Member n t ms) = max (align_of t) (align_members ms)"

text \<open>Where a member goes: at the next multiple of its alignment; bits only must not cross a unit of four bytes.\<close>

definition place :: "ctype \<Rightarrow> nat \<Rightarrow> nat \<Rightarrow> nat" where
  "place t sz off =
     (case t of Bits n \<Rightarrow> if off mod 4 + sz \<le> 4 then off else round_up off 4
      | _ \<Rightarrow> round_up off (align_of t))"

fun size_of :: "ctype \<Rightarrow> nat" and end_of :: "members \<Rightarrow> nat \<Rightarrow> nat" and widest :: "members \<Rightarrow> nat" where
  "size_of (Scalar s a) = s"
| "size_of (Bits n) = (n + 7) div 8"
| "size_of (Array n t) = n * size_of t"
| "size_of (Struct ms) = round_up (end_of ms 0) (align_members ms)"
| "size_of (Union ms) = round_up (widest ms) (align_members ms)"
| "end_of No_member off = off"
| "end_of (Member n t ms) off = end_of ms (place t (size_of t) off + size_of t)"
| "widest No_member = 0"
| "widest (Member n t ms) = max (size_of t) (widest ms)"

text \<open>The members of a structure with their offsets.\<close>

primrec placed :: "members \<Rightarrow> nat \<Rightarrow> (string \<times> ctype \<times> nat) list" where
  "placed No_member off = []"
| "placed (Member n t ms) off =
     (let at = place t (size_of t) off in (n, t, at) # placed ms (at + size_of t))"

definition members_of :: "ctype \<Rightarrow> (string \<times> ctype \<times> nat) list" where
  "members_of t = (case t of Struct ms \<Rightarrow> placed ms 0 | _ \<Rightarrow> [])"

definition offset_of :: "ctype \<Rightarrow> string \<Rightarrow> nat option" where
  "offset_of t n = map_option snd (map_of (members_of t) n)"

definition c_uchar :: ctype where "c_uchar = Scalar 1 1"
definition c_ushort :: ctype where "c_ushort = Scalar 2 2"
definition c_uint :: ctype where "c_uint = Scalar 4 4"
definition c_int :: ctype where "c_int = Scalar 4 4"
definition c_long :: "target \<Rightarrow> ctype" where "c_long T = Scalar (long_size T) (long_size T)"
definition c_llong :: "target \<Rightarrow> ctype" where "c_llong T = Scalar 8 (llong_align T)"
definition c_ptr :: "target \<Rightarrow> ctype" where "c_ptr T = Scalar (long_size T) (long_size T)"

definition timespec :: "target \<Rightarrow> ctype" where
  "timespec T = Struct (fields [(''tv_sec'', c_long T), (''tv_nsec'', c_long T)])"

lemmas c_types = c_uchar_def c_ushort_def c_uint_def c_int_def c_long_def c_llong_def c_ptr_def timespec_def

section \<open>The structures\<close>

definition snd_aes_iec958_layout :: "target \<Rightarrow> ctype" where
  "snd_aes_iec958_layout T = Struct (fields [
      (''status'', Array 24 c_uchar), (''subcode'', Array 147 c_uchar), (''pad'', c_uchar),
      (''dig_subframe'', Array 4 c_uchar)])"

definition snd_cea_861_aud_if_layout :: "target \<Rightarrow> ctype" where
  "snd_cea_861_aud_if_layout T = Struct (fields [
      (''db1_ct_cc'', c_uchar), (''db2_sf_ss'', c_uchar), (''db3'', c_uchar), (''db4_ca'', c_uchar),
      (''db5_dminh_lsv'', c_uchar)])"

definition snd_hwdep_info_layout :: "target \<Rightarrow> ctype" where
  "snd_hwdep_info_layout T = Struct (fields [
      (''device'', c_uint), (''card'', c_int), (''id'', Array 64 c_uchar), (''name'', Array 80 c_uchar),
      (''iface'', c_int), (''reserved'', Array 64 c_uchar)])"

definition snd_hwdep_dsp_status_layout :: "target \<Rightarrow> ctype" where
  "snd_hwdep_dsp_status_layout T = Struct (fields [
      (''version'', c_uint), (''id'', Array 32 c_uchar), (''num_dsps'', c_uint), (''dsp_loaded'', c_uint),
      (''chip_ready'', c_uint), (''reserved'', Array 16 c_uchar)])"

definition snd_hwdep_dsp_image_layout :: "target \<Rightarrow> ctype" where
  "snd_hwdep_dsp_image_layout T = Struct (fields [
      (''index'', c_uint), (''name'', Array 64 c_uchar), (''image'', c_ptr T), (''length'', c_long T),
      (''driver_data'', c_long T)])"

definition snd_pcm_sync_id_layout :: "target \<Rightarrow> ctype" where
  "snd_pcm_sync_id_layout T = Union (fields [
      (''id'', Array 16 c_uchar), (''id16'', Array 8 c_ushort), (''id32'', Array 4 c_uint)])"

definition snd_pcm_info_layout :: "target \<Rightarrow> ctype" where
  "snd_pcm_info_layout T = Struct (fields [
      (''device'', c_uint), (''subdevice'', c_uint), (''stream'', c_int), (''card'', c_int), (''id'', Array 64 c_uchar),
      (''name'', Array 80 c_uchar), (''subname'', Array 32 c_uchar), (''dev_class'', c_int), (''dev_subclass'', c_int),
      (''subdevices_count'', c_uint), (''subdevices_avail'', c_uint), (''sync'', snd_pcm_sync_id_layout T),
      (''reserved'', Array 64 c_uchar)])"

definition snd_interval_layout :: "target \<Rightarrow> ctype" where
  "snd_interval_layout T = Struct (fields [
      (''min'', c_uint), (''max'', c_uint), (''openmin,openmax,integer,empty'', Bits 4)])"

definition snd_mask_layout :: "target \<Rightarrow> ctype" where
  "snd_mask_layout T = Struct (fields [
      (''bits'', Array ((256 + 31) div 32) c_uint)])"

definition snd_pcm_hw_params_layout :: "target \<Rightarrow> ctype" where
  "snd_pcm_hw_params_layout T = Struct (fields [
      (''flags'', c_uint), (''masks'', Array (2 - 0 + 1) (snd_mask_layout T)), (''mres'', Array 5 (snd_mask_layout T)),
      (''intervals'', Array (19 - 8 + 1) (snd_interval_layout T)), (''ires'', Array 9 (snd_interval_layout T)),
      (''rmask'', c_uint), (''cmask'', c_uint), (''info'', c_uint), (''msbits'', c_uint), (''rate_num'', c_uint),
      (''rate_den'', c_uint), (''fifo_size'', c_long T), (''reserved'', Array 64 c_uchar)])"

definition snd_pcm_sw_params_layout :: "target \<Rightarrow> ctype" where
  "snd_pcm_sw_params_layout T = Struct (fields [
      (''tstamp_mode'', c_int), (''period_step'', c_uint), (''sleep_min'', c_uint), (''avail_min'', c_long T),
      (''xfer_align'', c_long T), (''start_threshold'', c_long T), (''stop_threshold'', c_long T),
      (''silence_threshold'', c_long T), (''silence_size'', c_long T), (''boundary'', c_long T), (''proto'', c_uint),
      (''tstamp_type'', c_uint), (''reserved'', Array 56 c_uchar)])"

definition snd_pcm_channel_info_layout :: "target \<Rightarrow> ctype" where
  "snd_pcm_channel_info_layout T = Struct (fields [
      (''channel'', c_uint), (''offset'', c_long T), (''first'', c_uint), (''step'', c_uint)])"

definition snd_pcm_status_layout :: "target \<Rightarrow> ctype" where
  "snd_pcm_status_layout T = Struct (fields [
      (''state'', c_int), (''trigger_tstamp'', timespec T), (''tstamp'', timespec T), (''appl_ptr'', c_long T),
      (''hw_ptr'', c_long T), (''delay'', c_long T), (''avail'', c_long T), (''avail_max'', c_long T),
      (''overrange'', c_long T), (''suspended_state'', c_int), (''audio_tstamp_data'', c_uint),
      (''audio_tstamp'', timespec T), (''driver_tstamp'', timespec T), (''audio_tstamp_accuracy'', c_uint),
      (''reserved'', Array (52 - 2 * size_of (timespec T)) c_uchar)])"

definition snd_pcm_mmap_status_layout :: "target \<Rightarrow> ctype" where
  "snd_pcm_mmap_status_layout T = Struct (fields [
      (''state'', c_int), (''pad1'', c_int), (''hw_ptr'', c_long T), (''tstamp'', timespec T),
      (''suspended_state'', c_int), (''audio_tstamp'', timespec T)])"

definition snd_pcm_mmap_control_layout :: "target \<Rightarrow> ctype" where
  "snd_pcm_mmap_control_layout T = Struct (fields [
      (''appl_ptr'', c_long T), (''avail_min'', c_long T)])"

definition snd_pcm_sync_ptr_layout :: "target \<Rightarrow> ctype" where
  "snd_pcm_sync_ptr_layout T = Struct (fields [
      (''flags'', c_uint),
      (''s'', Union (fields [
        (''status'', snd_pcm_mmap_status_layout T), (''reserved'', Array 64 c_uchar)])),
      (''c'', Union (fields [
        (''control'', snd_pcm_mmap_control_layout T), (''reserved'', Array 64 c_uchar)]))])"

definition snd_xferi_layout :: "target \<Rightarrow> ctype" where
  "snd_xferi_layout T = Struct (fields [
      (''result'', c_long T), (''buf'', c_ptr T), (''frames'', c_long T)])"

definition snd_xfern_layout :: "target \<Rightarrow> ctype" where
  "snd_xfern_layout T = Struct (fields [
      (''result'', c_long T), (''bufs'', c_ptr T), (''frames'', c_long T)])"

definition snd_rawmidi_info_layout :: "target \<Rightarrow> ctype" where
  "snd_rawmidi_info_layout T = Struct (fields [
      (''device'', c_uint), (''subdevice'', c_uint), (''stream'', c_int), (''card'', c_int), (''flags'', c_uint),
      (''id'', Array 64 c_uchar), (''name'', Array 80 c_uchar), (''subname'', Array 32 c_uchar),
      (''subdevices_count'', c_uint), (''subdevices_avail'', c_uint), (''reserved'', Array 64 c_uchar)])"

definition snd_rawmidi_params_layout :: "target \<Rightarrow> ctype" where
  "snd_rawmidi_params_layout T = Struct (fields [
      (''stream'', c_int), (''buffer_size'', c_long T), (''avail_min'', c_long T), (''no_active_sensing'', Bits 1),
      (''reserved'', Array 16 c_uchar)])"

definition snd_rawmidi_status_layout :: "target \<Rightarrow> ctype" where
  "snd_rawmidi_status_layout T = Struct (fields [
      (''stream'', c_int), (''tstamp'', timespec T), (''avail'', c_long T), (''xruns'', c_long T),
      (''reserved'', Array 16 c_uchar)])"

definition snd_timer_id_layout :: "target \<Rightarrow> ctype" where
  "snd_timer_id_layout T = Struct (fields [
      (''dev_class'', c_int), (''dev_sclass'', c_int), (''card'', c_int), (''device'', c_int), (''subdevice'', c_int)])"

definition snd_timer_ginfo_layout :: "target \<Rightarrow> ctype" where
  "snd_timer_ginfo_layout T = Struct (fields [
      (''tid'', snd_timer_id_layout T), (''flags'', c_uint), (''card'', c_int), (''id'', Array 64 c_uchar),
      (''name'', Array 80 c_uchar), (''reserved0'', c_long T), (''resolution'', c_long T),
      (''resolution_min'', c_long T), (''resolution_max'', c_long T), (''clients'', c_uint),
      (''reserved'', Array 32 c_uchar)])"

definition snd_timer_gparams_layout :: "target \<Rightarrow> ctype" where
  "snd_timer_gparams_layout T = Struct (fields [
      (''tid'', snd_timer_id_layout T), (''period_num'', c_long T), (''period_den'', c_long T),
      (''reserved'', Array 32 c_uchar)])"

definition snd_timer_gstatus_layout :: "target \<Rightarrow> ctype" where
  "snd_timer_gstatus_layout T = Struct (fields [
      (''tid'', snd_timer_id_layout T), (''resolution'', c_long T), (''resolution_num'', c_long T),
      (''resolution_den'', c_long T), (''reserved'', Array 32 c_uchar)])"

definition snd_timer_select_layout :: "target \<Rightarrow> ctype" where
  "snd_timer_select_layout T = Struct (fields [
      (''id'', snd_timer_id_layout T), (''reserved'', Array 32 c_uchar)])"

definition snd_timer_info_layout :: "target \<Rightarrow> ctype" where
  "snd_timer_info_layout T = Struct (fields [
      (''flags'', c_uint), (''card'', c_int), (''id'', Array 64 c_uchar), (''name'', Array 80 c_uchar),
      (''reserved0'', c_long T), (''resolution'', c_long T), (''reserved'', Array 64 c_uchar)])"

definition snd_timer_params_layout :: "target \<Rightarrow> ctype" where
  "snd_timer_params_layout T = Struct (fields [
      (''flags'', c_uint), (''ticks'', c_uint), (''queue_size'', c_uint), (''reserved0'', c_uint), (''filter'', c_uint),
      (''reserved'', Array 60 c_uchar)])"

definition snd_timer_status_layout :: "target \<Rightarrow> ctype" where
  "snd_timer_status_layout T = Struct (fields [
      (''tstamp'', timespec T), (''resolution'', c_uint), (''lost'', c_uint), (''overrun'', c_uint), (''queue'', c_uint),
      (''reserved'', Array 64 c_uchar)])"

definition snd_timer_read_layout :: "target \<Rightarrow> ctype" where
  "snd_timer_read_layout T = Struct (fields [
      (''resolution'', c_uint), (''ticks'', c_uint)])"

definition snd_timer_tread_layout :: "target \<Rightarrow> ctype" where
  "snd_timer_tread_layout T = Struct (fields [
      (''event'', c_int), (''tstamp'', timespec T), (''val'', c_uint)])"

definition snd_ctl_card_info_layout :: "target \<Rightarrow> ctype" where
  "snd_ctl_card_info_layout T = Struct (fields [
      (''card'', c_int), (''pad'', c_int), (''id'', Array 16 c_uchar), (''driver'', Array 16 c_uchar),
      (''name'', Array 32 c_uchar), (''longname'', Array 80 c_uchar), (''reserved_'', Array 16 c_uchar),
      (''mixername'', Array 80 c_uchar), (''components'', Array 128 c_uchar)])"

definition snd_ctl_elem_id_layout :: "target \<Rightarrow> ctype" where
  "snd_ctl_elem_id_layout T = Struct (fields [
      (''numid'', c_uint), (''iface'', c_int), (''device'', c_uint), (''subdevice'', c_uint),
      (''name'', Array 44 c_uchar), (''index'', c_uint)])"

definition snd_ctl_elem_list_layout :: "target \<Rightarrow> ctype" where
  "snd_ctl_elem_list_layout T = Struct (fields [
      (''offset'', c_uint), (''space'', c_uint), (''used'', c_uint), (''count'', c_uint), (''pids'', c_ptr T),
      (''reserved'', Array 50 c_uchar)])"

definition snd_ctl_elem_info_layout :: "target \<Rightarrow> ctype" where
  "snd_ctl_elem_info_layout T = Struct (fields [
      (''id'', snd_ctl_elem_id_layout T), (''type'', c_int), (''access'', c_uint), (''count'', c_uint),
      (''owner'', c_int),
      (''value'', Union (fields [
        (''integer'', Struct (fields [
          (''min'', c_long T), (''max'', c_long T), (''step'', c_long T)])),
        (''integer64'', Struct (fields [
          (''min'', c_llong T), (''max'', c_llong T), (''step'', c_llong T)])),
        (''enumerated'', Struct (fields [
          (''items'', c_uint), (''item'', c_uint), (''name'', Array 64 c_uchar), (''names_ptr'', c_llong T),
          (''names_length'', c_uint)])),
        (''reserved'', Array 128 c_uchar)])),
      (''dimen'', Union (fields [
        (''d'', Array 4 c_ushort), (''d_ptr'', c_ptr T)])),
      (''reserved'', Array (64 - 4 * size_of c_ushort) c_uchar)])"

definition snd_ctl_elem_value_layout :: "target \<Rightarrow> ctype" where
  "snd_ctl_elem_value_layout T = Struct (fields [
      (''id'', snd_ctl_elem_id_layout T), (''indirect'', Bits 1),
      (''value'', Union (fields [
        (''integer'', Union (fields [
          (''value'', Array 128 (c_long T)), (''value_ptr'', c_ptr T)])),
        (''integer64'', Union (fields [
          (''value'', Array 64 (c_llong T)), (''value_ptr'', c_ptr T)])),
        (''enumerated'', Union (fields [
          (''item'', Array 128 c_uint), (''item_ptr'', c_ptr T)])),
        (''bytes'', Union (fields [
          (''data'', Array 512 c_uchar), (''data_ptr'', c_ptr T)])),
        (''iec958'', snd_aes_iec958_layout T)])),
      (''tstamp'', timespec T), (''reserved'', Array (128 - size_of (timespec T)) c_uchar)])"

definition snd_ctl_tlv_layout :: "target \<Rightarrow> ctype" where
  "snd_ctl_tlv_layout T = Struct (fields [
      (''numid'', c_uint), (''length'', c_uint), (''tlv'', Array 0 c_uint)])"

definition snd_ctl_event_layout :: "target \<Rightarrow> ctype" where
  "snd_ctl_event_layout T = Struct (fields [
      (''type'', c_int),
      (''data'', Union (fields [
        (''elem'', Struct (fields [
          (''mask'', c_uint), (''id'', snd_ctl_elem_id_layout T)])),
        (''data8'', Array 60 c_uchar)]))])"

lemmas layout_defs =
  snd_aes_iec958_layout_def snd_cea_861_aud_if_layout_def snd_hwdep_info_layout_def snd_hwdep_dsp_status_layout_def
  snd_hwdep_dsp_image_layout_def snd_pcm_sync_id_layout_def snd_pcm_info_layout_def snd_interval_layout_def
  snd_mask_layout_def snd_pcm_hw_params_layout_def snd_pcm_sw_params_layout_def snd_pcm_channel_info_layout_def
  snd_pcm_status_layout_def snd_pcm_mmap_status_layout_def snd_pcm_mmap_control_layout_def
  snd_pcm_sync_ptr_layout_def snd_xferi_layout_def snd_xfern_layout_def snd_rawmidi_info_layout_def
  snd_rawmidi_params_layout_def snd_rawmidi_status_layout_def snd_timer_id_layout_def snd_timer_ginfo_layout_def
  snd_timer_gparams_layout_def snd_timer_gstatus_layout_def snd_timer_select_layout_def snd_timer_info_layout_def
  snd_timer_params_layout_def snd_timer_status_layout_def snd_timer_read_layout_def snd_timer_tread_layout_def
  snd_ctl_card_info_layout_def snd_ctl_elem_id_layout_def snd_ctl_elem_list_layout_def snd_ctl_elem_info_layout_def
  snd_ctl_elem_value_layout_def snd_ctl_tlv_layout_def snd_ctl_event_layout_def

text \<open>All of them, by name.\<close>

definition header_structs :: "target \<Rightarrow> (string \<times> ctype) list" where
  "header_structs T = [
     (''snd_aes_iec958'', snd_aes_iec958_layout T), (''snd_cea_861_aud_if'', snd_cea_861_aud_if_layout T),
     (''snd_hwdep_info'', snd_hwdep_info_layout T), (''snd_hwdep_dsp_status'', snd_hwdep_dsp_status_layout T),
     (''snd_hwdep_dsp_image'', snd_hwdep_dsp_image_layout T), (''snd_pcm_sync_id'', snd_pcm_sync_id_layout T),
     (''snd_pcm_info'', snd_pcm_info_layout T), (''snd_interval'', snd_interval_layout T),
     (''snd_mask'', snd_mask_layout T), (''snd_pcm_hw_params'', snd_pcm_hw_params_layout T),
     (''snd_pcm_sw_params'', snd_pcm_sw_params_layout T), (''snd_pcm_channel_info'', snd_pcm_channel_info_layout T),
     (''snd_pcm_status'', snd_pcm_status_layout T), (''snd_pcm_mmap_status'', snd_pcm_mmap_status_layout T),
     (''snd_pcm_mmap_control'', snd_pcm_mmap_control_layout T), (''snd_pcm_sync_ptr'', snd_pcm_sync_ptr_layout T),
     (''snd_xferi'', snd_xferi_layout T), (''snd_xfern'', snd_xfern_layout T),
     (''snd_rawmidi_info'', snd_rawmidi_info_layout T), (''snd_rawmidi_params'', snd_rawmidi_params_layout T),
     (''snd_rawmidi_status'', snd_rawmidi_status_layout T), (''snd_timer_id'', snd_timer_id_layout T),
     (''snd_timer_ginfo'', snd_timer_ginfo_layout T), (''snd_timer_gparams'', snd_timer_gparams_layout T),
     (''snd_timer_gstatus'', snd_timer_gstatus_layout T), (''snd_timer_select'', snd_timer_select_layout T),
     (''snd_timer_info'', snd_timer_info_layout T), (''snd_timer_params'', snd_timer_params_layout T),
     (''snd_timer_status'', snd_timer_status_layout T), (''snd_timer_read'', snd_timer_read_layout T),
     (''snd_timer_tread'', snd_timer_tread_layout T), (''snd_ctl_card_info'', snd_ctl_card_info_layout T),
     (''snd_ctl_elem_id'', snd_ctl_elem_id_layout T), (''snd_ctl_elem_list'', snd_ctl_elem_list_layout T),
     (''snd_ctl_elem_info'', snd_ctl_elem_info_layout T), (''snd_ctl_elem_value'', snd_ctl_elem_value_layout T),
     (''snd_ctl_tlv'', snd_ctl_tlv_layout T), (''snd_ctl_event'', snd_ctl_event_layout T)]"

section \<open>The requests\<close>

datatype direction = IO | IOR | IOW | IOWR

definition direction_bits :: "direction \<Rightarrow> nat" where
  "direction_bits d = (case d of IO \<Rightarrow> 0 | IOW \<Rightarrow> 1 | IOR \<Rightarrow> 2 | IOWR \<Rightarrow> 3)"

text \<open>A request: its name, direction, letter, number, and the size of its argument.\<close>

type_synonym request = "string \<times> direction \<times> char \<times> nat \<times> nat"

definition ioc :: "request \<Rightarrow> nat" where
  "ioc = (\<lambda>(name, d, letter, nr, sz). 2 ^ 30 * direction_bits d + 2 ^ 16 * sz + 2 ^ 8 * of_char letter + nr)"

definition SNDRV_HWDEP_IOCTLS :: "target \<Rightarrow> request list" where
  "SNDRV_HWDEP_IOCTLS T = map (\<lambda>(name, d, nr, sz). (name, d, CHR ''H'', nr, sz)) [
     (''PVERSION'', IOR, 0x00, size_of c_int), (''INFO'', IOR, 0x01, size_of (snd_hwdep_info_layout T)),
     (''DSP_STATUS'', IOR, 0x02, size_of (snd_hwdep_dsp_status_layout T)),
     (''DSP_LOAD'', IOW, 0x03, size_of (snd_hwdep_dsp_image_layout T))]"

definition SNDRV_PCM_IOCTLS :: "target \<Rightarrow> request list" where
  "SNDRV_PCM_IOCTLS T = map (\<lambda>(name, d, nr, sz). (name, d, CHR ''A'', nr, sz)) [
     (''PVERSION'', IOR, 0x00, size_of c_int), (''INFO'', IOR, 0x01, size_of (snd_pcm_info_layout T)),
     (''TSTAMP'', IOW, 0x02, size_of c_int), (''TTSTAMP'', IOW, 0x03, size_of c_int),
     (''HW_REFINE'', IOWR, 0x10, size_of (snd_pcm_hw_params_layout T)),
     (''HW_PARAMS'', IOWR, 0x11, size_of (snd_pcm_hw_params_layout T)), (''HW_FREE'', IO, 0x12, 0),
     (''SW_PARAMS'', IOWR, 0x13, size_of (snd_pcm_sw_params_layout T)),
     (''STATUS'', IOR, 0x20, size_of (snd_pcm_status_layout T)), (''DELAY'', IOR, 0x21, size_of (c_long T)),
     (''HWSYNC'', IO, 0x22, 0), (''SYNC_PTR'', IOWR, 0x23, size_of (snd_pcm_sync_ptr_layout T)),
     (''STATUS_EXT'', IOWR, 0x24, size_of (snd_pcm_status_layout T)),
     (''CHANNEL_INFO'', IOR, 0x32, size_of (snd_pcm_channel_info_layout T)), (''PREPARE'', IO, 0x40, 0),
     (''RESET'', IO, 0x41, 0), (''START'', IO, 0x42, 0), (''DROP'', IO, 0x43, 0), (''DRAIN'', IO, 0x44, 0),
     (''PAUSE'', IOW, 0x45, size_of c_int), (''REWIND'', IOW, 0x46, size_of (c_long T)), (''RESUME'', IO, 0x47, 0),
     (''XRUN'', IO, 0x48, 0), (''FORWARD'', IOW, 0x49, size_of (c_long T)),
     (''WRITEI_FRAMES'', IOW, 0x50, size_of (snd_xferi_layout T)),
     (''READI_FRAMES'', IOR, 0x51, size_of (snd_xferi_layout T)),
     (''WRITEN_FRAMES'', IOW, 0x52, size_of (snd_xfern_layout T)),
     (''READN_FRAMES'', IOR, 0x53, size_of (snd_xfern_layout T)), (''LINK'', IOW, 0x60, size_of c_int),
     (''UNLINK'', IO, 0x61, 0)]"

definition SNDRV_RAWMIDI_IOCTLS :: "target \<Rightarrow> request list" where
  "SNDRV_RAWMIDI_IOCTLS T = map (\<lambda>(name, d, nr, sz). (name, d, CHR ''W'', nr, sz)) [
     (''PVERSION'', IOR, 0x00, size_of c_int), (''INFO'', IOR, 0x01, size_of (snd_rawmidi_info_layout T)),
     (''PARAMS'', IOWR, 0x10, size_of (snd_rawmidi_params_layout T)),
     (''STATUS'', IOWR, 0x20, size_of (snd_rawmidi_status_layout T)), (''DROP'', IOW, 0x30, size_of c_int),
     (''DRAIN'', IOW, 0x31, size_of c_int)]"

definition SNDRV_TIMER_IOCTLS :: "target \<Rightarrow> request list" where
  "SNDRV_TIMER_IOCTLS T = map (\<lambda>(name, d, nr, sz). (name, d, CHR ''T'', nr, sz)) [
     (''PVERSION'', IOR, 0x00, size_of c_int), (''NEXT_DEVICE'', IOWR, 0x01, size_of (snd_timer_id_layout T)),
     (''TREAD'', IOW, 0x02, size_of c_int), (''GINFO'', IOWR, 0x03, size_of (snd_timer_ginfo_layout T)),
     (''GPARAMS'', IOW, 0x04, size_of (snd_timer_gparams_layout T)),
     (''GSTATUS'', IOWR, 0x05, size_of (snd_timer_gstatus_layout T)),
     (''SELECT'', IOW, 0x10, size_of (snd_timer_select_layout T)),
     (''INFO'', IOR, 0x11, size_of (snd_timer_info_layout T)),
     (''PARAMS'', IOW, 0x12, size_of (snd_timer_params_layout T)),
     (''STATUS'', IOR, 0x14, size_of (snd_timer_status_layout T)), (''START'', IO, 0xa0, 0), (''STOP'', IO, 0xa1, 0),
     (''CONTINUE'', IO, 0xa2, 0), (''PAUSE'', IO, 0xa3, 0)]"

definition SNDRV_CTL_IOCTLS :: "target \<Rightarrow> request list" where
  "SNDRV_CTL_IOCTLS T = map (\<lambda>(name, d, nr, sz). (name, d, CHR ''U'', nr, sz)) [
     (''PVERSION'', IOR, 0x00, size_of c_int), (''CARD_INFO'', IOR, 0x01, size_of (snd_ctl_card_info_layout T)),
     (''ELEM_LIST'', IOWR, 0x10, size_of (snd_ctl_elem_list_layout T)),
     (''ELEM_INFO'', IOWR, 0x11, size_of (snd_ctl_elem_info_layout T)),
     (''ELEM_READ'', IOWR, 0x12, size_of (snd_ctl_elem_value_layout T)),
     (''ELEM_WRITE'', IOWR, 0x13, size_of (snd_ctl_elem_value_layout T)),
     (''ELEM_LOCK'', IOW, 0x14, size_of (snd_ctl_elem_id_layout T)),
     (''ELEM_UNLOCK'', IOW, 0x15, size_of (snd_ctl_elem_id_layout T)),
     (''SUBSCRIBE_EVENTS'', IOWR, 0x16, size_of c_int),
     (''ELEM_ADD'', IOWR, 0x17, size_of (snd_ctl_elem_info_layout T)),
     (''ELEM_REPLACE'', IOWR, 0x18, size_of (snd_ctl_elem_info_layout T)),
     (''ELEM_REMOVE'', IOWR, 0x19, size_of (snd_ctl_elem_id_layout T)),
     (''TLV_READ'', IOWR, 0x1a, size_of (snd_ctl_tlv_layout T)),
     (''TLV_WRITE'', IOWR, 0x1b, size_of (snd_ctl_tlv_layout T)),
     (''TLV_COMMAND'', IOWR, 0x1c, size_of (snd_ctl_tlv_layout T)), (''HWDEP_NEXT_DEVICE'', IOWR, 0x20, size_of c_int),
     (''HWDEP_INFO'', IOR, 0x21, size_of (snd_hwdep_info_layout T)), (''PCM_NEXT_DEVICE'', IOR, 0x30, size_of c_int),
     (''PCM_INFO'', IOWR, 0x31, size_of (snd_pcm_info_layout T)), (''PCM_PREFER_SUBDEVICE'', IOW, 0x32, size_of c_int),
     (''RAWMIDI_NEXT_DEVICE'', IOWR, 0x40, size_of c_int),
     (''RAWMIDI_INFO'', IOWR, 0x41, size_of (snd_rawmidi_info_layout T)),
     (''RAWMIDI_PREFER_SUBDEVICE'', IOW, 0x42, size_of c_int), (''POWER'', IOWR, 0xd0, size_of c_int),
     (''POWER_STATE'', IOR, 0xd1, size_of c_int)]"

definition requests :: "target \<Rightarrow> request list" where
  "requests T = SNDRV_HWDEP_IOCTLS T @ SNDRV_PCM_IOCTLS T @ SNDRV_RAWMIDI_IOCTLS T @ SNDRV_TIMER_IOCTLS T @ SNDRV_CTL_IOCTLS T"

lemmas request_defs = requests_def SNDRV_HWDEP_IOCTLS_def SNDRV_PCM_IOCTLS_def SNDRV_RAWMIDI_IOCTLS_def SNDRV_TIMER_IOCTLS_def
  SNDRV_CTL_IOCTLS_def

section \<open>What the rules of layout give\<close>

definition is_bits :: "ctype \<Rightarrow> bool" where
  "is_bits t = (case t of Bits n \<Rightarrow> True | _ \<Rightarrow> False)"

text \<open>A type whose scalars have a size that is a multiple of a power of two, their alignment.\<close>

primrec good_type :: "ctype \<Rightarrow> bool" and good_members :: "members \<Rightarrow> bool" where
  "good_type (Scalar s a) \<longleftrightarrow> a \<in> {1, 2, 4, 8} \<and> a dvd s"
| "good_type (Bits n) \<longleftrightarrow> n \<le> 32"
| "good_type (Array n t) \<longleftrightarrow> good_type t \<and> \<not> is_bits t"
| "good_type (Struct ms) \<longleftrightarrow> good_members ms"
| "good_type (Union ms) \<longleftrightarrow> good_members ms"
| "good_members No_member \<longleftrightarrow> True"
| "good_members (Member n t ms) \<longleftrightarrow> good_type t \<and> good_members ms"

text \<open>Members one behind the other, each where its alignment allows it and all of them in front of \<open>sz\<close>.\<close>

definition well_placed :: "(string \<times> ctype \<times> nat) list \<Rightarrow> nat \<Rightarrow> nat \<Rightarrow> bool" where
  "well_placed ps al sz \<longleftrightarrow>
     sorted_wrt (\<lambda>(n, t, o1) (n', t', o2). o1 + size_of t \<le> o2) ps
   \<and> list_all (\<lambda>(n, t, off). off + size_of t \<le> sz \<and> align_of t dvd al \<and> (\<not> is_bits t \<longrightarrow> align_of t dvd off)) ps"

fun layout_ok :: "ctype \<Rightarrow> bool" and members_ok :: "members \<Rightarrow> bool" and fits_in :: "members \<Rightarrow> nat \<Rightarrow> nat \<Rightarrow> bool" where
  "layout_ok (Scalar s a) = True"
| "layout_ok (Bits n) = True"
| "layout_ok (Array n t) \<longleftrightarrow> layout_ok t \<and> align_of t dvd size_of t"
| "layout_ok (Struct ms) \<longleftrightarrow> members_ok ms
     \<and> well_placed (placed ms 0) (align_of (Struct ms)) (size_of (Struct ms)) \<and> align_of (Struct ms) dvd size_of (Struct ms)"
| "layout_ok (Union ms) \<longleftrightarrow> members_ok ms
     \<and> fits_in ms (align_of (Union ms)) (size_of (Union ms)) \<and> align_of (Union ms) dvd size_of (Union ms)"
| "members_ok No_member = True"
| "members_ok (Member n t ms) \<longleftrightarrow> layout_ok t \<and> members_ok ms"
| "fits_in No_member al sz = True"
| "fits_in (Member n t ms) al sz \<longleftrightarrow> size_of t \<le> sz \<and> align_of t dvd al \<and> fits_in ms al sz"

lemma round_up_dvd: "a dvd round_up n a"
  by (simp add: round_up_def)

lemma round_up_ge: "0 < a \<Longrightarrow> n \<le> round_up n a"
proof -
  assume "0 < a"
  define q r where "q = (n + a - 1) div a" and "r = (n + a - 1) mod a"
  have "r < a" using \<open>0 < a\<close> by (simp add: r_def)
  moreover have "a * q + r = n + a - 1" unfolding q_def r_def by (rule mult_div_mod_eq)
  ultimately have "n \<le> a * q" using \<open>0 < a\<close> by linarith
  then show ?thesis by (simp add: round_up_def q_def mult.commute)
qed

definition powers :: "nat set" where "powers = {1, 2, 4, 8}"

lemma align_powers: "good_type t \<Longrightarrow> align_of t \<in> powers" "good_members ms \<Longrightarrow> align_members ms \<in> powers"
  by (induction t and ms) (auto simp: powers_def max_def)

lemma powers_dvd: "a \<in> powers \<Longrightarrow> b \<in> powers \<Longrightarrow> a \<le> b \<Longrightarrow> a dvd b"
  by (auto simp: powers_def)

lemma place_ge: "good_type t \<Longrightarrow> off \<le> place t (size_of t) off"
  using align_powers(1) [of t] by (cases t) (auto simp: place_def powers_def intro!: round_up_ge)

lemma place_dvd: "\<not> is_bits t \<Longrightarrow> align_of t dvd place t (size_of t) off"
  by (cases t) (auto simp: place_def is_bits_def round_up_dvd)

lemma end_of_ge: "good_members ms \<Longrightarrow> off \<le> end_of ms off"
proof (induction ms arbitrary: off rule: members.induct [of "\<lambda>_. True"])
  case (Member n t ms)
  then have "off \<le> place t (size_of t) off" using place_ge by simp
  also have "\<dots> + size_of t \<le> end_of ms (place t (size_of t) off + size_of t)" using Member by simp
  finally show ?case by simp
qed simp_all

lemma align_size: "good_type t \<Longrightarrow> \<not> is_bits t \<Longrightarrow> align_of t dvd size_of t"
  by (induction t rule: ctype.induct [of _ "\<lambda>_. True"]) (auto simp: is_bits_def round_up_dvd)

lemma placed_between:
  assumes "good_members ms" and "(n, t, at) \<in> set (placed ms off)"
  shows "off \<le> at \<and> at + size_of t \<le> end_of ms off \<and> (\<not> is_bits t \<longrightarrow> align_of t dvd at) \<and> good_type t
    \<and> align_of t \<le> align_members ms"
  using assms
proof (induction ms arbitrary: off rule: members.induct [of "\<lambda>_. True"])
  case (Member m u ms)
  let ?at = "place u (size_of u) off"
  have ge: "off \<le> ?at" using Member.prems(1) place_ge by simp
  show ?case
  proof (cases "(n, t, at) = (m, u, ?at)")
    case True
    then show ?thesis using Member.prems(1) ge place_dvd end_of_ge [of ms "?at + size_of u"] by auto
  next
    case False
    then have "(n, t, at) \<in> set (placed ms (?at + size_of u))" using Member.prems(2) by (auto simp: Let_def)
    from Member.IH [OF _ this] Member.prems(1) ge show ?thesis by (auto simp: max_def)
  qed
qed simp_all

lemma placed_apart:
  "good_members ms \<Longrightarrow> sorted_wrt (\<lambda>(n, t, o1) (n', t', o2). o1 + size_of t \<le> o2) (placed ms off)"
proof (induction ms arbitrary: off rule: members.induct [of "\<lambda>_. True"])
  case (Member m u ms)
  then show ?case using placed_between [of ms] by (fastforce simp: Let_def)
qed simp_all

lemma good_struct:
  assumes "good_members ms"
  shows "well_placed (placed ms 0) (align_members ms) (round_up (end_of ms 0) (align_members ms))"
proof -
  have pow: "align_members ms \<in> powers" using assms by (rule align_powers(2))
  then have "end_of ms 0 \<le> round_up (end_of ms 0) (align_members ms)" by (intro round_up_ge) (auto simp: powers_def)
  then have "at + size_of t \<le> round_up (end_of ms 0) (align_members ms) \<and> align_of t dvd align_members ms \<and> (\<not> is_bits t \<longrightarrow> align_of t dvd at)"
    if "(n, t, at) \<in> set (placed ms 0)" for n t at
    using placed_between [OF assms that] powers_dvd [OF align_powers(1) pow] by auto
  then show ?thesis using placed_apart [OF assms] by (auto simp: well_placed_def list_all_iff)
qed

lemma good_union:
  assumes "good_members ms" and "widest ms \<le> sz" and "align_members ms \<le> al" and "al \<in> powers"
  shows "fits_in ms al sz"
  using assms
  by (induction ms rule: members.induct [of "\<lambda>_. True"]) (auto intro: powers_dvd align_powers)

lemma good_layout: "good_type t \<Longrightarrow> layout_ok t" "good_members ms \<Longrightarrow> members_ok ms"
proof (induction t and ms)
  case (Array n t)
  then show ?case by (simp add: align_size)
next
  case (Struct ms)
  then show ?case by (simp add: good_struct round_up_dvd)
next
  case (Union ms)
  have "align_members ms \<in> powers" using Union.prems by (simp add: align_powers(2))
  moreover from this have "widest ms \<le> round_up (widest ms) (align_members ms)" by (intro round_up_ge) (auto simp: powers_def)
  ultimately show ?case using Union good_union [of ms] by (simp add: round_up_dvd)
qed simp_all

definition targets :: "target list" where "targets = [lp64, arm32, i386]"



section \<open>The numbers of the requests\<close>

text \<open>What the kernel reads from a number: the direction, the size, the letter and the number.\<close>

definition ioc_decode :: "nat \<Rightarrow> nat \<times> nat \<times> nat \<times> nat" where
  "ioc_decode c = (c div 2 ^ 30, c div 2 ^ 16 mod 2 ^ 14, c div 2 ^ 8 mod 2 ^ 8, c mod 2 ^ 8)"

lemma ioc_simp: "ioc (n, d, c, nr, sz) = 2 ^ 30 * direction_bits d + 2 ^ 16 * sz + 2 ^ 8 * of_char c + nr"
  by (simp add: ioc_def)

lemma pack_fields:
  assumes "n < 256" and "x < 256" and "s < (16384 :: nat)"
  shows "(1073741824 * d + 65536 * s + 256 * x + n) div 1073741824 = d"
    and "(1073741824 * d + 65536 * s + 256 * x + n) div 65536 mod 16384 = s"
    and "(1073741824 * d + 65536 * s + 256 * x + n) div 256 mod 256 = x"
    and "(1073741824 * d + 65536 * s + 256 * x + n) mod 256 = n"
proof -
  let ?c = "1073741824 * d + 65536 * s + 256 * x + n"
  show "?c div 1073741824 = d" by (rule div_nat_eqI) (use assms in simp_all)
  have "?c div 65536 = 16384 * d + s" by (rule div_nat_eqI) (use assms in simp_all)
  then show "?c div 65536 mod 16384 = s" using assms by simp
  have "?c div 256 = x + 256 * (16384 * d + s)" by (rule div_nat_eqI) (use assms in simp_all)
  then show "?c div 256 mod 256 = x" using assms(2) by (simp only: mod_mult_self2 mod_less)
  have "?c = 256 * (4194304 * d + 256 * s + x) + n" by simp
  then show "?c mod 256 = n" using assms by (metis mod_less mod_mult_self4)
qed

lemma ioc_decode_ioc:
  assumes "nr < 2 ^ 8" and "sz < 2 ^ 14"
  shows "ioc_decode (ioc (n, d, c, nr, sz)) = (direction_bits d, sz, of_char c, nr)"
proof -
  have c: "(of_char c :: nat) < 256" by simp
  show ?thesis using pack_fields [OF _ c, of nr sz "direction_bits d"] assms by (simp add: ioc_def ioc_decode_def)
qed

text \<open>The sizes of what the requests carry.\<close>

lemma sizes_lp64:
  "size_of (c_long lp64) = 8" "size_of c_int = 4"
  "size_of (snd_hwdep_info_layout lp64) = 220" "size_of (snd_hwdep_dsp_status_layout lp64) = 64"
  "size_of (snd_hwdep_dsp_image_layout lp64) = 96" "size_of (snd_pcm_info_layout lp64) = 288"
  "size_of (snd_pcm_hw_params_layout lp64) = 608" "size_of (snd_pcm_sw_params_layout lp64) = 136"
  "size_of (snd_pcm_channel_info_layout lp64) = 24" "size_of (snd_pcm_status_layout lp64) = 152"
  "size_of (snd_pcm_sync_ptr_layout lp64) = 136" "size_of (snd_xferi_layout lp64) = 24"
  "size_of (snd_xfern_layout lp64) = 24" "size_of (snd_rawmidi_info_layout lp64) = 268"
  "size_of (snd_rawmidi_params_layout lp64) = 48" "size_of (snd_rawmidi_status_layout lp64) = 56"
  "size_of (snd_timer_id_layout lp64) = 20" "size_of (snd_timer_ginfo_layout lp64) = 248"
  "size_of (snd_timer_gparams_layout lp64) = 72" "size_of (snd_timer_gstatus_layout lp64) = 80"
  "size_of (snd_timer_select_layout lp64) = 52" "size_of (snd_timer_info_layout lp64) = 232"
  "size_of (snd_timer_params_layout lp64) = 80" "size_of (snd_timer_status_layout lp64) = 96"
  "size_of (snd_ctl_card_info_layout lp64) = 376" "size_of (snd_ctl_elem_id_layout lp64) = 64"
  "size_of (snd_ctl_elem_list_layout lp64) = 80" "size_of (snd_ctl_elem_info_layout lp64) = 272"
  "size_of (snd_ctl_elem_value_layout lp64) = 1224" "size_of (snd_ctl_tlv_layout lp64) = 8"
  by (simp_all add: layout_defs c_types lp64_def place_def round_up_def)

lemma sizes_arm32:
  "size_of (c_long arm32) = 4" "size_of c_int = 4"
  "size_of (snd_hwdep_info_layout arm32) = 220" "size_of (snd_hwdep_dsp_status_layout arm32) = 64"
  "size_of (snd_hwdep_dsp_image_layout arm32) = 80" "size_of (snd_pcm_info_layout arm32) = 288"
  "size_of (snd_pcm_hw_params_layout arm32) = 604" "size_of (snd_pcm_sw_params_layout arm32) = 104"
  "size_of (snd_pcm_channel_info_layout arm32) = 16" "size_of (snd_pcm_status_layout arm32) = 108"
  "size_of (snd_pcm_sync_ptr_layout arm32) = 132" "size_of (snd_xferi_layout arm32) = 12"
  "size_of (snd_xfern_layout arm32) = 12" "size_of (snd_rawmidi_info_layout arm32) = 268"
  "size_of (snd_rawmidi_params_layout arm32) = 32" "size_of (snd_rawmidi_status_layout arm32) = 36"
  "size_of (snd_timer_id_layout arm32) = 20" "size_of (snd_timer_ginfo_layout arm32) = 224"
  "size_of (snd_timer_gparams_layout arm32) = 60" "size_of (snd_timer_gstatus_layout arm32) = 64"
  "size_of (snd_timer_select_layout arm32) = 52" "size_of (snd_timer_info_layout arm32) = 224"
  "size_of (snd_timer_params_layout arm32) = 80" "size_of (snd_timer_status_layout arm32) = 88"
  "size_of (snd_ctl_card_info_layout arm32) = 376" "size_of (snd_ctl_elem_id_layout arm32) = 64"
  "size_of (snd_ctl_elem_list_layout arm32) = 72" "size_of (snd_ctl_elem_info_layout arm32) = 272"
  "size_of (snd_ctl_elem_value_layout arm32) = 712" "size_of (snd_ctl_tlv_layout arm32) = 8"
  by (simp_all add: layout_defs c_types arm32_def place_def round_up_def)

lemma sizes_i386:
  "size_of (c_long i386) = 4" "size_of c_int = 4"
  "size_of (snd_hwdep_info_layout i386) = 220" "size_of (snd_hwdep_dsp_status_layout i386) = 64"
  "size_of (snd_hwdep_dsp_image_layout i386) = 80" "size_of (snd_pcm_info_layout i386) = 288"
  "size_of (snd_pcm_hw_params_layout i386) = 604" "size_of (snd_pcm_sw_params_layout i386) = 104"
  "size_of (snd_pcm_channel_info_layout i386) = 16" "size_of (snd_pcm_status_layout i386) = 108"
  "size_of (snd_pcm_sync_ptr_layout i386) = 132" "size_of (snd_xferi_layout i386) = 12"
  "size_of (snd_xfern_layout i386) = 12" "size_of (snd_rawmidi_info_layout i386) = 268"
  "size_of (snd_rawmidi_params_layout i386) = 32" "size_of (snd_rawmidi_status_layout i386) = 36"
  "size_of (snd_timer_id_layout i386) = 20" "size_of (snd_timer_ginfo_layout i386) = 224"
  "size_of (snd_timer_gparams_layout i386) = 60" "size_of (snd_timer_gstatus_layout i386) = 64"
  "size_of (snd_timer_select_layout i386) = 52" "size_of (snd_timer_info_layout i386) = 224"
  "size_of (snd_timer_params_layout i386) = 80" "size_of (snd_timer_status_layout i386) = 88"
  "size_of (snd_ctl_card_info_layout i386) = 376" "size_of (snd_ctl_elem_id_layout i386) = 64"
  "size_of (snd_ctl_elem_list_layout i386) = 72" "size_of (snd_ctl_elem_info_layout i386) = 272"
  "size_of (snd_ctl_elem_value_layout i386) = 708" "size_of (snd_ctl_tlv_layout i386) = 8"
  by (simp_all add: layout_defs c_types i386_def place_def round_up_def)

definition letter_and_number :: "request \<Rightarrow> char \<times> nat" where
  "letter_and_number = (\<lambda>(n, d, c, nr, sz). (c, nr))"

lemma requests_fit:
  assumes "T \<in> set targets"
  shows "list_all (\<lambda>(n, d, c, nr, sz). nr < 2 ^ 8 \<and> sz < 2 ^ 14) (requests T)"
proof -
  have "T = lp64 \<or> T = arm32 \<or> T = i386" using assms by (simp add: targets_def)
  moreover have "list_all (\<lambda>(n, d, c, nr, sz). nr < 2 ^ 8 \<and> sz < 2 ^ 14) (requests lp64)"
    by (simp add: request_defs sizes_lp64)
  moreover have "list_all (\<lambda>(n, d, c, nr, sz). nr < 2 ^ 8 \<and> sz < 2 ^ 14) (requests arm32)"
    by (simp add: request_defs sizes_arm32)
  moreover have "list_all (\<lambda>(n, d, c, nr, sz). nr < 2 ^ 8 \<and> sz < 2 ^ 14) (requests i386)"
    by (simp add: request_defs sizes_i386)
  ultimately show ?thesis by blast
qed

lemma requests_numbered: "distinct (map letter_and_number (requests T))"
  by (simp add: request_defs letter_and_number_def)



text \<open>The numbers on a machine of 64 bits.\<close>

lemma lp64_codes: "map ioc (requests lp64) =
    [0x80044800, 0x80dc4801, 0x80404802, 0x40604803, 0x80044100, 0x81204101, 0x40044102, 0x40044103, 0xc2604110,
     0xc2604111, 0x4112, 0xc0884113, 0x80984120, 0x80084121, 0x4122, 0xc0884123, 0xc0984124, 0x80184132, 0x4140, 0x4141,
     0x4142, 0x4143, 0x4144, 0x40044145, 0x40084146, 0x4147, 0x4148, 0x40084149, 0x40184150, 0x80184151, 0x40184152,
     0x80184153, 0x40044160, 0x4161, 0x80045700, 0x810c5701, 0xc0305710, 0xc0385720, 0x40045730, 0x40045731, 0x80045400,
     0xc0145401, 0x40045402, 0xc0f85403, 0x40485404, 0xc0505405, 0x40345410, 0x80e85411, 0x40505412, 0x80605414, 0x54a0,
     0x54a1, 0x54a2, 0x54a3, 0x80045500, 0x81785501, 0xc0505510, 0xc1105511, 0xc4c85512, 0xc4c85513, 0x40405514,
     0x40405515, 0xc0045516, 0xc1105517, 0xc1105518, 0xc0405519, 0xc008551a, 0xc008551b, 0xc008551c, 0xc0045520,
     0x80dc5521, 0x80045530, 0xc1205531, 0x40045532, 0xc0045540, 0xc10c5541, 0x40045542, 0xc00455d0, 0x800455d1]"
  by (simp add: request_defs sizes_lp64 ioc_simp direction_bits_def)

text \<open>The requests that pcm.c and mixer.c make, by their numbers.\<close>

definition library_requests :: "target \<Rightarrow> request list" where
  "library_requests T =
     filter (\<lambda>(n, d, c, nr, sz). nr \<in> {0x01, 0x03, 0x10, 0x11, 0x13, 0x23, 0x40, 0x42, 0x43, 0x50, 0x51}) (SNDRV_PCM_IOCTLS T)
     @ filter (\<lambda>(n, d, c, nr, sz). nr \<in> {0x01, 0x10, 0x11, 0x12, 0x13, 0x1a, 0x1b}) (SNDRV_CTL_IOCTLS T)"

text \<open>
  a kernel of 64 bits knows a request of a 32-bit library by its number, except for the nine that carry a \<^verbatim>\<open>long\<close> or a
  pointer: those it has to translate.
\<close>

theorem translated_requests:
  "map fst (filter (\<lambda>q. ioc q \<notin> ioc ` set (requests lp64)) (library_requests arm32))
    = [''HW_REFINE'', ''HW_PARAMS'', ''SW_PARAMS'', ''SYNC_PTR'', ''WRITEI_FRAMES'', ''READI_FRAMES'', ''ELEM_LIST'', ''ELEM_READ'', ''ELEM_WRITE'']"
  unfolding set_map [symmetric] lp64_codes
  by (simp add: library_requests_def request_defs sizes_arm32 ioc_simp direction_bits_def)

section \<open>The models of the structures\<close>

text \<open>The array of a type of element in the value of an element: the one of its branch of the union.\<close>

fun member_type :: "members \<Rightarrow> string \<Rightarrow> ctype option" where
  "member_type No_member n = None"
| "member_type (Member m t ms) n = (if m = n then Some t else member_type ms n)"

fun sub_type :: "ctype \<Rightarrow> string \<Rightarrow> ctype option" where
  "sub_type (Struct ms) n = member_type ms n"
| "sub_type (Union ms) n = member_type ms n"
| "sub_type t n = None"

definition branch_of :: "int \<Rightarrow> string list" where
  "branch_of ty = (if ty = SNDRV_CTL_ELEM_TYPE_ENUMERATED then [''enumerated'', ''item'']
     else if ty = SNDRV_CTL_ELEM_TYPE_BYTES then [''bytes'', ''data''] else [''integer'', ''value''])"

definition type_at :: "ctype \<Rightarrow> string list \<Rightarrow> ctype option" where
  "type_at t ns = foldl (\<lambda>to n. Option.bind to (\<lambda>t. sub_type t n)) (Some t) ns"

lemma slice_halves:
  assumes "slice v i (m + n) = slice v' i (m + n)" and "i + (m + n) \<le> length v" and "length v = length v'"
  shows "slice v i m = slice v' i m" and "slice v (i + m) n = slice v' (i + m) n"
proof -
  have "take (m + n) (drop i v) = take (m + n) (drop i v')" using assms by (simp add: slice_def)
  then have "take m (take (m + n) (drop i v)) = take m (take (m + n) (drop i v'))"
    "drop m (take (m + n) (drop i v)) = drop m (take (m + n) (drop i v'))" by simp_all
  then show "slice v i m = slice v' i m" and "slice v (i + m) n = slice v' (i + m) n"
    using assms(2,3) by (simp_all add: slice_def drop_take add.commute)
qed

lemma ld64_slice:
  assumes "slice v i 8 = slice v' i 8" and "i + 8 \<le> length v" and "length v = length v'"
  shows "ld64 v i = ld64 v' i"
proof -
  have "slice v i (4 + 4) = slice v' i (4 + 4)" "i + (4 + 4) \<le> length v" using assms by simp_all
  from slice_halves [OF this assms(3)] have "slice v i 4 = slice v' i 4" "slice v (i + 4) 4 = slice v' (i + 4) 4" .
  then show ?thesis unfolding ld64_def by (simp only: ld32_slice [of v i v'] ld32_slice [of v "i + 4" v'])
qed

lemma ld_slice: "slice v i 1 = slice v' i 1 \<Longrightarrow> i < length v \<Longrightarrow> length v = length v' \<Longrightarrow> ld v i = ld v' i"
  by (simp add: slice_def ld_def take_Suc_conv_app_nth Cons_nth_drop_Suc [symmetric])

definition element_types :: "int list" where
  "element_types = [SNDRV_CTL_ELEM_TYPE_BOOLEAN, SNDRV_CTL_ELEM_TYPE_INTEGER, SNDRV_CTL_ELEM_TYPE_ENUMERATED, SNDRV_CTL_ELEM_TYPE_BYTES]"

text \<open>The size of one value of a type of element on a machine of 64 bits.\<close>

definition width_of :: "int \<Rightarrow> nat" where
  "width_of ty = (if ty = SNDRV_CTL_ELEM_TYPE_ENUMERATED then 4 else if ty = SNDRV_CTL_ELEM_TYPE_BYTES then 1 else 8)"

lemma value_branch:
  assumes "ty \<in> set element_types"
  shows "\<exists>el. type_at (snd_ctl_elem_value_layout lp64) (''value'' # branch_of ty) = Some (Array (slots ty) el) \<and> size_of el = width_of ty"
proof -
  have "ty = 1 \<or> ty = 2 \<or> ty = 3 \<or> ty = 4" using assms by (auto simp: element_types_def elem_type_defs)
  then show ?thesis
    by (elim disjE) (simp_all add: type_at_def branch_of_def width_of_def slots_def elem_type_defs layout_defs c_types lp64_def)
qed

lemma value_at_element:
  assumes "ty \<in> set element_types" and "unat i < slots ty" and "length v = 1024" and "length v' = 1024"
    and "slice v (width_of ty * unat i) (width_of ty) = slice v' (width_of ty * unat i) (width_of ty)"
  shows "value_at ty i v = value_at ty i v'"
proof -
  have "ty = 1 \<or> ty = 2 \<or> ty = 3 \<or> ty = 4" using assms(1) by (auto simp: element_types_def elem_type_defs)
  then show ?thesis
    by (elim disjE) (use assms(2-5) in \<open>auto simp: value_at_def within_def width_of_def slots_def elem_type_defs intro: ld64_slice ld32_slice ld_slice
      intro!: arg_cong [where f = "\<lambda>r. bindE r _"]\<close>)
qed

text \<open>
  the block of 1024 bytes in which the library keeps the value of an element is the union of the header on a machine of 64
  bits, and its n-th value of each type is the n-th element of the array that the union has for the type.
\<close>

theorem value_is_union:
  assumes "ty \<in> set element_types" and "unat i < slots ty" and "length v = 1024" and "length v' = 1024"
  shows "\<exists>el. type_at (snd_ctl_elem_value_layout lp64) (''value'' # branch_of ty) = Some (Array (slots ty) el)
      \<and> (slice v (size_of el * unat i) (size_of el) = slice v' (size_of el * unat i) (size_of el) \<longrightarrow> value_at ty i v = value_at ty i v')
      \<and> map_option size_of (type_at (snd_ctl_elem_value_layout lp64) [''value'']) = Some (length (ev_value (zero_value n)))"
proof -
  have "\<exists>el. type_at (snd_ctl_elem_value_layout lp64) (''value'' # branch_of ty) = Some (Array (slots ty) el)
      \<and> (slice v (size_of el * unat i) (size_of el) = slice v' (size_of el * unat i) (size_of el) \<longrightarrow> value_at ty i v = value_at ty i v')"
    using value_branch [OF assms(1)] value_at_element [OF assms] by auto
  moreover have "map_option size_of (type_at (snd_ctl_elem_value_layout lp64) [''value'']) = Some (length (ev_value (zero_value n)))"
    by (simp add: type_at_def layout_defs c_types lp64_def round_up_def place_def zero_value_def)
  ultimately show ?thesis by blast
qed

theorem value_is_union_witness:
  "\<exists>el. type_at (snd_ctl_elem_value_layout lp64) [''value'', ''enumerated'', ''item''] = Some (Array 128 el)
    \<and> (slice (replicate 1024 0) (size_of el * 3) (size_of el) = slice ((replicate 1024 0)[20 := 7 :: u8]) (size_of el * 3) (size_of el)
       \<longrightarrow> value_at 3 3 (replicate 1024 0) = value_at 3 3 ((replicate 1024 0)[20 := 7]))"
  using value_is_union [of 3 3 "replicate 1024 0" "(replicate 1024 0)[20 := 7]"]
  by (auto simp: element_types_def slots_def elem_type_defs branch_of_def)

section \<open>The indices of the parameters\<close>

text \<open>
  the pointers of pcm.c into the block of the hardware parameters stay inside the arrays of the header: the masks, the
  intervals, and the words of a mask.
\<close>

theorem param_indices_fit:
  assumes "param_is_mask p" and "param_is_interval q" and "b < SNDRV_MASK_MAX"
  shows "\<exists>nm ni nb mask. type_at (snd_pcm_hw_params_layout T) [''masks''] = Some (Array nm mask) \<and> param_to_mask p < nm
    \<and> map_option size_of (type_at (snd_pcm_hw_params_layout T) [''intervals'']) = Some (ni * size_of (snd_interval_layout T)) \<and> param_to_interval q < ni
    \<and> type_at mask [''bits''] = Some (Array nb c_uint) \<and> unat (drop_bit 5 b) < nb"
proof -
  have "unat (drop_bit 5 b) < 8" using assms(3) by (simp add: SNDRV_MASK_MAX_def word_less_nat_alt drop_5)
  moreover have "param_to_mask p < 3" "param_to_interval q < 12"
    using assms(1,2) by (auto simp: param_is_mask_def param_is_interval_def param_to_mask_def param_to_interval_def)
  ultimately show ?thesis
    by (intro exI [of _ 3] exI [of _ 12] exI [of _ 8] exI [of _ "snd_mask_layout T"]) (simp add: type_at_def layout_defs)
qed

theorem param_indices_fit_witness:
  "\<exists>nm ni nb mask. type_at (snd_pcm_hw_params_layout lp64) [''masks''] = Some (Array nm mask) \<and> param_to_mask 2 < nm
    \<and> map_option size_of (type_at (snd_pcm_hw_params_layout lp64) [''intervals'']) = Some (ni * size_of (snd_interval_layout lp64)) \<and> param_to_interval 19 < ni
    \<and> type_at mask [''bits''] = Some (Array nb c_uint) \<and> unat (drop_bit 5 (255 :: u32)) < nb"
  by (rule param_indices_fit) (simp_all add: param_is_mask_def param_is_interval_def SNDRV_MASK_MAX_def)

end
