(* ===== verification/Spec2Isabelle.thy ===== *)
theory Spec2Isabelle
  imports Fifo ListRings Llist SpiPack PerfDemo SpeechFormat PcmRing PcmStates MixerHeap MixerValues PoolProperties PoolSingle
    SpeechFaults PersistRuns FindError Dprintf SpeechDemo PcmInfo WavTools SpeechRecord Tinymix KernelAbi
begin

text \<open>
  A model of the C libraries and programs of this repository, with the theorems that say what they do.

  \<^bold>\<open>The program.\<close> Four groups of sources, which meet where one calls the other:
  \<^item> src/speech is a library for a microphone array: \<^verbatim>\<open>speecharray.c\<close> turns the frames of twelve words that a sound card
    delivers into packed samples, over the streams of \<^verbatim>\<open>pcm.c\<close> (parameters, transfers by system call and through shared
    memory) and beside the controls of \<^verbatim>\<open>mixer.c\<close>; src/speech/test holds the command line tools over it.
  \<^item> src/demo/SpeechPersistentDemo records sessions of speech to files: its calls become tasks of the thread pool in
    \<^verbatim>\<open>threadpool.c\<close>, which one worker runs; an upload thread moves on to another directory and removes the old one.
  \<^item> src/demo/perfdemo packs pixels for a display bus in five ways and times two of them.
  \<^item> src/libutils has a byte queue, two kinds of linked lists and a copy of the thread pool.

  \<^bold>\<open>Conventions.\<close> Prelude fixes them. The target is little endian with a 64-bit \<^verbatim>\<open>long\<close>; a machine integer
  is a word of its width, and signed arithmetic that C leaves undefined is the fault \<open>SignedOverflow\<close>. A fault
  (an access out of bounds or through \<^verbatim>\<open>NULL\<close>, a use after a free, a double free, a division by zero) is the left side of the
  sum \<open>res\<close>, which \<open>bindE\<close> and \<open>foldE\<close> sequence; every error return of the code is a value on
  its right side. Memory is a list of bytes with checked loads, stores and copies (Word_Memory views it as words); pointers
  into a block are offsets, pointers to objects are addresses of a map where aliasing matters (ListNodes, Llist, Persist). The kernel
  and the C library are arguments: records of functions on a state \<open>'k\<close> of their own (\<open>pcm_kernel\<close>,
  \<open>mixer_kernel\<close>, \<open>fs_kernel\<close>) or the answers they give (\<^verbatim>\<open>malloc\<close>, \<^verbatim>\<open>fwrite\<close>, clocks).
\<close>

text \<open>
  \<^bold>\<open>Theories and code.\<close>
  \<^item> Fifo: libutils/fifo.c. The four pointers of \<^verbatim>\<open>struct st_fifo\<close> are offsets into one block. A write appends, a read takes from
    the front, and any schedule within the capacity keeps the order: the instance \<open>fifo_q\<close> of the contract
    \<open>bounded_queue\<close> in Queue_Contract, of which the ring of the thread pool is the other one.
  \<^item> ListNodes, ListRings: libutils/list.h. The operations on nodes in a heap, and that they change the ring through a head
    the way lists say; Llist: libutils/llist.h, with the reversal of a batch
    and the loops over entries that hold a node at an offset.
  \<^item> SpiPack: the packers of demo/perfdemo/perfdemo.c. Bit by bit they spell nine-bit symbols; the theorems read the
    symbols back from the buffer and compare the fast packers with the reference. The contract \<open>block_packer\<close> has two
    instances. PerfDemo is the program around them.
  \<^item> SpeechFormat: the search for sound and the parser of speecharray.c; SpeechArray: its handles and its two read calls;
    SpeechStream: a handle stands for an endless sequence of frames of which a call hands out the first; SpeechFaults:
    opening, requests that are too short, partial frames, devices that fail for good.
  \<^item> PcmParams: the parameter block of pcm.c and its printing (contract \<open>keyed_store\<close>, three instances); Pcm and PcmStream:
    opening, closing, read and write; PcmMmap, PcmRing: the transfers through shared memory, as positions on a ring;
    PcmStates: a step relation over all calls, between which the device may do anything.
  \<^item> Mixer: the controls of mixer.c; MixerHeap: its blocks and its descriptor on every path; MixerValues: what is read
    back after a write. KernelAbi: the structures and request numbers of asound.h, and that the models above agree with them.
  \<^item> Threadpool: threadpool.c (and handlerthread.c, the same file) as a step relation in which workers, callers, the
    administrator and \<^verbatim>\<open>threadpool_destroy\<close> interleave at their locks and unlocked accesses; PoolQueue, PoolRuns, PoolSafety and PoolLive:
    the steps one by one and the invariants of every reachable state; PoolProperties: the properties, with runs that show
    faults; PoolSingle: the pool of one worker that the recorder uses.
  \<^item> FileStore, FileTree: \<^verbatim>\<open>remove_file\<close> of SpeechPersistent.c removes exactly a subtree. Persist: the recorder;
    PersistSession: one session under every order of calls and tasks; PersistRuns: many sessions and uploads.
    SpeechDemo: the demo on top. Disk is a file system in memory on which the witnesses of these theorems run; it models
    no code.
  \<^item> FindError, PcmInfo, WavTools (tinycap, tinyplay), SpeechRecord (speecharraytest), Tinymix: the tools, with their
    options in ToolArgs (contract \<open>option_table\<close>, four instances) and their output in Texts; Dprintf: the log.
\<close>

text \<open>
  \<^bold>\<open>How components meet.\<close> SpeechStream rests on the transfers of PcmStream, SpeechRecord and WavTools on both:
  what the recorder of the array writes is the sequence of frames behind the handle, and what tinycap writes is what tinyplay plays.
  PerfDemo rests on the equivalence of the packers. Tinymix rests on MixerValues: a number that was set is the number that is shown.
  The recorder of SpeechPersistent.c hands its tasks to a pool of one worker; PoolSingle proves that such a pool runs them
  one at a time in their order, which is the way Persist takes them from its queue.

  \<^bold>\<open>Loops.\<close> A loop that ends is a function with a measure or a recursion over a list. One that may not is a partial function
  into options, so that \<open>None\<close> is a call that never returns: the loops over the byte queue and the lists, which are proved
  to return on sound structures, the read loop and the waits of pcm.c, the read calls of speecharray.c, and the search of tinyplay,
  with theorems that they return on working devices and files and that they do not on failing ones.
  Loops that only a signal or a clock ends (the tools that record and play) take the number of rounds before it. No
  definition needs more fuel than its arguments give it: \<open>remove_file\<close> recurses as deep as the file system lets it, as a
  partial function, and is proved to return on finite trees.

  \<^bold>\<open>Hypotheses about the environment\<close>, each met by a concrete system in a witness:
  \<open>tracks\<close>, which relates \<^verbatim>\<open>open\<close> and \<^verbatim>\<open>close\<close> to the descriptors in use; \<open>pours\<close>, a stream that
  delivers frames of the array without end; \<open>moves\<close>, that \<^verbatim>\<open>memcpy\<close> between overlapping ranges of one buffer acts like
  \<^verbatim>\<open>memmove\<close>, which the code relies on and C does not promise; \<open>quiet\<close>, a device that stands still while its memory is
  filled; \<open>keeps_values\<close> and \<open>reads_keep\<close>, a sound card that keeps what is written to an element and is not
  changed by reading it; \<open>serves_removal\<close>, \<open>serves_start\<close>, \<open>serves_recording\<close> and \<open>serves_session\<close>, a file system whose
  calls do what POSIX says on a view of it as a tree; \<open>clock_ok\<close>, a clock whose nanoseconds fit 64 bits.
\<close>

text \<open>
  \<^bold>\<open>Granularity.\<close> A critical section of the thread pool is one step, and so is each of its unlocked accesses. A task of
  the recorder is one step of its worker; an upload thread takes three. The sessions of the demo assume that no upload takes
  a step while a session is open and that the worker has caught up when a session is stopped, which the pauses of the demo
  are there for; PersistRuns has the runs in which an upload overtakes a session.

  \<^bold>\<open>Not modelled.\<close> The text of log lines at the places where they are written, messages to the error output, and the lines of
  the tools under \<^verbatim>\<open>#if 0\<close>; the mutex of a handle of the array, which serialises its calls; the time that
  the administrator of the pool and the pauses of the demo take; the moment at which buffered output reaches a file;
  the signs of \<^verbatim>\<open>int\<close> products in the sizes of the array's buffers beyond 2 GiB; machines with a 32-bit \<^verbatim>\<open>long\<close>, except for the layouts and request
  numbers of KernelAbi; the enumerations and flags of asound.h that no source uses (timers, MIDI, channel positions, power);
  the build files. What the sources get wrong on the way is recorded beside the theorem that shows it.
\<close>

end
